(* ===== verification/Prelude.thy ===== *)
theory Prelude
  imports Main "HOL-Library.Word" "HOL-Library.List_Lexorder" "HOL-Library.Char_ord"
    "HOL-Library.Multiset" "HOL-Library.While_Combinator"
begin

text \<open>
  Shared vocabulary of the development: machine words and byte strings, the big-endian
  readers and writers of \<^verbatim>\<open>encoding/binary\<close>, byte slices, Go strings, the binary search of
  \<^verbatim>\<open>sort.Search\<close>, results of fallible code, and the generic interfaces (locales) that
  several components implement.
\<close>

section \<open>Types\<close>

type_synonym byte = "8 word"
type_synonym bytes = "byte list"
type_synonym u16 = "16 word"
type_synonym u32 = "32 word"
type_synonym u64 = "64 word"

text \<open>Offsets such as \<open>n + 2\<close> stay sums.\<close>

declare add_2_eq_Suc [simp del] add_2_eq_Suc' [simp del]

text \<open>Collections used by the proofs of the components.\<close>

named_theorems be_simps \<open>big-endian encoding and decoding\<close>
named_theorems slice_simps \<open>slices of concatenated byte strings\<close>
named_theorems res_simps \<open>sequencing of fallible computations\<close>

section \<open>Fallible computations\<close>

text \<open>
  A Go function that returns \<^verbatim>\<open>(T, error)\<close> is modelled with result type \<open>'e + 'a\<close>: \<open>Inl\<close>
  is the error return, \<open>Inr\<close> the value. \<open>rbind\<close> is the \<^verbatim>\<open>if err != nil { return err }\<close>
  sequencing.
\<close>

definition rbind :: "'e + 'a \<Rightarrow> ('a \<Rightarrow> 'e + 'b) \<Rightarrow> 'e + 'b" where
  "rbind m f = (case m of Inl e \<Rightarrow> Inl e | Inr x \<Rightarrow> f x)"

lemma rbind_Inl [simp, res_simps]: "rbind (Inl e) f = Inl e"
  by (simp add: rbind_def)

lemma rbind_Inr [simp, res_simps]: "rbind (Inr x) f = f x"
  by (simp add: rbind_def)

lemma rbind_eq_Inr [res_simps]: "rbind m f = Inr y \<longleftrightarrow> (\<exists>x. m = Inr x \<and> f x = Inr y)"
  by (cases m) auto

lemma rbind_eq_Inl [res_simps]:
  "rbind m f = Inl e \<longleftrightarrow> m = Inl e \<or> (\<exists>x. m = Inr x \<and> f x = Inl e)"
  by (cases m) auto

definition guard :: "bool \<Rightarrow> 'e \<Rightarrow> 'e + unit" where
  "guard b e = (if b then Inr () else Inl e)"

lemma guard_simps [simp, res_simps]:
  "guard True e = Inr ()" "guard False e = Inl e"
  by (simp_all add: guard_def)

lemma guard_eq_Inr [res_simps]: "guard b e = Inr u \<longleftrightarrow> b"
  by (simp add: guard_def)

lemma guard_eq_Inl [res_simps]: "guard b e = Inl e' \<longleftrightarrow> \<not> b \<and> e' = e"
  by (auto simp: guard_def)

text \<open>A Go loop that calls a fallible, state-changing function on each element and stops at the first error.\<close>

fun fold_res :: "('a \<Rightarrow> 's \<Rightarrow> 'e + 's) \<Rightarrow> 'a list \<Rightarrow> 's \<Rightarrow> 'e + 's" where
  "fold_res f [] s = Inr s"
| "fold_res f (x # xs) s = rbind (f x s) (fold_res f xs)"

lemma fold_res_append: "fold_res f (xs @ ys) s = rbind (fold_res f xs s) (fold_res f ys)"
  by (induction xs arbitrary: s) (auto simp: rbind_def split: sum.splits)

lemma rbind_assoc: "rbind (rbind m f) g = rbind m (\<lambda>x. rbind (f x) g)"
  by (cases m) auto

section \<open>Slices\<close>

text \<open>\<open>slice_of xs a b\<close> is Go's \<^verbatim>\<open>xs[a:b]\<close> for \<open>a \<le> b \<le> length xs\<close>.\<close>

definition slice_of :: "'a list \<Rightarrow> nat \<Rightarrow> nat \<Rightarrow> 'a list" where
  "slice_of xs a b = take (b - a) (drop a xs)"

lemma length_slice: "b \<le> length xs \<Longrightarrow> length (slice_of xs a b) = b - a"
  by (simp add: slice_of_def)

lemma slice_full [simp]: "slice_of xs 0 (length xs) = xs"
  by (simp add: slice_of_def)

lemma slice_append1 [slice_simps]:
  "b \<le> length xs \<Longrightarrow> slice_of (xs @ ys) a b = slice_of xs a b"
  by (cases "a \<le> b") (simp_all add: slice_of_def)

lemma slice_append2 [slice_simps]:
  "length xs \<le> a \<Longrightarrow> slice_of (xs @ ys) a b = slice_of ys (a - length xs) (b - length xs)"
  by (simp add: slice_of_def)

lemma slice_mid: "slice_of (xs @ ys @ zs) (length xs) (length xs + length ys) = ys"
  by (simp add: slice_of_def)

lemma slice_take: "b \<le> n \<Longrightarrow> slice_of (take n xs) a b = slice_of xs a b"
  by (cases "a \<le> b") (simp_all add: slice_of_def take_drop min_def)

lemma slice_drop: "slice_of (drop n xs) a b = slice_of xs (n + a) (n + b)"
  by (simp add: slice_of_def add.commute)

lemma nth_slice: "\<lbrakk>i < b - a; b \<le> length xs\<rbrakk> \<Longrightarrow> slice_of xs a b ! i = xs ! (a + i)"
  by (simp add: slice_of_def)

lemma slice_split: "\<lbrakk>a \<le> b; b \<le> c\<rbrakk> \<Longrightarrow> slice_of xs a c = slice_of xs a b @ slice_of xs b c"
proof -
  assume le: "a \<le> b" "b \<le> c"
  then have "c - a = (b - a) + (c - b)" "drop b xs = drop (b - a) (drop a xs)" by simp_all
  then show ?thesis by (simp only: slice_of_def take_add)
qed

lemma slice_3: "\<lbrakk>a \<le> b; b \<le> length xs\<rbrakk> \<Longrightarrow> slice_of xs 0 a @ slice_of xs a b @ slice_of xs b (length xs) = xs"
  using slice_split [of 0 a "length xs" xs] slice_split [of a b "length xs" xs] by simp

lemma take_eq_slice: "take n xs = slice_of xs 0 n"
  by (simp add: slice_of_def)

section \<open>Big-endian integers\<close>

primrec be_bytes :: "nat \<Rightarrow> nat \<Rightarrow> bytes" where
  "be_bytes 0 v = []"
| "be_bytes (Suc k) v = be_bytes k (v div 256) @ [word_of_nat v]"

definition be_val :: "bytes \<Rightarrow> nat" where
  "be_val bs = foldl (\<lambda>a b. a * 256 + unat b) 0 bs"

lemma unat_less_2p: "unat (w :: 'a::len word) < 2 ^ LENGTH('a)"
  by (rule unsigned_less)

lemma unat_byte_less [simp]: "unat (b :: byte) < 256"
  using unat_less_2p [of b] by simp

lemma be_val_Nil [simp]: "be_val [] = 0"
  by (simp add: be_val_def)

lemma be_val_snoc [simp]: "be_val (bs @ [b]) = be_val bs * 256 + unat b"
  by (simp add: be_val_def)

lemma length_be_bytes [simp]: "length (be_bytes k v) = k"
  by (induction k arbitrary: v) auto

lemma unat_byte_of_nat: "unat (word_of_nat v :: byte) = v mod 256"
  by (simp add: unat_of_nat)

lemma be_val_be_bytes [be_simps]: "be_val (be_bytes k v) = v mod 256 ^ k"
proof (induction k arbitrary: v)
  case 0
  then show ?case by simp
next
  case (Suc k)
  have "be_val (be_bytes (Suc k) v) = (v div 256 mod 256 ^ k) * 256 + v mod 256"
    by (simp add: Suc.IH unat_byte_of_nat)
  also have "\<dots> = v mod (256 * 256 ^ k)"
    by (simp add: mod_mult2_eq)
  finally show ?case by simp
qed

lemma be_val_bound: "be_val bs < 256 ^ length bs"
proof (induction bs rule: rev_induct)
  case Nil
  then show ?case by simp
next
  case (snoc b bs)
  have "unat b < 256" using unat_less_2p [of b] by simp
  with snoc have "be_val bs * 256 + unat b < (be_val bs + 1) * 256"
    by simp
  also have "\<dots> \<le> 256 ^ length bs * 256"
    using snoc by (intro mult_right_mono) auto
  finally show ?case by simp
qed

lemma be_bytes_be_val [be_simps]: "be_bytes (length bs) (be_val bs) = bs"
proof (induction bs rule: rev_induct)
  case Nil
  then show ?case by simp
next
  case (snoc b bs)
  have "unat b < 256" using unat_less_2p [of b] by simp
  then have "(be_val bs * 256 + unat b) div 256 = be_val bs"
    by simp
  moreover have "word_of_nat (be_val bs * 256 + unat b) = b"
    using \<open>unat b < 256\<close> unat_byte_of_nat [of "be_val bs * 256 + unat b"]
    by (simp only: word_unat_eq_iff) simp
  ultimately show ?case using snoc by simp
qed

definition PutUint16 :: "u16 \<Rightarrow> bytes" where "PutUint16 w = be_bytes 2 (unat w)"
definition PutUint32 :: "u32 \<Rightarrow> bytes" where "PutUint32 w = be_bytes 4 (unat w)"
definition PutUint64 :: "u64 \<Rightarrow> bytes" where "PutUint64 w = be_bytes 8 (unat w)"
definition Uint16 :: "bytes \<Rightarrow> u16" where "Uint16 bs = word_of_nat (be_val bs)"
definition Uint32 :: "bytes \<Rightarrow> u32" where "Uint32 bs = word_of_nat (be_val bs)"
definition Uint64 :: "bytes \<Rightarrow> u64" where "Uint64 bs = word_of_nat (be_val bs)"

lemma length_PutUint [simp]:
  "length (PutUint16 a) = 2" "length (PutUint32 b) = 4" "length (PutUint64 c) = 8"
  by (simp_all add: PutUint16_def PutUint32_def PutUint64_def)

lemma Uint_PutUint [simp, be_simps]:
  "Uint16 (PutUint16 a) = a" "Uint32 (PutUint32 b) = b" "Uint64 (PutUint64 c) = c"
  using unat_less_2p [of a] unat_less_2p [of b] unat_less_2p [of c]
  by (simp_all add: PutUint16_def PutUint32_def PutUint64_def Uint16_def Uint32_def Uint64_def
      be_val_be_bytes)

lemma PutUint_Uint [be_simps]:
  "length bs = 2 \<Longrightarrow> PutUint16 (Uint16 bs) = bs"
  "length bs = 4 \<Longrightarrow> PutUint32 (Uint32 bs) = bs"
  "length bs = 8 \<Longrightarrow> PutUint64 (Uint64 bs) = bs"
  using be_val_bound [of bs] be_bytes_be_val [of bs]
  by (simp_all add: PutUint16_def PutUint32_def PutUint64_def Uint16_def Uint32_def Uint64_def
      unat_of_nat)

lemma unat_Uint16: "length bs = 2 \<Longrightarrow> unat (Uint16 bs) = be_val bs"
  using be_val_bound [of bs] by (simp add: Uint16_def unat_of_nat)

lemma unat_Uint32: "length bs = 4 \<Longrightarrow> unat (Uint32 bs) = be_val bs"
  using be_val_bound [of bs] by (simp add: Uint32_def unat_of_nat)

lemma unat_Uint64: "length bs = 8 \<Longrightarrow> unat (Uint64 bs) = be_val bs"
  using be_val_bound [of bs] by (simp add: Uint64_def unat_of_nat)

section \<open>Go strings\<close>

text \<open>
  A Go string is a sequence of bytes and so is \<open>string\<close>, a list of 8-bit characters;
  \<open>str_bytes\<close> and \<open>bytes_str\<close> are the conversions \<^verbatim>\<open>[]byte(s)\<close> and \<^verbatim>\<open>string(b)\<close>.
\<close>

definition char_byte :: "char \<Rightarrow> byte" where "char_byte c = word_of_nat (of_char c)"
definition byte_char :: "byte \<Rightarrow> char" where "byte_char b = char_of (unat b)"

lemma byte_char_byte [simp]: "byte_char (char_byte c) = c"
proof -
  have "(of_char c :: nat) < 256" by (rule nat_of_char_less_256)
  then show ?thesis by (simp add: byte_char_def char_byte_def unat_of_nat)
qed

lemma char_byte_char [simp]: "char_byte (byte_char b) = b"
proof -
  have "unat b < 256" using unat_less_2p [of b] by simp
  then have "of_char (char_of (unat b)) = unat b" by simp
  then show ?thesis by (simp add: byte_char_def char_byte_def)
qed

definition str_bytes :: "string \<Rightarrow> bytes" where "str_bytes s = map char_byte s"
definition bytes_str :: "bytes \<Rightarrow> string" where "bytes_str b = map byte_char b"

lemma bytes_str_bytes [simp]: "bytes_str (str_bytes s) = s"
  by (simp add: bytes_str_def str_bytes_def o_def)

lemma str_bytes_str [simp]: "str_bytes (bytes_str b) = b"
  by (simp add: bytes_str_def str_bytes_def o_def)

lemma length_str_bytes [simp]: "length (str_bytes s) = length s"
  by (simp add: str_bytes_def)

lemma length_bytes_str [simp]: "length (bytes_str b) = length b"
  by (simp add: bytes_str_def)

definition HasPrefix :: "'a list \<Rightarrow> 'a list \<Rightarrow> bool" where
  "HasPrefix s p = (take (length p) s = p)"

definition HasSuffix :: "'a list \<Rightarrow> 'a list \<Rightarrow> bool" where
  "HasSuffix s p = (length p \<le> length s \<and> drop (length s - length p) s = p)"

definition TrimPrefix :: "'a list \<Rightarrow> 'a list \<Rightarrow> 'a list" where
  "TrimPrefix s p = (if HasPrefix s p then drop (length p) s else s)"

definition TrimSuffix :: "'a list \<Rightarrow> 'a list \<Rightarrow> 'a list" where
  "TrimSuffix s p = (if HasSuffix s p then take (length s - length p) s else s)"

lemma HasPrefix_append [simp]: "HasPrefix (p @ s) p"
  by (simp add: HasPrefix_def)

lemma TrimPrefix_append [simp]: "TrimPrefix (p @ s) p = s"
  by (simp add: TrimPrefix_def)

lemma HasSuffix_append [simp]: "HasSuffix (s @ p) p"
  by (simp add: HasSuffix_def)

lemma TrimSuffix_append [simp]: "TrimSuffix (s @ p) p = s"
  by (simp add: TrimSuffix_def)

lemma HasSuffix_iff: "HasSuffix s p \<longleftrightarrow> (\<exists>q. s = q @ p)"
  by (auto simp: HasSuffix_def) (metis append_take_drop_id)

text \<open>The decimal rendering \<^verbatim>\<open>%d\<close> of a natural number.\<close>

fun dec_str :: "nat \<Rightarrow> string" where
  "dec_str n = (if n < 10 then [char_of (48 + n)] else dec_str (n div 10) @ [char_of (48 + n mod 10)])"

declare dec_str.simps [simp del]

text \<open>\<^verbatim>\<open>strings.TrimSpace\<close> on ASCII text.\<close>

definition is_space :: "char \<Rightarrow> bool" where
  "is_space c = (of_char c \<in> {9, 10, 11, 12, 13, 32 :: nat})"

definition TrimSpace :: "string \<Rightarrow> string" where
  "TrimSpace s = rev (dropWhile is_space (rev (dropWhile is_space s)))"

text \<open>\<^verbatim>\<open>strings.Split(s, sep)\<close> for a one-character separator: never the empty list.\<close>

fun split_on :: "'a \<Rightarrow> 'a list \<Rightarrow> 'a list list" where
  "split_on c [] = [[]]"
| "split_on c (x # xs) =
     (if x = c then [] # split_on c xs
      else case split_on c xs of [] \<Rightarrow> [[x]] | w # ws \<Rightarrow> (x # w) # ws)"

lemma split_on_not_Nil [simp]: "split_on c xs \<noteq> []"
  by (cases xs) (auto split: list.splits)

lemma split_on_append: "c \<notin> set w \<Longrightarrow> split_on c (w @ c # xs) = w # split_on c xs"
  by (induction w) auto

lemma split_on_last: "c \<notin> set w \<Longrightarrow> split_on c w = [w]"
  by (induction w) auto

text \<open>\<^verbatim>\<open>strings.Join\<close> with a one-character separator.\<close>

fun join_with :: "'a \<Rightarrow> 'a list list \<Rightarrow> 'a list" where
  "join_with c [] = []"
| "join_with c [w] = w"
| "join_with c (w # ws) = w @ c # join_with c ws"

lemma join_split: "join_with c (split_on c xs) = xs"
proof (induction xs)
  case (Cons x xs)
  obtain w ws where "split_on c xs = w # ws" by (cases "split_on c xs") auto
  with Cons show ?case by (cases ws) auto
qed simp

text \<open>\<^verbatim>\<open>filepath.Clean\<close> and \<^verbatim>\<open>filepath.Join\<close> on slash-separated paths: purely lexical.\<close>

fun clean_comps :: "bool \<Rightarrow> string list \<Rightarrow> string list \<Rightarrow> string list" where
  "clean_comps rooted acc [] = rev acc"
| "clean_comps rooted acc (c # cs) =
     (if c = [] \<or> c = ''.'' then clean_comps rooted acc cs
      else if c = ''..'' then
        (case acc of
           [] \<Rightarrow> if rooted then clean_comps rooted [] cs else clean_comps rooted [c] cs
         | a # as \<Rightarrow> if a = ''..'' then clean_comps rooted (c # acc) cs else clean_comps rooted as cs)
      else clean_comps rooted (c # acc) cs)"

definition path_Clean :: "string \<Rightarrow> string" where
  "path_Clean p =
     (if p = [] then ''.''
      else
        let rooted = (hd p = CHR ''/'');
            body = join_with (CHR ''/'') (clean_comps rooted [] (split_on (CHR ''/'') p))
        in if rooted then CHR ''/'' # body else if body = [] then ''.'' else body)"

definition filepath_Join :: "string list \<Rightarrow> string" where
  "filepath_Join elems =
     (let es = dropWhile (\<lambda>e. e = []) elems
      in if es = [] then [] else path_Clean (join_with (CHR ''/'') es))"

section \<open>The binary search of sort.Search\<close>

function search_loop :: "(nat \<Rightarrow> bool) \<Rightarrow> nat \<Rightarrow> nat \<Rightarrow> nat" where
  "search_loop f i j =
     (if i < j then
        let h = (i + j) div 2
        in if \<not> f h then search_loop f (h + 1) j else search_loop f i h
      else i)"
  by pat_completeness auto
termination
  by (relation "measure (\<lambda>(f, i, j). j - i)") auto

declare search_loop.simps [simp del]

definition sort_Search :: "nat \<Rightarrow> (nat \<Rightarrow> bool) \<Rightarrow> nat" where
  "sort_Search n f = search_loop f 0 n"

lemma search_loop_stop: "\<not> i < j \<Longrightarrow> search_loop f i j = i"
  by (subst search_loop.simps) simp

lemma search_loop_step:
  "i < j \<Longrightarrow> search_loop f i j =
     (if f ((i + j) div 2) then search_loop f i ((i + j) div 2)
      else search_loop f ((i + j) div 2 + 1) j)"
  by (subst search_loop.simps) (simp add: Let_def)

lemma search_loop_spec:
  assumes "\<forall>a b. f a \<longrightarrow> a \<le> b \<longrightarrow> b < n \<longrightarrow> f b"
    and "i \<le> j" and "j \<le> n" and "\<forall>k < i. \<not> f k" and "j < n \<longrightarrow> f j"
  shows "search_loop f i j \<le> j \<and> (\<forall>k < search_loop f i j. \<not> f k) \<and>
         (search_loop f i j < n \<longrightarrow> f (search_loop f i j))"
  using assms
proof (induction f i j rule: search_loop.induct)
  case (1 f i j)
  let ?h = "(i + j) div 2"
  consider (stop) "\<not> i < j" | (right) "i < j" "\<not> f ?h" | (left) "i < j" "f ?h"
    by blast
  then show ?case
  proof cases
    case stop
    with "1.prems" show ?thesis by (simp add: search_loop_stop)
  next
    case right
    have eq: "search_loop f i j = search_loop f (?h + 1) j"
      using right by (subst search_loop_step) simp_all
    have h: "?h + 1 \<le> j" "?h < n" using right "1.prems"(3) by simp_all
    have "\<not> f k" if "k < ?h + 1" for k
    proof -
      have "k \<le> ?h" using that by linarith
      then show ?thesis using "1.prems"(1) right(2) h(2) by blast
    qed
    then show ?thesis
      unfolding eq using "1.IH"(1) [OF right(1) refl right(2)] "1.prems" h(1) by blast
  next
    case left
    have eq: "search_loop f i j = search_loop f i ?h"
      using left by (subst search_loop_step) simp_all
    have h: "i \<le> ?h" "?h \<le> n" "?h \<le> j" using left "1.prems"(3) by simp_all
    have "search_loop f i ?h \<le> ?h \<and> (\<forall>k < search_loop f i ?h. \<not> f k) \<and>
        (search_loop f i ?h < n \<longrightarrow> f (search_loop f i ?h))"
      using "1.IH"(2) [OF left(1) refl] left(2) "1.prems" h(1,2) by blast
    then show ?thesis unfolding eq using h(3) le_trans by blast
  qed
qed

text \<open>For a predicate that is upward closed below \<open>n\<close>, the result is its first index.\<close>

lemma sort_Search_spec:
  assumes "\<forall>a b. f a \<longrightarrow> a \<le> b \<longrightarrow> b < n \<longrightarrow> f b"
  shows "sort_Search n f \<le> n" "\<forall>k < sort_Search n f. \<not> f k"
    "sort_Search n f < n \<Longrightarrow> f (sort_Search n f)"
  using search_loop_spec [OF assms, of 0 n] by (simp_all add: sort_Search_def)

lemma sort_Search_le: "sort_Search n f \<le> n"
proof -
  have "i \<le> j \<Longrightarrow> search_loop f i j \<le> j" for i j
  proof (induction f i j rule: search_loop.induct)
    case (1 f i j)
    show ?case
    proof (cases "i < j")
      case True
      then have "i \<le> (i + j) div 2" "(i + j) div 2 + 1 \<le> j" by simp_all
      with 1 True show ?thesis by (subst search_loop_step) (auto simp: Let_def)
    next
      case False
      with 1 show ?thesis by (simp add: search_loop_stop)
    qed
  qed
  then show ?thesis by (simp add: sort_Search_def)
qed

lemma sort_Search_cong:
  assumes "\<And>i. i < n \<Longrightarrow> f i = g i"
  shows "sort_Search n f = sort_Search n g"
proof -
  have "\<lbrakk>j \<le> n; \<forall>i < n. f i = g i\<rbrakk> \<Longrightarrow> search_loop f i j = search_loop g i j" for i j
  proof (induction f i j rule: search_loop.induct)
    case (1 f' i j)
    show ?case
    proof (cases "i < j")
      case True
      then have "(i + j) div 2 < n" "(i + j) div 2 \<le> n" using "1.prems" by linarith+
      with 1 True show ?thesis by (simp add: search_loop_step Let_def)
    qed (simp add: search_loop_stop)
  qed
  then show ?thesis using assms by (simp add: sort_Search_def)
qed

section \<open>Lookup in a table sorted by key\<close>

text \<open>
  The shape of \<^verbatim>\<open>TSCReader.LookupChunk\<close>, \<^verbatim>\<open>TSMReader.LookupPath\<close> and \<^verbatim>\<open>tscView.lookup\<close>: a binary
  search for the first entry whose key is at least the wanted one, then an equality test.
\<close>

definition table_find :: "('e \<Rightarrow> 'k::linorder) \<Rightarrow> 'e list \<Rightarrow> 'k \<Rightarrow> 'e option" where
  "table_find key es k =
     (let idx = sort_Search (length es) (\<lambda>i. k \<le> key (es ! i))
      in if idx < length es \<and> key (es ! idx) = k then Some (es ! idx) else None)"

lemma table_find_SomeD:
  "table_find key es k = Some e \<Longrightarrow> e \<in> set es \<and> key e = k"
  unfolding table_find_def Let_def by (metis nth_mem option.distinct(1) option.inject)

lemma sorted_ge_upward:
  assumes "sorted (map key es)"
  shows "\<forall>a b. k \<le> key (es ! a) \<longrightarrow> a \<le> b \<longrightarrow> b < length es \<longrightarrow> k \<le> key (es ! b)"
proof (intro allI impI)
  fix a b assume "k \<le> key (es ! a)" "a \<le> b" "b < length es"
  with sorted_nth_mono [OF assms, of a b] show "k \<le> key (es ! b)"
    by simp
qed

lemma table_find_None_iff:
  assumes "sorted (map key es)"
  shows "table_find key es k = None \<longleftrightarrow> k \<notin> key ` set es"
proof -
  let ?f = "\<lambda>i. k \<le> key (es ! i)"
  let ?i = "sort_Search (length es) ?f"
  note spec = sort_Search_spec [OF sorted_ge_upward [OF assms, of k]]
  have "key (es ! ?i) = k \<and> ?i < length es" if m: "m < length es" "key (es ! m) = k" for m
  proof -
    have "?f m" using m(2) by simp
    with spec(2) have le: "?i \<le> m" using not_less by blast
    with m(1) have lt: "?i < length es" by simp
    have "key (es ! ?i) \<le> key (es ! m)"
      using sorted_nth_mono [OF assms le] m(1) lt by simp
    with spec(3) [OF lt] m(2) lt show ?thesis by simp
  qed
  then have found: "k \<in> key ` set es \<Longrightarrow> ?i < length es \<and> key (es ! ?i) = k"
    by (auto simp: in_set_conv_nth)
  show ?thesis
  proof (cases "?i < length es \<and> key (es ! ?i) = k")
    case True
    then have "k \<in> key ` set es" by (auto intro: rev_image_eqI [OF nth_mem])
    with True show ?thesis by (simp add: table_find_def Let_def)
  next
    case False
    with found have "k \<notin> key ` set es" by blast
    moreover have "table_find key es k = None"
      using False unfolding table_find_def Let_def by (rule if_not_P)
    ultimately show ?thesis by simp
  qed
qed

lemma table_find_distinct:
  assumes "sorted (map key es)" and "distinct (map key es)" and "e \<in> set es"
  shows "table_find key es (key e) = Some e"
proof -
  from assms table_find_None_iff [OF assms(1), of "key e"]
  obtain e' where e': "table_find key es (key e) = Some e'" by fastforce
  then have "e' \<in> set es" "key e' = key e" by (auto dest: table_find_SomeD)
  with assms(2,3) have "e' = e" by (auto simp: distinct_map dest: inj_onD)
  with e' show ?thesis by simp
qed

section \<open>Interfaces: encoders and decoders\<close>

text \<open>
  A codec turns values of a well-formed set into strings and back. Everything a client
  needs of it follows from the round trip: distinct values have distinct encodings.
\<close>

locale codec =
  fixes enc :: "'a \<Rightarrow> 'b" and dec :: "'b \<Rightarrow> 'e + 'a" and wf :: "'a \<Rightarrow> bool"
  assumes dec_enc: "wf x \<Longrightarrow> dec (enc x) = Inr x"
begin

lemma enc_inject: "\<lbrakk>wf x; wf y; enc x = enc y\<rbrakk> \<Longrightarrow> x = y"
  using dec_enc by (metis sum.inject(2))

end

text \<open>
  A canonical codec also refuses every string that is not the encoding of a value, so that
  decoding is injective and the two functions are inverse bijections.
\<close>

locale canonical_codec = codec +
  assumes dec_wf: "dec s = Inr x \<Longrightarrow> wf x"
    and enc_dec: "dec s = Inr x \<Longrightarrow> enc x = s"
begin

lemma dec_inject: "\<lbrakk>dec s = Inr x; dec t = Inr x\<rbrakk> \<Longrightarrow> s = t"
  using enc_dec by metis

lemma dec_iff: "dec s = Inr x \<longleftrightarrow> wf x \<and> s = enc x"
  using dec_enc dec_wf enc_dec by metis

end

text \<open>
  A stream codec writes records one after another and reads them back one at a time,
  handing back the unread rest, so that a whole stream is recovered record by record.
\<close>

locale stream_codec =
  fixes put :: "'a \<Rightarrow> bytes" and get :: "bytes \<Rightarrow> 'e + ('a \<times> bytes)" and wf :: "'a \<Rightarrow> bool"
  assumes get_put: "wf x \<Longrightarrow> get (put x @ rest) = Inr (x, rest)"
begin

primrec get_n :: "nat \<Rightarrow> bytes \<Rightarrow> 'e + ('a list \<times> bytes)" where
  "get_n 0 bs = Inr ([], bs)"
| "get_n (Suc n) bs =
     rbind (get bs) (\<lambda>(x, bs'). rbind (get_n n bs') (\<lambda>(xs, bs''). Inr (x # xs, bs'')))"

lemma get_n_puts:
  "\<forall>x \<in> set xs. wf x \<Longrightarrow> get_n (length xs) (concat (map put xs) @ rest) = Inr (xs, rest)"
  by (induction xs) (auto simp: get_put)

lemma put_prefix_free: "\<lbrakk>wf x; wf y; put x @ r = put y @ s\<rbrakk> \<Longrightarrow> x = y \<and> r = s"
  using get_put by (metis prod.inject sum.inject(2))

end

text \<open>
  Fixed-width records laid out one after another, as in the entry tables of the on-disk
  formats: \<open>read_table\<close> is the loop that decodes \<open>k\<close> records from an offset on.
\<close>

primrec read_table :: "(bytes \<Rightarrow> 'a) \<Rightarrow> nat \<Rightarrow> bytes \<Rightarrow> nat \<Rightarrow> nat \<Rightarrow> 'a list" where
  "read_table dec n data ofs 0 = []"
| "read_table dec n data ofs (Suc k) =
     dec (slice_of data ofs (ofs + n)) # read_table dec n data (ofs + n) k"

lemma length_read_table [simp]: "length (read_table dec n data ofs k) = k"
  by (induction k arbitrary: ofs) auto

lemma nth_read_table:
  "i < k \<Longrightarrow> read_table dec n data ofs k ! i = dec (slice_of data (ofs + i * n) (ofs + i * n + n))"
proof (induction k arbitrary: ofs i)
  case (Suc k)
  then show ?case by (cases i) (auto simp: ac_simps)
qed simp

locale fixed_codec =
  fixes enc :: "'a \<Rightarrow> bytes" and dec :: "bytes \<Rightarrow> 'a" and wf :: "'a \<Rightarrow> bool" and n :: nat
  assumes width: "wf x \<Longrightarrow> length (enc x) = n"
    and dec_enc: "wf x \<Longrightarrow> dec (enc x) = x"
    and dec_wf: "length bs = n \<Longrightarrow> wf (dec bs)"
    and enc_dec: "length bs = n \<Longrightarrow> enc (dec bs) = bs"
begin

lemma length_table: "\<forall>x \<in> set xs. wf x \<Longrightarrow> length (concat (map enc xs)) = length xs * n"
  by (induction xs) (auto simp: width)

lemma read_table_enc:
  "\<forall>x \<in> set xs. wf x \<Longrightarrow>
   read_table dec n (pre @ concat (map enc xs) @ post) (length pre) (length xs) = xs"
proof (induction xs arbitrary: pre)
  case (Cons x xs)
  then have x: "length (enc x) = n" "dec (enc x) = x" by (auto simp: width dec_enc)
  have "slice_of (pre @ enc x @ concat (map enc xs) @ post) (length pre) (length pre + n) = enc x"
    using slice_mid [of pre "enc x" "concat (map enc xs) @ post"] x by simp
  with Cons.IH [of "pre @ enc x"] Cons.prems x show ?case by simp
qed simp

lemma read_table_wf:
  "ofs + k * n \<le> length data \<Longrightarrow> \<forall>x \<in> set (read_table dec n data ofs k). wf x"
proof (induction k arbitrary: ofs)
  case (Suc k)
  from Suc.IH [of "ofs + n"] Suc.prems show ?case by (auto simp: dec_wf length_slice add.assoc)
qed simp

lemma enc_read_table:
  "ofs + k * n \<le> length data \<Longrightarrow>
   concat (map enc (read_table dec n data ofs k)) = slice_of data ofs (ofs + k * n)"
proof (induction k arbitrary: ofs)
  case 0
  then show ?case by (simp add: slice_of_def)
next
  case (Suc k)
  then have "enc (dec (slice_of data ofs (ofs + n))) = slice_of data ofs (ofs + n)"
    by (intro enc_dec) (simp add: length_slice)
  with Suc.IH [of "ofs + n"] Suc.prems show ?case
    by (simp add: slice_of_def algebra_simps take_add)
qed

end

end
