(* ===== verification/Snap_Hash.thy ===== *)
theory Snap_Hash
  imports Prelude Sha256
begin

text \<open>
  Package \<^verbatim>\<open>snaphash\<close>: the 43-character base64url form of a 256-bit snapshot hash, with the
  one-bit shift that keeps an ID from starting with \<^verbatim>\<open>-\<close> or \<^verbatim>\<open>_\<close>. The bit loops are
  translated as they stand; the results are that \<open>Encode\<close> and \<open>Decode\<close> are inverse
  bijections and that the first character is a letter.
\<close>

unbundle bit_operations_syntax

section \<open>Definitions\<close>

definition Size :: nat where "Size = 32"
definition EncodedSize :: nat where "EncodedSize = 43"

datatype hash_error = ErrInvalidLength | ErrInvalidEncoding | ErrNonCanonical

definition getHashBit :: "bytes \<Rightarrow> nat \<Rightarrow> bool" where
  "getHashBit h hashBit =
     (let byteIdx = hashBit div 8; bitInByte = 7 - hashBit mod 8
      in (drop_bit bitInByte (h ! byteIdx)) AND 1 = 1)"

definition setHashBit :: "bytes \<Rightarrow> nat \<Rightarrow> bytes" where
  "setHashBit h hashBit =
     (let byteIdx = hashBit div 8; bitInByte = 7 - hashBit mod 8
      in h[byteIdx := h ! byteIdx OR push_bit bitInByte 1])"

definition alphabet :: string where
  "alphabet = ''ABCDEFGHIJKLMNOPQRSTUVWXYZabcdefghijklmnopqrstuvwxyz0123456789-_''"

definition encBitToHashBit :: "nat \<Rightarrow> nat option" where
  "encBitToHashBit encBit = (if encBit = 0 \<or> encBit \<ge> 257 then None else Some (encBit - 1))"

text \<open>The inner loop of \<^verbatim>\<open>Encode\<close>: the 6-bit value of character \<open>i\<close>.\<close>

definition encodeVal :: "bytes \<Rightarrow> nat \<Rightarrow> byte" where
  "encodeVal h i =
     foldl (\<lambda>val b. case encBitToHashBit (i * 6 + b) of
              Some hashBit \<Rightarrow> if getHashBit h hashBit then val OR push_bit (5 - b) 1 else val
            | None \<Rightarrow> val) 0 [0..<6]"

definition Encode :: "bytes \<Rightarrow> string" where
  "Encode h = map (\<lambda>i. alphabet ! unat (encodeVal h i)) [0..<EncodedSize]"

definition decodeChar :: "char \<Rightarrow> byte option" where
  "decodeChar ch =
     (let c = char_byte ch in
      if char_byte (CHR ''A'') \<le> c \<and> c \<le> char_byte (CHR ''Z'') then Some (c - char_byte (CHR ''A''))
      else if char_byte (CHR ''a'') \<le> c \<and> c \<le> char_byte (CHR ''z'')
      then Some (c - char_byte (CHR ''a'') + 26)
      else if char_byte (CHR ''0'') \<le> c \<and> c \<le> char_byte (CHR ''9'')
      then Some (c - char_byte (CHR ''0'') + 52)
      else if c = char_byte (CHR ''-'') then Some 62
      else if c = char_byte (CHR ''_'') then Some 63
      else None)"

fun decodeChars :: "string \<Rightarrow> hash_error + bytes" where
  "decodeChars [] = Inr []"
| "decodeChars (c # cs) =
     (case decodeChar c of
        None \<Rightarrow> Inl ErrInvalidEncoding
      | Some v \<Rightarrow> rbind (decodeChars cs) (\<lambda>vs. Inr (v # vs)))"

definition encBitSet :: "bytes \<Rightarrow> nat \<Rightarrow> bool" where
  "encBitSet vals encBit = ((drop_bit (5 - encBit mod 6) (vals ! (encBit div 6))) AND 1 = 1)"

definition decodeBits :: "bytes \<Rightarrow> nat \<Rightarrow> bytes" where
  "decodeBits vals n =
     foldl (\<lambda>h encBit. if encBitSet vals encBit
                       then (case encBitToHashBit encBit of Some hb \<Rightarrow> setHashBit h hb | None \<Rightarrow> h)
                       else h) (replicate Size 0) [1..<Suc n]"

definition Decode :: "string \<Rightarrow> hash_error + bytes" where
  "Decode s =
     (if length s \<noteq> EncodedSize then Inl ErrInvalidLength
      else rbind (decodeChars s) (\<lambda>vals.
        if encBitSet vals 0 then Inl ErrNonCanonical
        else if encBitSet vals 257 then Inl ErrNonCanonical
        else Inr (decodeBits vals 256)))"

definition IsZero :: "bytes \<Rightarrow> bool" where
  "IsZero h = (h = replicate Size 0)"

definition Sum :: "bytes \<Rightarrow> bytes" where
  "Sum data = sha256 data"

text \<open>\<^verbatim>\<open>FromBytes\<close> panics on a wrong length; the panic is \<open>None\<close>.\<close>

definition FromBytes :: "bytes \<Rightarrow> bytes option" where
  "FromBytes b = (if length b \<noteq> Size then None else Some b)"

text \<open>
  The text marshalling of a hash field. \<^verbatim>\<open>UnmarshalText\<close> works on a receiver: it returns the error,
  if any, and the receiver's new value, which is untouched on an error.
\<close>

definition MarshalText :: "bytes \<Rightarrow> bytes" where
  "MarshalText h = str_bytes (Encode h)"

definition UnmarshalText :: "bytes \<Rightarrow> bytes \<Rightarrow> hash_error option \<times> bytes" where
  "UnmarshalText h txt = (case Decode (bytes_str txt) of
       Inl err \<Rightarrow> (Some err, h)
     | Inr decoded \<Rightarrow> (None, decoded))"

definition wf_hash :: "bytes \<Rightarrow> bool" where
  "wf_hash h = (length h = Size)"

section \<open>Bits\<close>

lemma and1_drop_bit: "(drop_bit n (w :: byte) AND 1 = 1) = bit w n"
  by (simp add: bit_iff_odd_drop_bit and_one_eq odd_iff_mod_2_eq_one)

lemma getHashBit_bit: "getHashBit h k = bit (h ! (k div 8)) (7 - k mod 8)"
  by (simp add: getHashBit_def Let_def and1_drop_bit)

lemma encBitSet_bit: "encBitSet vals k = bit (vals ! (k div 6)) (5 - k mod 6)"
  by (simp add: encBitSet_def and1_drop_bit)

lemma length_setHashBit [simp]: "length (setHashBit h k) = length h"
  by (simp add: setHashBit_def Let_def)

lemma getHashBit_setHashBit:
  assumes "k < 8 * length h"
  shows "getHashBit (setHashBit h k) j = (j = k \<or> getHashBit h j)"
proof (cases "j div 8 = k div 8")
  case True
  from assms have lt: "k div 8 < length h" by linarith
  have jk: "7 - j mod 8 = 7 - k mod 8 \<longleftrightarrow> j = k"
  proof
    assume "7 - j mod 8 = 7 - k mod 8"
    moreover have "j mod 8 < 8" "k mod 8 < 8" by simp_all
    ultimately have "j mod 8 = k mod 8" by linarith
    with True show "j = k" by (metis div_mult_mod_eq)
  qed simp
  have "7 - k mod 8 < 8" by simp
  with True lt jk show ?thesis
    by (auto simp: getHashBit_bit setHashBit_def Let_def bit_or_iff push_bit_of_1 bit_exp_iff)
next
  case False
  then show ?thesis by (auto simp: getHashBit_bit setHashBit_def Let_def nth_list_update)
qed

lemma hash_eqI:
  assumes "wf_hash h" "wf_hash g" and "\<And>k. k < 256 \<Longrightarrow> getHashBit h k = getHashBit g k"
  shows "h = g"
proof (rule nth_equalityI)
  show "length h = length g" using assms by (simp add: wf_hash_def)
next
  fix i assume "i < length h"
  then have i: "i < 32" using assms(1) by (simp add: wf_hash_def Size_def)
  show "h ! i = g ! i"
  proof (rule bit_word_eqI)
    fix n assume "n < LENGTH(8)"
    then have n: "n < 8" by simp
    define m where "m = 7 - n"
    have m: "m < 8" "n = 7 - m" using n by (auto simp: m_def)
    have "i * 8 + m < 256" using i m by linarith
    moreover have "(i * 8 + m) div 8 = i" "(i * 8 + m) mod 8 = m" using m(1) by simp_all
    ultimately show "bit (h ! i) n = bit (g ! i) n"
      using assms(3) [of "i * 8 + m"] m(2) by (simp only: getHashBit_bit)
  qed
qed

section \<open>Encoding a value\<close>

lemma upt6: "[0..<6] = [0, 1, 2, 3, 4, 5 :: nat]"
  by (simp add: upt_conv_Cons)

definition encBitVal :: "bytes \<Rightarrow> nat \<Rightarrow> bool" where
  "encBitVal h k = (case encBitToHashBit k of Some hb \<Rightarrow> getHashBit h hb | None \<Rightarrow> False)"

lemma encodeVal_OR:
  "encodeVal h i = foldl (\<lambda>val b. val OR (if encBitVal h (i * 6 + b) then push_bit (5 - b) 1 else 0)) 0 [0..<6]"
proof -
  have "(\<lambda>val b. case encBitToHashBit (i * 6 + b) of
              Some hashBit \<Rightarrow> if getHashBit h hashBit then val OR push_bit (5 - b) 1 else val
            | None \<Rightarrow> val) =
        (\<lambda>val b. (val :: byte) OR (if encBitVal h (i * 6 + b) then push_bit (5 - b) 1 else 0))"
    by (auto simp: encBitVal_def fun_eq_iff split: option.splits)
  then show ?thesis by (simp only: encodeVal_def)
qed

lemma bit_foldl_OR:
  "bit (foldl (\<lambda>val b. (val :: byte) OR g b) a xs) n \<longleftrightarrow> bit a n \<or> (\<exists>b \<in> set xs. bit (g b) n)"
  by (induction xs arbitrary: a) (auto simp: bit_or_iff)

lemma bit_encodeVal:
  "bit (encodeVal h i) n \<longleftrightarrow> n < 6 \<and> encBitVal h (i * 6 + (5 - n))"
proof -
  have "bit (if P then push_bit (5 - b) 1 else 0 :: byte) n \<longleftrightarrow> P \<and> n = 5 - b" if "b < 6" for b P
    using that by (auto simp: bit_exp_iff push_bit_of_1)
  then have "bit (encodeVal h i) n \<longleftrightarrow> (\<exists>b \<in> {0..<6}. encBitVal h (i * 6 + b) \<and> n = 5 - b)"
    by (auto simp: encodeVal_OR bit_foldl_OR)
  also have "\<dots> \<longleftrightarrow> n < 6 \<and> encBitVal h (i * 6 + (5 - n))"
  proof
    assume "\<exists>b \<in> {0..<6}. encBitVal h (i * 6 + b) \<and> n = 5 - b"
    then obtain b where b: "b < 6" "encBitVal h (i * 6 + b)" "n = 5 - b" by auto
    then have "5 - n = b" by linarith
    with b show "n < 6 \<and> encBitVal h (i * 6 + (5 - n))" by auto
  next
    assume "n < 6 \<and> encBitVal h (i * 6 + (5 - n))"
    then show "\<exists>b \<in> {0..<6}. encBitVal h (i * 6 + b) \<and> n = 5 - b"
      by (intro bexI [of _ "5 - n"]) auto
  qed
  finally show ?thesis .
qed

lemma take_bit6_iff: "unat (v :: byte) < 64 \<longleftrightarrow> take_bit 6 v = v"
proof
  assume "unat v < 64"
  then have "unat (take_bit 6 v) = unat v"
    by (simp add: unsigned_take_bit_eq take_bit_nat_eq_self)
  then show "take_bit 6 v = v" by (simp add: word_unat_eq_iff)
next
  assume "take_bit 6 v = v"
  then have "unat v = take_bit 6 (unat v)" by (metis unsigned_take_bit_eq)
  also have "\<dots> < 2 ^ 6" by (rule take_bit_nat_less_exp)
  finally show "unat v < 64" by simp
qed

lemma encodeVal_less: "unat (encodeVal h i) < 64"
  unfolding take_bit6_iff
  by (rule bit_word_eqI) (auto simp: bit_take_bit_iff bit_encodeVal)

lemma bit_unat64: "\<lbrakk>unat (v :: byte) < 64; bit v n\<rbrakk> \<Longrightarrow> n < 6"
  unfolding take_bit6_iff by (metis bit_take_bit_iff)

section \<open>Characters\<close>

lemma alphabet_codes:
  "map of_char alphabet = [65..<91] @ [97..<123] @ [48..<58] @ [45, 95 :: nat]"
  by (simp add: alphabet_def upt_rec)

lemma alphabet_nth:
  assumes "n < 64"
  shows "alphabet ! n = char_of
    (if n < 26 then 65 + n else if n < 52 then 71 + n else if n < 62 then n - 4 else
     if n = 62 then 45 else (95 :: nat))"
proof -
  have len: "length alphabet = 64" by (simp add: alphabet_def)
  have "alphabet ! n = char_of (map of_char alphabet ! n :: nat)"
    using assms len by simp
  then show ?thesis
    using assms by (auto simp: alphabet_codes nth_append nth_Cons' intro!: arg_cong [where f = char_of])
qed

lemma char_byte_lits:
  "char_byte (CHR ''A'') = 65" "char_byte (CHR ''Z'') = 90"
  "char_byte (CHR ''a'') = 97" "char_byte (CHR ''z'') = 122"
  "char_byte (CHR ''0'') = 48" "char_byte (CHR ''9'') = 57"
  "char_byte (CHR ''-'') = 45" "char_byte (CHR ''_'') = 95"
  by (simp_all add: char_byte_def)

lemma char_byte_char_of: "m < 256 \<Longrightarrow> char_byte (char_of m) = word_of_nat m"
  by (simp add: char_byte_def)

lemma decodeChar_code:
  assumes "n = unat (char_byte ch)"
  shows "decodeChar ch =
    (if 65 \<le> n \<and> n \<le> 90 then Some (word_of_nat (n - 65))
     else if 97 \<le> n \<and> n \<le> 122 then Some (word_of_nat (n - 71))
     else if 48 \<le> n \<and> n \<le> 57 then Some (word_of_nat (n + 4))
     else if n = 45 then Some 62 else if n = 95 then Some 63 else None)"
proof -
  let ?c = "char_byte ch"
  have c: "?c = word_of_nat n" by (simp add: assms)
  have eq: "?c = k \<longleftrightarrow> n = unat k" for k by (simp add: assms word_unat_eq_iff)
  have le: "k \<le> ?c \<longleftrightarrow> unat k \<le> n" "?c \<le> k \<longleftrightarrow> n \<le> unat k" for k
    by (simp_all add: assms word_le_nat_alt)
  have "?c - 65 = word_of_nat (n - 65)" if "65 \<le> n" using that by (simp add: c)
  moreover have "?c - 97 + 26 = word_of_nat (n - 71)" if "97 \<le> n" using that by (simp add: c)
  moreover have "?c - 48 + 52 = word_of_nat (n + 4)" by (simp add: c)
  ultimately show ?thesis
    unfolding decodeChar_def Let_def char_byte_lits le eq by simp
qed

lemma decodeChar_char_of:
  assumes "m < 256"
  shows "decodeChar (char_of m) =
    (if 65 \<le> m \<and> m \<le> 90 then Some (word_of_nat (m - 65))
     else if 97 \<le> m \<and> m \<le> 122 then Some (word_of_nat (m - 71))
     else if 48 \<le> m \<and> m \<le> 57 then Some (word_of_nat (m + 4))
     else if m = 45 then Some 62 else if m = 95 then Some 63 else None)"
  using assms by (intro decodeChar_code) (simp add: char_byte_char_of unat_of_nat)

lemma decodeChar_alphabet:
  assumes "unat v < 64"
  shows "decodeChar (alphabet ! unat v) = Some v"
proof -
  have "decodeChar (alphabet ! n) = Some (word_of_nat n)" if "n < 64" for n
  proof -
    consider "n < 26" | m where "n = m + 26" "m < 26" | m where "n = m + 52" "m < 10" | "n = 62" | "n = 63"
    proof -
      have "n < 26 \<or> (n = (n - 26) + 26 \<and> n - 26 < 26) \<or> (n = (n - 52) + 52 \<and> n - 52 < 10) \<or> n = 62 \<or> n = 63"
        using \<open>n < 64\<close> by linarith
      then show ?thesis using that by blast
    qed
    then show ?thesis
      by cases (simp_all add: alphabet_nth decodeChar_char_of)
  qed
  from this [OF assms] show ?thesis by simp
qed

lemma alphabet_decodeChar:
  assumes "decodeChar ch = Some v"
  shows "unat v < 64 \<and> alphabet ! unat v = ch"
proof -
  define n where "n = unat (char_byte ch)"
  have ch: "ch = char_of n" by (metis n_def byte_char_byte byte_char_def)
  have u: "unat (word_of_nat m :: byte) = m" if "m < 64" for m
    using that by (simp add: unat_of_nat)
  consider "65 \<le> n" "n < 91" "v = word_of_nat (n - 65)"
    | "97 \<le> n" "n < 123" "v = word_of_nat (n - 71)"
    | "48 \<le> n" "n < 58" "v = word_of_nat (n + 4)"
    | "n = 45" "v = 62" | "n = 95" "v = 63"
    using assms by (auto simp: decodeChar_code [OF n_def] split: if_splits)
  then show ?thesis
  proof cases
    case 1
    define m where "m = n - 65"
    have "n = m + 65" "m < 26" using 1 by (simp_all add: m_def)
    with 1(3) show ?thesis by (simp add: ch u alphabet_nth add.commute)
  next
    case 2
    define m where "m = n - 71"
    have "n = m + 71" "26 \<le> m" "m < 52" using 2 by (simp_all add: m_def)
    with 2(3) show ?thesis by (simp add: ch u alphabet_nth add.commute)
  next
    case 3
    then have "\<not> n + 4 < 26" "\<not> n + 4 < 52" "n + 4 < 62" by linarith+
    with 3 show ?thesis by (simp add: ch u alphabet_nth del: of_nat_add)
  qed (simp_all add: ch alphabet_nth)
qed

lemma decodeChars_Inr:
  "decodeChars s = Inr vs \<longleftrightarrow> length vs = length s \<and> (\<forall>i < length s. decodeChar (s ! i) = Some (vs ! i))"
proof (induction s arbitrary: vs)
  case Nil
  then show ?case by auto
next
  case (Cons c cs)
  show ?case
  proof (cases vs)
    case Nil
    then show ?thesis by (auto simp: res_simps split: option.splits)
  next
    case (Cons w ws)
    have "(\<forall>i < Suc (length cs). decodeChar ((c # cs) ! i) = Some ((w # ws) ! i)) \<longleftrightarrow>
      decodeChar c = Some w \<and> (\<forall>i < length cs. decodeChar (cs ! i) = Some (ws ! i))"
      by (auto simp: less_Suc_eq_0_disj)
    with Cons Cons.IH show ?thesis by (auto simp: res_simps split: option.splits)
  qed
qed

section \<open>Decoding the bits\<close>

lemma decodeBits_Suc:
  "decodeBits vals (Suc n) =
     (if encBitSet vals (Suc n)
      then (case encBitToHashBit (Suc n) of Some hb \<Rightarrow> setHashBit (decodeBits vals n) hb
                                         | None \<Rightarrow> decodeBits vals n)
      else decodeBits vals n)"
proof -
  have "[1..<Suc (Suc n)] = [1..<Suc n] @ [Suc n]" by simp
  then show ?thesis unfolding decodeBits_def by (simp only: foldl_append foldl.simps)
qed

lemma decodeBits_spec:
  "n \<le> 256 \<Longrightarrow> wf_hash (decodeBits vals n) \<and>
    (\<forall>k < 256. getHashBit (decodeBits vals n) k \<longleftrightarrow> k < n \<and> encBitSet vals (Suc k))"
proof (induction n)
  case 0
  have "k div 8 < 32" if "k < 256" for k :: nat using that by linarith
  then show ?case by (auto simp: decodeBits_def wf_hash_def getHashBit_bit Size_def)
next
  case (Suc n)
  let ?h = "decodeBits vals n"
  from Suc have IH: "wf_hash ?h" "\<forall>k < 256. getHashBit ?h k \<longleftrightarrow> k < n \<and> encBitSet vals (Suc k)"
    by simp_all
  have "n < 8 * length ?h" using IH(1) Suc.prems by (simp add: wf_hash_def Size_def)
  with IH Suc.prems show ?case
    by (auto simp: decodeBits_Suc encBitToHashBit_def wf_hash_def getHashBit_setHashBit less_Suc_eq)
qed

lemma encBitVal_decodeBits:
  assumes "k < 258" "\<not> encBitSet vals 0" "\<not> encBitSet vals 257"
  shows "encBitVal (decodeBits vals 256) k = encBitSet vals k"
proof -
  consider "k = 0" | "k = 257" | j where "k = Suc j" "j < 256"
    using assms(1) by (cases "k = 0"; cases "k = 257") (auto intro: that(3) [of "k - 1"])
  then show ?thesis
    using assms(2,3) decodeBits_spec [of 256 vals]
    by cases (auto simp: encBitVal_def encBitToHashBit_def)
qed

lemma encBitSet_encodeVals:
  assumes "k < 258"
  shows "encBitSet (map (encodeVal h) [0..<EncodedSize]) k = encBitVal h k"
proof -
  have "k div 6 < 43" "5 - k mod 6 < 6" "5 - (5 - k mod 6) = k mod 6" using assms by auto
  then show ?thesis
    by (simp add: encBitSet_bit EncodedSize_def bit_encodeVal algebra_simps)
qed

lemma decodeChars_Encode:
  "decodeChars (Encode h) = Inr (map (encodeVal h) [0..<EncodedSize])"
  by (simp add: decodeChars_Inr Encode_def decodeChar_alphabet encodeVal_less)

section \<open>The codec\<close>

lemma Decode_Encode: "wf_hash h \<Longrightarrow> Decode (Encode h) = Inr h"
proof -
  assume h: "wf_hash h"
  let ?vs = "map (encodeVal h) [0..<EncodedSize]"
  have pad: "\<not> encBitSet ?vs 0" "\<not> encBitSet ?vs 257"
    by (simp_all only: encBitSet_encodeVals) (simp_all add: encBitVal_def encBitToHashBit_def)
  have "decodeBits ?vs 256 = h"
  proof (rule hash_eqI)
    fix k :: nat assume k: "k < 256"
    with decodeBits_spec [of 256 ?vs]
    have "getHashBit (decodeBits ?vs 256) k = encBitSet ?vs (Suc k)" by simp
    also have "\<dots> = encBitVal h (Suc k)" using k by (intro encBitSet_encodeVals) simp
    also have "\<dots> = getHashBit h k" using k by (simp add: encBitVal_def encBitToHashBit_def)
    finally show "getHashBit (decodeBits ?vs 256) k = getHashBit h k" .
  qed (use h decodeBits_spec [of 256 ?vs] in simp_all)
  with pad show ?thesis
    by (simp add: Decode_def decodeChars_Encode) (simp add: Encode_def)
qed

lemma Encode_Decode:
  assumes "Decode s = Inr h"
  shows "wf_hash h \<and> Encode h = s"
proof -
  from assms obtain vs where len: "length s = EncodedSize" and vs: "decodeChars s = Inr vs"
    and pad: "\<not> encBitSet vs 0" "\<not> encBitSet vs 257" and h: "h = decodeBits vs 256"
    by (auto simp: Decode_def res_simps split: if_splits)
  have nth: "alphabet ! unat (encodeVal h i) = s ! i" if i: "i < 43" for i
  proof -
    from vs len i have dc: "decodeChar (s ! i) = Some (vs ! i)"
      by (auto simp: decodeChars_Inr EncodedSize_def)
    note vi = alphabet_decodeChar [OF dc]
    have "encodeVal h i = vs ! i"
    proof (rule bit_word_eqI)
      fix n assume "n < LENGTH(8)"
      show "bit (encodeVal h i) n = bit (vs ! i) n"
      proof (cases "n < 6")
        case True
        define b where "b = 5 - n"
        have b: "b < 6" "n = 5 - b" "5 - b < 6" "5 - (5 - b) = b" using True by (auto simp: b_def)
        have "i * 6 + b < 258" using i b by linarith
        from encBitVal_decodeBits [OF this pad] b show ?thesis
          by (simp add: bit_encodeVal h encBitSet_bit True b_def [symmetric])
      next
        case False
        with vi show ?thesis by (auto simp: bit_encodeVal dest: bit_unat64)
      qed
    qed
    with vi show ?thesis by simp
  qed
  have "Encode h = s"
    using len nth by (intro nth_equalityI) (simp_all add: Encode_def EncodedSize_def)
  then show ?thesis using decodeBits_spec [of 256 vs] h by simp
qed

interpretation sh: canonical_codec Encode Decode wf_hash
  by unfold_locales (simp_all add: Decode_Encode Encode_Decode)

lemma Unmarshal_Marshal: "wf_hash h \<Longrightarrow> UnmarshalText g (MarshalText h) = (None, h)"
  by (simp add: UnmarshalText_def MarshalText_def Decode_Encode)

lemma encodeVal_0_less: "unat (encodeVal h 0) < 32"
proof -
  have "take_bit 5 (encodeVal h 0) = encodeVal h 0"
  proof (rule bit_word_eqI)
    fix n :: nat
    have "\<not> encBitVal h 0" by (simp add: encBitVal_def encBitToHashBit_def)
    then have "n < 5" if "n < 6" "encBitVal h (5 - n)" using that by (cases "n = 5") auto
    then show "bit (take_bit 5 (encodeVal h 0)) n = bit (encodeVal h 0) n"
      by (auto simp: bit_take_bit_iff bit_encodeVal)
  qed
  then have "unat (encodeVal h 0) = take_bit 5 (unat (encodeVal h 0))"
    by (metis unsigned_take_bit_eq)
  also have "\<dots> < 2 ^ 5" by (rule take_bit_nat_less_exp)
  finally show ?thesis by simp
qed

section \<open>Properties\<close>

text \<open>
  C11: A string is accepted by \<^verbatim>\<open>Decode\<close> with result \<open>h\<close> exactly when \<open>h\<close> is a 32-byte hash and the
  string is \<^verbatim>\<open>Encode(h)\<close>: IDs and hashes are in bijection, and every non-canonical spelling
  (wrong length, foreign character, padding bit set) is refused.
\<close>

theorem snapshot_id_bijection: "Decode s = Inr h \<longleftrightarrow> wf_hash h \<and> s = Encode h"
  by (rule sh.dec_iff)

text \<open>
  The first character of a snapshot ID is always one of the 32 letters \<^verbatim>\<open>A\<close>-\<^verbatim>\<open>Z\<close>, \<^verbatim>\<open>a\<close>-\<^verbatim>\<open>f\<close>, so an
  ID can never be mistaken for a command-line flag or a hidden name; the rest is over the
  URL-safe alphabet and the length is 43.
\<close>

theorem snapshot_id_shape:
  "length (Encode h) = EncodedSize \<and> hd (Encode h) \<in> set (take 32 alphabet) \<and>
   set (Encode h) \<subseteq> set alphabet"
proof -
  have len: "length alphabet = 64" by (simp add: alphabet_def)
  have "hd (Encode h) = alphabet ! unat (encodeVal h 0)"
    by (simp add: Encode_def EncodedSize_def hd_map)
  also have "\<dots> = take 32 alphabet ! unat (encodeVal h 0)"
    using encodeVal_0_less by simp
  also have "\<dots> \<in> set (take 32 alphabet)"
    using encodeVal_0_less [of h] len by (intro nth_mem) simp
  finally show ?thesis
    using encodeVal_less [of h] len by (auto simp: Encode_def EncodedSize_def)
qed

end
