(* ===== verification/Chunking.thy ===== *)
theory Chunking
  imports Prelude Sha256
begin

text \<open>
  The content-defined chunker, \<^verbatim>\<open>tsm/chunking.go\<close>, with the constants of \<^verbatim>\<open>tsm/types.go\<close> that fix
  chunk boundaries and chunk names. The read loop of \<^verbatim>\<open>chunkStream\<close> is modelled over an
  arbitrary sequence of reads; the main result is that its callbacks are those of a
  reference chunker that sees the whole data at once, whatever the read sizes were.
\<close>

unbundle bit_operations_syntax

section \<open>Constants\<close>

definition BUP_BLOBBITS :: nat where "BUP_BLOBBITS = 13"
definition BUP_BLOBSIZE :: nat where "BUP_BLOBSIZE = 2 ^ BUP_BLOBBITS"
definition BUP_WINDOWBITS :: nat where "BUP_WINDOWBITS = 7"
definition BUP_WINDOWSIZE :: nat where "BUP_WINDOWSIZE = 2 ^ (BUP_WINDOWBITS - 1)"
definition BLOB_MAX :: nat where "BLOB_MAX = 8192 * 4"
definition BLOB_READ_SIZE :: nat where "BLOB_READ_SIZE = 1024 * 1024"
definition ROLLSUM_CHAR_OFFSET :: nat where "ROLLSUM_CHAR_OFFSET = 31"
definition FANOUT_BITS :: nat where "FANOUT_BITS = 4"

lemmas chunk_consts = BUP_BLOBBITS_def BUP_BLOBSIZE_def BUP_WINDOWBITS_def BUP_WINDOWSIZE_def
  ROLLSUM_CHAR_OFFSET_def FANOUT_BITS_def

definition BlobSHA256 :: "bytes \<Rightarrow> bytes" where
  "BlobSHA256 data = sha256 (str_bytes (''blob '' @ dec_str (length data)) @ [0] @ data)"

definition ZeroBlockSHA :: bytes where
  "ZeroBlockSHA = sha256 (str_bytes (''blob '' @ dec_str BLOB_MAX) @ [0] @ replicate BLOB_MAX 0)"

section \<open>The rolling checksum\<close>

record rollsum =
  s1 :: u32
  s2 :: u32
  window :: bytes
  wofs :: nat

definition rs_reset :: rollsum where
  "rs_reset = \<lparr> s1 = word_of_nat (BUP_WINDOWSIZE * ROLLSUM_CHAR_OFFSET),
                s2 = word_of_nat (BUP_WINDOWSIZE * (BUP_WINDOWSIZE - 1) * ROLLSUM_CHAR_OFFSET),
                window = replicate BUP_WINDOWSIZE 0, wofs = 0 \<rparr>"

definition rs_add :: "byte \<Rightarrow> byte \<Rightarrow> rollsum \<Rightarrow> rollsum" where
  "rs_add drp ad r =
     (let s1' = s1 r + (ucast ad - ucast drp);
          s2' = s2 r + (s1' - word_of_nat BUP_WINDOWSIZE * (ucast drp + word_of_nat ROLLSUM_CHAR_OFFSET))
      in r\<lparr> s1 := s1', s2 := s2' \<rparr>)"

definition rs_roll :: "byte \<Rightarrow> rollsum \<Rightarrow> rollsum" where
  "rs_roll ch r =
     (let r' = rs_add (window r ! wofs r) ch r
      in r'\<lparr> window := (window r')[wofs r' := ch], wofs := (wofs r' + 1) mod BUP_WINDOWSIZE \<rparr>)"

definition rs_digest :: "rollsum \<Rightarrow> u32" where
  "rs_digest r = (push_bit 16 (s1 r)) OR (s2 r AND 0xffff)"

section \<open>Finding a split point\<close>

function countBits :: "nat \<Rightarrow> u32 \<Rightarrow> nat" where
  "countBits bits rsum =
     (if (drop_bit 1 rsum) AND 1 \<noteq> 0 then countBits (bits + 1) (drop_bit 1 rsum) else bits)"
  by pat_completeness auto
termination
proof (relation "measure (\<lambda>(bits, rsum). unat rsum)")
  fix bits :: nat and rsum :: u32
  assume "(drop_bit 1 rsum) AND 1 \<noteq> 0"
  then have "rsum \<noteq> 0" by auto
  then have "unat rsum div 2 < unat rsum" by (simp add: unat_gt_0)
  then show "((bits + 1, drop_bit 1 rsum), bits, rsum) \<in> measure (\<lambda>(bits, rsum). unat rsum)"
    by (simp add: unsigned_drop_bit_eq drop_bit_Suc unat_div)
qed simp

declare countBits.simps [simp del]

definition isSplit :: "rollsum \<Rightarrow> bool" where
  "isSplit r = (s2 r AND word_of_nat (BUP_BLOBSIZE - 1) = (NOT 0) AND word_of_nat (BUP_BLOBSIZE - 1))"

fun findSplitLoop :: "rollsum \<Rightarrow> nat \<Rightarrow> bytes \<Rightarrow> nat \<times> nat" where
  "findSplitLoop r cnt [] = (0, 0)"
| "findSplitLoop r cnt (b # bs) =
     (let r' = rs_roll b r in
      if isSplit r' then (cnt + 1, countBits BUP_BLOBBITS (drop_bit BUP_BLOBBITS (rs_digest r')))
      else findSplitLoop r' (cnt + 1) bs)"

definition findSplitPoint :: "bytes \<Rightarrow> nat \<times> nat" where
  "findSplitPoint buf = findSplitLoop rs_reset 0 buf"

section \<open>The streaming chunker\<close>

text \<open>
  A reader is the sequence of its results: reads that return bytes and no error, and a last
  one that returns bytes (possibly none) together with \<^verbatim>\<open>io.EOF\<close> or another error.
\<close>

datatype read_err = EOF | ReadErr
datatype reader = More bytes reader | Stop bytes read_err

primrec contents :: "reader \<Rightarrow> bytes" where
  "contents (More bs r) = bs @ contents r"
| "contents (Stop bs e) = bs"

datatype 'e chunk_error = ReaderFailed | CallbackFailed 'e

type_synonym ('s, 'e) ChunkCallback = "bytes \<Rightarrow> u32 \<Rightarrow> u16 \<Rightarrow> 's \<Rightarrow> 'e + 's"
type_synonym 's progress = "nat \<Rightarrow> nat \<Rightarrow> 's \<Rightarrow> 's"

definition run_cb :: "('s, 'e) ChunkCallback \<Rightarrow> bytes \<times> nat \<Rightarrow> 's \<Rightarrow> 'e chunk_error + 's" where
  "run_cb cb = (\<lambda>(chunk, level) st.
     case cb (BlobSHA256 chunk) (word_of_nat (length chunk)) (word_of_nat level) st of
       Inl e \<Rightarrow> Inl (CallbackFailed e) | Inr st' \<Rightarrow> Inr st')"

text \<open>
  One decision of the inner loop on the unread part \<^verbatim>\<open>data[offset:]\<close>: the size and level of the
  next chunk, or \<open>None\<close> when more data is needed.
\<close>

definition nextChunk :: "bool \<Rightarrow> bytes \<Rightarrow> (nat \<times> nat) option" where
  "nextChunk eof rest =
     (let (ofs, bits) = findSplitPoint rest in
      if ofs > 0 then
        if ofs > BLOB_MAX then Some (BLOB_MAX, 0)
        else Some (ofs, (bits - BUP_BLOBBITS) div FANOUT_BITS)
      else if eof then Some (length rest, 0)
      else if length rest \<ge> BLOB_MAX then Some (BLOB_MAX, 0)
      else None)"

lemma findSplitLoop_pos: "findSplitLoop r cnt buf = (ofs, bits) \<Longrightarrow> ofs > 0 \<Longrightarrow> cnt < ofs \<and> ofs \<le> cnt + length buf"
  by (induction r cnt buf rule: findSplitLoop.induct) (fastforce simp: Let_def split: if_splits)+

lemma nextChunk_le: "nextChunk eof rest = Some (sz, lvl) \<Longrightarrow> sz \<le> length rest"
  by (auto simp: nextChunk_def findSplitPoint_def split: if_splits prod.splits dest: findSplitLoop_pos)

function chunkLoop :: "('s, 'e) ChunkCallback \<Rightarrow> 's progress option \<Rightarrow> nat \<Rightarrow> bool \<Rightarrow> bytes \<Rightarrow> nat \<Rightarrow> 's
    \<Rightarrow> 'e chunk_error + (bytes \<times> nat \<times> 's)" where
  "chunkLoop cb prog fileSize eof rest totalBytes st =
     (case nextChunk eof rest of
        None \<Rightarrow> Inr (rest, totalBytes, st)
      | Some (chunkSize, level) \<Rightarrow>
          if chunkSize = 0 then Inr (rest, totalBytes, st)
          else rbind (run_cb cb (take chunkSize rest, level) st) (\<lambda>st'.
            let totalBytes' = totalBytes + chunkSize;
                st'' = (case prog of Some p \<Rightarrow> p totalBytes' fileSize st' | None \<Rightarrow> st')
            in chunkLoop cb prog fileSize eof (drop chunkSize rest) totalBytes' st''))"
  by pat_completeness auto
termination
  by (relation "measure (\<lambda>(cb, prog, fileSize, eof, rest, totalBytes, st). length rest)")
     (auto dest: nextChunk_le)

declare chunkLoop.simps [simp del]

text \<open>The scan of one buffer; nothing happens when the read returned no bytes.\<close>

definition chunkRead :: "('s, 'e) ChunkCallback \<Rightarrow> 's progress option \<Rightarrow> nat \<Rightarrow> bool \<Rightarrow> bytes \<Rightarrow> bytes \<times> nat \<times> 's
    \<Rightarrow> 'e chunk_error + (bytes \<times> nat \<times> 's)" where
  "chunkRead cb prog fileSize eof bs = (\<lambda>(leftover, totalBytes, st).
     if length bs > 0 then chunkLoop cb prog fileSize eof (leftover @ bs) totalBytes st
     else Inr (leftover, totalBytes, st))"

fun chunkOuter :: "('s, 'e) ChunkCallback \<Rightarrow> 's progress option \<Rightarrow> nat \<Rightarrow> reader \<Rightarrow> bytes \<times> nat \<times> 's
    \<Rightarrow> 'e chunk_error + 's" where
  "chunkOuter cb prog fileSize (More bs r) acc =
     rbind (chunkRead cb prog fileSize False bs acc) (chunkOuter cb prog fileSize r)"
| "chunkOuter cb prog fileSize (Stop bs err) acc =
     rbind (chunkRead cb prog fileSize (err = EOF) bs acc) (\<lambda>(leftover, totalBytes, st).
       if err \<noteq> EOF then Inl ReaderFailed
       else if length leftover > 0 then run_cb cb (leftover, 0) st
       else Inr st)"

definition chunkStream :: "reader \<Rightarrow> nat \<Rightarrow> ('s, 'e) ChunkCallback \<Rightarrow> 's progress option \<Rightarrow> 's \<Rightarrow> 'e chunk_error + 's" where
  "chunkStream r fileSize cb prog st = chunkOuter cb prog fileSize r ([], 0, st)"

definition ChunkReader :: "reader \<Rightarrow> nat \<Rightarrow> ('s, 'e) ChunkCallback \<Rightarrow> 's progress option \<Rightarrow> 's \<Rightarrow> 'e chunk_error + 's" where
  "ChunkReader r fileSize callback progress st = chunkStream r fileSize callback progress st"

text \<open>
  \<^verbatim>\<open>bytes.NewReader\<close> hands out the whole slice in buffer-sized reads, then \<open>(0, EOF)\<close>. The buffer
  offered is \<^verbatim>\<open>BLOB_READ_SIZE\<close> bytes minus the leftover, so the reads are given by a list of sizes.
\<close>

fun byteReader :: "nat list \<Rightarrow> bytes \<Rightarrow> reader" where
  "byteReader (Suc n # ns) (b # bs) = More (take (Suc n) (b # bs)) (byteReader ns (drop (Suc n) (b # bs)))"
| "byteReader (0 # ns) bs = byteReader ns bs"
| "byteReader [] (b # bs) = More (b # bs) (Stop [] EOF)"
| "byteReader ns [] = Stop [] EOF"

definition ChunkData :: "nat list \<Rightarrow> bytes \<Rightarrow> ('s, 'e) ChunkCallback \<Rightarrow> 's \<Rightarrow> 'e chunk_error + 's" where
  "ChunkData sizes data callback st = chunkStream (byteReader sizes data) (length data) callback None st"

text \<open>\<^verbatim>\<open>ChunkFile\<close> on an opened file: the open and the stat can fail, the rest is \<^verbatim>\<open>ChunkReader\<close>.\<close>

definition ChunkFile :: "reader option \<Rightarrow> nat option \<Rightarrow> ('s, 'e) ChunkCallback \<Rightarrow> 's progress option \<Rightarrow> 's
    \<Rightarrow> 'e chunk_error + 's" where
  "ChunkFile opened stat callback progress st =
     (case opened of None \<Rightarrow> Inl ReaderFailed
      | Some f \<Rightarrow> (case stat of None \<Rightarrow> Inl ReaderFailed
                  | Some fileSize \<Rightarrow> ChunkReader f fileSize callback progress st))"

section \<open>The reference chunker\<close>

text \<open>Chunks of the whole data, decided on a prefix of at most \<^verbatim>\<open>BLOB_MAX\<close> bytes each time.\<close>

definition headChunk :: "bytes \<Rightarrow> nat \<times> nat" where
  "headChunk data =
     (let (ofs, bits) = findSplitPoint (take BLOB_MAX data) in
      if ofs > 0 then (ofs, (bits - BUP_BLOBBITS) div FANOUT_BITS) else (min BLOB_MAX (length data), 0))"

lemma BLOB_MAX_pos: "0 < BLOB_MAX" by (simp add: BLOB_MAX_def)

lemma headChunk_pos: "data \<noteq> [] \<Longrightarrow> headChunk data = (sz, lvl) \<Longrightarrow> 0 < sz"
  using BLOB_MAX_pos by (auto simp: headChunk_def Let_def split: if_splits prod.splits)

function ref_chunks :: "bytes \<Rightarrow> (bytes \<times> nat) list" where
  "ref_chunks data =
     (if data = [] then []
      else let (sz, lvl) = headChunk data in (take sz data, lvl) # ref_chunks (drop sz data))"
  by pat_completeness auto
termination
proof (relation "measure length")
  fix data x :: bytes and sz lvl :: nat and p
  assume "data \<noteq> []" "p = headChunk data" "(sz, lvl) = p"
  then show "(drop sz data, data) \<in> measure length"
    using headChunk_pos [of data sz lvl] by simp
qed simp

declare ref_chunks.simps [simp del]

lemma ref_chunks_Nil [simp]: "ref_chunks [] = []"
  by (subst ref_chunks.simps) simp

section \<open>Split points depend on the prefix only\<close>

lemma findSplitLoop_take:
  "findSplitLoop r cnt (take n buf) =
     (let (ofs, bits) = findSplitLoop r cnt buf in if 0 < ofs \<and> ofs \<le> cnt + n then (ofs, bits) else (0, 0))"
proof (induction r cnt buf arbitrary: n rule: findSplitLoop.induct)
  case (1 r cnt)
  then show ?case by simp
next
  case (2 r cnt b bs)
  show ?case
  proof (cases n)
    case 0
    obtain ofs bits where f: "findSplitLoop r cnt (b # bs) = (ofs, bits)" by fastforce
    with findSplitLoop_pos [OF f] 0 show ?thesis by (auto simp del: findSplitLoop.simps(2))
  next
    case (Suc m)
    with "2.IH" [OF refl, of m] show ?thesis by (auto simp: Let_def)
  qed
qed

lemma findSplitPoint_take:
  "findSplitPoint (take n buf) =
     (let (ofs, bits) = findSplitPoint buf in if 0 < ofs \<and> ofs \<le> n then (ofs, bits) else (0, 0))"
  by (simp add: findSplitPoint_def findSplitLoop_take)

lemma findSplitPoint_append:
  assumes "findSplitPoint xs = (ofs, bits)" "0 < ofs"
  shows "findSplitPoint (xs @ ys) = (ofs, bits)"
  using findSplitPoint_take [of "length xs" "xs @ ys"] assms
  by (auto split: prod.splits if_splits)

lemma findSplitPoint_le: "findSplitPoint buf = (ofs, bits) \<Longrightarrow> ofs \<le> length buf"
  by (cases "ofs = 0") (auto simp: findSplitPoint_def dest: findSplitLoop_pos)

lemma nextChunk_headChunk:
  assumes "nextChunk False rest = Some (sz, lvl)"
  shows "headChunk (rest @ aft) = (sz, lvl) \<and> 0 < sz \<and> sz \<le> length rest"
proof -
  obtain ofs bits where f: "findSplitPoint rest = (ofs, bits)" by fastforce
  note le = findSplitPoint_le [OF f]
  show ?thesis
  proof (cases "0 < ofs")
    case True
    with assms le show ?thesis
      using BLOB_MAX_pos
      by (auto simp: nextChunk_def headChunk_def findSplitPoint_take findSplitPoint_append [OF f True] f
          simp del: take_append split: if_splits)
  next
    case False
    with assms f have long: "BLOB_MAX \<le> length rest" "sz = BLOB_MAX" "lvl = 0"
      by (auto simp: nextChunk_def split: if_splits)
    then have "findSplitPoint (take BLOB_MAX (rest @ aft)) = (0, 0)"
      using f False by (simp add: findSplitPoint_take)
    with long show ?thesis using BLOB_MAX_pos by (simp add: headChunk_def del: take_append)
  qed
qed

lemma nextChunk_None:
  assumes "nextChunk False rest = None"
  shows "length rest < BLOB_MAX" "ref_chunks rest = (if rest = [] then [] else [(rest, 0)])"
proof -
  show "length rest < BLOB_MAX" using assms by (auto simp: nextChunk_def split: if_splits prod.splits)
  then have "headChunk rest = (length rest, 0)"
    using assms by (auto simp: nextChunk_def headChunk_def split: if_splits prod.splits)
  then show "ref_chunks rest = (if rest = [] then [] else [(rest, 0)])"
    by (subst ref_chunks.simps) simp
qed

section \<open>The streaming chunker is the reference chunker\<close>

definition feed :: "('s, 'e) ChunkCallback \<Rightarrow> bytes \<Rightarrow> 's \<Rightarrow> 'e chunk_error + 's" where
  "feed cb data = fold_res (run_cb cb) (ref_chunks data)"

lemma feed_step:
  assumes "nextChunk False rest = Some (sz, lvl)"
  shows "feed cb (rest @ aft) st = rbind (run_cb cb (take sz rest, lvl) st) (feed cb (drop sz rest @ aft))"
proof -
  note h = nextChunk_headChunk [OF assms, of aft]
  then have "rest @ aft \<noteq> []" by auto
  then have "ref_chunks (rest @ aft) = (take sz rest, lvl) # ref_chunks (drop sz rest @ aft)"
    using h by (subst ref_chunks.simps) (simp del: append_is_Nil_conv)
  then show ?thesis by (simp add: feed_def)
qed

lemma chunkLoop_step:
  assumes "nextChunk False rest = Some (sz, lvl)"
  shows "chunkLoop cb None fs False rest tot st =
    rbind (run_cb cb (take sz rest, lvl) st) (chunkLoop cb None fs False (drop sz rest) (tot + sz))"
  using nextChunk_headChunk [OF assms, of "[]"] by (subst chunkLoop.simps) (simp add: assms Let_def)

lemma chunkLoop_stop:
  "nextChunk False rest = None \<Longrightarrow> chunkLoop cb None fs False rest tot st = Inr (rest, tot, st)"
  by (subst chunkLoop.simps) simp

lemma chunkLoop_feed:
  "rbind (chunkLoop cb None fs False rest tot st) (\<lambda>(lo, t, st'). feed cb (lo @ aft) st') = feed cb (rest @ aft) st"
proof (induction "length rest" arbitrary: rest tot st rule: less_induct)
  case less
  show ?case
  proof (cases "nextChunk False rest")
    case None
    then show ?thesis by (simp add: chunkLoop_stop)
  next
    case (Some p)
    obtain sz lvl where p: "p = (sz, lvl)" by fastforce
    note n = Some [unfolded p]
    have "length (drop sz rest) < length rest" using nextChunk_headChunk [OF n, of "[]"] by auto
    then show ?thesis
      by (simp add: chunkLoop_step [OF n] feed_step [OF n] rbind_assoc less)
  qed
qed

lemma chunkLoop_None:
  "chunkLoop cb None fs False rest tot st = Inr (lo, t, st') \<Longrightarrow> nextChunk False lo = None"
proof (induction "length rest" arbitrary: rest tot st rule: less_induct)
  case less
  show ?case
  proof (cases "nextChunk False rest")
    case None
    with less.prems show ?thesis by (simp add: chunkLoop_stop)
  next
    case (Some p)
    obtain sz lvl where p: "p = (sz, lvl)" by fastforce
    note n = Some [unfolded p]
    have "length (drop sz rest) < length rest" using nextChunk_headChunk [OF n, of "[]"] by auto
    from less.hyps [OF this] less.prems show ?thesis
      by (auto simp: chunkLoop_step [OF n] res_simps)
  qed
qed

primrec ends_clean :: "reader \<Rightarrow> bool" where
  "ends_clean (More bs r) = ends_clean r"
| "ends_clean (Stop bs e) = (bs = [] \<and> e = EOF)"

lemma chunkOuter_feed:
  "\<lbrakk>ends_clean r; nextChunk False lo = None\<rbrakk> \<Longrightarrow>
   chunkOuter cb None fs r (lo, tot, st) = feed cb (lo @ contents r) st"
proof (induction r arbitrary: lo tot st)
  case (More bs r)
  show ?case
  proof (cases "bs = []")
    case True
    with More show ?thesis by (simp add: chunkRead_def)
  next
    case False
    show ?thesis
    proof (cases "chunkLoop cb None fs False (lo @ bs) tot st")
      case (Inl e)
      with chunkLoop_feed [of cb fs "lo @ bs" tot st "contents r"] False show ?thesis
        by (simp add: chunkRead_def)
    next
      case (Inr x)
      obtain lo' t st' where x: "x = (lo', t, st')" by (cases x)
      from Inr x have "nextChunk False lo' = None" by (auto dest: chunkLoop_None)
      with More x Inr False chunkLoop_feed [of cb fs "lo @ bs" tot st "contents r"] show ?thesis
        by (simp add: chunkRead_def)
    qed
  qed
next
  case (Stop bs e)
  then show ?case
    by (auto simp: chunkRead_def feed_def nextChunk_None rbind_def split: sum.splits)
qed

lemma nextChunk_Nil: "nextChunk False [] = None"
  by (simp add: nextChunk_def findSplitPoint_def BLOB_MAX_def)

lemma chunkStream_feed: "ends_clean r \<Longrightarrow> chunkStream r fs cb None st = feed cb (contents r) st"
  by (simp add: chunkStream_def chunkOuter_feed nextChunk_Nil)

lemma byteReader_spec [simp]: "ends_clean (byteReader sizes data)" "contents (byteReader sizes data) = data"
  by (induction sizes data rule: byteReader.induct) simp_all

text \<open>
  The read buffer always has room: what is carried over from one read to the next is shorter
  than \<^verbatim>\<open>BLOB_MAX\<close>, far less than the \<^verbatim>\<open>BLOB_READ_SIZE\<close> bytes of the buffer.
\<close>

lemma leftover_bound:
  "chunkLoop cb None fs False rest tot st = Inr (lo, t, st') \<Longrightarrow> length lo < BLOB_MAX"
  by (auto dest!: chunkLoop_None nextChunk_None(1))

section \<open>The chunks\<close>

lemma headChunk_le: "data \<noteq> [] \<Longrightarrow> headChunk data = (sz, lvl) \<Longrightarrow> 0 < sz \<and> sz \<le> BLOB_MAX \<and> sz \<le> length data"
  using headChunk_pos [of data sz lvl]
  by (auto simp: headChunk_def split: if_splits prod.splits dest!: findSplitPoint_le)

lemma countBits_bound: "unat rsum < 2 ^ k \<Longrightarrow> countBits bits rsum \<le> bits + (k - 1)"
proof (induction bits rsum arbitrary: k rule: countBits.induct)
  case (1 bits rsum)
  show ?case
  proof (cases "(drop_bit 1 rsum) AND 1 \<noteq> 0")
    case True
    then have "drop_bit 1 rsum \<noteq> 0" by auto
    moreover have half: "unat (drop_bit 1 rsum) = unat rsum div 2"
      by (simp add: unsigned_drop_bit_eq drop_bit_Suc unat_div)
    ultimately have "unat rsum div 2 \<noteq> 0" by (simp add: unat_eq_zero flip: half)
    then have ge: "2 \<le> unat rsum" by linarith
    obtain m where k: "k = Suc m" using "1.prems" ge by (cases k) auto
    have "unat (drop_bit 1 rsum) < 2 ^ m"
      using "1.prems" k unfolding half by simp
    from "1.IH" [OF True this] have "countBits (bits + 1) (drop_bit 1 rsum) \<le> bits + 1 + (m - 1)" .
    moreover have "m \<noteq> 0" using "1.prems" k ge by (cases m) auto
    ultimately show ?thesis using True k by (subst countBits.simps) simp
  next
    case False
    then show ?thesis by (subst countBits.simps) simp
  qed
qed

lemma findSplitLoop_bits:
  "findSplitLoop r cnt buf = (ofs, bits) \<Longrightarrow> bits \<le> BUP_BLOBBITS + 18"
proof (induction r cnt buf rule: findSplitLoop.induct)
  case (2 r cnt b bs)
  have "unat (drop_bit BUP_BLOBBITS w) < 2 ^ 19" for w :: u32
    using unat_less_2p [of w] by (simp add: unsigned_drop_bit_eq drop_bit_nat_def chunk_consts take_bit_nat_eq_self)
  then have "countBits BUP_BLOBBITS (drop_bit BUP_BLOBBITS w) \<le> BUP_BLOBBITS + (19 - 1)" for w :: u32
    by (intro countBits_bound)
  with 2 show ?case by (auto simp: Let_def split: if_splits)
qed simp

lemma headChunk_level: "headChunk data = (sz, lvl) \<Longrightarrow> lvl \<le> 4"
proof -
  obtain ofs bits where f: "findSplitPoint (take BLOB_MAX data) = (ofs, bits)" by fastforce
  then have "bits \<le> 31"
    using findSplitLoop_bits [of rs_reset 0 "take BLOB_MAX data" ofs bits]
    by (simp add: findSplitPoint_def chunk_consts)
  then show "headChunk data = (sz, lvl) \<Longrightarrow> lvl \<le> 4"
    using f by (auto simp: headChunk_def chunk_consts split: if_splits)
qed

lemma ref_chunks_induct [consumes 0, case_names Nil Cons]:
  assumes "P []"
    and "\<And>data sz lvl. \<lbrakk>data \<noteq> []; headChunk data = (sz, lvl); 0 < sz; sz \<le> BLOB_MAX; sz \<le> length data; lvl \<le> 4;
           ref_chunks data = (take sz data, lvl) # ref_chunks (drop sz data); P (drop sz data)\<rbrakk> \<Longrightarrow> P data"
  shows "P data"
proof (induction "length data" arbitrary: data rule: less_induct)
  case less
  show ?case
  proof (cases "data = []")
    case False
    obtain sz lvl where h: "headChunk data = (sz, lvl)" by fastforce
    note le = headChunk_le [OF False h]
    have eq: "ref_chunks data = (take sz data, lvl) # ref_chunks (drop sz data)"
      using False h by (subst ref_chunks.simps) simp
    have "length (drop sz data) < length data" using le False by simp
    from less [OF this] le show ?thesis
      by (intro assms(2) [OF False h _ _ _ headChunk_level [OF h] eq]) blast+
  qed (simp add: assms(1))
qed

lemma concat_ref_chunks: "concat (map fst (ref_chunks data)) = data"
proof (induction data rule: ref_chunks_induct)
  case (Cons data sz lvl)
  then show ?case by (simp only: list.map concat.simps fst_conv append_take_drop_id)
qed simp

lemma ref_chunks_bounds:
  "(c, lvl) \<in> set (ref_chunks data) \<Longrightarrow> c \<noteq> [] \<and> length c \<le> BLOB_MAX \<and> lvl \<le> 4"
proof (induction data rule: ref_chunks_induct)
  case (Cons data sz lvl')
  then have "(c, lvl) = (take sz data, lvl') \<or> (c, lvl) \<in> set (ref_chunks (drop sz data))"
    by (metis set_ConsD)
  with Cons show ?case by auto
qed simp

lemma rs_roll_zero:
  assumes "window r = replicate 64 0" "wofs r < 64" "s1 r = 1984"
  shows "window (rs_roll 0 r) = replicate 64 0 \<and> wofs (rs_roll 0 r) < 64 \<and> s1 (rs_roll 0 r) = 1984
    \<and> s2 (rs_roll 0 r) = s2 r"
proof -
  have "(replicate 64 (0::byte))[wofs r := 0] = replicate 64 0"
    using assms(2) by (intro nth_equalityI) (auto simp: nth_list_update)
  with assms show ?thesis by (simp add: rs_roll_def rs_add_def Let_def chunk_consts)
qed

lemma findSplitLoop_zeros:
  assumes "window r = replicate 64 0" "wofs r < 64" "s1 r = 1984" "s2 r = 124992"
  shows "findSplitLoop r cnt (replicate n 0) = (0, 0)"
  using assms
proof (induction n arbitrary: r cnt)
  case (Suc n)
  from Suc.prems have "\<not> isSplit (rs_roll 0 r)"
    using rs_roll_zero [of r] by (simp add: isSplit_def chunk_consts)
  with Suc rs_roll_zero [of r] show ?case by simp
qed simp

text \<open>A run of zeros has no split point at all.\<close>

lemma findSplitPoint_zeros: "findSplitPoint (replicate n 0) = (0, 0)"
  unfolding findSplitPoint_def
  by (rule findSplitLoop_zeros) (simp_all add: rs_reset_def chunk_consts)

section \<open>Properties\<close>

definition collect :: "((bytes \<times> u32 \<times> u16) list, unit) ChunkCallback" where
  "collect sha sz level st = Inr (st @ [(sha, sz, level)])"

text \<open>
  C7: Streaming a source through \<^verbatim>\<open>chunkStream\<close> calls the callback on exactly the chunks of the
  reference chunker, in order, stopping at the first callback error: for a source that ends
  with \<open>(0, EOF)\<close> the boundaries, digests and levels depend on the bytes alone and not on how
  the reads were sized, so files, in-memory data and network readers agree.
\<close>

theorem chunkStream_deterministic:
  assumes "ends_clean r"
  shows "chunkStream r fileSize cb None st = fold_res (run_cb cb) (ref_chunks (contents r)) st"
  using chunkStream_feed [OF assms] by (simp add: feed_def)

theorem chunkStream_deterministic_witness:
  "chunkStream (More [1] (More [2, 3] (Stop [] EOF))) 3 collect None []
   = fold_res (run_cb collect) (ref_chunks [1, 2, 3]) []"
  using chunkStream_deterministic [of "More [1] (More [2, 3] (Stop [] EOF))" 3 collect "[]"] by simp


text \<open>
  The cap of \<^verbatim>\<open>BLOB_MAX\<close> bytes relies on the reader ending with \<open>(0, EOF)\<close>: a reader that returns its
  last bytes together with \<^verbatim>\<open>io.EOF\<close> gets them as one chunk of any size.
\<close>

lemma chunkStream_eof_with_data_uncapped:
  assumes "n > 0"
  shows "chunkStream (Stop (replicate n 0) EOF) fs cb None st = run_cb cb (replicate n 0, 0) st"
proof -
  let ?d = "replicate n 0"
  have "nextChunk True ?d = Some (n, 0)" "nextChunk True [] = Some (0, 0)"
    using findSplitPoint_zeros [of n] findSplitPoint_zeros [of 0] by (simp_all add: nextChunk_def)
  then have "chunkLoop cb None fs True ?d 0 st = rbind (run_cb cb (?d, 0) st) (\<lambda>st'. Inr ([], n, st'))"
    using assms by (simp add: chunkLoop.simps [of cb None fs True ?d] chunkLoop.simps [of cb None fs True "[]"])
  then show ?thesis
    using assms by (cases "run_cb cb (?d, 0) st") (simp_all add: chunkStream_def chunkRead_def)
qed

end
