(* ===== verification/Tsc.thy ===== *)
theory Tsc
  imports Prelude Sha256
begin

text \<open>
  The chunk file \<^verbatim>\<open>.tsc\<close>, \<^verbatim>\<open>tsm/tsc.go\<close>: the deduplicating writer, the sort with its index map,
  the byte layout, the parser and the binary search. The results are the writer's invariant,
  the round trip of \<^verbatim>\<open>Write\<close> and \<^verbatim>\<open>ParseTSC\<close>, the correctness of the index map and of
  \<^verbatim>\<open>LookupChunk\<close> on parsed files, and that a failing write leaves the destination alone.
\<close>

section \<open>Files\<close>

text \<open>
  A file system is a map from paths to contents. \<open>write_fault\<close> names the call that fails
  in the create, write, flush, close, rename sequence shared by the two writers; the deferred
  function removes the temporary file on every exit after the create.
\<close>

type_synonym fsys = "string \<rightharpoonup> bytes"

datatype write_fault = CreateFails | WriteFails | FlushFails | CloseFails | RenameFails

definition write_tmp_rename :: "write_fault option \<Rightarrow> string \<Rightarrow> bytes \<Rightarrow> fsys \<Rightarrow> write_fault option \<times> fsys" where
  "write_tmp_rename fault path content fs =
     (let tmpPath = path @ ''.tmp'' in
      case fault of
        Some CreateFails \<Rightarrow> (Some CreateFails, fs)
      | Some e \<Rightarrow> (Some e, fs(tmpPath := None))
      | None \<Rightarrow> (None, (fs(path \<mapsto> content))(tmpPath := None)))"

lemma write_tmp_rename_cases:
  assumes "write_tmp_rename fault path content fs = (e, fs')"
  shows "e = fault" "e = None \<Longrightarrow> fs' path = Some content" "e \<noteq> None \<Longrightarrow> fs' path = fs path"
    "p \<noteq> path \<Longrightarrow> p \<noteq> path @ ''.tmp'' \<Longrightarrow> fs' p = fs p"
  using assms by (auto simp: write_tmp_rename_def Let_def split: option.splits write_fault.splits)

section \<open>Entries\<close>

definition TSCHeaderSize :: nat where "TSCHeaderSize = 64"
definition TSCFooterSize :: nat where "TSCFooterSize = 32"
definition TSCEntrySize :: nat where "TSCEntrySize = 40"
definition TSCMagic :: bytes where "TSCMagic = str_bytes ''TSC'' @ [3]"

lemmas tsc_consts = TSCHeaderSize_def TSCFooterSize_def TSCEntrySize_def

record TSCEntry =
  c_sha :: bytes
  c_size :: u32
  c_level :: u16
  c_flags :: u16

definition encodeTSCEntry :: "TSCEntry \<Rightarrow> bytes" where
  "encodeTSCEntry e = c_sha e @ PutUint32 (c_size e) @ PutUint16 (c_level e) @ PutUint16 (c_flags e)"

definition decodeTSCEntry :: "bytes \<Rightarrow> TSCEntry" where
  "decodeTSCEntry d = \<lparr> c_sha = slice_of d 0 32, c_size = Uint32 (slice_of d 32 36),
                       c_level = Uint16 (slice_of d 36 38), c_flags = Uint16 (slice_of d 38 40) \<rparr>"

definition wf_chunk :: "TSCEntry \<Rightarrow> bool" where
  "wf_chunk e = (length (c_sha e) = 32)"

section \<open>The writer\<close>

record TSCWriter =
  w_chunks :: "TSCEntry list"
  w_chunkMap :: "bytes \<rightharpoonup> u32"
  w_totalSize :: u64

definition NewTSCWriter :: TSCWriter where
  "NewTSCWriter = \<lparr> w_chunks = [], w_chunkMap = Map.empty, w_totalSize = 0 \<rparr>"

definition AddChunk :: "TSCWriter \<Rightarrow> bytes \<Rightarrow> u32 \<Rightarrow> u16 \<Rightarrow> u16 \<Rightarrow> u32 \<times> TSCWriter" where
  "AddChunk w sha sz level flags =
     (case w_chunkMap w sha of
        Some idx \<Rightarrow> (idx, w)
      | None \<Rightarrow>
          let idx = word_of_nat (length (w_chunks w))
          in (idx, w\<lparr> w_chunks := w_chunks w @ [\<lparr> c_sha = sha, c_size = sz, c_level = level, c_flags = flags \<rparr>],
                      w_chunkMap := (w_chunkMap w)(sha \<mapsto> idx),
                      w_totalSize := w_totalSize w + ucast sz \<rparr>))"

definition ChunkCount :: "TSCWriter \<Rightarrow> u64" where
  "ChunkCount w = word_of_nat (length (w_chunks w))"

definition TotalChunkSize :: "TSCWriter \<Rightarrow> u64" where
  "TotalChunkSize w = w_totalSize w"

definition GetChunkIndex :: "TSCWriter \<Rightarrow> bytes \<Rightarrow> int" where
  "GetChunkIndex w sha = (case w_chunkMap w sha of Some idx \<Rightarrow> uint idx | None \<Rightarrow> -1)"

text \<open>
  \<^verbatim>\<open>sortChunks\<close> sorts the indices by SHA, then fills both arrays in one pass. \<^verbatim>\<open>sort.Slice\<close> leaves
  the order of equal keys open; the keys here are distinct.
\<close>

record sortedChunks =
  so_entries :: "TSCEntry list"
  so_indexMap :: "u32 list"

definition sortIndices :: "TSCWriter \<Rightarrow> nat list" where
  "sortIndices w = sort_key (\<lambda>i. c_sha (w_chunks w ! i)) [0..<length (w_chunks w)]"

fun fillIndexMap :: "nat \<Rightarrow> nat list \<Rightarrow> u32 list \<Rightarrow> u32 list" where
  "fillIndexMap sortedIdx [] m = m"
| "fillIndexMap sortedIdx (origIdx # rest) m =
     fillIndexMap (sortedIdx + 1) rest (m[origIdx := word_of_nat sortedIdx])"

definition sortChunks :: "TSCWriter \<Rightarrow> sortedChunks" where
  "sortChunks w = \<lparr> so_entries = map (\<lambda>i. w_chunks w ! i) (sortIndices w),
                   so_indexMap = fillIndexMap 0 (sortIndices w) (replicate (length (w_chunks w)) 0) \<rparr>"

definition tscHeader :: "nat \<Rightarrow> u64 \<Rightarrow> bytes" where
  "tscHeader cnt tot = TSCMagic @ PutUint32 0 @ PutUint64 (word_of_nat cnt) @ PutUint64 tot
     @ PutUint32 0 @ PutUint32 0 @ replicate 32 0"

definition tscContent :: "TSCWriter \<Rightarrow> bytes" where
  "tscContent w = (let es = so_entries (sortChunks w)
     in tscHeader (length es) (w_totalSize w) @ concat (map encodeTSCEntry es))"

definition TSC_Write :: "write_fault option \<Rightarrow> TSCWriter \<Rightarrow> string \<Rightarrow> fsys \<Rightarrow> (write_fault + (bytes \<times> u32 list)) \<times> fsys" where
  "TSC_Write fault w path fs =
     (let fileSHA = sha256 (tscContent w)
      in case write_tmp_rename fault path (tscContent w @ fileSHA) fs of
           (Some e, fs') \<Rightarrow> (Inl e, fs')
         | (None, fs') \<Rightarrow> (Inr (fileSHA, so_indexMap (sortChunks w)), fs'))"

section \<open>The reader\<close>

datatype tsc_error = TSCReadFailed | TSCTooShort | TSCBadMagic | TSCChecksum | TSCCountMismatch

record TSCHeader =
  th_Magic :: bytes
  th_Flags :: u32
  th_ChunkCount :: u64
  th_TotalChunkSize :: u64
  th_SlabCount :: u32
  th_SlabTableOffset :: u32

record TSCReader =
  r_Header :: TSCHeader
  r_Entries :: "TSCEntry list"
  r_SHA256 :: bytes

definition parseTSCHeader :: "bytes \<Rightarrow> TSCHeader" where
  "parseTSCHeader data = \<lparr> th_Magic = slice_of data 0 4, th_Flags = Uint32 (slice_of data 4 8),
     th_ChunkCount = Uint64 (slice_of data 8 16), th_TotalChunkSize = Uint64 (slice_of data 16 24),
     th_SlabCount = Uint32 (slice_of data 24 28), th_SlabTableOffset = Uint32 (slice_of data 28 32) \<rparr>"

definition ParseTSC :: "bytes \<Rightarrow> tsc_error + TSCReader" where
  "ParseTSC data =
     (if length data < TSCHeaderSize + TSCFooterSize then Inl TSCTooShort
      else if slice_of data 0 4 \<noteq> TSCMagic then Inl TSCBadMagic
      else
        let footerSHA = drop (length data - TSCFooterSize) data;
            contentData = take (length data - TSCFooterSize) data;
            computedSHA = sha256 contentData
        in if computedSHA \<noteq> footerSHA then Inl TSCChecksum
           else
             let hdr = parseTSCHeader data;
                 entryDataLen = length contentData - TSCHeaderSize;
                 expectedEntries = entryDataLen div TSCEntrySize
             in if word_of_nat expectedEntries \<noteq> th_ChunkCount hdr then Inl TSCCountMismatch
                else Inr \<lparr> r_Header = hdr,
                           r_Entries = read_table decodeTSCEntry TSCEntrySize data TSCHeaderSize
                                         (unat (th_ChunkCount hdr)),
                           r_SHA256 = computedSHA \<rparr>)"

definition ReadTSC :: "fsys \<Rightarrow> string \<Rightarrow> tsc_error + TSCReader" where
  "ReadTSC fs path = (case fs path of None \<Rightarrow> Inl TSCReadFailed | Some data \<Rightarrow> ParseTSC data)"

definition LookupChunk :: "TSCReader \<Rightarrow> bytes \<Rightarrow> TSCEntry option" where
  "LookupChunk r sha = table_find c_sha (r_Entries r) sha"

section \<open>Entry codec\<close>

interpretation ce: fixed_codec encodeTSCEntry decodeTSCEntry wf_chunk TSCEntrySize
proof unfold_locales
  fix x assume "wf_chunk x"
  then show "length (encodeTSCEntry x) = TSCEntrySize" "decodeTSCEntry (encodeTSCEntry x) = x"
    by (simp_all add: encodeTSCEntry_def decodeTSCEntry_def wf_chunk_def TSCEntrySize_def slice_of_def)
next
  fix bs :: bytes assume len: "length bs = TSCEntrySize"
  then show "wf_chunk (decodeTSCEntry bs)"
    by (simp add: decodeTSCEntry_def wf_chunk_def length_slice TSCEntrySize_def)
  have "encodeTSCEntry (decodeTSCEntry bs) = slice_of bs 0 32 @ slice_of bs 32 36 @ slice_of bs 36 38 @ slice_of bs 38 40"
    using len by (simp add: encodeTSCEntry_def decodeTSCEntry_def PutUint_Uint length_slice TSCEntrySize_def)
  also have "\<dots> = bs"
    using len slice_split [of 0 32 36 bs] slice_split [of 0 36 38 bs] slice_split [of 0 38 40 bs] slice_full [of bs]
    by (simp add: TSCEntrySize_def)
  finally show "encodeTSCEntry (decodeTSCEntry bs) = bs" .
qed

section \<open>The writer's invariant\<close>

definition tsc_inv :: "TSCWriter \<Rightarrow> bool" where
  "tsc_inv w =
     (distinct (map c_sha (w_chunks w)) \<and> (\<forall>e \<in> set (w_chunks w). wf_chunk e) \<and>
      length (w_chunks w) \<le> 2 ^ 32 \<and>
      (\<forall>s. w_chunkMap w s = None \<longleftrightarrow> s \<notin> c_sha ` set (w_chunks w)) \<and>
      (\<forall>s idx. w_chunkMap w s = Some idx \<longrightarrow>
         unat idx < length (w_chunks w) \<and> c_sha (w_chunks w ! unat idx) = s) \<and>
      w_totalSize w = sum_list (map (\<lambda>e. ucast (c_size e)) (w_chunks w)))"

lemma tsc_inv_New: "tsc_inv NewTSCWriter"
  by (simp add: tsc_inv_def NewTSCWriter_def)

lemma AddChunk_inv:
  assumes "tsc_inv w" "length sha = 32" "length (w_chunks w) < 2 ^ 32"
    and add: "AddChunk w sha sz level flags = (idx, w')"
  shows "tsc_inv w' \<and> unat idx < length (w_chunks w') \<and> c_sha (w_chunks w' ! unat idx) = sha"
proof (cases "w_chunkMap w sha")
  case None
  have u: "unat (word_of_nat (length (w_chunks w)) :: u32) = length (w_chunks w)"
    using assms(3) by (simp add: unat_of_nat)
  have "sha \<notin> c_sha ` set (w_chunks w)"
    using None assms(1) by (simp add: tsc_inv_def)
  then show ?thesis
    using None add assms u by (auto simp: AddChunk_def tsc_inv_def wf_chunk_def nth_append Let_def less_Suc_eq
      split: if_splits)
next
  case (Some i)
  with assms show ?thesis by (auto simp: AddChunk_def tsc_inv_def)
qed

lemma AddChunk_grows: "AddChunk w sha sz level flags = (idx, w') \<Longrightarrow> \<exists>es. w_chunks w' = w_chunks w @ es"
  by (auto simp: AddChunk_def Let_def split: option.splits)

section \<open>Sorting and the index map\<close>

lemma length_fillIndexMap [simp]: "length (fillIndexMap k idxs m) = length m"
  by (induction k idxs m rule: fillIndexMap.induct) simp_all

lemma fillIndexMap_other: "i \<notin> set idxs \<Longrightarrow> fillIndexMap k idxs m ! i = m ! i"
  by (induction k idxs m rule: fillIndexMap.induct) auto

lemma fillIndexMap_nth:
  "\<lbrakk>distinct idxs; set idxs \<subseteq> {..<length m}; j < length idxs\<rbrakk>
   \<Longrightarrow> fillIndexMap k idxs m ! (idxs ! j) = word_of_nat (k + j)"
proof (induction k idxs m arbitrary: j rule: fillIndexMap.induct)
  case (2 k i rest m)
  then show ?case by (cases j) (simp_all add: fillIndexMap_other)
qed simp

lemma sortIndices_perm:
  "distinct (sortIndices w)" "set (sortIndices w) = {..<length (w_chunks w)}"
  "length (sortIndices w) = length (w_chunks w)"
  by (auto simp: sortIndices_def)

lemma length_so_entries [simp]: "length (so_entries (sortChunks w)) = length (w_chunks w)"
  by (simp add: sortChunks_def sortIndices_perm)

lemma set_so_entries [simp]: "set (so_entries (sortChunks w)) = set (w_chunks w)"
  using sortIndices_perm(2) [of w]
  by (simp add: sortChunks_def) (metis atLeast_upt map_nth set_map)

lemma sorted_so_entries: "sorted (map c_sha (so_entries (sortChunks w)))"
  by (simp add: sortChunks_def sortIndices_def o_def)

lemma distinct_so_entries:
  "distinct (map c_sha (w_chunks w)) \<Longrightarrow> distinct (map c_sha (so_entries (sortChunks w)))"
  by (simp add: sortChunks_def o_def distinct_map sortIndices_perm inj_on_def)
     (metis length_map lessThan_iff nth_eq_iff_index_eq nth_map distinct_map inj_onD nth_mem)

lemma indexMap_correct:
  assumes "length (w_chunks w) \<le> 2 ^ 32" "i < length (w_chunks w)"
  shows "unat (so_indexMap (sortChunks w) ! i) < length (so_entries (sortChunks w)) \<and>
         so_entries (sortChunks w) ! unat (so_indexMap (sortChunks w) ! i) = w_chunks w ! i"
proof -
  obtain j where j: "j < length (w_chunks w)" "sortIndices w ! j = i"
    using assms(2) sortIndices_perm [of w] by (metis in_set_conv_nth lessThan_iff)
  have "so_indexMap (sortChunks w) ! i = word_of_nat j"
    using fillIndexMap_nth [of "sortIndices w" "replicate (length (w_chunks w)) 0" j 0] j sortIndices_perm [of w]
    by (simp add: sortChunks_def)
  moreover have "unat (word_of_nat j :: u32) = j" using j assms(1) by (simp add: unat_of_nat)
  ultimately show ?thesis using j by (simp add: sortChunks_def sortIndices_perm)
qed

section \<open>Round trip\<close>

lemma length_tscHeader [simp]: "length (tscHeader cnt tot) = 64"
  by (simp add: tscHeader_def TSCMagic_def)

lemma parse_tscHeader:
  "parseTSCHeader (tscHeader cnt tot @ rest) =
     \<lparr> th_Magic = TSCMagic, th_Flags = 0, th_ChunkCount = word_of_nat cnt, th_TotalChunkSize = tot,
       th_SlabCount = 0, th_SlabTableOffset = 0 \<rparr>"
  by (simp add: parseTSCHeader_def tscHeader_def slice_of_def TSCMagic_def)

lemma length_tscContent:
  assumes "\<forall>e \<in> set (w_chunks w). wf_chunk e"
  shows "length (tscContent w) = 64 + length (w_chunks w) * 40"
  using ce.length_table [of "so_entries (sortChunks w)"] assms
  by (simp add: tscContent_def Let_def TSCEntrySize_def)

lemma ParseTSC_content:
  assumes "tsc_inv w"
  shows "ParseTSC (tscContent w @ sha256 (tscContent w)) = Inr
    \<lparr> r_Header = \<lparr> th_Magic = TSCMagic, th_Flags = 0, th_ChunkCount = word_of_nat (length (w_chunks w)),
        th_TotalChunkSize = w_totalSize w, th_SlabCount = 0, th_SlabTableOffset = 0 \<rparr>,
      r_Entries = so_entries (sortChunks w), r_SHA256 = sha256 (tscContent w) \<rparr>"
proof -
  let ?c = "tscContent w" and ?es = "so_entries (sortChunks w)"
  have wf: "\<forall>e \<in> set (w_chunks w). wf_chunk e" and n: "length (w_chunks w) \<le> 2 ^ 32"
    using assms by (auto simp: tsc_inv_def)
  note len = length_tscContent [OF wf]
  let ?d = "?c @ sha256 ?c"
  have split: "?d = tscHeader (length ?es) (w_totalSize w) @ concat (map encodeTSCEntry ?es) @ sha256 ?c"
    by (simp add: tscContent_def Let_def)
  have magic: "slice_of ?d 0 4 = TSCMagic"
    unfolding split by (simp add: tscHeader_def slice_of_def TSCMagic_def)
  have hdr: "parseTSCHeader ?d = \<lparr> th_Magic = TSCMagic, th_Flags = 0, th_ChunkCount = word_of_nat (length (w_chunks w)),
      th_TotalChunkSize = w_totalSize w, th_SlabCount = 0, th_SlabTableOffset = 0 \<rparr>"
    unfolding split parse_tscHeader by simp
  have tbl: "read_table decodeTSCEntry TSCEntrySize ?d TSCHeaderSize (length (w_chunks w)) = ?es"
    using ce.read_table_enc [of ?es "tscHeader (length ?es) (w_totalSize w)" "sha256 ?c"] wf
    unfolding split by (simp add: TSCHeaderSize_def)
  have "unat (word_of_nat (length (w_chunks w)) :: u64) = length (w_chunks w)"
    using n by (simp add: unat_of_nat)
  with magic hdr tbl len show ?thesis
    by (simp add: ParseTSC_def Let_def tsc_consts del: append_assoc)
qed

lemma LookupChunk_sorted:
  assumes "tsc_inv w" "r_Entries r = so_entries (sortChunks w)"
  shows "LookupChunk r sha = Some e \<longleftrightarrow> e \<in> set (w_chunks w) \<and> c_sha e = sha"
proof
  assume "LookupChunk r sha = Some e"
  then show "e \<in> set (w_chunks w) \<and> c_sha e = sha"
    using table_find_SomeD assms(2) unfolding LookupChunk_def by force
next
  assume e: "e \<in> set (w_chunks w) \<and> c_sha e = sha"
  with assms show "LookupChunk r sha = Some e"
    using table_find_distinct [OF sorted_so_entries distinct_so_entries, of w e]
    by (auto simp: LookupChunk_def tsc_inv_def)
qed

text \<open>What an accepted file looks like: header, entries, fewer than 40 stray bytes, digest.\<close>

lemma ParseTSC_layout:
  assumes "ParseTSC data = Inr r" and int_len: "length data < 2 ^ 63"
  shows "\<exists>hdr slack. length hdr = TSCHeaderSize \<and> length slack < TSCEntrySize \<and>
    data = (hdr @ concat (map encodeTSCEntry (r_Entries r)) @ slack) @ r_SHA256 r \<and>
    r_SHA256 r = sha256 (hdr @ concat (map encodeTSCEntry (r_Entries r)) @ slack) \<and>
    (\<forall>e \<in> set (r_Entries r). wf_chunk e)"
proof -
  let ?c = "take (length data - TSCFooterSize) data"
  let ?n = "(length ?c - TSCHeaderSize) div TSCEntrySize"
  from assms have len: "TSCHeaderSize + TSCFooterSize \<le> length data"
    and sha: "sha256 ?c = drop (length data - TSCFooterSize) data" "r_SHA256 r = sha256 ?c"
    and cnt: "word_of_nat ?n = th_ChunkCount (parseTSCHeader data)"
    and es: "r_Entries r = read_table decodeTSCEntry TSCEntrySize data TSCHeaderSize
               (unat (th_ChunkCount (parseTSCHeader data)))"
    by (auto simp: ParseTSC_def Let_def split: if_splits)
  have k: "unat (th_ChunkCount (parseTSCHeader data)) = ?n"
    using int_len by (simp add: unat_of_nat tsc_consts flip: cnt)
  let ?m = "TSCHeaderSize + ?n * TSCEntrySize"
  have m: "?m \<le> length ?c" using len by (simp add: tsc_consts)
  then have md: "?m \<le> length data" by simp
  have "?c = slice_of ?c 0 TSCHeaderSize @ slice_of ?c TSCHeaderSize ?m @ slice_of ?c ?m (length ?c)"
    by (rule slice_3 [OF _ m, symmetric]) simp
  also have "slice_of ?c TSCHeaderSize ?m = concat (map encodeTSCEntry (r_Entries r))"
    using ce.enc_read_table [OF md] m unfolding es k by (simp add: slice_take)
  finally have c: "?c = slice_of ?c 0 TSCHeaderSize @ concat (map encodeTSCEntry (r_Entries r)) @ slice_of ?c ?m (length ?c)" .
  have "length (slice_of ?c ?m (length ?c)) < TSCEntrySize"
    by (simp add: length_slice tsc_consts)
  moreover have "length (slice_of ?c 0 TSCHeaderSize) = TSCHeaderSize" using m by (simp add: length_slice)
  moreover have "data = ?c @ r_SHA256 r" using sha by simp
  moreover have "\<forall>e \<in> set (r_Entries r). wf_chunk e" unfolding es k by (rule ce.read_table_wf [OF md])
  ultimately show ?thesis using c sha(2) by metis
qed

lemma TSC_Write_read_back:
  assumes "tsc_inv w" and "TSC_Write fault w path fs = (Inr (sha, imap), fs')"
  shows "\<exists>r. fs' path = Some (tscContent w @ sha256 (tscContent w)) \<and>
    ParseTSC (tscContent w @ sha256 (tscContent w)) = Inr r \<and> r_SHA256 r = sha \<and> length sha = 32 \<and>
    r_Entries r = so_entries (sortChunks w) \<and> imap = so_indexMap (sortChunks w) \<and> (\<forall>p. p \<noteq> path \<longrightarrow> p \<noteq> path @ ''.tmp'' \<longrightarrow> fs' p = fs p)"
proof -
  obtain e fs2 where wr: "write_tmp_rename fault path (tscContent w @ sha256 (tscContent w)) fs = (e, fs2)"
    by fastforce
  with assms(2) have "e = None" "fs2 = fs'" "sha = sha256 (tscContent w)" "imap = so_indexMap (sortChunks w)"
    by (auto simp: TSC_Write_def Let_def split: option.splits)
  with write_tmp_rename_cases [OF wr] ParseTSC_content [OF assms(1)] show ?thesis by auto
qed

section \<open>Properties\<close>

text \<open>
  \<^verbatim>\<open>AddChunk\<close> keeps the writer's invariant (distinct 32-byte digests, the map and the list in
  step, the total the sum of the sizes), returns an index at which the digest is stored,
  never moves an entry, and is the identity on a digest that is already there.
\<close>

theorem AddChunk_dedup:
  assumes "tsc_inv w" "length sha = 32" "length (w_chunks w) < 2 ^ 32"
    and "AddChunk w sha sz level flags = (idx, w')"
  shows "tsc_inv w' \<and> unat idx < length (w_chunks w') \<and> c_sha (w_chunks w' ! unat idx) = sha \<and>
    take (length (w_chunks w)) (w_chunks w') = w_chunks w \<and>
    (sha \<in> c_sha ` set (w_chunks w) \<longrightarrow> w' = w)"
proof -
  have "sha \<in> c_sha ` set (w_chunks w) \<Longrightarrow> w_chunkMap w sha \<noteq> None"
    using assms(1) by (auto simp: tsc_inv_def)
  then have "sha \<in> c_sha ` set (w_chunks w) \<longrightarrow> w' = w"
    using assms(4) by (auto simp: AddChunk_def)
  with AddChunk_inv [OF assms] AddChunk_grows [OF assms(4)] show ?thesis by auto
qed

theorem AddChunk_dedup_witness:
  "tsc_inv (snd (AddChunk NewTSCWriter (replicate 32 7) 5 0 0)) \<and> fst (AddChunk NewTSCWriter (replicate 32 7) 5 0 0) = 0"
proof -
  obtain idx w' where a: "AddChunk NewTSCWriter (replicate 32 7) 5 0 0 = (idx, w')" by fastforce
  have "tsc_inv w'" using AddChunk_dedup [OF tsc_inv_New _ _ a] by (simp add: NewTSCWriter_def)
  with a show ?thesis by (auto simp: AddChunk_def NewTSCWriter_def)
qed

text \<open>
  C10: A \<^verbatim>\<open>.tsc\<close> file that \<^verbatim>\<open>Write\<close> has written is read back by \<^verbatim>\<open>ReadTSC\<close> with the returned digest and
  sorted entries; the returned index map takes the writer's index of a chunk to its position
  in the file, and \<^verbatim>\<open>LookupChunk\<close> finds exactly the chunks that were added.
\<close>

theorem TSC_write_read:
  assumes "tsc_inv w" and "TSC_Write fault w path fs = (Inr (sha, imap), fs')"
  shows "\<exists>r. ReadTSC fs' path = Inr r \<and> r_SHA256 r = sha \<and> sorted (map c_sha (r_Entries r)) \<and>
    (\<forall>i < length (w_chunks w). r_Entries r ! unat (imap ! i) = w_chunks w ! i) \<and>
    (\<forall>s e. LookupChunk r s = Some e \<longleftrightarrow> e \<in> set (w_chunks w) \<and> c_sha e = s)"
proof -
  have "length (w_chunks w) \<le> 2 ^ 32" using assms(1) by (simp add: tsc_inv_def)
  with TSC_Write_read_back [OF assms] show ?thesis
    using indexMap_correct [of w] LookupChunk_sorted [OF assms(1)] sorted_so_entries [of w]
    by (auto simp: ReadTSC_def)
qed

definition ex_writer :: TSCWriter where
  "ex_writer = snd (AddChunk (snd (AddChunk NewTSCWriter (replicate 32 9) 5 0 0)) (replicate 32 7) 6 1 0)"

lemma ex_writer_inv: "tsc_inv ex_writer \<and> length (w_chunks ex_writer) = 2"
proof -
  let ?w = "snd (AddChunk NewTSCWriter (replicate 32 9) 5 0 0)"
  have "tsc_inv ?w" using AddChunk_inv [OF tsc_inv_New] by (metis length_replicate list.size(3) NewTSCWriter_def
        TSCWriter.select_convs(1) prod.collapse zero_less_numeral zero_less_power)
  moreover have "length (w_chunks ?w) = 1" by (simp add: AddChunk_def NewTSCWriter_def)
  ultimately have "tsc_inv ex_writer"
    unfolding ex_writer_def using AddChunk_inv [of ?w "replicate 32 7" 6 1 0] by (cases "AddChunk ?w (replicate 32 7) 6 1 0") simp
  then show ?thesis by (simp add: ex_writer_def AddChunk_def NewTSCWriter_def)
qed

theorem TSC_write_read_witness:
  "\<exists>sha imap fs' r. TSC_Write None ex_writer ''a.tsc'' Map.empty = (Inr (sha, imap), fs') \<and>
    ReadTSC fs' ''a.tsc'' = Inr r \<and> r_SHA256 r = sha \<and> r_Entries r ! unat (imap ! 1) = w_chunks ex_writer ! 1"
proof -
  obtain sha imap fs' where t: "TSC_Write None ex_writer ''a.tsc'' Map.empty = (Inr (sha, imap), fs')"
    by (auto simp: TSC_Write_def Let_def write_tmp_rename_def)
  have inv: "tsc_inv ex_writer" and two: "1 < length (w_chunks ex_writer)" using ex_writer_inv by simp_all
  obtain r where "ReadTSC fs' ''a.tsc'' = Inr r" "r_SHA256 r = sha"
    "\<forall>i < length (w_chunks ex_writer). r_Entries r ! unat (imap ! i) = w_chunks ex_writer ! i"
    using TSC_write_read [OF inv t] by blast
  with t two show ?thesis by blast
qed


end
