(* ===== verification/Tsm.thy ===== *)
theory Tsm
  imports Prelude Sha256 Tsc
begin

text \<open>
  The manifest \<^verbatim>\<open>.tsm\<close>, \<^verbatim>\<open>tsm/tsm.go\<close>: entry encoding, the writer with its chunk reference table,
  the parser, the in-place patch of change times, path lookup and the resolution of a file's
  chunk digests. Slices of the parser are checked against the capacity of the underlying
  array, as Go does, so that a run-time panic is an outcome of the model (\<open>TSMPanic\<close>).
\<close>

unbundle bit_operations_syntax

section \<open>Entries\<close>

definition TSMHeaderSize :: nat where "TSMHeaderSize = 64"
definition TSMFooterSize :: nat where "TSMFooterSize = 64"
definition TSMMagic :: bytes where "TSMMagic = str_bytes ''TSM'' @ [3]"

lemmas tsm_consts = TSMHeaderSize_def TSMFooterSize_def

type_synonym EntryType = byte

definition EntryTypeFile :: EntryType where "EntryTypeFile = 0"
definition EntryTypeDir :: EntryType where "EntryTypeDir = 1"
definition EntryTypeSymlink :: EntryType where "EntryTypeSymlink = 2"
definition EntryTypeHardlink :: EntryType where "EntryTypeHardlink = 3"
definition EntryTypeBlockDev :: EntryType where "EntryTypeBlockDev = 4"
definition EntryTypeCharDev :: EntryType where "EntryTypeCharDev = 5"
definition EntryTypeFifo :: EntryType where "EntryTypeFifo = 6"
definition EntryTypeSocket :: EntryType where "EntryTypeSocket = 7"

lemmas entry_types = EntryTypeFile_def EntryTypeDir_def EntryTypeSymlink_def EntryTypeHardlink_def
  EntryTypeBlockDev_def EntryTypeCharDev_def EntryTypeFifo_def EntryTypeSocket_def

record TSMEntry =
  e_Path :: string
  e_Type :: EntryType
  e_Flags :: u16
  e_Mode :: u32
  e_UID :: u32
  e_GID :: u32
  e_Size :: u64
  e_Mtime :: u64
  e_Ctime :: u64
  e_Atime :: u64
  e_ChunkStart :: u32
  e_ChunkCount :: u32
  e_ChunkRefs :: "u32 list"
  e_LinkTarget :: string
  e_LinkIndex :: u32
  e_DevMajor :: u32
  e_DevMinor :: u32

text \<open>The type-specific tail of an entry; the two switches of \<^verbatim>\<open>encodeEntry\<close> size it and fill it.\<close>

definition typeData :: "TSMEntry \<Rightarrow> bytes" where
  "typeData e =
     (if e_Type e = EntryTypeSymlink
      then PutUint16 (word_of_nat (length (e_LinkTarget e))) @ str_bytes (e_LinkTarget e)
      else if e_Type e = EntryTypeHardlink then PutUint32 (e_LinkIndex e)
      else if e_Type e = EntryTypeBlockDev \<or> e_Type e = EntryTypeCharDev
      then PutUint32 (e_DevMajor e) @ PutUint32 (e_DevMinor e)
      else [])"

definition encodeEntry :: "TSMEntry \<Rightarrow> bytes" where
  "encodeEntry e =
     (let pathLen = length (e_Path e); totalSize = 58 + pathLen + length (typeData e)
      in PutUint16 (word_of_nat totalSize) @ PutUint16 (word_of_nat pathLen) @ str_bytes (e_Path e)
         @ PutUint16 (ucast (e_Type e) OR e_Flags e) @ PutUint32 (e_Mode e) @ PutUint32 (e_UID e)
         @ PutUint32 (e_GID e) @ PutUint64 (e_Size e) @ PutUint64 (e_Mtime e) @ PutUint64 (e_Ctime e)
         @ PutUint64 (e_Atime e) @ PutUint32 (e_ChunkStart e) @ PutUint32 (e_ChunkCount e) @ typeData e)"

definition encodeEntryForHash :: "TSMEntry \<Rightarrow> bytes" where
  "encodeEntryForHash e = encodeEntry (e\<lparr> e_Ctime := 0, e_Atime := 0 \<rparr>)"

section \<open>The writer\<close>

record TSMWriter =
  tw_entries :: "TSMEntry list"
  tw_fileCount :: u64
  tw_totalSize :: u64
  tw_flags :: u32
  tw_creationTime :: u64
  tw_fsUUID :: bytes

definition NewTSMWriter :: "u64 \<Rightarrow> TSMWriter" where
  "NewTSMWriter now = \<lparr> tw_entries = [], tw_fileCount = 0, tw_totalSize = 0, tw_flags = 0,
                       tw_creationTime = now, tw_fsUUID = replicate 8 0 \<rparr>"

definition SetCreationTime :: "u64 \<Rightarrow> TSMWriter \<Rightarrow> TSMWriter" where
  "SetCreationTime t w = w\<lparr> tw_creationTime := t \<rparr>"

definition SetFSUUID :: "bytes \<Rightarrow> TSMWriter \<Rightarrow> TSMWriter" where
  "SetFSUUID uuid w = w\<lparr> tw_fsUUID := uuid \<rparr>"

definition AddEntry :: "TSMEntry \<Rightarrow> TSMWriter \<Rightarrow> TSMWriter" where
  "AddEntry entry w =
     w\<lparr> tw_entries := tw_entries w @ [entry], tw_fileCount := tw_fileCount w + 1,
        tw_totalSize := (if e_Type entry = EntryTypeFile then tw_totalSize w + e_Size entry
                         else tw_totalSize w) \<rparr>"

definition sortEntries :: "TSMWriter \<Rightarrow> TSMWriter" where
  "sortEntries w = w\<lparr> tw_entries := sort_key e_Path (tw_entries w) \<rparr>"

definition mapRef :: "u32 list \<Rightarrow> u32 \<Rightarrow> u32" where
  "mapRef indexMap origIdx =
     (if unat origIdx < length indexMap then indexMap ! unat origIdx else origIdx)"

fun assignRefs :: "u32 list \<Rightarrow> u32 list \<Rightarrow> TSMEntry list \<Rightarrow> TSMEntry list \<times> u32 list" where
  "assignRefs indexMap table [] = ([], table)"
| "assignRefs indexMap table (e # es) =
     (let (e', table') =
            (if e_ChunkCount e > 0 \<and> length (e_ChunkRefs e) > 0
             then (e\<lparr> e_ChunkStart := word_of_nat (length table),
                      e_ChunkCount := word_of_nat (length (e_ChunkRefs e)) \<rparr>,
                   table @ map (mapRef indexMap) (e_ChunkRefs e))
             else (e, table));
          (es', table'') = assignRefs indexMap table' es
      in (e' # es', table''))"

definition tsmHeader :: "TSMWriter \<Rightarrow> bytes \<Rightarrow> bytes" where
  "tsmHeader w tscSHA = TSMMagic @ PutUint32 (tw_flags w) @ PutUint64 (tw_fileCount w)
     @ PutUint64 (tw_totalSize w) @ take 8 tscSHA @ PutUint64 (tw_creationTime w) @ tw_fsUUID w @ replicate 16 0"

definition refBytes :: "u32 list \<Rightarrow> bytes" where
  "refBytes refs = concat (map PutUint32 refs)"

text \<open>The bytes of a manifest: what is hashed and what is stored.\<close>

definition tsmSHA :: "bytes \<Rightarrow> TSMEntry list \<Rightarrow> u32 list \<Rightarrow> bytes" where
  "tsmSHA hdr es refs = sha256 (hdr @ concat (map encodeEntryForHash es) @ refBytes refs)"

definition tsmFile :: "bytes \<Rightarrow> TSMEntry list \<Rightarrow> u32 list \<Rightarrow> bytes \<Rightarrow> bytes" where
  "tsmFile hdr es refs tscSHA = hdr @ concat (map encodeEntry es) @ refBytes refs @ tsmSHA hdr es refs @ tscSHA"

definition TSM_Write :: "write_fault option \<Rightarrow> TSMWriter \<Rightarrow> string \<Rightarrow> bytes \<Rightarrow> u32 list \<Rightarrow> fsys
    \<Rightarrow> (write_fault + bytes) \<times> TSMWriter \<times> fsys" where
  "TSM_Write fault w0 path tscSHA indexMap fs =
     (let w1 = sortEntries w0;
          (es, refs) = assignRefs indexMap [] (tw_entries w1);
          w = w1\<lparr> tw_entries := es \<rparr>;
          hdr = tsmHeader w tscSHA
      in case write_tmp_rename fault path (tsmFile hdr es refs tscSHA) fs of
           (Some e, fs') \<Rightarrow> (Inl e, w, fs')
         | (None, fs') \<Rightarrow> (Inr (tsmSHA hdr es refs), w, fs'))"

section \<open>The reader\<close>

datatype tsm_error = TSMReadFailed | TSMTooShort | TSMBadMagic | TSMUnexpectedEnd | TSMBadEntryLength
  | TSMEntryBeyond | TSMEntryTooShort | TSMPathBeyond | TSMSymlinkShort | TSMTargetBeyond
  | TSMHardlinkShort | TSMDeviceShort | TSMBadRefTable | TSMChecksum | TSMRefsOutOfRange
  | TSMCtimeBeyond | TSMPanic

definition cslice :: "bytes \<Rightarrow> nat \<Rightarrow> nat \<Rightarrow> tsm_error + bytes" where
  "cslice d a b = (if a \<le> b \<and> b \<le> length d then Inr (slice_of d a b) else Inl TSMPanic)"

text \<open>
  \<^verbatim>\<open>decodeEntry(data)\<close>: \<open>d\<close> are the bytes from the start of the slice to the end of its array
  (its capacity) and \<open>n\<close> is its length. The fixed fields are sliced without a length check.
\<close>

definition decodeTypeData :: "bytes \<Rightarrow> nat \<Rightarrow> nat \<Rightarrow> TSMEntry \<Rightarrow> tsm_error + TSMEntry" where
  "decodeTypeData d n ofs e =
     (if e_Type e = EntryTypeSymlink then
        if ofs + 2 > n then Inl TSMSymlinkShort
        else rbind (cslice d ofs (ofs + 2)) (\<lambda>b.
          let targetLen = unat (Uint16 b) in
          if ofs + 2 + targetLen > n then Inl TSMTargetBeyond
          else rbind (cslice d (ofs + 2) (ofs + 2 + targetLen)) (\<lambda>t. Inr (e\<lparr> e_LinkTarget := bytes_str t \<rparr>)))
      else if e_Type e = EntryTypeHardlink then
        if ofs + 4 > n then Inl TSMHardlinkShort
        else rbind (cslice d ofs (ofs + 4)) (\<lambda>b. Inr (e\<lparr> e_LinkIndex := Uint32 b \<rparr>))
      else if e_Type e = EntryTypeBlockDev \<or> e_Type e = EntryTypeCharDev then
        if ofs + 8 > n then Inl TSMDeviceShort
        else rbind (cslice d ofs (ofs + 4)) (\<lambda>b.
             rbind (cslice d (ofs + 4) (ofs + 8)) (\<lambda>b'. Inr (e\<lparr> e_DevMajor := Uint32 b, e_DevMinor := Uint32 b' \<rparr>)))
      else Inr e)"

definition decodeEntry :: "bytes \<Rightarrow> nat \<Rightarrow> tsm_error + TSMEntry" where
  "decodeEntry d n =
     (if n < 58 then Inl TSMEntryTooShort
      else rbind (cslice d 2 4) (\<lambda>pl.
        let pathLen = unat (Uint16 pl); o1 = 4 + pathLen in
        if o1 > n then Inl TSMPathBeyond
        else
          rbind (cslice d 4 o1) (\<lambda>path.
          rbind (cslice d o1 (o1 + 2)) (\<lambda>tf.
          rbind (cslice d (o1 + 2) (o1 + 6)) (\<lambda>mode.
          rbind (cslice d (o1 + 6) (o1 + 10)) (\<lambda>uid.
          rbind (cslice d (o1 + 10) (o1 + 14)) (\<lambda>gid.
          rbind (cslice d (o1 + 14) (o1 + 22)) (\<lambda>sz.
          rbind (cslice d (o1 + 22) (o1 + 30)) (\<lambda>mtime.
          rbind (cslice d (o1 + 30) (o1 + 38)) (\<lambda>ctime.
          rbind (cslice d (o1 + 38) (o1 + 46)) (\<lambda>atime.
          rbind (cslice d (o1 + 46) (o1 + 50)) (\<lambda>cstart.
          rbind (cslice d (o1 + 50) (o1 + 54)) (\<lambda>ccount.
            let typeFlags = Uint16 tf in
            decodeTypeData d n (o1 + 54)
              \<lparr> e_Path = bytes_str path, e_Type = ucast (typeFlags AND 0x0F), e_Flags = typeFlags AND 0xFFF0,
                e_Mode = Uint32 mode, e_UID = Uint32 uid, e_GID = Uint32 gid, e_Size = Uint64 sz,
                e_Mtime = Uint64 mtime, e_Ctime = Uint64 ctime, e_Atime = Uint64 atime,
                e_ChunkStart = Uint32 cstart, e_ChunkCount = Uint32 ccount, e_ChunkRefs = [],
                e_LinkTarget = [], e_LinkIndex = 0, e_DevMajor = 0, e_DevMinor = 0 \<rparr>)))))))))))))"

function parseEntries :: "bytes \<Rightarrow> nat \<Rightarrow> nat \<Rightarrow> TSMEntry list \<Rightarrow> nat \<Rightarrow> tsm_error + (TSMEntry list \<times> nat)" where
  "parseEntries data contentLen fileCount acc ofs =
     (if length acc < fileCount then
        if ofs + 2 > contentLen then Inl TSMUnexpectedEnd
        else rbind (cslice data ofs (ofs + 2)) (\<lambda>l.
          let entryLen = unat (Uint16 l) in
          if entryLen < 58 then Inl TSMBadEntryLength
          else if ofs + entryLen > contentLen then Inl TSMEntryBeyond
          else rbind (cslice data ofs (ofs + entryLen)) (\<lambda>_.
               rbind (decodeEntry (drop ofs data) entryLen) (\<lambda>e.
                 parseEntries data contentLen fileCount (acc @ [e]) (ofs + entryLen))))
      else Inr (acc, ofs))"
  by pat_completeness auto
termination
  by (relation "measure (\<lambda>(data, contentLen, fileCount, acc, ofs). contentLen - ofs)") auto

declare parseEntries.simps [simp del]

record TSMHeader =
  h_Magic :: bytes
  h_Flags :: u32
  h_FileCount :: u64
  h_TotalSize :: u64
  h_ChunkFileRef :: bytes
  h_CreationTime :: u64
  h_SourceFSUUID :: bytes

record TSMReader =
  m_Header :: TSMHeader
  m_Entries :: "TSMEntry list"
  m_ChunkRefTable :: "u32 list"
  m_SHA256 :: bytes
  m_TSCSHA :: bytes

definition parseTSMHeader :: "bytes \<Rightarrow> TSMHeader" where
  "parseTSMHeader data = \<lparr> h_Magic = slice_of data 0 4, h_Flags = Uint32 (slice_of data 4 8),
     h_FileCount = Uint64 (slice_of data 8 16), h_TotalSize = Uint64 (slice_of data 16 24),
     h_ChunkFileRef = slice_of data 24 32, h_CreationTime = Uint64 (slice_of data 32 40),
     h_SourceFSUUID = slice_of data 40 48 \<rparr>"

fun populateRefs :: "u32 list \<Rightarrow> TSMEntry list \<Rightarrow> tsm_error + TSMEntry list" where
  "populateRefs table [] = Inr []"
| "populateRefs table (e # es) =
     (if e_ChunkCount e > 0 then
        let start = unat (e_ChunkStart e); end = start + unat (e_ChunkCount e) in
        if end > length table then Inl TSMRefsOutOfRange
        else rbind (populateRefs table es) (\<lambda>es'. Inr (e\<lparr> e_ChunkRefs := slice_of table start end \<rparr> # es'))
      else rbind (populateRefs table es) (\<lambda>es'. Inr (e # es')))"

definition ParseTSM :: "bytes \<Rightarrow> tsm_error + TSMReader" where
  "ParseTSM data =
     (if length data < TSMHeaderSize + TSMFooterSize then Inl TSMTooShort
      else if slice_of data 0 4 \<noteq> TSMMagic then Inl TSMBadMagic
      else
        let footer = drop (length data - TSMFooterSize) data;
            contentLen = length data - TSMFooterSize;
            hdr = parseTSMHeader data
        in rbind (parseEntries data contentLen (unat (h_FileCount hdr)) [] TSMHeaderSize) (\<lambda>(es, ofs).
             let chunkRefDataLen = contentLen - ofs in
             if chunkRefDataLen mod 4 \<noteq> 0 then Inl TSMBadRefTable
             else
               let numRefs = chunkRefDataLen div 4;
                   table = read_table Uint32 4 data ofs numRefs;
                   computedSHA = tsmSHA (take TSMHeaderSize data) es table
               in if computedSHA \<noteq> slice_of footer 0 32 then Inl TSMChecksum
                  else rbind (populateRefs table es) (\<lambda>es'.
                    Inr \<lparr> m_Header = hdr, m_Entries = es', m_ChunkRefTable = table,
                          m_SHA256 = computedSHA, m_TSCSHA = slice_of footer 32 64 \<rparr>)))"

definition ReadTSM :: "fsys \<Rightarrow> string \<Rightarrow> tsm_error + TSMReader" where
  "ReadTSM fs path = (case fs path of None \<Rightarrow> Inl TSMReadFailed | Some data \<Rightarrow> ParseTSM data)"

text \<open>\<^verbatim>\<open>PatchEntryCtimes\<close>: reads from the original, writes into a copy.\<close>

definition put_at :: "bytes \<Rightarrow> nat \<Rightarrow> bytes \<Rightarrow> bytes" where
  "put_at out ofs b = take ofs out @ b @ drop (ofs + length b) out"

fun patchLoop :: "bytes \<Rightarrow> nat \<Rightarrow> (string \<rightharpoonup> u64) \<Rightarrow> nat \<Rightarrow> nat \<Rightarrow> bytes \<Rightarrow> tsm_error + bytes" where
  "patchLoop data contentLen ctimes 0 ofs out = Inr out"
| "patchLoop data contentLen ctimes (Suc todo) ofs out =
     (if ofs + 4 > contentLen then Inl TSMUnexpectedEnd
      else
        let entryLen = unat (Uint16 (slice_of data ofs (ofs + 2))) in
        if entryLen < 58 then Inl TSMBadEntryLength
        else if ofs + entryLen > contentLen then Inl TSMEntryBeyond
        else
          let pathLen = unat (Uint16 (slice_of data (ofs + 2) (ofs + 4))) in
          if ofs + 4 + pathLen > contentLen then Inl TSMPathBeyond
          else
            let path = bytes_str (slice_of data (ofs + 4) (ofs + 4 + pathLen)) in
            (case ctimes path of
               None \<Rightarrow> patchLoop data contentLen ctimes todo (ofs + entryLen) out
             | Some ctime \<Rightarrow>
                 let ctimeOffset = ofs + 34 + pathLen in
                 if ctimeOffset + 8 > contentLen then Inl TSMCtimeBeyond
                 else patchLoop data contentLen ctimes todo (ofs + entryLen)
                        (put_at out ctimeOffset (PutUint64 ctime))))"

definition PatchEntryCtimes :: "bytes \<Rightarrow> (string \<rightharpoonup> u64) \<Rightarrow> tsm_error + bytes" where
  "PatchEntryCtimes tsmData ctimes =
     (if length tsmData < TSMHeaderSize + TSMFooterSize then Inl TSMTooShort
      else patchLoop tsmData (length tsmData - TSMFooterSize) ctimes
             (unat (Uint64 (slice_of tsmData 8 16))) TSMHeaderSize tsmData)"

definition LookupPath :: "TSMReader \<Rightarrow> string \<Rightarrow> TSMEntry option" where
  "LookupPath r path = table_find e_Path (m_Entries r) path"

definition GetFileChunkSHAs :: "TSMEntry \<Rightarrow> TSCReader \<Rightarrow> bytes list" where
  "GetFileChunkSHAs e tsc =
     (if e_ChunkCount e = 0 \<or> length (e_ChunkRefs e) = 0 then []
      else map (\<lambda>i. if unat i < length (r_Entries tsc) then c_sha (r_Entries tsc ! unat i) else replicate 32 0)
             (e_ChunkRefs e))"

section \<open>No panics\<close>

lemma cslice_ok: "\<lbrakk>a \<le> b; b \<le> length d\<rbrakk> \<Longrightarrow> cslice d a b = Inr (slice_of d a b)"
  by (simp add: cslice_def)

lemma decodeTypeData_no_panic: "n \<le> length d \<Longrightarrow> decodeTypeData d n ofs e \<noteq> Inl TSMPanic"
  by (auto simp: decodeTypeData_def cslice_ok Let_def)

lemma decodeEntry_eq:
  assumes "58 \<le> n" "n + 54 \<le> length d" and o1: "o1 = 4 + unat (Uint16 (slice_of d 2 4))"
  shows "decodeEntry d n = (if o1 > n then Inl TSMPathBeyond else
    decodeTypeData d n (o1 + 54)
              \<lparr> e_Path = bytes_str (slice_of d 4 o1), e_Type = ucast (Uint16 (slice_of d o1 (o1 + 2)) AND 0x0F),
                e_Flags = Uint16 (slice_of d o1 (o1 + 2)) AND 0xFFF0,
                e_Mode = Uint32 (slice_of d (o1 + 2) (o1 + 6)), e_UID = Uint32 (slice_of d (o1 + 6) (o1 + 10)),
                e_GID = Uint32 (slice_of d (o1 + 10) (o1 + 14)), e_Size = Uint64 (slice_of d (o1 + 14) (o1 + 22)),
                e_Mtime = Uint64 (slice_of d (o1 + 22) (o1 + 30)), e_Ctime = Uint64 (slice_of d (o1 + 30) (o1 + 38)),
                e_Atime = Uint64 (slice_of d (o1 + 38) (o1 + 46)),
                e_ChunkStart = Uint32 (slice_of d (o1 + 46) (o1 + 50)),
                e_ChunkCount = Uint32 (slice_of d (o1 + 50) (o1 + 54)), e_ChunkRefs = [],
                e_LinkTarget = [], e_LinkIndex = 0, e_DevMajor = 0, e_DevMinor = 0 \<rparr>)"
proof (cases "o1 > n")
  case True
  with assms(1,2) show ?thesis by (simp add: decodeEntry_def cslice_ok o1 Let_def)
next
  case False
  have ok: "cslice d (o1 + a) (o1 + b) = Inr (slice_of d (o1 + a) (o1 + b))" if "a \<le> b" "b \<le> 54" for a b
    using that False assms(2) by (intro cslice_ok) simp_all
  have "cslice d 2 4 = Inr (slice_of d 2 4)" "cslice d 4 o1 = Inr (slice_of d 4 o1)"
    "cslice d o1 (o1 + 2) = Inr (slice_of d o1 (o1 + 2))"
    using False assms by (auto intro!: cslice_ok)
  with False assms(1) show ?thesis
    unfolding decodeEntry_def by (simp add: ok Let_def flip: o1)
qed

lemma decodeEntry_no_panic: "\<lbrakk>58 \<le> n; n + 54 \<le> length d\<rbrakk> \<Longrightarrow> decodeEntry d n \<noteq> Inl TSMPanic"
  by (simp add: decodeEntry_eq [OF _ _ refl] decodeTypeData_no_panic)

lemma parseEntries_no_panic:
  "contentLen + 64 \<le> length data \<Longrightarrow> parseEntries data contentLen cnt acc ofs \<noteq> Inl TSMPanic"
proof (induction data contentLen cnt acc ofs rule: parseEntries.induct)
  case (1 data contentLen cnt acc ofs)
  note IH = "1.IH" and len = "1.prems"
  show ?case
  proof (cases "length acc < cnt \<and> ofs + 2 \<le> contentLen")
    case True
    let ?n = "unat (Uint16 (slice_of data ofs (ofs + 2)))"
    have c: "cslice data ofs (ofs + 2) = Inr (slice_of data ofs (ofs + 2))"
      using True len by (intro cslice_ok) simp_all
    show ?thesis
    proof (cases "58 \<le> ?n \<and> ofs + ?n \<le> contentLen")
      case ok: True
      then have "decodeEntry (drop ofs data) ?n \<noteq> Inl TSMPanic"
        using len by (intro decodeEntry_no_panic) auto
      moreover have "cslice data ofs (ofs + ?n) = Inr (slice_of data ofs (ofs + ?n))"
        using ok len by (intro cslice_ok) simp_all
      ultimately show ?thesis
        using True ok c len IH [OF _ _ refl]
        by (subst parseEntries.simps) (auto simp: Let_def res_simps)
    next
      case False
      with True c show ?thesis by (subst parseEntries.simps) (auto simp: Let_def)
    qed
  next
    case False
    then show ?thesis by (subst parseEntries.simps) auto
  qed
qed

lemma populateRefs_no_panic: "populateRefs table es \<noteq> Inl TSMPanic"
  by (induction table es rule: populateRefs.induct) (auto simp: Let_def res_simps)

lemma ParseTSM_no_panic: "ParseTSM data \<noteq> Inl TSMPanic"
  using parseEntries_no_panic [of "length data - TSMFooterSize" data]
  by (auto simp: ParseTSM_def Let_def res_simps tsm_consts populateRefs_no_panic split: prod.splits)

section \<open>Entry round trip\<close>

definition wf_entry :: "TSMEntry \<Rightarrow> bool" where
  "wf_entry e =
     (length (encodeEntry e) < 2 ^ 16 \<and> unat (e_Type e) < 16 \<and> e_Flags e AND 0x0F = 0 \<and>
      (e_Type e \<noteq> EntryTypeSymlink \<longrightarrow> e_LinkTarget e = []) \<and>
      (e_Type e \<noteq> EntryTypeHardlink \<longrightarrow> e_LinkIndex e = 0) \<and>
      (e_Type e \<noteq> EntryTypeBlockDev \<and> e_Type e \<noteq> EntryTypeCharDev \<longrightarrow> e_DevMajor e = 0 \<and> e_DevMinor e = 0))"

lemma length_encodeEntry: "length (encodeEntry e) = 58 + length (e_Path e) + length (typeData e)"
  by (simp add: encodeEntry_def Let_def)

lemma type_flags_split:
  fixes t :: byte and f :: u16
  assumes "unat t < 16" "f AND 0x0F = 0"
  shows "ucast ((ucast t OR f) AND 0x0F) = t" "(ucast t OR f) AND 0xFFF0 = f"
proof -
  have F: "(0x0F :: u16) = mask 4" "(0xFFF0 :: u16) = NOT (mask 4)" by (simp_all add: mask_numeral)
  have "unat (take_bit 4 t) = unat t"
    using assms(1) by (simp add: unsigned_take_bit_eq take_bit_nat_eq_self)
  then have "take_bit 4 t = t" by (simp add: word_unat_eq_iff)
  then have t: "bit t n \<Longrightarrow> n < 4" for n by (metis bit_take_bit_iff)
  have f: "\<not> bit f n" if "n < 4" for n
  proof -
    have "bit (f AND mask 4) n = bit (0 :: u16) n" using assms(2) by (simp only: F)
    with that show ?thesis by (simp add: bit_simps)
  qed
  show "ucast ((ucast t OR f) AND 0x0F) = t"
    unfolding F by (rule bit_word_eqI) (auto simp: bit_simps dest: t f)
  show "(ucast t OR f) AND 0xFFF0 = f"
    unfolding F by (rule bit_word_eqI) (auto simp: bit_simps dest: t f)
qed

lemma decodeTypeData_typeData:
  assumes "length d \<ge> n" "n = ofs + length (typeData e)" "drop ofs d = typeData e @ rest"
    "length (e_LinkTarget e) < 2 ^ 16"
    "e_Type e' = e_Type e"
  shows "decodeTypeData d n ofs e' = Inr (
     if e_Type e = EntryTypeSymlink then e'\<lparr> e_LinkTarget := e_LinkTarget e \<rparr>
     else if e_Type e = EntryTypeHardlink then e'\<lparr> e_LinkIndex := e_LinkIndex e \<rparr>
     else if e_Type e = EntryTypeBlockDev \<or> e_Type e = EntryTypeCharDev
     then e'\<lparr> e_DevMajor := e_DevMajor e, e_DevMinor := e_DevMinor e \<rparr> else e')"
proof -
  have sl: "slice_of d (ofs + a) (ofs + b) = slice_of (typeData e @ rest) a b" for a b
    using slice_drop [of ofs d a b] assms(3) by simp
  note sl0 = sl [of 0, simplified]
  have c: "cslice d (ofs + a) (ofs + b) = Inr (slice_of (typeData e @ rest) a b)" if "a \<le> b" "ofs + b \<le> n" for a b
    using that assms(1) by (simp add: cslice_ok sl)
  note c0 = c [of 0, simplified]
  have u: "unat (word_of_nat (length (e_LinkTarget e)) :: u16) = length (e_LinkTarget e)"
    using assms(4) by (simp add: unat_of_nat)
  show ?thesis
  proof (cases "e_Type e = EntryTypeSymlink")
    case True
    then show ?thesis
      using assms(2,5) c0 [of 2] c [of 2 "2 + length (e_LinkTarget e)"]
      by (simp add: decodeTypeData_def typeData_def slice_of_def u Let_def add.assoc)
  next
    case False
    then show ?thesis
      using assms(2,5) c0 [of 4] c [of 4 8]
      by (auto simp: decodeTypeData_def typeData_def slice_of_def)
  qed
qed

lemma decodeEntry_encodeEntry:
  assumes "wf_entry e" "54 \<le> length rest"
  shows "decodeEntry (encodeEntry e @ rest) (length (encodeEntry e)) = Inr (e\<lparr> e_ChunkRefs := [] \<rparr>)"
proof -
  let ?d = "encodeEntry e @ rest" and ?n = "length (encodeEntry e)" and ?L = "length (e_Path e)"
  have n: "?n = 58 + ?L + length (typeData e)" by (rule length_encodeEntry)
  have small: "?n < 2 ^ 16" and tf: "unat (e_Type e) < 16" "e_Flags e AND 0x0F = 0"
    using assms(1) by (simp_all add: wf_entry_def)
  have lt: "length (e_LinkTarget e) < 2 ^ 16"
    using assms(1) small n by (cases "e_Type e = EntryTypeSymlink") (auto simp: wf_entry_def typeData_def)
  have pl: "unat (Uint16 (slice_of ?d 2 4)) = ?L"
    using small n by (simp add: encodeEntry_def Let_def slice_of_def unat_of_nat)
  have dr: "drop (4 + ?L + 54) ?d = typeData e @ rest"
    by (simp add: encodeEntry_def Let_def)
  have fields: "slice_of ?d 4 (4 + ?L) = str_bytes (e_Path e)"
    "slice_of ?d (4 + ?L) (4 + ?L + 2) = PutUint16 (ucast (e_Type e) OR e_Flags e)"
    "slice_of ?d (4 + ?L + 2) (4 + ?L + 6) = PutUint32 (e_Mode e)"
    "slice_of ?d (4 + ?L + 6) (4 + ?L + 10) = PutUint32 (e_UID e)"
    "slice_of ?d (4 + ?L + 10) (4 + ?L + 14) = PutUint32 (e_GID e)"
    "slice_of ?d (4 + ?L + 14) (4 + ?L + 22) = PutUint64 (e_Size e)"
    "slice_of ?d (4 + ?L + 22) (4 + ?L + 30) = PutUint64 (e_Mtime e)"
    "slice_of ?d (4 + ?L + 30) (4 + ?L + 38) = PutUint64 (e_Ctime e)"
    "slice_of ?d (4 + ?L + 38) (4 + ?L + 46) = PutUint64 (e_Atime e)"
    "slice_of ?d (4 + ?L + 46) (4 + ?L + 50) = PutUint32 (e_ChunkStart e)"
    "slice_of ?d (4 + ?L + 50) (4 + ?L + 54) = PutUint32 (e_ChunkCount e)"
    by (simp_all add: encodeEntry_def Let_def slice_of_def)
  let ?e0 = "\<lparr> e_Path = e_Path e, e_Type = e_Type e, e_Flags = e_Flags e, e_Mode = e_Mode e, e_UID = e_UID e,
     e_GID = e_GID e, e_Size = e_Size e, e_Mtime = e_Mtime e, e_Ctime = e_Ctime e, e_Atime = e_Atime e,
     e_ChunkStart = e_ChunkStart e, e_ChunkCount = e_ChunkCount e, e_ChunkRefs = [],
     e_LinkTarget = [], e_LinkIndex = 0, e_DevMajor = 0, e_DevMinor = 0 \<rparr>"
  have "decodeEntry ?d ?n = decodeTypeData ?d ?n (4 + ?L + 54) ?e0"
    using n assms(2)
    by (subst decodeEntry_eq [OF _ _ refl]) (simp_all only: pl fields Uint_PutUint type_flags_split [OF tf] bytes_str_bytes, simp_all)
  also have "\<dots> = Inr (e\<lparr> e_ChunkRefs := [] \<rparr>)"
    using assms(1) n lt by (subst decodeTypeData_typeData [OF _ _ dr]) (auto simp: wf_entry_def entry_types)
  finally show ?thesis .
qed

section \<open>File round trip\<close>

lemma typeData_cong [simp]:
  "typeData (e\<lparr> e_ChunkRefs := r \<rparr>) = typeData e" "typeData (e\<lparr> e_Ctime := c \<rparr>) = typeData e"
  "typeData (e\<lparr> e_Atime := c \<rparr>) = typeData e"
  "typeData (e\<lparr> e_ChunkStart := a \<rparr>) = typeData e" "typeData (e\<lparr> e_ChunkCount := a \<rparr>) = typeData e"
  by (simp_all add: typeData_def)

lemma encodeEntry_refs [simp]: "encodeEntry (e\<lparr> e_ChunkRefs := r \<rparr>) = encodeEntry e"
  by (simp add: encodeEntry_def)

lemma encodeEntryForHash_cong [simp]:
  "encodeEntryForHash (e\<lparr> e_ChunkRefs := r \<rparr>) = encodeEntryForHash e"
  "encodeEntryForHash (e\<lparr> e_Ctime := c \<rparr>) = encodeEntryForHash e"
  "encodeEntryForHash (e\<lparr> e_Atime := c \<rparr>) = encodeEntryForHash e"
  by (simp_all add: encodeEntryForHash_def encodeEntry_def)

lemma wf_entry_cong [simp]:
  "wf_entry (e\<lparr> e_ChunkStart := a \<rparr>) = wf_entry e" "wf_entry (e\<lparr> e_ChunkCount := a \<rparr>) = wf_entry e"
  "wf_entry (e\<lparr> e_Ctime := c \<rparr>) = wf_entry e"
  by (simp_all add: wf_entry_def length_encodeEntry)

lemma entryLen_head:
  assumes "wf_entry e"
  shows "unat (Uint16 (slice_of (pre @ encodeEntry e @ aft) (length pre) (length pre + 2))) = length (encodeEntry e)"
proof -
  have "slice_of (pre @ encodeEntry e @ aft) (length pre) (length pre + 2) = slice_of (encodeEntry e @ aft) 0 2"
    using slice_append2 [of pre "length pre" "encodeEntry e @ aft" "length pre + 2"] by simp
  also have "\<dots> = PutUint16 (word_of_nat (length (encodeEntry e)))"
    by (simp add: length_encodeEntry) (simp add: encodeEntry_def slice_of_def Let_def)
  finally show ?thesis using assms by (simp add: wf_entry_def unat_of_nat)
qed

lemma parseEntries_encode:
  assumes "\<forall>e \<in> set es. wf_entry e"
    and "data = pre @ concat (map encodeEntry es) @ post"
    and "length pre + length (concat (map encodeEntry es)) \<le> contentLen" "contentLen + 64 \<le> length data"
  shows "parseEntries data contentLen (length acc + length es) acc (length pre) =
    Inr (acc @ map (\<lambda>e. e\<lparr> e_ChunkRefs := [] \<rparr>) es, length pre + length (concat (map encodeEntry es)))"
  using assms
proof (induction es arbitrary: pre acc)
  case Nil
  then show ?case by (subst parseEntries.simps) simp
next
  case (Cons e es)
  let ?aft = "concat (map encodeEntry es) @ post"
  have e: "wf_entry e" and d: "data = pre @ encodeEntry e @ ?aft" using Cons.prems by simp_all
  have lenE: "58 \<le> length (encodeEntry e)" by (simp add: length_encodeEntry)
  have l: "unat (Uint16 (slice_of data (length pre) (length pre + 2))) = length (encodeEntry e)"
    unfolding d by (rule entryLen_head [OF e])
  have bound: "length pre + length (encodeEntry e) \<le> contentLen" using Cons.prems(3) by simp
  have c: "cslice data (length pre) (length pre + k) = Inr (slice_of data (length pre) (length pre + k))"
    if "length pre + k \<le> contentLen" for k
    using that Cons.prems(4) by (intro cslice_ok) simp_all
  have "54 \<le> length ?aft" using bound Cons.prems(4) by (simp add: d)
  then have dec: "decodeEntry (drop (length pre) data) (length (encodeEntry e)) = Inr (e\<lparr> e_ChunkRefs := [] \<rparr>)"
    using decodeEntry_encodeEntry [OF e, of ?aft] by (simp add: d)
  have IH: "parseEntries data contentLen (length acc + length (e # es)) (acc @ [e\<lparr> e_ChunkRefs := [] \<rparr>])
      (length pre + length (encodeEntry e)) =
    Inr ((acc @ [e\<lparr> e_ChunkRefs := [] \<rparr>]) @ map (\<lambda>e. e\<lparr> e_ChunkRefs := [] \<rparr>) es,
         length pre + length (encodeEntry e) + length (concat (map encodeEntry es)))"
    using Cons.IH [of "pre @ encodeEntry e" "acc @ [e\<lparr> e_ChunkRefs := [] \<rparr>]"] Cons.prems by simp
  have "parseEntries data contentLen (length acc + length (e # es)) acc (length pre) =
     parseEntries data contentLen (length acc + length (e # es)) (acc @ [e\<lparr> e_ChunkRefs := [] \<rparr>])
       (length pre + length (encodeEntry e))"
    using bound lenE c [of 2] c [of "length (encodeEntry e)"]
    by (subst parseEntries.simps) (simp add: l dec Let_def)
  then show ?case unfolding IH by simp
qed

interpretation ref: fixed_codec PutUint32 Uint32 "\<lambda>_. True" 4
  by unfold_locales (simp_all add: PutUint_Uint)

lemma ParseTSM_tsmFile:
  assumes es: "\<forall>e \<in> set es. wf_entry e" and hdr: "length hdr = 64" "take 4 hdr = TSMMagic"
    and cnt: "unat (Uint64 (slice_of hdr 8 16)) = length es" and sha: "length tscSHA = 32"
  shows "ParseTSM (tsmFile hdr es refs tscSHA) =
    rbind (populateRefs refs (map (\<lambda>e. e\<lparr> e_ChunkRefs := [] \<rparr>) es)) (\<lambda>es'. Inr
      \<lparr> m_Header = parseTSMHeader hdr, m_Entries = es', m_ChunkRefTable = refs,
        m_SHA256 = tsmSHA hdr es refs, m_TSCSHA = tscSHA \<rparr>)"
proof -
  let ?E = "concat (map encodeEntry es)"
  let ?d = "tsmFile hdr es refs tscSHA"
  let ?foot = "tsmSHA hdr es refs @ tscSHA"
  have lsha: "length (tsmSHA hdr es refs) = 32" by (simp add: tsmSHA_def)
  have refs: "length (refBytes refs) = length refs * 4"
    unfolding refBytes_def by (rule ref.length_table) simp
  have d: "?d = hdr @ ?E @ refBytes refs @ ?foot" by (simp add: tsmFile_def)
  have lend: "length ?d = 64 + length ?E + length refs * 4 + 64" using refs hdr sha lsha by (simp add: d)
  have hd: "parseTSMHeader ?d = parseTSMHeader hdr"
    unfolding d parseTSMHeader_def using hdr by (simp add: slice_append1)
  have foot: "drop (length ?d - 64) ?d = ?foot" using refs hdr sha lsha by (simp add: d)
  have parse: "parseEntries ?d (length ?d - 64) (length es) [] 64 =
      Inr (map (\<lambda>e. e\<lparr> e_ChunkRefs := [] \<rparr>) es, 64 + length ?E)"
    using parseEntries_encode [OF es d, of "length ?d - 64" "[]"] hdr lend by simp
  have tbl: "read_table Uint32 4 ?d (64 + length ?E) (length refs) = refs"
    using ref.read_table_enc [of refs "hdr @ ?E" ?foot] hdr unfolding d refBytes_def by simp
  have "slice_of ?d 0 4 = TSMMagic" using hdr by (simp add: d slice_of_def)
  moreover have "h_FileCount (parseTSMHeader hdr) = Uint64 (slice_of hdr 8 16)" by (simp add: parseTSMHeader_def)
  moreover have "take 64 ?d = hdr" using hdr by (simp add: d)
  moreover have "tsmSHA hdr (map (\<lambda>e. e\<lparr> e_ChunkRefs := [] \<rparr>) es) refs = tsmSHA hdr es refs"
    by (simp add: tsmSHA_def o_def)
  moreover have "slice_of ?foot 0 32 = tsmSHA hdr es refs" "slice_of ?foot 32 64 = tscSHA"
    using lsha sha by (simp_all add: slice_of_def)
  ultimately show ?thesis
    using lend hd foot parse tbl cnt by (simp add: ParseTSM_def tsm_consts Let_def)
qed

section \<open>The chunk reference table\<close>

definition wf_refs :: "TSMEntry \<Rightarrow> bool" where
  "wf_refs e = (e_ChunkCount e > 0 \<longleftrightarrow> e_ChunkRefs e \<noteq> [])"

definition remapRefs :: "u32 list \<Rightarrow> TSMEntry \<Rightarrow> TSMEntry" where
  "remapRefs indexMap e = e\<lparr> e_ChunkRefs := map (mapRef indexMap) (e_ChunkRefs e) \<rparr>"

definition totalRefs :: "TSMEntry list \<Rightarrow> nat" where
  "totalRefs es = sum_list (map (\<lambda>e. length (e_ChunkRefs e)) es)"

lemma length_assignRefs: "length (fst (assignRefs imap t es)) = length es"
  by (induction imap t es rule: assignRefs.induct) (auto simp: Let_def split: prod.splits)

lemma assignRefs_Cons:
  assumes "assignRefs imap table (e # es) = (es1, t1)"
  shows "\<exists>e' es' t'. es1 = e' # es' \<and> assignRefs imap t' es = (es', t1) \<and>
     (if e_ChunkCount e > 0 \<and> length (e_ChunkRefs e) > 0
      then e' = e\<lparr> e_ChunkStart := word_of_nat (length table), e_ChunkCount := word_of_nat (length (e_ChunkRefs e)) \<rparr> \<and>
           t' = table @ map (mapRef imap) (e_ChunkRefs e)
      else e' = e \<and> t' = table)"
  using assms by (auto simp: Let_def split: prod.splits if_splits)

lemma assignRefs_extends: "assignRefs imap t es = (es', t') \<Longrightarrow> \<exists>s. t' = t @ s"
proof (induction es arbitrary: t es')
  case (Cons e es)
  from assignRefs_Cons [OF Cons.prems] Cons.IH show ?case by (fastforce split: if_splits)
qed simp

lemma assignRefs_entry:
  "\<lbrakk>assignRefs imap t es = (es', t'); e' \<in> set es'\<rbrakk> \<Longrightarrow>
   \<exists>e \<in> set es. e' = e \<or> (\<exists>a b. e' = e\<lparr> e_ChunkStart := a, e_ChunkCount := b \<rparr>)"
proof (induction es arbitrary: t es')
  case (Cons e es)
  from assignRefs_Cons [OF Cons.prems(1)] obtain e1 es1 t1 where
    1: "es' = e1 # es1" "assignRefs imap t1 es = (es1, t')"
    and e1: "e1 = e \<or> (\<exists>a b. e1 = e\<lparr> e_ChunkStart := a, e_ChunkCount := b \<rparr>)"
    by (fastforce split: if_splits)
  show ?case
  proof (cases "e' = e1")
    case True
    with e1 show ?thesis by auto
  next
    case False
    with Cons.prems(2) 1 have "e' \<in> set es1" by simp
    from Cons.IH [OF 1(2) this] show ?thesis by auto
  qed
qed simp

lemma wf_assignRefs: "\<lbrakk>assignRefs imap t es = (es', t'); \<forall>e \<in> set es. wf_entry e\<rbrakk> \<Longrightarrow> \<forall>e \<in> set es'. wf_entry e"
  by (auto dest: assignRefs_entry)

lemma path_assignRefs: "assignRefs imap t es = (es', t') \<Longrightarrow> map e_Path es' = map e_Path es"
proof (induction es arbitrary: t es')
  case (Cons e es)
  from assignRefs_Cons [OF Cons.prems] Cons.IH show ?case by (fastforce split: if_splits)
qed simp

lemma populate_assign:
  assumes "assignRefs imap t es = (es', t')" "\<forall>e \<in> set es. wf_refs e" "length t + totalRefs es < 2 ^ 32"
  shows "populateRefs (t' @ s) (map (\<lambda>e. e\<lparr> e_ChunkRefs := [] \<rparr>) es') = Inr (map (remapRefs imap) es')"
  using assms
proof (induction es arbitrary: t es')
  case (Cons e es)
  from assignRefs_Cons [OF Cons.prems(1)] obtain e1 es1 t1 where
    1: "es' = e1 # es1" "assignRefs imap t1 es = (es1, t')"
    and e1: "if e_ChunkCount e > 0 \<and> length (e_ChunkRefs e) > 0
      then e1 = e\<lparr> e_ChunkStart := word_of_nat (length t), e_ChunkCount := word_of_nat (length (e_ChunkRefs e)) \<rparr> \<and>
           t1 = t @ map (mapRef imap) (e_ChunkRefs e)
      else e1 = e \<and> t1 = t"
    by blast
  have wfe: "wf_refs e" using Cons.prems(2) by simp
  have len1: "length t1 + totalRefs es < 2 ^ 32"
    using Cons.prems(3) e1 by (auto simp: totalRefs_def split: if_splits)
  have IH: "populateRefs (t' @ s) (map (\<lambda>e. e\<lparr> e_ChunkRefs := [] \<rparr>) es1) = Inr (map (remapRefs imap) es1)"
    using Cons.IH [OF 1(2) _ len1] Cons.prems(2) by simp
  show ?case
  proof (cases "e_ChunkRefs e = []")
    case True
    with wfe e1 IH 1 show ?thesis by (simp add: wf_refs_def remapRefs_def)
  next
    case False
    obtain s1 where t': "t' = t1 @ s1" using assignRefs_extends [OF 1(2)] by blast
    let ?k = "length (e_ChunkRefs e)"
    have u: "unat (word_of_nat (length t) :: u32) = length t" "unat (word_of_nat ?k :: u32) = ?k"
      using Cons.prems(3) by (simp_all add: unat_of_nat totalRefs_def)
    have pos: "(word_of_nat ?k :: u32) > 0" using u(2) False by (simp add: word_greater_zero_iff unat_0_iff [symmetric])
    have e1': "e1 = e\<lparr> e_ChunkStart := word_of_nat (length t), e_ChunkCount := word_of_nat ?k \<rparr>"
      and t1: "t1 = t @ map (mapRef imap) (e_ChunkRefs e)"
      using e1 False wfe by (auto simp: wf_refs_def)
    have "slice_of (t' @ s) (length t) (length t + ?k) = map (mapRef imap) (e_ChunkRefs e)"
      using slice_mid [of t "map (mapRef imap) (e_ChunkRefs e)" "s1 @ s"] by (simp add: t' t1)
    with IH pos u 1 show ?thesis
      by (simp add: e1' t' t1 Let_def remapRefs_def)
  qed
qed simp

lemma wf_refs_assign:
  "\<lbrakk>assignRefs imap t es = (es', t'); \<forall>e \<in> set es. wf_refs e; totalRefs es < 2 ^ 32\<rbrakk> \<Longrightarrow> \<forall>e \<in> set es'. wf_refs e"
proof (induction es arbitrary: t es')
  case (Cons e es)
  from assignRefs_Cons [OF Cons.prems(1)] obtain e1 es1 t1 where
    1: "es' = e1 # es1" "assignRefs imap t1 es = (es1, t')"
    and e1: "e1 = e \<or> (e_ChunkRefs e \<noteq> [] \<and> e_ChunkCount e1 = word_of_nat (length (e_ChunkRefs e)) \<and> e_ChunkRefs e1 = e_ChunkRefs e)"
    by (fastforce split: if_splits)
  have "length (e_ChunkRefs e) < 2 ^ 32" "totalRefs es < 2 ^ 32" using Cons.prems(3) by (simp_all add: totalRefs_def)
  moreover from this(1) have "e_ChunkRefs e \<noteq> [] \<Longrightarrow> (word_of_nat (length (e_ChunkRefs e)) :: u32) \<noteq> 0"
    by (simp add: word_unat_eq_iff unat_of_nat)
  ultimately show ?case using 1 e1 Cons.IH [OF 1(2)] Cons.prems(2) by (auto simp: wf_refs_def word_greater_zero_iff)
qed simp

section \<open>The writer's invariant and its file\<close>

definition tsm_inv :: "TSMWriter \<Rightarrow> bool" where
  "tsm_inv w = (tw_fileCount w = word_of_nat (length (tw_entries w)) \<and> length (tw_entries w) < 2 ^ 64 \<and>
     length (tw_fsUUID w) = 8 \<and> (\<forall>e \<in> set (tw_entries w). wf_entry e \<and> wf_refs e) \<and>
     totalRefs (tw_entries w) < 2 ^ 32)"

lemma tsm_inv_New: "tsm_inv (NewTSMWriter now)"
  by (simp add: tsm_inv_def NewTSMWriter_def totalRefs_def)

lemma tsm_inv_AddEntry:
  "\<lbrakk>tsm_inv w; wf_entry e; wf_refs e; length (tw_entries w) < 2 ^ 64 - 1;
    totalRefs (tw_entries w) + length (e_ChunkRefs e) < 2 ^ 32\<rbrakk> \<Longrightarrow> tsm_inv (AddEntry e w)"
  by (auto simp: tsm_inv_def AddEntry_def totalRefs_def)

lemma tsm_inv_set: "tsm_inv w \<Longrightarrow> tsm_inv (SetCreationTime t w)"
  "\<lbrakk>tsm_inv w; length uuid = 8\<rbrakk> \<Longrightarrow> tsm_inv (SetFSUUID uuid w)"
  by (simp_all add: tsm_inv_def SetCreationTime_def SetFSUUID_def)

lemma totalRefs_sort [simp]: "totalRefs (sort_key k es) = totalRefs es"
proof -
  have "totalRefs (insort_key k x xs) = length (e_ChunkRefs x) + totalRefs xs" for x xs
    by (induction xs) (auto simp: totalRefs_def)
  then show ?thesis by (induction es) (simp_all add: totalRefs_def)
qed

lemma length_tsmHeader: "\<lbrakk>length (tw_fsUUID w) = 8; length tscSHA = 32\<rbrakk> \<Longrightarrow> length (tsmHeader w tscSHA) = 64"
  by (simp add: tsmHeader_def TSMMagic_def)

lemma TSM_Write_content:
  assumes "tsm_inv w" "length tscSHA = 32" "assignRefs imap [] (sort_key e_Path (tw_entries w)) = (es, refs)"
    and hdr: "hdr = tsmHeader (sortEntries w\<lparr> tw_entries := es \<rparr>) tscSHA"
  shows "ParseTSM (tsmFile hdr es refs tscSHA) = Inr
    \<lparr> m_Header = parseTSMHeader hdr, m_Entries = map (remapRefs imap) es, m_ChunkRefTable = refs,
      m_SHA256 = tsmSHA hdr es refs, m_TSCSHA = tscSHA \<rparr>"
proof -
  have len: "length es = length (tw_entries w)" using length_assignRefs assms(3) by (metis fst_conv length_sort)
  have "\<forall>e \<in> set es. wf_entry e"
    using wf_assignRefs [OF assms(3)] assms(1) by (simp add: tsm_inv_def)
  moreover have "length hdr = 64" using assms(1,2) unfolding hdr
    by (intro length_tsmHeader) (simp_all add: tsm_inv_def sortEntries_def)
  moreover have "take 4 hdr = TSMMagic" by (simp add: hdr tsmHeader_def TSMMagic_def)
  moreover have "unat (Uint64 (slice_of hdr 8 16)) = length es"
    using assms(1) by (simp add: hdr tsmHeader_def TSMMagic_def slice_of_def sortEntries_def tsm_inv_def len unat_of_nat)
  moreover have "populateRefs refs (map (\<lambda>e. e\<lparr> e_ChunkRefs := [] \<rparr>) es) = Inr (map (remapRefs imap) es)"
    using populate_assign [OF assms(3), of "[]"] assms(1) by (simp add: tsm_inv_def)
  ultimately show ?thesis using ParseTSM_tsmFile [of es hdr tscSHA refs] assms(2) by simp
qed

definition strip_table :: "TSMEntry \<Rightarrow> TSMEntry" where
  "strip_table e = e\<lparr> e_ChunkStart := 0, e_ChunkCount := 0 \<rparr>"

lemma strip_assignRefs:
  "assignRefs imap t es = (es', t') \<Longrightarrow> map (strip_table \<circ> remapRefs imap) es' = map (strip_table \<circ> remapRefs imap) es"
proof (induction es arbitrary: t es')
  case (Cons e es)
  from assignRefs_Cons [OF Cons.prems] obtain e1 es1 t1 where
    1: "es' = e1 # es1" "assignRefs imap t1 es = (es1, t')"
    and e1: "e1 = e \<or> (\<exists>a b. e1 = e\<lparr> e_ChunkStart := a, e_ChunkCount := b \<rparr>)"
    by (fastforce split: if_splits)
  from e1 have "strip_table (remapRefs imap e1) = strip_table (remapRefs imap e)"
    by (auto simp: strip_table_def remapRefs_def)
  with 1 Cons.IH [OF 1(2)] show ?case by simp
qed simp

lemma sort_key_map_same:
  "(\<And>x. k (h x) = k x) \<Longrightarrow> sort_key k (map h xs) = map h (sort_key k xs)"
proof -
  assume k: "\<And>x. k (h x) = k x"
  have ins: "insort_key k (h x) (map h xs) = map h (insort_key k x xs)" for x xs
    by (induction xs) (auto simp: k)
  show ?thesis by (induction xs) (simp_all add: ins)
qed

lemma assignRefs_times:
  assumes "\<And>e. h e = e\<lparr> e_Ctime := f e, e_Atime := g e \<rparr>"
  shows "map encodeEntryForHash (fst (assignRefs imap t (map h es))) = map encodeEntryForHash (fst (assignRefs imap t es))
    \<and> snd (assignRefs imap t (map h es)) = snd (assignRefs imap t es)"
proof (induction es arbitrary: t)
  case (Cons e es)
  have h: "e_ChunkCount (h e) = e_ChunkCount e" "e_ChunkRefs (h e) = e_ChunkRefs e" by (simp_all add: assms)
  have x: "encodeEntryForHash (h e\<lparr> e_ChunkStart := a, e_ChunkCount := b \<rparr>) = encodeEntryForHash (e\<lparr> e_ChunkStart := a, e_ChunkCount := b \<rparr>)" for a b
    by (simp add: assms encodeEntryForHash_def)
  have y: "encodeEntryForHash (h e) = encodeEntryForHash e" by (simp add: assms)
  show ?case using Cons.IH by (auto simp: h x y Let_def split: prod.splits) (metis fst_conv snd_conv)+
qed simp

lemma TSM_Write_result:
  "fst (TSM_Write fault w path tscSHA imap fs) =
    (let (es, refs) = assignRefs imap [] (sort_key e_Path (tw_entries w))
     in case fault of Some e \<Rightarrow> Inl e
        | None \<Rightarrow> Inr (tsmSHA (tsmHeader (sortEntries w\<lparr> tw_entries := es \<rparr>) tscSHA) es refs))"
  by (auto simp: TSM_Write_def Let_def sortEntries_def write_tmp_rename_def split: prod.splits option.splits write_fault.splits)

section \<open>Patching change times\<close>

definition patchEntry :: "(string \<rightharpoonup> u64) \<Rightarrow> TSMEntry \<Rightarrow> TSMEntry" where
  "patchEntry ctimes e = (case ctimes (e_Path e) of None \<Rightarrow> e | Some c \<Rightarrow> e\<lparr> e_Ctime := c \<rparr>)"

lemma patchEntry_simps [simp]:
  "length (encodeEntry (patchEntry m e)) = length (encodeEntry e)"
  "encodeEntryForHash (patchEntry m e) = encodeEntryForHash e"
  "wf_entry (patchEntry m e) = wf_entry e" "e_Path (patchEntry m e) = e_Path e"
  by (auto simp: patchEntry_def length_encodeEntry split: option.splits)

lemma put_at_ctime:
  assumes "length pre = ofs"
  shows "put_at (pre @ encodeEntry e @ aft) (ofs + 34 + length (e_Path e)) (PutUint64 c) =
   pre @ encodeEntry (e\<lparr> e_Ctime := c \<rparr>) @ aft"
  using assms by (simp add: put_at_def encodeEntry_def Let_def)

lemma patchLoop_encode:
  assumes "\<forall>e \<in> set es. wf_entry e"
    and "data = pre @ concat (map encodeEntry es) @ post" "length pre' = length pre"
    and "length pre + length (concat (map encodeEntry es)) \<le> contentLen"
  shows "patchLoop data contentLen ctimes (length es) (length pre) (pre' @ concat (map encodeEntry es) @ post) =
    Inr (pre' @ concat (map (encodeEntry \<circ> patchEntry ctimes) es) @ post)"
  using assms
proof (induction es arbitrary: pre pre')
  case (Cons e es)
  let ?aft = "concat (map encodeEntry es) @ post" and ?L = "length (e_Path e)"
  have e: "wf_entry e" and d: "data = pre @ encodeEntry e @ ?aft" using Cons.prems by simp_all
  have l: "unat (Uint16 (slice_of data (length pre) (length pre + 2))) = length (encodeEntry e)"
    unfolding d by (rule entryLen_head [OF e])
  have ln: "length (encodeEntry e) = 58 + ?L + length (typeData e)" by (rule length_encodeEntry)
  have "slice_of data (length pre + 2) (length pre + 4) = slice_of (encodeEntry e @ ?aft) 2 4"
    "slice_of data (length pre + 4) (length pre + 4 + ?L) = slice_of (encodeEntry e @ ?aft) 4 (4 + ?L)"
    unfolding d by (simp_all add: slice_append2)
  then have pl: "unat (Uint16 (slice_of data (length pre + 2) (length pre + 4))) = ?L"
    and path: "bytes_str (slice_of data (length pre + 4) (length pre + 4 + ?L)) = e_Path e"
    using e ln by (simp_all add: encodeEntry_def Let_def slice_of_def unat_of_nat wf_entry_def)
  have bound: "length pre + length (encodeEntry e) \<le> contentLen" using Cons.prems(4) by simp
  have put: "put_at (pre' @ encodeEntry e @ ?aft) (length pre + 34 + ?L) (PutUint64 c) =
      pre' @ encodeEntry (e\<lparr> e_Ctime := c \<rparr>) @ ?aft" for c
    using Cons.prems(3) by (intro put_at_ctime)
  have IH: "patchLoop data contentLen ctimes (length es) (length pre + length (encodeEntry e))
      (pre' @ encodeEntry (patchEntry ctimes e) @ ?aft) =
    Inr (pre' @ encodeEntry (patchEntry ctimes e) @ concat (map (encodeEntry \<circ> patchEntry ctimes) es) @ post)"
    using Cons.IH [of "pre @ encodeEntry e" "pre' @ encodeEntry (patchEntry ctimes e)"] Cons.prems by (simp add: o_def)
  have "patchLoop data contentLen ctimes (length (e # es)) (length pre) (pre' @ concat (map encodeEntry (e # es)) @ post)
    = patchLoop data contentLen ctimes (length es) (length pre + length (encodeEntry e))
      (pre' @ encodeEntry (patchEntry ctimes e) @ ?aft)"
    using bound ln put by (auto simp: l pl path Let_def patchEntry_def split: option.splits)
  then show ?case unfolding IH by (simp add: o_def)
qed simp

lemma tsmSHA_patch: "tsmSHA hdr (map (patchEntry m) es) refs = tsmSHA hdr es refs"
  by (simp add: tsmSHA_def o_def)

lemma PatchEntryCtimes_tsmFile:
  assumes "\<forall>e \<in> set es. wf_entry e" "length hdr = 64" "length tscSHA = 32"
    and "unat (Uint64 (slice_of hdr 8 16)) = length es"
  shows "PatchEntryCtimes (tsmFile hdr es refs tscSHA) ctimes = Inr (tsmFile hdr (map (patchEntry ctimes) es) refs tscSHA)"
proof -
  let ?d = "tsmFile hdr es refs tscSHA"
  let ?post = "refBytes refs @ tsmSHA hdr es refs @ tscSHA"
  have d: "?d = hdr @ concat (map encodeEntry es) @ ?post" by (simp add: tsmFile_def)
  have lsha: "length (tsmSHA hdr es refs) = 32" by (simp add: tsmSHA_def)
  have "slice_of ?d 8 16 = slice_of hdr 8 16" unfolding d using assms(2) by (simp add: slice_append1)
  moreover have "64 + length (concat (map encodeEntry es)) \<le> length ?d - 64"
    unfolding d using assms(2,3) lsha by simp
  moreover have "length ?d \<ge> 128" unfolding d using assms(2,3) lsha by simp
  ultimately show ?thesis
    using patchLoop_encode [OF assms(1) d refl, of "length ?d - 64" ctimes] assms(2,4)
    by (simp add: PatchEntryCtimes_def tsm_consts flip: d) (simp add: tsmFile_def tsmSHA_patch)
qed

lemma TSM_Write_read_back:
  assumes "tsm_inv w" "length tscSHA = 32" "TSM_Write fault w path tscSHA imap fs = (Inr sha, w', fs')"
  shows "\<exists>data r. fs' path = Some data \<and> ParseTSM data = Inr r \<and> m_SHA256 r = sha \<and> m_TSCSHA r = tscSHA \<and>
    sorted (map e_Path (m_Entries r)) \<and> (\<forall>e \<in> set (m_Entries r). wf_refs e) \<and>
    map strip_table (m_Entries r) = map (strip_table \<circ> remapRefs imap) (sort_key e_Path (tw_entries w)) \<and>
    (\<forall>p. p \<noteq> path \<longrightarrow> p \<noteq> path @ ''.tmp'' \<longrightarrow> fs' p = fs p)"
proof -
  obtain es refs where a: "assignRefs imap [] (sort_key e_Path (tw_entries w)) = (es, refs)" by fastforce
  define hdr where "hdr = tsmHeader (sortEntries w\<lparr> tw_entries := es \<rparr>) tscSHA"
  obtain x fs2 where wr: "write_tmp_rename fault path (tsmFile hdr es refs tscSHA) fs = (x, fs2)" by fastforce
  with assms(3) a have "x = None" "fs2 = fs'" "sha = tsmSHA hdr es refs"
    by (auto simp: TSM_Write_def Let_def sortEntries_def hdr_def split: option.splits prod.splits)
  with write_tmp_rename_cases [OF wr] have f: "fs' path = Some (tsmFile hdr es refs tscSHA)"
    "\<forall>p. p \<noteq> path \<longrightarrow> p \<noteq> path @ ''.tmp'' \<longrightarrow> fs' p = fs p" by simp_all
  have "map e_Path (map (remapRefs imap) es) = map e_Path es" by (simp add: remapRefs_def)
  then have "sorted (map e_Path (map (remapRefs imap) es))" using path_assignRefs [OF a] by simp
  moreover have "map strip_table (map (remapRefs imap) es) = map (strip_table \<circ> remapRefs imap) (sort_key e_Path (tw_entries w))"
    using strip_assignRefs [OF a] by simp
  moreover have "\<forall>e \<in> set (map (remapRefs imap) es). wf_refs e"
    using wf_refs_assign [OF a] assms(1) by (auto simp: tsm_inv_def wf_refs_def remapRefs_def)
  ultimately show ?thesis
    using TSM_Write_content [OF assms(1,2) a hdr_def] f \<open>sha = _\<close> by auto
qed

section \<open>Properties\<close>

text \<open>
  C33: \<^verbatim>\<open>ParseTSM\<close> never panics, on any input: every slice it takes is within the array, although the
  fixed fields of an entry are read without checking the entry's length, because an entry
  ends before the footer and the overrun of at most 54 bytes stays inside it.
\<close>

theorem ParseTSM_never_panics: "ParseTSM data \<noteq> Inl TSMPanic"
  by (rule ParseTSM_no_panic)

text \<open>
  C9: A manifest that \<^verbatim>\<open>Write\<close> has written is read back by \<^verbatim>\<open>ReadTSM\<close> with the returned digest and the
  digest of its chunk file; the entries are the written ones in path order, with every
  chunk reference taken through the index map.
\<close>

theorem TSM_write_read:
  assumes "tsm_inv w" "length tscSHA = 32" "TSM_Write fault w path tscSHA imap fs = (Inr sha, w', fs')"
  shows "\<exists>r. ReadTSM fs' path = Inr r \<and> m_SHA256 r = sha \<and> m_TSCSHA r = tscSHA \<and>
    sorted (map e_Path (m_Entries r)) \<and>
    map strip_table (m_Entries r) = map (strip_table \<circ> remapRefs imap) (sort_key e_Path (tw_entries w))"
  using TSM_Write_read_back [OF assms] by (auto simp: ReadTSM_def)

definition ex_entry :: TSMEntry where
  "ex_entry = \<lparr> e_Path = ''etc/passwd'', e_Type = EntryTypeFile, e_Flags = 0, e_Mode = 33188, e_UID = 0, e_GID = 0,
     e_Size = 5, e_Mtime = 7, e_Ctime = 8, e_Atime = 9, e_ChunkStart = 0, e_ChunkCount = 1, e_ChunkRefs = [1],
     e_LinkTarget = [], e_LinkIndex = 0, e_DevMajor = 0, e_DevMinor = 0 \<rparr>"

definition ex_manifest :: TSMWriter where
  "ex_manifest = AddEntry ex_entry (NewTSMWriter 42)"

lemma ex_entry_wf: "wf_entry ex_entry" "wf_refs ex_entry"
  by (simp_all add: wf_entry_def length_encodeEntry typeData_def ex_entry_def entry_types wf_refs_def)

lemma ex_manifest_inv: "tsm_inv ex_manifest"
  unfolding ex_manifest_def
  by (intro tsm_inv_AddEntry tsm_inv_New ex_entry_wf) (simp_all add: NewTSMWriter_def totalRefs_def ex_entry_def)

theorem TSM_write_read_witness:
  "\<exists>sha w' fs' r. TSM_Write None ex_manifest ''m'' (replicate 32 1) [1, 0] Map.empty = (Inr sha, w', fs') \<and>
     ReadTSM fs' ''m'' = Inr r \<and> m_SHA256 r = sha \<and> map e_ChunkRefs (m_Entries r) = [[0]]"
proof -
  obtain sha w' fs' where t: "TSM_Write None ex_manifest ''m'' (replicate 32 1) [1, 0] Map.empty = (Inr sha, w', fs')"
    by (cases "assignRefs [1, 0] [] (tw_entries (sortEntries ex_manifest))")
       (simp add: TSM_Write_def Let_def write_tmp_rename_def)
  obtain r where r: "ReadTSM fs' ''m'' = Inr r" "m_SHA256 r = sha"
    "map strip_table (m_Entries r) = map (strip_table \<circ> remapRefs [1, 0]) (sort_key e_Path (tw_entries ex_manifest))"
    using TSM_write_read [OF ex_manifest_inv _ t] by auto
  have "map e_ChunkRefs (m_Entries r) = map e_ChunkRefs (map strip_table (m_Entries r))"
    by (simp add: strip_table_def)
  also have "\<dots> = [[0]]"
    unfolding r(3) by (simp add: ex_manifest_def AddEntry_def NewTSMWriter_def strip_table_def remapRefs_def ex_entry_def mapRef_def)
  finally have c: "map e_ChunkRefs (m_Entries r) = [[0]]" .
  show ?thesis by (intro exI conjI) (rule t, rule r(1), rule r(2), rule c)
qed

text \<open>
  C38: The snapshot ID that \<^verbatim>\<open>Write\<close> returns does not depend on the change and access times of the
  entries, which a receiving host cannot reproduce.
\<close>

theorem snapshot_id_ignores_times:
  "fst (TSM_Write fault (w\<lparr> tw_entries := map (\<lambda>e. e\<lparr> e_Ctime := f e, e_Atime := g e \<rparr>) (tw_entries w) \<rparr>)
          path tscSHA imap fs) = fst (TSM_Write fault w path tscSHA imap fs)"
proof -
  let ?h = "\<lambda>e. e\<lparr> e_Ctime := f e, e_Atime := g e \<rparr>"
  let ?s = "sort_key e_Path (tw_entries w)"
  have s: "sort_key e_Path (map ?h (tw_entries w)) = map ?h ?s" by (rule sort_key_map_same) simp
  obtain es refs where a: "assignRefs imap [] ?s = (es, refs)" by fastforce
  obtain es2 refs2 where a2: "assignRefs imap [] (map ?h ?s) = (es2, refs2)" by fastforce
  have "map encodeEntryForHash es2 = map encodeEntryForHash es" "refs2 = refs"
    using assignRefs_times [where h = ?h and f = f and g = g and imap = imap and t = "[]" and es = ?s] a a2 by simp_all
  then have "tsmSHA hdr es2 refs2 = tsmSHA hdr es refs" for hdr by (simp add: tsmSHA_def)
  then show ?thesis
    by (simp add: TSM_Write_result s a a2 tsmHeader_def sortEntries_def split: option.splits)
qed

text \<open>
  C39: \<^verbatim>\<open>PatchEntryCtimes\<close> on a written manifest replaces exactly the change times of the listed paths:
  the result is the manifest of the patched entries, it parses, and its snapshot ID, chunk
  file digest and reference table are unchanged.
\<close>

theorem PatchEntryCtimes_correct:
  assumes "\<forall>e \<in> set es. wf_entry e" "length hdr = 64" "take 4 hdr = TSMMagic" "length tscSHA = 32"
    and "unat (Uint64 (slice_of hdr 8 16)) = length es"
    and "ParseTSM (tsmFile hdr es refs tscSHA) = Inr r"
  shows "\<exists>out. PatchEntryCtimes (tsmFile hdr es refs tscSHA) ctimes = Inr out \<and>
    ParseTSM out = Inr (r\<lparr> m_Entries := map (patchEntry ctimes) (m_Entries r) \<rparr>)"
proof -
  have pop: "populateRefs t (map (patchEntry m) xs) =
      rbind (populateRefs t xs) (\<lambda>ys. Inr (map (patchEntry m) ys))" for t xs m
    by (induction t xs rule: populateRefs.induct)
       (auto simp: Let_def rbind_assoc patchEntry_def rbind_def split: option.splits sum.splits)
  have clear: "map (\<lambda>e. e\<lparr> e_ChunkRefs := [] \<rparr>) (map (patchEntry ctimes) es) =
      map (patchEntry ctimes) (map (\<lambda>e. e\<lparr> e_ChunkRefs := [] \<rparr>) es)"
    by (auto simp: patchEntry_def split: option.splits)
  let ?clr = "map (\<lambda>e. e\<lparr> e_ChunkRefs := [] \<rparr>)"
  have wf: "\<forall>e \<in> set (map (patchEntry ctimes) es). wf_entry e" using assms(1) by simp
  from assms(6) obtain es' where es': "populateRefs refs (?clr es) = Inr es'"
    and r: "r = \<lparr> m_Header = parseTSMHeader hdr, m_Entries = es', m_ChunkRefTable = refs,
        m_SHA256 = tsmSHA hdr es refs, m_TSCSHA = tscSHA \<rparr>"
    by (auto simp: ParseTSM_tsmFile [OF assms(1,2,3,5,4)] res_simps)
  have "populateRefs refs (?clr (map (patchEntry ctimes) es)) = Inr (map (patchEntry ctimes) es')"
    unfolding clear pop es' by simp
  then have "ParseTSM (tsmFile hdr (map (patchEntry ctimes) es) refs tscSHA) =
      Inr (r\<lparr> m_Entries := map (patchEntry ctimes) (m_Entries r) \<rparr>)"
    using ParseTSM_tsmFile [OF wf assms(2,3) _ assms(4)] assms(5) by (simp add: tsmSHA_patch r del: map_map)
  then show ?thesis using PatchEntryCtimes_tsmFile [OF assms(1,2,4,5)] by blast
qed

definition ex_header :: bytes where
  "ex_header = tsmHeader ex_manifest (replicate 32 1)"

theorem PatchEntryCtimes_correct_witness:
  "\<exists>out r. PatchEntryCtimes (tsmFile ex_header [ex_entry] [0, 0] (replicate 32 1)) [''etc/passwd'' \<mapsto> 77] = Inr out \<and>
     ParseTSM out = Inr r \<and> map e_Ctime (m_Entries r) = [77]"
proof -
  have hdr: "length ex_header = 64" "take 4 ex_header = TSMMagic" "unat (Uint64 (slice_of ex_header 8 16)) = length [ex_entry]"
    by (simp_all add: ex_header_def tsmHeader_def ex_manifest_def AddEntry_def NewTSMWriter_def TSMMagic_def slice_of_def)
  have es: "\<forall>e \<in> set [ex_entry]. wf_entry e" using ex_entry_wf by simp
  define m where "m = [''etc/passwd'' \<mapsto> 77 :: u64]"
  define f where "f = tsmFile ex_header [ex_entry] [0, 0] (replicate 32 1)"
  obtain r where r: "ParseTSM f = Inr r" "map e_Path (m_Entries r) = [''etc/passwd'']"
    unfolding f_def by (simp add: ParseTSM_tsmFile [OF es hdr]) (simp add: ex_entry_def)
  have c: "map e_Ctime (map (patchEntry m) (m_Entries r)) = [77]"
    using r(2) by (auto simp: patchEntry_def m_def)
  have "\<exists>out. PatchEntryCtimes f m = Inr out \<and> ParseTSM out = Inr (r\<lparr> m_Entries := map (patchEntry m) (m_Entries r) \<rparr>)"
    unfolding f_def by (rule PatchEntryCtimes_correct [OF es hdr(1,2) _ hdr(3)]) (simp_all add: r(1) flip: f_def)
  then obtain out where out: "PatchEntryCtimes f m = Inr out"
    "ParseTSM out = Inr (r\<lparr> m_Entries := map (patchEntry m) (m_Entries r) \<rparr>)" by (elim exE conjE)
  show ?thesis
    unfolding f_def [symmetric] m_def [symmetric]
    by (intro exI conjI) (rule out(1), rule out(2), simp add: c del: map_map)
qed

end
