(* ===== verification/Bloom.thy ===== *)
theory Bloom
  imports Prelude
begin

text \<open>
  The Bloom filter of \<^verbatim>\<open>tsm/bloom.go\<close>: double hashing of a digest into a packed bit array. The
  floating-point sizing formulas are a parameter (bit count and probe count for \<open>n\<close> keys);
  the clamps and the rounding of the code are modelled. The result is the contract a client
  of the filter needs, stated as the locale \<open>approx_set\<close>: no false negatives.
\<close>

unbundle bit_operations_syntax

section \<open>Interface: an approximate set\<close>

locale approx_set =
  fixes ins :: "'k \<Rightarrow> 's \<Rightarrow> 's" and qry :: "'s \<Rightarrow> 'k \<Rightarrow> bool" and inv :: "'s \<Rightarrow> bool" and ok :: "'k \<Rightarrow> bool"
  assumes ins_inv: "inv s \<Longrightarrow> inv (ins x s)"
    and qry_ins: "\<lbrakk>inv s; ok x\<rbrakk> \<Longrightarrow> qry (ins x s) x"
    and qry_mono: "\<lbrakk>inv s; qry s y\<rbrakk> \<Longrightarrow> qry (ins x s) y"
begin

lemma fold_inv: "inv s \<Longrightarrow> inv (fold ins xs s)"
  by (induction xs arbitrary: s) (simp_all add: ins_inv)

lemma fold_mono: "\<lbrakk>inv s; qry s y\<rbrakk> \<Longrightarrow> qry (fold ins xs s) y"
  by (induction xs arbitrary: s) (simp_all add: ins_inv qry_mono)

lemma no_false_negatives: "\<lbrakk>inv s; ok x; x \<in> set xs\<rbrakk> \<Longrightarrow> qry (fold ins xs s) x"
proof (induction xs arbitrary: s)
  case (Cons y ys)
  show ?case
  proof (cases "x = y")
    case True
    with Cons.prems show ?thesis by (simp add: fold_mono ins_inv qry_ins)
  next
    case False
    with Cons show ?thesis by (simp add: ins_inv)
  qed
qed simp

end

section \<open>Definitions\<close>

record bloomFilter =
  bl_bits :: "u64 list"
  bl_bitsLen :: u64
  bl_k :: nat

text \<open>
  \<open>sizing n = (m, k)\<close> stands for the two float formulas \<^verbatim>\<open>Ceil(-n*ln(fp)/ln2^2)\<close> and
  \<^verbatim>\<open>Ceil(ln2*m/n)\<close> at the rate \<open>fp\<close>.
\<close>

definition newBloomFilter :: "(nat \<Rightarrow> nat \<times> nat) \<Rightarrow> u64 \<Rightarrow> bloomFilter" where
  "newBloomFilter sizing n =
     (if n = 0 then \<lparr> bl_bits = [], bl_bitsLen = 0, bl_k = 0 \<rparr>
      else
        let (m0, k0) = sizing (unat n);
            m = (if m0 < 64 then 64 else m0);
            k = (if k0 < 1 then 1 else k0);
            bitsLen = (word_of_nat m :: u64);
            bitsLen' = (if bitsLen mod 64 \<noteq> 0 then bitsLen + (64 - bitsLen mod 64) else bitsLen)
        in \<lparr> bl_bits = replicate (unat (bitsLen' div 64)) 0, bl_bitsLen = bitsLen', bl_k = k \<rparr>)"

definition bloomHashes :: "bytes \<Rightarrow> u64 \<times> u64" where
  "bloomHashes sha =
     (let h1 = Uint64 (slice_of sha 0 8); h2 = Uint64 (slice_of sha 8 16)
      in (h1, if h2 = 0 then 1 else h2))"

definition probe :: "bloomFilter \<Rightarrow> bytes \<Rightarrow> nat \<Rightarrow> u64" where
  "probe b sha i = (let (h1, h2) = bloomHashes sha in (h1 + word_of_nat i * h2) mod bl_bitsLen b)"

definition setBit :: "u64 \<Rightarrow> u64 list \<Rightarrow> u64 list" where
  "setBit pos bits =
     bits[unat (pos div 64) := bits ! unat (pos div 64) OR push_bit (unat (pos mod 64)) 1]"

definition bloom_add :: "bytes \<Rightarrow> bloomFilter \<Rightarrow> bloomFilter" where
  "bloom_add sha b =
     (if bl_bitsLen b = 0 then b
      else b\<lparr> bl_bits := fold (\<lambda>i. setBit (probe b sha i)) [0..<bl_k b] (bl_bits b) \<rparr>)"

definition testBit :: "u64 \<Rightarrow> u64 list \<Rightarrow> bool" where
  "testBit pos bits = (bits ! unat (pos div 64) AND push_bit (unat (pos mod 64)) 1 \<noteq> 0)"

definition bloom_test :: "bloomFilter \<Rightarrow> bytes \<Rightarrow> bool" where
  "bloom_test b sha =
     (if bl_bitsLen b = 0 then False
      else list_all (\<lambda>i. testBit (probe b sha i) (bl_bits b)) [0..<bl_k b])"

section \<open>No false negatives\<close>

definition bloom_inv :: "bloomFilter \<Rightarrow> bool" where
  "bloom_inv b = (bl_bitsLen b \<noteq> 0 \<and> unat (bl_bitsLen b) = 64 * length (bl_bits b))"

lemma probe_range:
  assumes "bloom_inv b"
  shows "unat (probe b sha i div 64) < length (bl_bits b)"
proof -
  have "0 < unat (bl_bitsLen b)" using assms by (metis bloom_inv_def gr0I unat_0_iff)
  then have "unat (probe b sha i) < unat (bl_bitsLen b)"
    by (simp add: probe_def unat_mod split: prod.splits)
  then show ?thesis using assms by (simp add: bloom_inv_def unat_div)
qed

lemma length_setBit [simp]: "length (setBit pos bits) = length bits"
  by (simp add: setBit_def)

lemma testBit_bit: "testBit pos bits = bit (bits ! unat (pos div 64)) (unat (pos mod 64))"
  by (auto simp: testBit_def push_bit_of_1 and_exp_eq_0_iff_not_bit)

lemma testBit_setBit_mono: "testBit q bits \<Longrightarrow> testBit q (setBit p bits)"
proof (cases "unat (q div 64) = unat (p div 64)")
  case True
  assume "testBit q bits"
  with True show ?thesis
    by (cases "unat (p div 64) < length bits") (simp_all add: testBit_bit setBit_def bit_or_iff list_update_beyond)
qed (simp add: testBit_bit setBit_def)

lemma testBit_setBit_same:
  assumes "unat (p div 64) < length bits"
  shows "testBit p (setBit p bits)"
proof -
  have "unat (p mod 64) < 64" by (simp add: unat_mod)
  then show ?thesis
    using assms by (simp add: testBit_bit setBit_def bit_or_iff push_bit_of_1 bit_exp_iff)
qed

lemma testBit_fold_mono: "testBit q bits \<Longrightarrow> testBit q (fold (\<lambda>i. setBit (f i)) xs bits)"
  by (induction xs arbitrary: bits) (simp_all add: testBit_setBit_mono)

lemma testBit_fold:
  "\<lbrakk>i \<in> set xs; \<forall>j \<in> set xs. unat (f j div 64) < length bits\<rbrakk>
   \<Longrightarrow> testBit (f i) (fold (\<lambda>i. setBit (f i)) xs bits)"
proof (induction xs arbitrary: bits)
  case (Cons x xs)
  then show ?case
    by (cases "i = x") (auto simp: testBit_fold_mono testBit_setBit_same)
qed simp

lemma length_fold_setBit [simp]: "length (fold (\<lambda>i. setBit (f i)) xs bits) = length bits"
  by (induction xs arbitrary: bits) simp_all

lemma probe_bits [simp]: "probe (b\<lparr> bl_bits := x \<rparr>) sha i = probe b sha i"
  by (simp add: probe_def)

interpretation bf: approx_set bloom_add bloom_test bloom_inv "\<lambda>_. True"
proof unfold_locales
  fix b x y
  assume inv: "bloom_inv b"
  show "bloom_inv (bloom_add x b)" using inv by (simp add: bloom_inv_def bloom_add_def)
  show "bloom_test (bloom_add x b) x"
    using inv probe_range [OF inv]
    by (auto simp: bloom_test_def bloom_add_def bloom_inv_def list_all_iff intro!: testBit_fold)
  assume "bloom_test b y"
  then show "bloom_test (bloom_add x b) y"
    by (auto simp: bloom_test_def bloom_add_def list_all_iff testBit_fold_mono split: if_splits)
qed

lemma newBloomFilter_inv:
  assumes "n \<noteq> 0" "fst (sizing (unat n)) < 2 ^ 63"
  shows "bloom_inv (newBloomFilter sizing n)"
proof -
  obtain m0 k0 where mk: "sizing (unat n) = (m0, k0)" by fastforce
  define m where "m = (if m0 < 64 then 64 else m0)"
  have m: "64 \<le> m" "m < 2 ^ 63" using assms(2) mk by (auto simp: m_def)
  let ?w = "word_of_nat m :: u64"
  let ?r = "if ?w mod 64 \<noteq> 0 then ?w + (64 - ?w mod 64) else ?w"
  have w: "unat ?w = m" using m by (simp add: unat_of_nat)
  define R where "R = (if m mod 64 \<noteq> 0 then m + (64 - m mod 64) else m)"
  have uR: "unat ?r = R"
  proof (cases "m mod 64 = 0")
    case True
    then have "?w mod 64 = 0" using w by (simp add: word_unat_eq_iff unat_mod)
    with True w show ?thesis by (simp add: R_def)
  next
    case False
    have md: "unat (?w mod 64) = m mod 64" using w by (simp add: unat_mod)
    then have "?w mod 64 \<noteq> 0" using False by (metis unat_0)
    moreover have "unat (64 - ?w mod 64) = 64 - m mod 64"
    proof -
      have "m mod 64 < 64" by simp
      then have "?w mod 64 \<le> 64" using md by (simp add: word_le_nat_alt)
      then show ?thesis using md by (simp add: unat_sub)
    qed
    moreover have "m + (64 - m mod 64) < 2 ^ 64" using m by simp
    ultimately show ?thesis using False w by (simp add: R_def unat_plus_if')
  qed
  have "(m + (64 - m mod 64)) mod 64 = 0"
  proof -
    have "m' + (64 - r) = 64 * (q + 1)" if "r < 64" "64 * q + r = m'" for m' q r :: nat
      using that by auto
    from this [of "m mod 64" "m div 64" m] have "m + (64 - m mod 64) = 64 * (m div 64 + 1)" by simp
    then show ?thesis by simp
  qed
  then have "64 \<le> R" "R mod 64 = 0" using m(1) by (auto simp: R_def)
  define rr where "rr = ?r"
  have r: "64 \<le> unat rr" "unat rr mod 64 = 0" using \<open>64 \<le> R\<close> \<open>R mod 64 = 0\<close> uR by (simp_all only: rr_def)
  have "rr \<noteq> 0" using r(1) by auto
  moreover have "unat rr = 64 * unat (rr div 64)"
    using r(2) mult_div_mod_eq [of 64 "unat rr"] by (simp add: unat_div)
  ultimately have "bloom_inv \<lparr> bl_bits = replicate (unat (rr div 64)) 0, bl_bitsLen = rr, bl_k = kk \<rparr>" for kk
    by (simp add: bloom_inv_def)
  moreover have "newBloomFilter sizing n = \<lparr> bl_bits = replicate (unat (rr div 64)) 0, bl_bitsLen = rr,
      bl_k = (if k0 < 1 then 1 else k0) \<rparr>"
    using assms(1) by (simp only: newBloomFilter_def mk Let_def rr_def prod.case m_def if_False)
  ultimately show ?thesis by metis
qed

end
