(* ===== verification/Chunk_Index.thy ===== *)
theory Chunk_Index
  imports Prelude Sha256 Chunking Tsc Tsm Bloom
begin

text \<open>
  The local chunk index, \<^verbatim>\<open>tsm/chunkindex.go\<close> and \<^verbatim>\<open>tsm/chunklookup.go\<close>: discovery of the snapshots, the
  Bloom filter, raw binary search in \<^verbatim>\<open>.tsc\<close> bytes, lazily built location maps, the two LRU
  caches, the negative cache and the MRU order. All methods run under the index's mutex, so
  they are modelled as state transformers. The main result is that none of the caches is
  visible: \<^verbatim>\<open>FindChunk\<close> returns what a fresh scan of the disk in MRU order would return.
\<close>

section \<open>The disk\<close>

record disk =
  d_files :: fsys
  d_dirs :: "string set"

definition stat_ok :: "disk \<Rightarrow> string \<Rightarrow> bool" where
  "stat_ok d p = (d_files d p \<noteq> None \<or> p \<in> d_dirs d)"

section \<open>Locations\<close>

record ChunkLocation =
  l_SHA256 :: bytes
  l_Filename :: string
  l_Offset :: nat
  l_Size :: u32

definition ReadData :: "disk \<Rightarrow> ChunkLocation \<Rightarrow> bytes option" where
  "ReadData d loc =
     (case d_files d (l_Filename loc) of
        None \<Rightarrow> None
      | Some f \<Rightarrow>
          let data = slice_of f (l_Offset loc) (l_Offset loc + unat (l_Size loc))
          in if length data < unat (l_Size loc) then None else Some data)"

definition VerifyAndRead :: "disk \<Rightarrow> ChunkLocation \<Rightarrow> bytes option" where
  "VerifyAndRead d loc =
     (case ReadData d loc of
        None \<Rightarrow> None
      | Some data \<Rightarrow> if BlobSHA256 data \<noteq> l_SHA256 loc then None else Some data)"

section \<open>Raw views of chunk files\<close>

record tscView =
  v_data :: bytes
  v_count :: int

definition newTSCView :: "bytes \<Rightarrow> tscView option" where
  "newTSCView content =
     (if length content < TSCHeaderSize then None
      else Some \<lparr> v_data = content, v_count = sint (Uint64 (slice_of content 8 16)) \<rparr>)"

definition view_lookup :: "tscView \<Rightarrow> bytes \<Rightarrow> u32 option" where
  "view_lookup v sha =
     (if v_count v = 0 then None
      else
        let idx = sort_Search (nat (v_count v)) (\<lambda>i.
                    let off = TSCHeaderSize + i * TSCEntrySize in
                    if off + 32 > length (v_data v) then True
                    else sha \<le> slice_of (v_data v) off (off + 32))
        in if int idx < v_count v then
             let off = TSCHeaderSize + idx * TSCEntrySize in
             if off + TSCEntrySize > length (v_data v) then None
             else if slice_of (v_data v) off (off + 32) = sha
             then Some (Uint32 (slice_of (v_data v) (off + 32) (off + 36)))
             else None
           else None)"

definition entryByIndex :: "tscView \<Rightarrow> nat \<Rightarrow> (bytes \<times> u32) option" where
  "entryByIndex v i =
     (if int i \<ge> v_count v then None
      else
        let off = TSCHeaderSize + i * TSCEntrySize in
        if off + TSCEntrySize > length (v_data v) then None
        else Some (slice_of (v_data v) off (off + 32), Uint32 (slice_of (v_data v) (off + 32) (off + 36))))"

datatype index_error = IdxReadFailed | IdxTooShort | IdxBadMagic | IdxCountLarge | IdxShortContent
  | IdxCountMismatch | IdxChecksum | IdxReadDirFailed

definition checkTSCCountConsistent :: "u64 \<Rightarrow> int \<Rightarrow> index_error option" where
  "checkTSCCountConsistent cnt contentLen =
     (if unat cnt > 2 ^ 32 then Some IdxCountLarge
      else
        let entriesLen = contentLen - int TSCHeaderSize in
        if entriesLen < 0 then Some IdxShortContent
        else if int (unat cnt) * int TSCEntrySize \<noteq> entriesLen then Some IdxCountMismatch
        else None)"

definition readTSCChunkCount :: "disk \<Rightarrow> string \<Rightarrow> index_error + u64" where
  "readTSCChunkCount d path =
     (case d_files d path of
        None \<Rightarrow> Inl IdxReadFailed
      | Some f \<Rightarrow>
          if length f < TSCHeaderSize then Inl IdxTooShort
          else if slice_of f 0 4 \<noteq> TSCMagic then Inl IdxBadMagic
          else
            let cnt = Uint64 (slice_of f 8 16) in
            (case checkTSCCountConsistent cnt (int (length f) - int TSCFooterSize) of
               Some e \<Rightarrow> Inl e | None \<Rightarrow> Inr cnt))"

definition readTSCContent :: "disk \<Rightarrow> string \<Rightarrow> index_error + bytes" where
  "readTSCContent d path =
     (case d_files d path of
        None \<Rightarrow> Inl IdxReadFailed
      | Some data \<Rightarrow>
          if length data < TSCHeaderSize + TSCFooterSize then Inl IdxTooShort
          else if slice_of data 0 4 \<noteq> TSCMagic then Inl IdxBadMagic
          else (case checkTSCCountConsistent (Uint64 (slice_of data 8 16)) (int (length data - TSCFooterSize)) of
                  Some e \<Rightarrow> Inl e
                | None \<Rightarrow> Inr (take (length data - TSCFooterSize) data)))"

definition readTSCContentValidated :: "disk \<Rightarrow> string \<Rightarrow> index_error + bytes" where
  "readTSCContentValidated d path =
     (case d_files d path of
        None \<Rightarrow> Inl IdxReadFailed
      | Some data \<Rightarrow>
          if length data < TSCHeaderSize + TSCFooterSize then Inl IdxTooShort
          else if slice_of data 0 4 \<noteq> TSCMagic then Inl IdxBadMagic
          else (case checkTSCCountConsistent (Uint64 (slice_of data 8 16)) (int (length data - TSCFooterSize)) of
                  Some e \<Rightarrow> Inl e
                | None \<Rightarrow>
                    let footer = drop (length data - TSCFooterSize) data;
                        content = take (length data - TSCFooterSize) data
                    in if sha256 content \<noteq> footer then Inl IdxChecksum else Inr content))"

fun streamLoop :: "bytes \<Rightarrow> (bytes \<Rightarrow> 's \<Rightarrow> 's) \<Rightarrow> nat \<Rightarrow> nat \<Rightarrow> 's \<Rightarrow> 's" where
  "streamLoop content fn 0 off st = st"
| "streamLoop content fn (Suc k) off st =
     (let end = off + TSCEntrySize in
      if end > length content then st
      else streamLoop content fn k end (fn (slice_of content off (off + 32)) st))"

definition streamTSCSHAs :: "bytes \<Rightarrow> (bytes \<Rightarrow> 's \<Rightarrow> 's) \<Rightarrow> 's \<Rightarrow> 's" where
  "streamTSCSHAs content fn st =
     (if length content < TSCHeaderSize then st
      else streamLoop content fn (nat (sint (Uint64 (slice_of content 8 16)))) TSCHeaderSize st)"

section \<open>The index\<close>

record chunkLoc =
  cl_fileIdx :: u32
  cl_offset :: nat

record snapIdx =
  sn_id :: string
  sn_dir :: string
  sn_tscPath :: string
  sn_tsmPath :: string
  sn_tsc :: "tscView option"
  sn_tscLoaded :: bool
  sn_locMap :: "(bytes \<rightharpoonup> chunkLoc) option"
  sn_locBuilt :: bool
  sn_filePaths :: "string list"

record ChunkIndex =
  ci_dir :: string
  ci_snaps :: "snapIdx list"
  ci_bloom :: "bloomFilter option"
  ci_absent :: "bytes list option"
  ci_maxAbsent :: nat
  ci_maxOpenTSC :: nat
  ci_maxLocMaps :: nat

definition defaultMaxOpenTSC :: nat where "defaultMaxOpenTSC = 16"
definition defaultMaxLocMaps :: nat where "defaultMaxLocMaps = 8"
definition defaultMaxAbsentCache :: nat where "defaultMaxAbsentCache = 2 ^ 20"

text \<open>
  Eviction: the snapshots are in MRU order, so the victim is the last loaded one that is not
  the one to keep (pointer equality in the code, its position here). The loop runs at most
  \<open>loaded - max\<close> times and stops early when there is no victim.
\<close>

definition tscHeld :: "snapIdx \<Rightarrow> bool" where
  "tscHeld s = (sn_tscLoaded s \<and> sn_tsc s \<noteq> None)"

definition locHeld :: "snapIdx \<Rightarrow> bool" where
  "locHeld s = (sn_locBuilt s \<and> sn_locMap s \<noteq> None)"

definition victim :: "(snapIdx \<Rightarrow> bool) \<Rightarrow> nat \<Rightarrow> snapIdx list \<Rightarrow> nat option" where
  "victim held keep snaps = find (\<lambda>j. j \<noteq> keep \<and> held (snaps ! j)) (rev [0..<length snaps])"

primrec evictLoop :: "(snapIdx \<Rightarrow> bool) \<Rightarrow> (snapIdx \<Rightarrow> snapIdx) \<Rightarrow> nat \<Rightarrow> nat \<Rightarrow> snapIdx list \<Rightarrow> snapIdx list" where
  "evictLoop held clear keep 0 snaps = snaps"
| "evictLoop held clear keep (Suc n) snaps =
     (case victim held keep snaps of
        None \<Rightarrow> snaps
      | Some j \<Rightarrow> evictLoop held clear keep n (snaps[j := clear (snaps ! j)]))"

definition clearTSC :: "snapIdx \<Rightarrow> snapIdx" where
  "clearTSC s = s\<lparr> sn_tsc := None, sn_tscLoaded := False \<rparr>"

definition clearLoc :: "snapIdx \<Rightarrow> snapIdx" where
  "clearLoc s = s\<lparr> sn_locMap := None, sn_locBuilt := False, sn_filePaths := [] \<rparr>"

definition evictLRUTSCLocked :: "nat \<Rightarrow> ChunkIndex \<Rightarrow> ChunkIndex" where
  "evictLRUTSCLocked keep ci =
     ci\<lparr> ci_snaps := evictLoop tscHeld clearTSC keep
           (length (filter tscHeld (ci_snaps ci)) - ci_maxOpenTSC ci) (ci_snaps ci) \<rparr>"

definition evictLRULocMapLocked :: "nat \<Rightarrow> ChunkIndex \<Rightarrow> ChunkIndex" where
  "evictLRULocMapLocked keep ci =
     ci\<lparr> ci_snaps := evictLoop locHeld clearLoc keep
           (length (filter locHeld (ci_snaps ci)) - ci_maxLocMaps ci) (ci_snaps ci) \<rparr>"

definition upd_snap :: "nat \<Rightarrow> (snapIdx \<Rightarrow> snapIdx) \<Rightarrow> ChunkIndex \<Rightarrow> ChunkIndex" where
  "upd_snap i f ci = ci\<lparr> ci_snaps := (ci_snaps ci)[i := f (ci_snaps ci ! i)] \<rparr>"

definition loadTSCLocked :: "disk \<Rightarrow> nat \<Rightarrow> ChunkIndex \<Rightarrow> ChunkIndex" where
  "loadTSCLocked d i ci =
     (case readTSCContent d (sn_tscPath (ci_snaps ci ! i)) of
        Inl _ \<Rightarrow> upd_snap i (\<lambda>s. s\<lparr> sn_tscLoaded := True, sn_tsc := None \<rparr>) ci
      | Inr content \<Rightarrow>
          evictLRUTSCLocked i (upd_snap i (\<lambda>s. s\<lparr> sn_tscLoaded := True, sn_tsc := newTSCView content \<rparr>) ci))"

fun addRefs :: "tscView \<Rightarrow> u32 \<Rightarrow> u32 list \<Rightarrow> nat \<Rightarrow> (bytes \<rightharpoonup> chunkLoc) \<Rightarrow> (bytes \<rightharpoonup> chunkLoc)" where
  "addRefs v fileIdx [] off m = m"
| "addRefs v fileIdx (tscIdx # rest) off m =
     (case entryByIndex v (unat tscIdx) of
        None \<Rightarrow> m
      | Some (sha, sz) \<Rightarrow>
          addRefs v fileIdx rest (off + unat sz)
            (if m sha = None then m(sha \<mapsto> \<lparr> cl_fileIdx = fileIdx, cl_offset = off \<rparr>) else m))"

fun buildLocs :: "disk \<Rightarrow> tscView \<Rightarrow> string \<Rightarrow> TSMEntry list \<Rightarrow> (bytes \<rightharpoonup> chunkLoc) \<Rightarrow> string list
    \<Rightarrow> (bytes \<rightharpoonup> chunkLoc) \<times> string list" where
  "buildLocs d v dir [] m paths = (m, paths)"
| "buildLocs d v dir (fe # rest) m paths =
     (if e_Type fe \<noteq> EntryTypeFile \<or> e_ChunkCount fe = 0 then buildLocs d v dir rest m paths
      else
        let fp = filepath_Join [dir, e_Path fe] in
        if \<not> stat_ok d fp then buildLocs d v dir rest m paths
        else buildLocs d v dir rest
               (addRefs v (word_of_nat (length paths)) (e_ChunkRefs fe) 0 m) (paths @ [fp]))"

definition buildLocMapLocked :: "disk \<Rightarrow> nat \<Rightarrow> ChunkIndex \<Rightarrow> ChunkIndex" where
  "buildLocMapLocked d i ci =
     (let ci1 = upd_snap i (\<lambda>s. s\<lparr> sn_locBuilt := True \<rparr>) ci; s = ci_snaps ci1 ! i in
      case sn_tsc s of
        None \<Rightarrow> ci1
      | Some v \<Rightarrow>
          (case ReadTSM (d_files d) (sn_tsmPath s) of
             Inl _ \<Rightarrow> ci1
           | Inr tsm \<Rightarrow>
               let (m, paths) = buildLocs d v (sn_dir s) (m_Entries tsm) Map.empty []
               in evictLRULocMapLocked i
                    (upd_snap i (\<lambda>s. s\<lparr> sn_locMap := Some m, sn_filePaths := paths \<rparr>) ci1)))"

definition moveToFrontLocked :: "nat \<Rightarrow> ChunkIndex \<Rightarrow> ChunkIndex" where
  "moveToFrontLocked i ci =
     (if i = 0 then ci
      else ci\<lparr> ci_snaps := (ci_snaps ci ! i) # take i (ci_snaps ci) @ drop (Suc i) (ci_snaps ci) \<rparr>)"

definition ensureTSC :: "disk \<Rightarrow> nat \<Rightarrow> ChunkIndex \<Rightarrow> ChunkIndex" where
  "ensureTSC d i ci = (if \<not> sn_tscLoaded (ci_snaps ci ! i) then loadTSCLocked d i ci else ci)"

definition ensureLoc :: "disk \<Rightarrow> nat \<Rightarrow> ChunkIndex \<Rightarrow> ChunkIndex" where
  "ensureLoc d i ci = (if \<not> sn_locBuilt (ci_snaps ci ! i) then buildLocMapLocked d i ci else ci)"

definition locOf :: "snapIdx \<Rightarrow> bytes \<Rightarrow> chunkLoc option" where
  "locOf s sha = (case sn_locMap s of None \<Rightarrow> None | Some m \<Rightarrow> m sha)"

text \<open>The scan of \<^verbatim>\<open>FindChunk\<close>: \<open>todo\<close> snapshots are left from position \<open>i\<close> on.\<close>

fun findLoop :: "disk \<Rightarrow> bytes \<Rightarrow> nat \<Rightarrow> nat \<Rightarrow> ChunkIndex \<Rightarrow> ChunkLocation option \<times> ChunkIndex" where
  "findLoop d sha 0 i ci = (None, ci)"
| "findLoop d sha (Suc todo) i ci =
     (let ci1 = ensureTSC d i ci in
      case sn_tsc (ci_snaps ci1 ! i) of
        None \<Rightarrow> findLoop d sha todo (i + 1) ci1
      | Some v \<Rightarrow>
          (case view_lookup v sha of
             None \<Rightarrow> findLoop d sha todo (i + 1) ci1
           | Some sz \<Rightarrow>
               let ci2 = ensureLoc d i ci1; s = ci_snaps ci2 ! i in
               (case locOf s sha of
                  None \<Rightarrow> findLoop d sha todo (i + 1) ci2
                | Some loc \<Rightarrow>
                    (Some \<lparr> l_SHA256 = sha, l_Filename = sn_filePaths s ! unat (cl_fileIdx loc),
                            l_Offset = cl_offset loc, l_Size = sz \<rparr>,
                     moveToFrontLocked i ci2))))"

definition isAbsent :: "ChunkIndex \<Rightarrow> bytes \<Rightarrow> bool" where
  "isAbsent ci sha = (case ci_absent ci of None \<Rightarrow> False | Some xs \<Rightarrow> sha \<in> set xs)"

definition FindChunk :: "disk \<Rightarrow> bytes \<Rightarrow> ChunkIndex \<Rightarrow> ChunkLocation option \<times> ChunkIndex" where
  "FindChunk d sha ci =
     (if (case ci_bloom ci of Some b \<Rightarrow> \<not> bloom_test b sha | None \<Rightarrow> False) then (None, ci)
      else if isAbsent ci sha then (None, ci)
      else
        (case findLoop d sha (length (ci_snaps ci)) 0 ci of
           (Some loc, ci') \<Rightarrow> (Some loc, ci')
         | (None, ci') \<Rightarrow>
             (None, case ci_absent ci' of
                      Some xs \<Rightarrow> if length xs < ci_maxAbsent ci' then ci'\<lparr> ci_absent := Some (sha # xs) \<rparr> else ci'
                    | None \<Rightarrow> ci')))"

definition SnapCount :: "ChunkIndex \<Rightarrow> nat" where
  "SnapCount ci = length (ci_snaps ci)"

section \<open>Opening the index\<close>

datatype readdir = DirNotExist | DirError | DirEntries "(string \<times> bool) list"

definition newSnap :: "string \<Rightarrow> string \<Rightarrow> snapIdx" where
  "newSnap snapsDir base =
     \<lparr> sn_id = base, sn_dir = filepath_Join [snapsDir, base], sn_tscPath = filepath_Join [snapsDir, base @ ''.tsc''],
       sn_tsmPath = filepath_Join [snapsDir, base @ ''.tsm''], sn_tsc = None, sn_tscLoaded = False,
       sn_locMap = None, sn_locBuilt = False, sn_filePaths = [] \<rparr>"

fun discover :: "disk \<Rightarrow> string \<Rightarrow> (string \<times> bool) list \<Rightarrow> snapIdx list \<times> u64" where
  "discover d snapsDir [] = ([], 0)"
| "discover d snapsDir ((name, isDir) # rest) =
     (let others = discover d snapsDir rest; base = TrimSuffix name ''.tsc''; s = newSnap snapsDir base in
      if isDir \<or> \<not> HasSuffix name ''.tsc'' \<or> HasSuffix base ''.tmp'' then others
      else if \<not> stat_ok d (sn_tsmPath s) \<or> \<not> stat_ok d (sn_dir s) then others
      else (case readTSCChunkCount d (sn_tscPath s) of
              Inl _ \<Rightarrow> others
            | Inr cnt \<Rightarrow> (s # fst others, cnt + snd others)))"

fun populate :: "disk \<Rightarrow> snapIdx list \<Rightarrow> bloomFilter \<Rightarrow> snapIdx list \<times> bloomFilter" where
  "populate d [] b = ([], b)"
| "populate d (s # rest) b =
     (case readTSCContentValidated d (sn_tscPath s) of
        Inl _ \<Rightarrow> populate d rest b
      | Inr content \<Rightarrow>
          let (good, b') = populate d rest (streamTSCSHAs content bloom_add b) in (s # good, b'))"

definition OpenChunkIndexWith :: "(nat \<Rightarrow> nat \<times> nat) \<Rightarrow> disk \<Rightarrow> readdir \<Rightarrow> string \<Rightarrow> int \<Rightarrow> int \<Rightarrow> index_error + ChunkIndex" where
  "OpenChunkIndexWith sizing d rd snapsDir maxOpenTSC maxLocMaps =
     (let ci = \<lparr> ci_dir = snapsDir, ci_snaps = [], ci_bloom = None, ci_absent = Some [],
                 ci_maxAbsent = defaultMaxAbsentCache,
                 ci_maxOpenTSC = (if maxOpenTSC \<le> 0 then defaultMaxOpenTSC else nat maxOpenTSC),
                 ci_maxLocMaps = (if maxLocMaps \<le> 0 then defaultMaxLocMaps else nat maxLocMaps) \<rparr>
      in case rd of
           DirNotExist \<Rightarrow> Inr ci
         | DirError \<Rightarrow> Inl IdxReadDirFailed
         | DirEntries entries \<Rightarrow>
             let (snaps, totalChunks) = discover d snapsDir entries;
                 (good, bloom) = populate d (sort_key sn_id snaps) (newBloomFilter sizing totalChunks)
             in Inr (ci\<lparr> ci_snaps := good, ci_bloom := Some bloom \<rparr>))"

definition OpenChunkIndex :: "(nat \<Rightarrow> nat \<times> nat) \<Rightarrow> disk \<Rightarrow> readdir \<Rightarrow> string \<Rightarrow> index_error + ChunkIndex" where
  "OpenChunkIndex sizing d rd snapsDir = OpenChunkIndexWith sizing d rd snapsDir 0 0"

section \<open>The abstract index\<close>

text \<open>What a snapshot holds according to the disk alone, with no cache involved.\<close>

definition sn_key :: "snapIdx \<Rightarrow> string \<times> string \<times> string \<times> string" where
  "sn_key s = (sn_id s, sn_dir s, sn_tscPath s, sn_tsmPath s)"

definition snap_view :: "disk \<Rightarrow> snapIdx \<Rightarrow> tscView option" where
  "snap_view d s = (case readTSCContent d (sn_tscPath s) of Inl _ \<Rightarrow> None | Inr c \<Rightarrow> newTSCView c)"

definition snap_locs :: "disk \<Rightarrow> snapIdx \<Rightarrow> ((bytes \<rightharpoonup> chunkLoc) \<times> string list) option" where
  "snap_locs d s =
     (case snap_view d s of
        None \<Rightarrow> None
      | Some v \<Rightarrow> (case ReadTSM (d_files d) (sn_tsmPath s) of
                     Inl _ \<Rightarrow> None
                   | Inr tsm \<Rightarrow> Some (buildLocs d v (sn_dir s) (m_Entries tsm) Map.empty [])))"

definition resolve :: "disk \<Rightarrow> bytes \<Rightarrow> snapIdx \<Rightarrow> ChunkLocation option" where
  "resolve d sha s =
     (case snap_view d s of
        None \<Rightarrow> None
      | Some v \<Rightarrow>
          (case view_lookup v sha of
             None \<Rightarrow> None
           | Some sz \<Rightarrow>
               (case snap_locs d s of
                  None \<Rightarrow> None
                | Some (m, paths) \<Rightarrow>
                    map_option (\<lambda>loc. \<lparr> l_SHA256 = sha, l_Filename = paths ! unat (cl_fileIdx loc),
                                       l_Offset = cl_offset loc, l_Size = sz \<rparr>) (m sha))))"

lemma spec_cong:
  assumes "sn_key s = sn_key t"
  shows "snap_view d s = snap_view d t" "snap_locs d s = snap_locs d t" "resolve d sha s = resolve d sha t"
proof -
  show v: "snap_view d s = snap_view d t" using assms by (simp add: snap_view_def sn_key_def)
  have "sn_tsmPath s = sn_tsmPath t" "sn_dir s = sn_dir t" using assms by (simp_all add: sn_key_def)
  then show "snap_locs d s = snap_locs d t" by (simp only: snap_locs_def v)
  then show "resolve d sha s = resolve d sha t" by (simp only: resolve_def v)
qed

lemma sn_key_upd [simp]:
  "sn_key (s\<lparr> sn_tsc := a \<rparr>) = sn_key s" "sn_key (s\<lparr> sn_tscLoaded := b \<rparr>) = sn_key s"
  "sn_key (s\<lparr> sn_locMap := c \<rparr>) = sn_key s" "sn_key (s\<lparr> sn_locBuilt := e \<rparr>) = sn_key s"
  "sn_key (s\<lparr> sn_filePaths := f \<rparr>) = sn_key s"
  by (simp_all add: sn_key_def)

lemma spec_upd [simp]:
  "snap_view d (s\<lparr> sn_tsc := a \<rparr>) = snap_view d s" "snap_view d (s\<lparr> sn_tscLoaded := b \<rparr>) = snap_view d s"
  "snap_view d (s\<lparr> sn_locMap := c \<rparr>) = snap_view d s" "snap_view d (s\<lparr> sn_locBuilt := e \<rparr>) = snap_view d s"
  "snap_view d (s\<lparr> sn_filePaths := f \<rparr>) = snap_view d s"
  "snap_locs d (s\<lparr> sn_tsc := a \<rparr>) = snap_locs d s" "snap_locs d (s\<lparr> sn_tscLoaded := b \<rparr>) = snap_locs d s"
  "snap_locs d (s\<lparr> sn_locMap := c \<rparr>) = snap_locs d s" "snap_locs d (s\<lparr> sn_locBuilt := e \<rparr>) = snap_locs d s"
  "snap_locs d (s\<lparr> sn_filePaths := f \<rparr>) = snap_locs d s"
  by (intro spec_cong; simp)+

definition snap_ok :: "disk \<Rightarrow> snapIdx \<Rightarrow> bool" where
  "snap_ok d s =
     ((if sn_tscLoaded s then sn_tsc s = snap_view d s else sn_tsc s = None) \<and>
      (if sn_locBuilt s then sn_locMap s = map_option fst (snap_locs d s) \<and>
         (case snap_locs d s of None \<Rightarrow> True | Some (m, p) \<Rightarrow> sn_filePaths s = p)
       else sn_locMap s = None))"

primrec first_some :: "('a \<Rightarrow> 'b option) \<Rightarrow> 'a list \<Rightarrow> 'b option" where
  "first_some f [] = None"
| "first_some f (x # xs) = (case f x of None \<Rightarrow> first_some f xs | Some y \<Rightarrow> Some y)"

lemma first_some_None: "first_some f xs = None \<longleftrightarrow> (\<forall>x \<in> set xs. f x = None)"
  by (induction xs) (auto split: option.splits)

lemma first_some_SomeD: "first_some f xs = Some y \<Longrightarrow> \<exists>x \<in> set xs. f x = Some y"
  by (induction xs) (auto split: option.splits)

section \<open>Eviction\<close>

lemma victim_Some:
  "victim held keep snaps = Some j \<Longrightarrow> j \<noteq> keep \<and> j < length snaps \<and> held (snaps ! j)"
  unfolding victim_def by (auto simp: find_Some_iff rev_nth)

lemma victim_None:
  "victim held keep snaps = None \<Longrightarrow> j < length snaps \<Longrightarrow> held (snaps ! j) \<Longrightarrow> j = keep"
  unfolding victim_def find_None_iff by (auto simp del: upt_Suc)

lemma evictLoop_keep: "evictLoop held clear keep n snaps ! keep = snaps ! keep"
proof (induction n arbitrary: snaps)
  case (Suc n)
  show ?case by (auto simp: Suc split: option.splits dest: victim_Some)
qed simp

lemma evictLoop_map:
  assumes "\<And>s. f (clear s) = f s"
  shows "map f (evictLoop held clear keep n snaps) = map f snaps"
proof (induction n arbitrary: snaps)
  case (Suc n)
  have "map f (snaps[j := clear (snaps ! j)]) = map f snaps" for j
    by (cases "j < length snaps") (simp_all add: map_update assms list_update_same_conv list_update_beyond)
  then show ?case by (simp add: Suc split: option.splits)
qed simp

lemma evictLoop_all:
  assumes "\<And>s. P s \<Longrightarrow> P (clear s)" "\<forall>s \<in> set snaps. P s"
  shows "\<forall>s \<in> set (evictLoop held clear keep n snaps). P s"
  using assms(2)
proof (induction n arbitrary: snaps)
  case (Suc n)
  show ?case
  proof (cases "victim held keep snaps")
    case (Some j)
    then have "\<forall>s \<in> set (snaps[j := clear (snaps ! j)]). P s"
      using Suc.prems assms(1) victim_Some [OF Some] by (auto simp: all_set_conv_all_nth nth_list_update)
    with Some Suc.IH show ?thesis by simp
  qed (simp add: Suc.prems)
qed simp

lemma length_filter_update:
  "\<lbrakk>j < length xs; P (xs ! j); \<not> P y\<rbrakk> \<Longrightarrow> length (filter P (xs[j := y])) = length (filter P xs) - 1"
proof (induction xs arbitrary: j)
  case (Cons x xs)
  show ?case
  proof (cases j)
    case 0
    with Cons.prems show ?thesis by simp
  next
    case (Suc k)
    with Cons have IH: "length (filter P (xs[k := y])) = length (filter P xs) - 1" by simp
    have "xs ! k \<in> set (filter P xs)" using Cons.prems Suc by simp
    then have "0 < length (filter P xs)" by (metis length_pos_if_in_set)
    with IH Suc show ?thesis by simp
  qed
qed simp

lemma evictLoop_count:
  assumes "\<And>s. \<not> held (clear s)"
  shows "length (filter held (evictLoop held clear keep n snaps)) \<le> max 1 (length (filter held snaps) - n)"
proof (induction n arbitrary: snaps)
  case (Suc n)
  show ?case
  proof (cases "victim held keep snaps")
    case None
    have "length (filter held snaps) = card {j. j < length snaps \<and> held (snaps ! j)}"
      by (rule length_filter_conv_card)
    also have "\<dots> \<le> card {keep}"
      using victim_None [OF None] by (intro card_mono) auto
    finally show ?thesis using None by simp
  next
    case (Some j)
    have "length (filter held (snaps[j := clear (snaps ! j)])) = length (filter held snaps) - 1"
      using victim_Some [OF Some] assms by (intro length_filter_update) auto
    with Suc.IH [of "snaps[j := clear (snaps ! j)]"] Some show ?thesis by simp
  qed
qed simp

lemma clear_simps [simp]:
  "sn_key (clearTSC s) = sn_key s" "sn_key (clearLoc s) = sn_key s"
  "locHeld (clearTSC s) = locHeld s" "tscHeld (clearLoc s) = tscHeld s"
  "\<not> tscHeld (clearTSC s)" "\<not> locHeld (clearLoc s)"
  by (simp_all add: clearTSC_def clearLoc_def sn_key_def locHeld_def tscHeld_def)

lemma snap_ok_clear: "snap_ok d s \<Longrightarrow> snap_ok d (clearTSC s)" "snap_ok d s \<Longrightarrow> snap_ok d (clearLoc s)"
  by (auto simp: snap_ok_def clearTSC_def clearLoc_def split: option.splits)

section \<open>One step of the scan\<close>

text \<open>
  \<open>step_ok d ci ci'\<close>: the snapshots are the same ones in the same order, caches that were right
  stay right, the caps are kept and the rest of the index is untouched.
\<close>

definition caps :: "ChunkIndex \<Rightarrow> bool" where
  "caps ci = (1 \<le> ci_maxOpenTSC ci \<and> 1 \<le> ci_maxLocMaps ci \<and>
     length (filter tscHeld (ci_snaps ci)) \<le> ci_maxOpenTSC ci \<and>
     length (filter locHeld (ci_snaps ci)) \<le> ci_maxLocMaps ci)"

definition step_ok :: "disk \<Rightarrow> ChunkIndex \<Rightarrow> ChunkIndex \<Rightarrow> bool" where
  "step_ok d ci ci' =
     (map sn_key (ci_snaps ci') = map sn_key (ci_snaps ci) \<and>
      ((\<forall>s \<in> set (ci_snaps ci). snap_ok d s) \<longrightarrow> (\<forall>s \<in> set (ci_snaps ci'). snap_ok d s)) \<and>
      (caps ci \<longrightarrow> caps ci') \<and>
      ci_bloom ci' = ci_bloom ci \<and> ci_absent ci' = ci_absent ci \<and> ci_maxAbsent ci' = ci_maxAbsent ci)"

lemma step_ok_refl: "step_ok d ci ci"
  by (simp add: step_ok_def)

lemma step_ok_trans: "step_ok d a b \<Longrightarrow> step_ok d b c \<Longrightarrow> step_ok d a c"
  by (simp add: step_ok_def)

lemma step_ok_length: "step_ok d ci ci' \<Longrightarrow> length (ci_snaps ci') = length (ci_snaps ci)"
  unfolding step_ok_def by (metis length_map)

lemma step_ok_resolve:
  assumes "step_ok d ci ci'"
  shows "map (resolve d sha) (ci_snaps ci') = map (resolve d sha) (ci_snaps ci)"
proof (rule nth_equalityI)
  fix i assume i: "i < length (map (resolve d sha) (ci_snaps ci'))"
  have "map sn_key (ci_snaps ci') ! i = map sn_key (ci_snaps ci) ! i" using assms by (simp add: step_ok_def)
  then have "sn_key (ci_snaps ci' ! i) = sn_key (ci_snaps ci ! i)"
    using i step_ok_length [OF assms] by simp
  then have "resolve d sha (ci_snaps ci' ! i) = resolve d sha (ci_snaps ci ! i)" by (rule spec_cong(3))
  with i step_ok_length [OF assms] show "map (resolve d sha) (ci_snaps ci') ! i = map (resolve d sha) (ci_snaps ci) ! i"
    by simp
qed (simp add: step_ok_length [OF assms])

lemma filter_length_map: "map P xs = map P ys \<Longrightarrow> length (filter P xs) = length (filter P ys)"
proof -
  have "length (filter P zs) = length (filter id (map P zs))" for zs by (simp add: filter_map o_def)
  then show "map P xs = map P ys \<Longrightarrow> length (filter P xs) = length (filter P ys)" by metis
qed

text \<open>Changing one snapshot and evicting: common to the two caches.\<close>

lemma evict_core:
  assumes i: "i < length snaps" and s': "sn_key s' = sn_key (snaps ! i)" "other s' = other (snaps ! i)"
    and ok: "snap_ok d (snaps ! i) \<Longrightarrow> snap_ok d s'"
    and clear: "\<And>s. sn_key (clear s) = sn_key s" "\<And>s. other (clear s) = other s" "\<And>s. \<not> held (clear s)"
      "\<And>s. snap_ok d s \<Longrightarrow> snap_ok d (clear s)"
    and ys: "ys = evictLoop held clear i (length (filter held (snaps[i := s'])) - mx) (snaps[i := s'])"
  shows "map sn_key ys = map sn_key snaps" "(\<forall>s \<in> set snaps. snap_ok d s) \<longrightarrow> (\<forall>s \<in> set ys. snap_ok d s)"
    "length (filter held ys) \<le> max 1 mx" "length (filter other ys) = length (filter other snaps)" "ys ! i = s'"
proof -
  let ?xs = "snaps[i := s']"
  have upd: "map f ?xs = map f snaps" if "f s' = f (snaps ! i)" for f :: "snapIdx \<Rightarrow> 'z"
    using that i by (simp add: map_update list_update_same_conv)
  show "map sn_key ys = map sn_key snaps"
    unfolding ys using evictLoop_map [of sn_key clear] clear(1) upd [of sn_key] s'(1) by simp
  show "(\<forall>s \<in> set snaps. snap_ok d s) \<longrightarrow> (\<forall>s \<in> set ys. snap_ok d s)"
  proof
    assume "\<forall>s \<in> set snaps. snap_ok d s"
    then have "\<forall>s \<in> set ?xs. snap_ok d s"
      using ok i by (auto simp: all_set_conv_all_nth nth_list_update)
    then show "\<forall>s \<in> set ys. snap_ok d s" unfolding ys by (intro evictLoop_all clear(4))
  qed
  show "length (filter held ys) \<le> max 1 mx"
    unfolding ys using evictLoop_count [of held clear i "length (filter held ?xs) - mx" ?xs] clear(3) by simp
  have "map other ys = map other snaps"
    unfolding ys using evictLoop_map [of other clear] clear(2) upd [of other] s'(2) by simp
  then show "length (filter other ys) = length (filter other snaps)" by (rule filter_length_map)
  show "ys ! i = s'" unfolding ys using i by (simp add: evictLoop_keep)
qed

lemma evictTSC_step:
  assumes "i < length (ci_snaps ci)" "sn_key (f (ci_snaps ci ! i)) = sn_key (ci_snaps ci ! i)"
    "locHeld (f (ci_snaps ci ! i)) = locHeld (ci_snaps ci ! i)"
    "snap_ok d (ci_snaps ci ! i) \<Longrightarrow> snap_ok d (f (ci_snaps ci ! i))"
    and ci': "ci' = evictLRUTSCLocked i (upd_snap i f ci)"
  shows "step_ok d ci ci'" "ci_snaps ci' ! i = f (ci_snaps ci ! i)"
proof -
  note core = evict_core [where held = tscHeld and clear = clearTSC and other = locHeld and mx = "ci_maxOpenTSC ci",
      OF assms(1-4) _ _ _ snap_ok_clear(1) refl, simplified]
  from core show "step_ok d ci ci'" "ci_snaps ci' ! i = f (ci_snaps ci ! i)"
    by (auto simp: ci' step_ok_def evictLRUTSCLocked_def upd_snap_def caps_def max_def split: if_splits)
qed

lemma evictLoc_step:
  assumes "i < length (ci_snaps ci)" "sn_key (f (ci_snaps ci ! i)) = sn_key (ci_snaps ci ! i)"
    "tscHeld (f (ci_snaps ci ! i)) = tscHeld (ci_snaps ci ! i)"
    "snap_ok d (ci_snaps ci ! i) \<Longrightarrow> snap_ok d (f (ci_snaps ci ! i))"
    and ci': "ci' = evictLRULocMapLocked i (upd_snap i f ci)"
  shows "step_ok d ci ci'" "ci_snaps ci' ! i = f (ci_snaps ci ! i)"
proof -
  note core = evict_core [where held = locHeld and clear = clearLoc and other = tscHeld and mx = "ci_maxLocMaps ci",
      OF assms(1-4) _ _ _ snap_ok_clear(2) refl, simplified]
  from core show "step_ok d ci ci'" "ci_snaps ci' ! i = f (ci_snaps ci ! i)"
    by (auto simp: ci' step_ok_def evictLRULocMapLocked_def upd_snap_def caps_def max_def split: if_splits)
qed

lemma upd_step:
  assumes "i < length (ci_snaps ci)" "sn_key (f (ci_snaps ci ! i)) = sn_key (ci_snaps ci ! i)"
    "tscHeld (f (ci_snaps ci ! i)) = tscHeld (ci_snaps ci ! i)" "locHeld (f (ci_snaps ci ! i)) = locHeld (ci_snaps ci ! i)"
    "snap_ok d (ci_snaps ci ! i) \<Longrightarrow> snap_ok d (f (ci_snaps ci ! i))"
  shows "step_ok d ci (upd_snap i f ci)" "ci_snaps (upd_snap i f ci) ! i = f (ci_snaps ci ! i)"
proof -
  let ?xs = "(ci_snaps ci)[i := f (ci_snaps ci ! i)]"
  have upd: "map g ?xs = map g (ci_snaps ci)" if "g (f (ci_snaps ci ! i)) = g (ci_snaps ci ! i)" for g :: "snapIdx \<Rightarrow> 'z"
    using that assms(1) by (simp add: map_update list_update_same_conv)
  have "length (filter tscHeld ?xs) = length (filter tscHeld (ci_snaps ci))"
    by (intro filter_length_map upd assms)
  moreover have "length (filter locHeld ?xs) = length (filter locHeld (ci_snaps ci))"
    by (intro filter_length_map upd assms)
  moreover have "(\<forall>s \<in> set (ci_snaps ci). snap_ok d s) \<longrightarrow> (\<forall>s \<in> set ?xs. snap_ok d s)"
    using assms(1,5) by (auto simp: all_set_conv_all_nth nth_list_update)
  ultimately show "step_ok d ci (upd_snap i f ci)"
    using upd [of sn_key] assms(2) by (simp add: step_ok_def upd_snap_def caps_def)
  show "ci_snaps (upd_snap i f ci) ! i = f (ci_snaps ci ! i)" using assms(1) by (simp add: upd_snap_def)
qed

lemma ensureTSC_spec:
  assumes i: "i < length (ci_snaps ci)" and ok: "\<forall>s \<in> set (ci_snaps ci). snap_ok d s"
  shows "step_ok d ci (ensureTSC d i ci) \<and> sn_tsc (ci_snaps (ensureTSC d i ci) ! i) = snap_view d (ci_snaps ci ! i)"
proof (cases "sn_tscLoaded (ci_snaps ci ! i)")
  case True
  have "snap_ok d (ci_snaps ci ! i)" using ok i by simp
  with True show ?thesis by (simp add: ensureTSC_def step_ok_refl snap_ok_def)
next
  case False
  let ?s = "ci_snaps ci ! i"
  show ?thesis
  proof (cases "readTSCContent d (sn_tscPath ?s)")
    case (Inl e)
    let ?f = "\<lambda>s. s\<lparr> sn_tscLoaded := True, sn_tsc := None \<rparr>"
    have v: "snap_view d ?s = None" using Inl by (simp add: snap_view_def)
    have "snap_ok d ?s \<Longrightarrow> snap_ok d (?f ?s)" using v by (auto simp: snap_ok_def split: option.splits)
    with upd_step [of i ci ?f d] i False Inl v show ?thesis
      by (simp add: ensureTSC_def loadTSCLocked_def tscHeld_def locHeld_def)
  next
    case (Inr c)
    let ?f = "\<lambda>s. s\<lparr> sn_tscLoaded := True, sn_tsc := newTSCView c \<rparr>"
    have v: "snap_view d ?s = newTSCView c" using Inr by (simp add: snap_view_def)
    have "snap_ok d ?s \<Longrightarrow> snap_ok d (?f ?s)" using v by (auto simp: snap_ok_def split: option.splits)
    with evictTSC_step [OF i, of ?f d, OF _ _ _ refl] False Inr v show ?thesis
      by (simp add: ensureTSC_def loadTSCLocked_def locHeld_def)
  qed
qed

lemma upd_upd: "i < length (ci_snaps ci) \<Longrightarrow> upd_snap i g (upd_snap i f ci) = upd_snap i (\<lambda>s. g (f s)) ci"
  by (simp add: upd_snap_def)

lemma ensureLoc_spec:
  assumes i: "i < length (ci_snaps ci)" and ok: "\<forall>s \<in> set (ci_snaps ci). snap_ok d s"
    and v: "sn_tsc (ci_snaps ci ! i) = Some v" "snap_view d (ci_snaps ci ! i) = Some v"
  shows "step_ok d ci (ensureLoc d i ci) \<and> sn_locBuilt (ci_snaps (ensureLoc d i ci) ! i)"
proof (cases "sn_locBuilt (ci_snaps ci ! i)")
  case True
  then show ?thesis by (simp add: ensureLoc_def step_ok_refl)
next
  case False
  let ?s = "ci_snaps ci ! i" and ?f = "\<lambda>s :: snapIdx. s\<lparr> sn_locBuilt := True \<rparr>"
  have s1: "ci_snaps (upd_snap i ?f ci) ! i = ?f ?s" using i by (simp add: upd_snap_def)
  have oks: "snap_ok d ?s" using ok i by simp
  show ?thesis
  proof (cases "ReadTSM (d_files d) (sn_tsmPath ?s)")
    case (Inl e)
    have "snap_locs d ?s = None" using Inl v(2) by (simp add: snap_locs_def)
    then have "snap_ok d (?f ?s)" using oks False by (simp add: snap_ok_def)
    with upd_step [of i ci ?f d] i False Inl v s1 oks show ?thesis
      by (simp add: ensureLoc_def buildLocMapLocked_def tscHeld_def locHeld_def snap_ok_def)
  next
    case (Inr tsm)
    obtain m paths where b: "buildLocs d v (sn_dir ?s) (m_Entries tsm) Map.empty [] = (m, paths)" by fastforce
    let ?g = "\<lambda>s :: snapIdx. s\<lparr> sn_locBuilt := True, sn_locMap := Some m, sn_filePaths := paths \<rparr>"
    have "snap_locs d ?s = Some (m, paths)" using Inr v(2) b by (simp add: snap_locs_def)
    then have "snap_ok d (?g ?s)" using oks False by (simp add: snap_ok_def)
    with evictLoc_step [OF i, of ?g d, OF _ _ _ refl] False Inr v s1 b i show ?thesis
      by (simp add: ensureLoc_def buildLocMapLocked_def tscHeld_def upd_upd)
  qed
qed

lemma locOf_spec:
  assumes "snap_ok d s" "sn_locBuilt s" "snap_view d s = Some v" "view_lookup v sha = Some sz"
  shows "resolve d sha s = map_option (\<lambda>loc. \<lparr> l_SHA256 = sha, l_Filename = sn_filePaths s ! unat (cl_fileIdx loc),
      l_Offset = cl_offset loc, l_Size = sz \<rparr>) (locOf s sha)"
  using assms by (auto simp: resolve_def snap_ok_def locOf_def split: option.splits)

section \<open>The scan\<close>

lemma step_ok_key: "step_ok d ci ci' \<Longrightarrow> i < length (ci_snaps ci) \<Longrightarrow> sn_key (ci_snaps ci' ! i) = sn_key (ci_snaps ci ! i)"
  unfolding step_ok_def by (metis length_map nth_map)

lemma step_ok_all: "step_ok d ci ci' \<Longrightarrow> \<forall>s \<in> set (ci_snaps ci). snap_ok d s \<Longrightarrow> \<forall>s \<in> set (ci_snaps ci'). snap_ok d s"
  by (simp add: step_ok_def)

definition reorder :: "ChunkIndex \<Rightarrow> ChunkIndex \<Rightarrow> bool" where
  "reorder ci ci' = (mset (ci_snaps ci') = mset (ci_snaps ci) \<and> ci' = ci\<lparr> ci_snaps := ci_snaps ci' \<rparr>)"

lemma moveToFront_reorder: "i < length (ci_snaps ci) \<Longrightarrow> reorder ci (moveToFrontLocked i ci)"
proof -
  assume i: "i < length (ci_snaps ci)"
  have "mset (ci_snaps ci) = mset (take i (ci_snaps ci) @ ci_snaps ci ! i # drop (Suc i) (ci_snaps ci))"
    using id_take_nth_drop [OF i] by metis
  then show ?thesis by (auto simp: reorder_def moveToFrontLocked_def)
qed

text \<open>\<open>find_rel d ci i r ci'\<close>: the result and the index after the scan from position \<open>i\<close>.\<close>

lemma findLoop_spec:
  assumes "i + todo = length (ci_snaps ci)" and "\<forall>s \<in> set (ci_snaps ci). snap_ok d s"
    and "findLoop d sha todo i ci = (r, ci')"
  shows "r = first_some (resolve d sha) (drop i (ci_snaps ci)) \<and>
    (\<exists>ci1. step_ok d ci ci1 \<and> (ci' = ci1 \<or> (r \<noteq> None \<and> reorder ci1 ci')))"
  using assms
proof (induction todo arbitrary: i ci)
  case 0
  then show ?case using step_ok_refl by auto
next
  case (Suc todo)
  have i: "i < length (ci_snaps ci)" using Suc.prems(1) by simp
  let ?c1 = "ensureTSC d i ci" and ?s = "ci_snaps ci ! i"
  note e1 = ensureTSC_spec [OF i Suc.prems(2)]
  then have st1: "step_ok d ci ?c1" and v1: "sn_tsc (ci_snaps ?c1 ! i) = snap_view d ?s" by simp_all
  have len1: "length (ci_snaps ?c1) = length (ci_snaps ci)" by (rule step_ok_length [OF st1])
  have ok1: "\<forall>s \<in> set (ci_snaps ?c1). snap_ok d s" by (rule step_ok_all [OF st1 Suc.prems(2)])
  have dr: "drop i (ci_snaps ci) = ?s # drop (i + 1) (ci_snaps ci)" using i by (simp add: Cons_nth_drop_Suc)
  have res: "first_some (resolve d sha) (drop k (ci_snaps c)) = first_some (resolve d sha) (drop k (ci_snaps ci))"
    if "step_ok d ci c" for c k
  proof -
    have "map (resolve d sha) (drop k (ci_snaps c)) = map (resolve d sha) (drop k (ci_snaps ci))"
      using step_ok_resolve [OF that] by (simp flip: drop_map)
    moreover have "first_some f xs = first_some id (map f xs)" for f :: "snapIdx \<Rightarrow> ChunkLocation option" and xs
      by (induction xs) (auto split: option.splits)
    ultimately show ?thesis by metis
  qed
  have continue: ?case if none: "resolve d sha ?s = None" and c: "step_ok d ci c"
    and f: "findLoop d sha todo (i + 1) c = (r, ci')" for c
  proof -
    have "r = first_some (resolve d sha) (drop (i + 1) (ci_snaps c)) \<and>
        (\<exists>ci1. step_ok d c ci1 \<and> (ci' = ci1 \<or> (r \<noteq> None \<and> reorder ci1 ci')))"
      using Suc.prems(1) step_ok_length [OF c] by (intro Suc.IH [OF _ step_ok_all [OF c Suc.prems(2)] f]) simp
    with res [OF c] none c show ?thesis unfolding dr by (auto intro: step_ok_trans)
  qed
  show ?case
  proof (cases "snap_view d ?s")
    case None
    have "resolve d sha ?s = None" using None by (simp add: resolve_def)
    moreover have "findLoop d sha todo (i + 1) ?c1 = (r, ci')" using Suc.prems(3) None v1 by (simp add: Let_def)
    ultimately show ?thesis using continue [OF _ st1] by blast
  next
    case (Some v)
    show ?thesis
    proof (cases "view_lookup v sha")
      case None
      have "resolve d sha ?s = None" using None Some by (simp add: resolve_def)
      moreover have "findLoop d sha todo (i + 1) ?c1 = (r, ci')" using Suc.prems(3) None Some v1 by (simp add: Let_def)
      ultimately show ?thesis using continue [OF _ st1] by blast
    next
      case sz: (Some sz)
      let ?c2 = "ensureLoc d i ?c1"
      have key1: "sn_key (ci_snaps ?c1 ! i) = sn_key ?s" by (rule step_ok_key [OF st1 i])
      have view1: "snap_view d (ci_snaps ?c1 ! i) = Some v" using spec_cong(1) [OF key1] Some by simp
      have i1: "i < length (ci_snaps ?c1)" using i len1 by simp
      have st2: "step_ok d ?c1 ?c2" and b2: "sn_locBuilt (ci_snaps ?c2 ! i)"
        using ensureLoc_spec [OF i1 ok1 _ view1] v1 Some by simp_all
      have st: "step_ok d ci ?c2" by (rule step_ok_trans [OF st1 st2])
      have i2: "i < length (ci_snaps ?c2)" using step_ok_length [OF st] i by simp
      have key2: "sn_key (ci_snaps ?c2 ! i) = sn_key ?s" by (rule step_ok_key [OF st i])
      have "snap_ok d (ci_snaps ?c2 ! i)" using step_ok_all [OF st Suc.prems(2)] i2 by simp
      from locOf_spec [OF this b2, of v sha sz] spec_cong(1) [OF key2] spec_cong(3) [OF key2] Some sz
      have rs: "resolve d sha ?s = map_option (\<lambda>loc. \<lparr> l_SHA256 = sha, l_Filename = sn_filePaths (ci_snaps ?c2 ! i) ! unat (cl_fileIdx loc),
          l_Offset = cl_offset loc, l_Size = sz \<rparr>) (locOf (ci_snaps ?c2 ! i) sha)" by simp
      show ?thesis
      proof (cases "locOf (ci_snaps ?c2 ! i) sha")
        case None
        with rs have "resolve d sha ?s = None" by simp
        moreover have "findLoop d sha todo (i + 1) ?c2 = (r, ci')"
          using Suc.prems(3) None Some sz v1 by (simp add: Let_def)
        ultimately show ?thesis using continue [OF _ st] by blast
      next
        case loc: (Some loc)
        with Suc.prems(3) Some sz v1 have "r = resolve d sha ?s" "ci' = moveToFrontLocked i ?c2"
          unfolding rs by (auto simp: Let_def)
        with rs loc st moveToFront_reorder [OF i2] show ?thesis unfolding dr by auto
      qed
    qed
  qed
qed

section \<open>The index invariant\<close>

definition idx_inv :: "disk \<Rightarrow> ChunkIndex \<Rightarrow> bool" where
  "idx_inv d ci =
     ((\<forall>s \<in> set (ci_snaps ci). snap_ok d s) \<and> caps ci \<and>
      (\<forall>b sha. ci_bloom ci = Some b \<longrightarrow> \<not> bloom_test b sha \<longrightarrow> (\<forall>s \<in> set (ci_snaps ci). resolve d sha s = None)) \<and>
      (\<forall>sha. isAbsent ci sha \<longrightarrow> (\<forall>s \<in> set (ci_snaps ci). resolve d sha s = None)) \<and>
      (\<forall>xs. ci_absent ci = Some xs \<longrightarrow> length xs \<le> ci_maxAbsent ci))"

lemma mset_filter_length: "mset xs = mset ys \<Longrightarrow> length (filter P xs) = length (filter P ys)"
  by (metis mset_filter size_mset)

lemma step_ok_none:
  assumes "step_ok d ci ci'"
  shows "(\<forall>s \<in> set (ci_snaps ci'). resolve d sha s = None) = (\<forall>s \<in> set (ci_snaps ci). resolve d sha s = None)"
proof -
  have "resolve d sha ` set (ci_snaps ci') = resolve d sha ` set (ci_snaps ci)"
    using arg_cong [where f = set, OF step_ok_resolve [OF assms, of sha]] by simp
  moreover have "(\<forall>s \<in> A. resolve d sha s = None) = (resolve d sha ` A \<subseteq> {None})" for A by auto
  ultimately show ?thesis by simp
qed

lemma idx_inv_step: "\<lbrakk>idx_inv d ci; step_ok d ci ci'\<rbrakk> \<Longrightarrow> idx_inv d ci'"
  using step_ok_none [of d ci ci'] by (simp add: idx_inv_def step_ok_def isAbsent_def)

lemma idx_inv_reorder:
  assumes "idx_inv d ci" "reorder ci ci'"
  shows "idx_inv d ci'"
proof -
  have set: "set (ci_snaps ci') = set (ci_snaps ci)" using assms(2) by (metis reorder_def mset_eq_setD)
  have len: "length (filter P (ci_snaps ci')) = length (filter P (ci_snaps ci))" for P
    using assms(2) by (intro mset_filter_length) (simp add: reorder_def)
  have "ci' = ci\<lparr> ci_snaps := ci_snaps ci' \<rparr>" using assms(2) by (simp add: reorder_def)
  then have "ci_bloom ci' = ci_bloom ci" "ci_absent ci' = ci_absent ci" "ci_maxAbsent ci' = ci_maxAbsent ci"
    "ci_maxOpenTSC ci' = ci_maxOpenTSC ci" "ci_maxLocMaps ci' = ci_maxLocMaps ci"
    by (metis ChunkIndex.select_convs ChunkIndex.surjective ChunkIndex.update_convs(2))+
  with assms(1) set len show ?thesis by (simp add: idx_inv_def isAbsent_def caps_def)
qed

lemma FindChunk_spec:
  assumes inv: "idx_inv d ci" and f: "FindChunk d sha ci = (r, ci')"
  shows "r = first_some (resolve d sha) (ci_snaps ci) \<and> idx_inv d ci'"
proof -
  let ?none = "\<forall>s \<in> set (ci_snaps ci). resolve d sha s = None"
  consider (filtered) "(case ci_bloom ci of Some b \<Rightarrow> \<not> bloom_test b sha | None \<Rightarrow> False) \<or> isAbsent ci sha"
    | (scan) "\<not> (case ci_bloom ci of Some b \<Rightarrow> \<not> bloom_test b sha | None \<Rightarrow> False)" "\<not> isAbsent ci sha" by blast
  then show ?thesis
  proof cases
    case filtered
    then have "?none" using inv by (auto simp: idx_inv_def split: option.splits)
    then have "first_some (resolve d sha) (ci_snaps ci) = None" by (simp add: first_some_None)
    with filtered f inv show ?thesis by (auto simp: FindChunk_def split: if_splits)
  next
    case scan
    obtain r1 c1 where l: "findLoop d sha (length (ci_snaps ci)) 0 ci = (r1, c1)" by fastforce
    have ok: "\<forall>s \<in> set (ci_snaps ci). snap_ok d s" using inv by (simp add: idx_inv_def)
    from findLoop_spec [OF _ ok l] obtain c0 where r1: "r1 = first_some (resolve d sha) (ci_snaps ci)"
      and c0: "step_ok d ci c0" "c1 = c0 \<or> (r1 \<noteq> None \<and> reorder c0 c1)" by auto
    have inv0: "idx_inv d c0" by (rule idx_inv_step [OF inv c0(1)])
    show ?thesis
    proof (cases r1)
      case (Some loc)
      with scan l f have "r = r1" "ci' = c1" by (auto simp: FindChunk_def)
      with r1 c0(2) inv0 idx_inv_reorder show ?thesis by auto
    next
      case None
      with c0(2) have c1: "c1 = c0" by simp
      have none: "\<forall>s \<in> set (ci_snaps c0). resolve d sha s = None"
        using None r1 first_some_None step_ok_none [OF c0(1)] by metis
      from None scan l f c1 have r: "r = None" and ci': "ci' = (case ci_absent c0 of
             Some xs \<Rightarrow> if length xs < ci_maxAbsent c0 then c0\<lparr> ci_absent := Some (sha # xs) \<rparr> else c0 | None \<Rightarrow> c0)"
        by (auto simp: FindChunk_def)
      have "idx_inv d ci'"
        using inv0 none by (auto simp: ci' idx_inv_def isAbsent_def caps_def split: option.splits)
      with r r1 None show ?thesis by simp
    qed
  qed
qed

section \<open>Opening builds an index that satisfies the invariant\<close>

lemma streamLoop_fold:
  "off + k * TSCEntrySize \<le> length content \<Longrightarrow>
   streamLoop content fn k off st = fold fn (map c_sha (read_table decodeTSCEntry TSCEntrySize content off k)) st"
proof (induction k arbitrary: off st)
  case (Suc k)
  have "c_sha (decodeTSCEntry (slice_of content off (off + TSCEntrySize))) = slice_of content off (off + 32)"
    by (simp add: decodeTSCEntry_def slice_of_def TSCEntrySize_def min_def)
  with Suc show ?case by (simp add: Let_def algebra_simps)
qed simp

definition content_ok :: "bytes \<Rightarrow> nat \<Rightarrow> bool" where
  "content_ok c k = (length c = TSCHeaderSize + k * TSCEntrySize \<and> sint (Uint64 (slice_of c 8 16)) = int k)"

lemma sint_small:
  assumes "unat (w :: u64) \<le> 2 ^ 32"
  shows "sint w = int (unat w)"
proof -
  have u: "uint w = int (unat w)" by simp
  have "int (unat w) \<le> int (2 ^ 32)" using assms by (simp only: of_nat_le_iff)
  also have "\<dots> < 2 ^ 63" by simp
  finally have "uint w < 2 ^ 63" unfolding u .
  moreover have "0 \<le> uint w" by simp
  ultimately have "signed_take_bit 63 (uint w) = uint w"
    by (intro signed_take_bit_int_eq_self) (auto intro: order_trans [of _ 0])
  then show ?thesis by (simp add: sint_uint)
qed

lemma readTSCContent_ok:
  assumes "readTSCContent d p = Inr c"
  shows "\<exists>k. content_ok c k \<and> d_files d p \<noteq> None \<and> readTSCChunkCount d p = Inr (word_of_nat k) \<and> k \<le> 2 ^ 32"
proof -
  from assms obtain data where f: "d_files d p = Some data" and l: "TSCHeaderSize + TSCFooterSize \<le> length data"
    and m: "slice_of data 0 4 = TSCMagic"
    and ck: "checkTSCCountConsistent (Uint64 (slice_of data 8 16)) (int (length data - TSCFooterSize)) = None"
    and c: "c = take (length data - TSCFooterSize) data"
    by (auto simp: readTSCContent_def split: option.splits if_splits)
  let ?w = "Uint64 (slice_of data 8 16)"
  have w: "unat ?w \<le> 2 ^ 32" "int (unat ?w) * int TSCEntrySize = int (length data - TSCFooterSize) - int TSCHeaderSize"
    using ck by (auto simp: checkTSCCountConsistent_def Let_def split: if_splits)
  have s: "slice_of c 8 16 = slice_of data 8 16" unfolding c using l by (intro slice_take) (simp add: tsc_consts)
  have "int (length data - TSCFooterSize) = int (TSCHeaderSize + unat ?w * TSCEntrySize)"
    using w(2) by (simp only: of_nat_add of_nat_mult)
  then have "length c = TSCHeaderSize + unat ?w * TSCEntrySize" using l unfolding c by (simp only: of_nat_eq_iff) simp
  then have "content_ok c (unat ?w)" using s sint_small [OF w(1)] by (simp add: content_ok_def)
  moreover have "readTSCChunkCount d p = Inr ?w"
    using f l m ck by (simp add: readTSCChunkCount_def Let_def of_nat_diff)
  ultimately show ?thesis using f w(1) by (intro exI [of _ "unat ?w"]) simp
qed

lemma validated_content: "readTSCContentValidated d p = Inr c \<Longrightarrow> readTSCContent d p = Inr c"
  by (auto simp: readTSCContentValidated_def readTSCContent_def Let_def split: option.splits if_splits)

lemma view_lookup_found:
  assumes "content_ok c k" "newTSCView c = Some v" "view_lookup v sha = Some sz"
  shows "sha \<in> set (map c_sha (read_table decodeTSCEntry TSCEntrySize c TSCHeaderSize k))"
proof -
  have v: "v_data v = c" "v_count v = int k" using assms(1,2) by (auto simp: newTSCView_def content_ok_def split: if_splits)
  from assms(3) v obtain i where i: "i < k" "slice_of c (TSCHeaderSize + i * TSCEntrySize) (TSCHeaderSize + i * TSCEntrySize + 32) = sha"
    by (auto simp: view_lookup_def Let_def split: if_splits)
  have "c_sha (read_table decodeTSCEntry TSCEntrySize c TSCHeaderSize k ! i) = sha"
    using i by (simp add: nth_read_table decodeTSCEntry_def slice_of_def TSCEntrySize_def min_def)
  with i(1) show ?thesis by (metis length_map length_read_table nth_map nth_mem)
qed

lemma discover_spec:
  assumes "length entries < 2 ^ 31"
  shows "unat (snd (discover d dir entries)) \<le> length entries * 2 ^ 32 \<and>
    (\<forall>s \<in> set (fst (discover d dir entries)).
       (\<exists>base. s = newSnap dir base) \<and>
       (\<forall>c k. readTSCContent d (sn_tscPath s) = Inr c \<longrightarrow> content_ok c k \<longrightarrow> k \<le> unat (snd (discover d dir entries))))"
  using assms
proof (induction entries)
  case (Cons e es)
  obtain name isDir where e: "e = (name, isDir)" by fastforce
  let ?o = "discover d dir es"
  have IH: "unat (snd ?o) \<le> length es * 2 ^ 32"
    "\<forall>s \<in> set (fst ?o). (\<exists>base. s = newSnap dir base) \<and>
       (\<forall>c k. readTSCContent d (sn_tscPath s) = Inr c \<longrightarrow> content_ok c k \<longrightarrow> k \<le> unat (snd ?o))"
    using Cons by simp_all
  let ?s = "newSnap dir (TrimSuffix name ''.tsc'')"
  show ?case
  proof (cases "discover d dir (e # es) = ?o")
    case True
    with IH show ?thesis by simp
  next
    case False
    then obtain cnt where r: "readTSCChunkCount d (sn_tscPath ?s) = Inr cnt"
      and d: "discover d dir (e # es) = (?s # fst ?o, cnt + snd ?o)"
      by (auto simp: e Let_def split: if_splits sum.splits)
    have cnt: "unat cnt \<le> 2 ^ 32"
      using r by (auto simp: readTSCChunkCount_def checkTSCCountConsistent_def Let_def split: option.splits if_splits)
    have b: "length es * 2 ^ 32 + 2 ^ 32 < (2 :: nat) ^ 64" using Cons.prems by simp
    have sum: "unat (cnt + snd ?o) = unat cnt + unat (snd ?o)"
      using cnt IH(1) b by (intro unat_add_lem [THEN iffD1]) (simp del: power_numeral)
    have "k = unat cnt" if "readTSCContent d (sn_tscPath ?s) = Inr c" "content_ok c k" for c k
    proof -
      from readTSCContent_ok [OF that(1)] obtain k' where k': "content_ok c k'" "cnt = word_of_nat k'" "k' \<le> 2 ^ 32"
        using r by auto
      have "unat cnt = k'" using k'(2,3) by (simp add: unat_of_nat)
      moreover have "k' = k" using k'(1) that(2) by (simp add: content_ok_def)
      ultimately show ?thesis by simp
    qed
    with IH cnt b sum show ?thesis by (fastforce simp: d)
  qed
qed simp

lemma stream_content:
  "content_ok c k \<Longrightarrow> streamTSCSHAs c fn st = fold fn (map c_sha (read_table decodeTSCEntry TSCEntrySize c TSCHeaderSize k)) st"
  by (simp add: streamTSCSHAs_def content_ok_def streamLoop_fold)

lemma populate_good:
  "populate d snaps b = (good, b') \<Longrightarrow> set good \<subseteq> set snaps \<and>
     (\<forall>s \<in> set good. \<exists>c. readTSCContentValidated d (sn_tscPath s) = Inr c)"
  by (induction d snaps b arbitrary: good b' rule: populate.induct)
     (fastforce split: sum.splits prod.splits simp: Let_def)+

lemma populate_bloom:
  assumes "populate d snaps b = (good, b')" "bloom_inv b"
  shows "(\<forall>x. bloom_test b x \<longrightarrow> bloom_test b' x) \<and>
    (\<forall>s \<in> set good. \<forall>c k sha. readTSCContent d (sn_tscPath s) = Inr c \<longrightarrow> content_ok c k \<longrightarrow>
        sha \<in> set (map c_sha (read_table decodeTSCEntry TSCEntrySize c TSCHeaderSize k)) \<longrightarrow> bloom_test b' sha)"
  using assms
proof (induction snaps arbitrary: good b)
  case (Cons s rest)
  show ?case
  proof (cases "readTSCContentValidated d (sn_tscPath s)")
    case (Inl e)
    with Cons show ?thesis by simp
  next
    case (Inr c)
    note rc = validated_content [OF Inr]
    from readTSCContent_ok [OF rc] obtain k where k: "content_ok c k" by blast
    let ?shas = "map c_sha (read_table decodeTSCEntry TSCEntrySize c TSCHeaderSize k)"
    let ?b1 = "fold bloom_add ?shas b"
    obtain g1 where p1: "populate d rest ?b1 = (g1, b')" and good: "good = s # g1"
      using Cons.prems(1) Inr stream_content [OF k, of bloom_add b] by (auto simp: Let_def split: prod.splits)
    have inv1: "bloom_inv ?b1" by (rule bf.fold_inv [OF Cons.prems(2)])
    note IH = Cons.IH [OF p1 inv1]
    have "bloom_test b' sha" if "sha \<in> set ?shas" for sha
      using IH bf.no_false_negatives [OF Cons.prems(2) TrueI that] by blast
    moreover have "bloom_test b' x" if "bloom_test b x" for x
      using IH bf.fold_mono [OF Cons.prems(2) that] by blast
    moreover have "k' = k" if "content_ok c k'" for k' using that k by (simp add: content_ok_def)
    ultimately show ?thesis using IH rc unfolding good by auto
  qed
qed simp

lemma resolve_table:
  assumes "resolve d sha s = Some loc"
  shows "\<exists>c k. readTSCContent d (sn_tscPath s) = Inr c \<and> content_ok c k \<and>
    sha \<in> set (map c_sha (read_table decodeTSCEntry TSCEntrySize c TSCHeaderSize k))"
proof -
  from assms obtain v sz where v: "snap_view d s = Some v" and sz: "view_lookup v sha = Some sz"
    by (auto simp: resolve_def split: option.splits)
  from v obtain c where c: "readTSCContent d (sn_tscPath s) = Inr c" "newTSCView c = Some v"
    by (auto simp: snap_view_def split: sum.splits)
  from readTSCContent_ok [OF c(1)] obtain k where k: "content_ok c k" by blast
  from view_lookup_found [OF k c(2) sz] c(1) k show ?thesis by blast
qed

lemma OpenChunkIndex_inv:
  assumes "OpenChunkIndexWith sizing d rd dir mo ml = Inr ci"
    and small: "\<And>es. rd = DirEntries es \<Longrightarrow> length es < 2 ^ 27" and sz: "\<And>n. n < 2 ^ 59 \<Longrightarrow> fst (sizing n) < 2 ^ 63"
  shows "idx_inv d ci"
proof (cases rd)
  case DirNotExist
  with assms(1) show ?thesis
    by (auto simp: OpenChunkIndexWith_def idx_inv_def caps_def isAbsent_def defaultMaxOpenTSC_def defaultMaxLocMaps_def)
next
  case DirError
  with assms(1) show ?thesis by (simp add: OpenChunkIndexWith_def)
next
  case (DirEntries es)
  obtain snaps tot where dis: "discover d dir es = (snaps, tot)" by fastforce
  let ?b = "newBloomFilter sizing tot"
  obtain good b' where pop: "populate d (sort_key sn_id snaps) ?b = (good, b')" by fastforce
  have ci: "ci_snaps ci = good" "ci_bloom ci = Some b'" "ci_absent ci = Some []"
    "1 \<le> ci_maxOpenTSC ci" "1 \<le> ci_maxLocMaps ci"
    using assms(1) DirEntries dis pop
    by (auto simp: OpenChunkIndexWith_def Let_def defaultMaxOpenTSC_def defaultMaxLocMaps_def)
  have sub: "set good \<subseteq> set snaps" using populate_good [OF pop] by simp
  have es: "length es < 2 ^ 27" by (rule small [OF DirEntries])
  then have "length es < 2 ^ 31" by simp
  note disc = discover_spec [OF this, of d dir, unfolded dis fst_conv snd_conv]
  have tot: "unat tot < 2 ^ 59" using disc es by simp
  have new: "\<exists>base. s = newSnap dir base" if "s \<in> set good" for s using disc sub that by blast
  have ok: "snap_ok d s \<and> \<not> tscHeld s \<and> \<not> locHeld s" if "s \<in> set good" for s
    using new [OF that] by (auto simp: newSnap_def snap_ok_def tscHeld_def locHeld_def)
  have "bloom_test b' sha" if s: "s \<in> set good" and r: "resolve d sha s = Some loc" for s sha loc
  proof -
    from resolve_table [OF r] obtain c k where c: "readTSCContent d (sn_tscPath s) = Inr c" "content_ok c k"
      and sha: "sha \<in> set (map c_sha (read_table decodeTSCEntry TSCEntrySize c TSCHeaderSize k))" by blast
    from sha have "k \<noteq> 0" by (cases k) auto
    moreover have "k \<le> unat tot" using disc sub s c by blast
    ultimately have "tot \<noteq> 0" by auto
    then have "bloom_inv ?b" using sz [OF tot] by (rule newBloomFilter_inv)
    from populate_bloom [OF pop this] s c sha show ?thesis by blast
  qed
  then have "\<forall>b sha. ci_bloom ci = Some b \<longrightarrow> \<not> bloom_test b sha \<longrightarrow> (\<forall>s \<in> set (ci_snaps ci). resolve d sha s = None)"
    using ci by (metis option.exhaust option.inject)
  moreover have "filter tscHeld good = []" "filter locHeld good = []" using ok by (auto simp: filter_empty_conv)
  ultimately show ?thesis
    using ci ok by (simp add: idx_inv_def caps_def isAbsent_def)
qed

lemma OpenChunkIndex_returns: "\<exists>ci. OpenChunkIndexWith sizing d (DirEntries es) dir mo ml = Inr ci"
  by (simp add: OpenChunkIndexWith_def Let_def split: prod.splits)

section \<open>Properties\<close>

text \<open>
  C8: The caches of the chunk index are invisible: on an index that satisfies its invariant,
  \<^verbatim>\<open>FindChunk\<close> returns exactly what a cache-free scan of the snapshots on disk in MRU order
  returns; in particular it finds a location whenever some indexed snapshot holds the chunk in
  a file that exists. The invariant, with the caps on loaded chunk files, location maps
  and remembered absences, is kept.
\<close>

theorem FindChunk_transparent:
  assumes "idx_inv d ci" "FindChunk d sha ci = (r, ci')"
  shows "r = first_some (resolve d sha) (ci_snaps ci) \<and> idx_inv d ci' \<and>
    length (filter tscHeld (ci_snaps ci')) \<le> ci_maxOpenTSC ci' \<and>
    length (filter locHeld (ci_snaps ci')) \<le> ci_maxLocMaps ci'"
  using FindChunk_spec [OF assms] by (simp add: idx_inv_def caps_def)

definition ex_disk :: disk where
  "ex_disk = \<lparr> d_files = [''s/a.tsm'' \<mapsto> []], d_dirs = {''s/a''} \<rparr>"

definition ex_index :: ChunkIndex where
  "ex_index = \<lparr> ci_dir = ''s'', ci_snaps = [newSnap ''s'' ''a''], ci_bloom = None, ci_absent = Some [],
     ci_maxAbsent = 2, ci_maxOpenTSC = 1, ci_maxLocMaps = 1 \<rparr>"

lemma ex_index_inv: "idx_inv ex_disk ex_index"
  by (simp add: idx_inv_def ex_index_def caps_def isAbsent_def snap_ok_def newSnap_def tscHeld_def locHeld_def)

theorem FindChunk_transparent_witness:
  "fst (FindChunk ex_disk [1] ex_index) = first_some (resolve ex_disk [1]) [newSnap ''s'' ''a''] \<and>
   idx_inv ex_disk (snd (FindChunk ex_disk [1] ex_index))"
  using FindChunk_transparent [OF ex_index_inv surjective_pairing, of "[1]"] by (simp add: ex_index_def)

text \<open>
  C35: Opening an index over a snapshots directory establishes the invariant, whatever is in the
  directory: unreadable, malformed or half-written chunk files are left out, and the Bloom
  filter has no false negatives for the snapshots that are in.
\<close>

theorem OpenChunkIndex_establishes_inv:
  assumes "OpenChunkIndexWith sizing d (DirEntries es) dir maxOpenTSC maxLocMaps = Inr ci"
    and "length es < 2 ^ 27" and "\<forall>n < 2 ^ 59. fst (sizing n) < 2 ^ 63"
  shows "idx_inv d ci"
  using OpenChunkIndex_inv [OF assms(1)] assms(2,3) by blast

theorem OpenChunkIndex_establishes_inv_witness:
  "\<exists>ci. OpenChunkIndexWith (\<lambda>n. (10 * n, 7)) ex_disk (DirEntries [(''a.tsm'', False), (''a'', True)]) ''s'' 0 0 = Inr ci \<and>
     idx_inv ex_disk ci"
proof -
  define res where "res = OpenChunkIndexWith (\<lambda>n. (10 * n, 7)) ex_disk (DirEntries [(''a.tsm'', False), (''a'', True)]) ''s'' 0 0"
  obtain ci where ci: "res = Inr ci" unfolding res_def using OpenChunkIndex_returns by blast
  have "idx_inv ex_disk ci"
    by (rule OpenChunkIndex_establishes_inv [OF ci [unfolded res_def]]) auto
  with ci show ?thesis unfolding res_def by blast
qed

end
