(* ===== verification/Indexer.thy ===== *)
theory Indexer
  imports Prelude Chunking Tsc Tsm
begin

text \<open>
  The indexer, \<^verbatim>\<open>tsm/indexer.go\<close>: the walk with its device boundary, the processing of one entry
  (hard links, reuse of the parent's chunks, chunking, the racy-ctime rule) and the writing of
  the two files. The file system is a parameter: the tree the walk visits and the
  outcomes of \<^verbatim>\<open>Lstat\<close>, \<^verbatim>\<open>Readlink\<close> and \<^verbatim>\<open>Open\<close>. Progress callbacks only report and are left out.
\<close>

unbundle bit_operations_syntax

section \<open>File system parameters\<close>

datatype os_err = Permission | OtherErr

datatype kind = KDir | KRegular | KSymlink | KCharDev | KBlockDev | KFifo | KSocket | KOther

record fileinfo =
  fi_kind :: kind
  fi_mode :: u32
  fi_uid :: u32
  fi_gid :: u32
  fi_size :: u64
  fi_mtime :: u64
  fi_ctime :: u64
  fi_atime :: u64
  fi_dev :: u64
  fi_ino :: u64
  fi_nlink :: u64
  fi_major :: u32
  fi_minor :: u32

record osenv =
  os_lstat :: "string \<Rightarrow> os_err + fileinfo"
  os_readlink :: "string \<Rightarrow> os_err + string"
  os_open :: "string \<Rightarrow> os_err + (reader \<times> nat option)"

section \<open>The racy-ctime rule\<close>

definition racyCtimeWindow :: int where "racyCtimeWindow = 1000000000"

definition racyAdjustedCtime :: "u64 \<Rightarrow> int \<Rightarrow> u64" where
  "racyAdjustedCtime ctime referenceTime =
     (if referenceTime - sint ctime < racyCtimeWindow then ctime - 1 else ctime)"

section \<open>State\<close>

record Indexer =
  ix_parentTSM :: "TSMReader option"
  ix_parentTSC :: "TSCReader option"
  ix_crossDevice :: bool
  ix_tsc :: TSCWriter
  ix_tsm :: TSMWriter
  ix_rootPath :: string
  ix_rootDev :: u64
  ix_totalBytes :: int
  ix_indexStart :: int
  ix_unmodified :: nat
  ix_modified :: nat
  ix_hardlinks :: "u64 \<rightharpoonup> u32"

text \<open>\<^verbatim>\<open>time.Time{}.UnixNano()\<close>, the value the creation time is set to, wraps to this constant.\<close>

definition zeroTimeNano :: u64 where "zeroTimeNano = word_of_int (- 6795364578871345152)"

definition NewIndexer :: "TSMReader option \<Rightarrow> TSCReader option \<Rightarrow> bool \<Rightarrow> u64 \<Rightarrow> Indexer" where
  "NewIndexer ptsm ptsc crossDevice now =
     \<lparr> ix_parentTSM = ptsm, ix_parentTSC = ptsc, ix_crossDevice = crossDevice, ix_tsc = NewTSCWriter,
       ix_tsm = SetCreationTime zeroTimeNano (NewTSMWriter now), ix_rootPath = [], ix_rootDev = 0,
       ix_totalBytes = 0, ix_indexStart = 0, ix_unmodified = 0, ix_modified = 0, ix_hardlinks = Map.empty \<rparr>"

definition TSCEntryFlagZeroBlock :: u16 where "TSCEntryFlagZeroBlock = 1"

section \<open>Chunks of a file\<close>

type_synonym chunk_acc = "TSCWriter \<times> u32 list \<times> int"

definition chunkCallback :: "(chunk_acc, unit) ChunkCallback" where
  "chunkCallback sha chunkSize level = (\<lambda>(tsc, chunkRefs, totalBytes).
     let flags = (if sha = ZeroBlockSHA then TSCEntryFlagZeroBlock else 0);
         (chunkIdx, tsc') = AddChunk tsc sha chunkSize level flags
     in Inr (tsc', chunkRefs @ [chunkIdx], totalBytes + uint chunkSize))"

definition processFileChunks :: "osenv \<Rightarrow> string \<Rightarrow> u64 \<Rightarrow> Indexer \<Rightarrow> (os_err + u32 list) \<times> Indexer" where
  "processFileChunks os path sz idx =
     (if sz = 0 then (Inr [], idx)
      else
        (case os_open os path of
           Inl e \<Rightarrow> (Inl e, idx)
         | Inr (rd, fsize) \<Rightarrow>
             (case ChunkFile (Some rd) fsize chunkCallback None (ix_tsc idx, [], ix_totalBytes idx) of
                Inl _ \<Rightarrow> (Inl OtherErr, idx)
              | Inr (tsc, chunkRefs, totalBytes) \<Rightarrow>
                  (Inr chunkRefs, idx\<lparr> ix_tsc := tsc, ix_totalBytes := totalBytes \<rparr>))))"

definition isUnmodified :: "Indexer \<Rightarrow> TSMEntry \<Rightarrow> bool" where
  "isUnmodified idx entry =
     (case ix_parentTSM idx of
        None \<Rightarrow> False
      | Some ptsm \<Rightarrow>
          (case LookupPath ptsm (e_Path entry) of
             None \<Rightarrow> False
           | Some parent \<Rightarrow> e_Type parent = e_Type entry \<and> e_Ctime parent = e_Ctime entry))"

text \<open>The copy loop of \<^verbatim>\<open>reuseParentChunks\<close>; a bad parent reference gives up, with the chunks added so far.\<close>

fun copyParent :: "TSCEntry list \<Rightarrow> u32 list \<Rightarrow> u32 list \<Rightarrow> Indexer \<Rightarrow> u32 list option \<times> Indexer" where
  "copyParent pes [] acc idx = (Some acc, idx)"
| "copyParent pes (tscIdx # rest) acc idx =
     (if unat tscIdx \<ge> length pes then (None, idx)
      else
        let c = pes ! unat tscIdx;
            (newIdx, tsc) = AddChunk (ix_tsc idx) (c_sha c) (c_size c) (c_level c) (c_flags c)
        in copyParent pes rest (acc @ [newIdx])
             (idx\<lparr> ix_tsc := tsc, ix_totalBytes := ix_totalBytes idx + uint (c_size c) \<rparr>))"

definition reuseParentChunks :: "TSMEntry \<Rightarrow> Indexer \<Rightarrow> u32 list option \<times> Indexer" where
  "reuseParentChunks entry idx =
     (case ix_parentTSM idx of
        None \<Rightarrow> (None, idx)
      | Some ptsm \<Rightarrow>
          (case ix_parentTSC idx of
             None \<Rightarrow> (None, idx)
           | Some ptsc \<Rightarrow>
               (case LookupPath ptsm (e_Path entry) of
                  None \<Rightarrow> (None, idx)
                | Some parent \<Rightarrow>
                    if e_Type parent \<noteq> EntryTypeFile \<or> e_Size parent \<noteq> e_Size entry \<or> e_Ctime parent \<noteq> e_Ctime entry
                    then (None, idx)
                    else copyParent (r_Entries ptsc) (e_ChunkRefs parent) [] idx)))"

section \<open>One entry\<close>

definition countEntry :: "bool \<Rightarrow> Indexer \<Rightarrow> Indexer" where
  "countEntry unmodified idx =
     (if unmodified then idx\<lparr> ix_unmodified := ix_unmodified idx + 1 \<rparr>
      else idx\<lparr> ix_modified := ix_modified idx + 1 \<rparr>)"

definition baseEntry :: "string \<Rightarrow> fileinfo \<Rightarrow> TSMEntry" where
  "baseEntry relPath info =
     (let zero = (relPath = []) in
      \<lparr> e_Path = relPath, e_Type = EntryTypeFile, e_Flags = 0, e_Mode = fi_mode info, e_UID = fi_uid info,
        e_GID = fi_gid info, e_Size = fi_size info, e_Mtime = (if zero then 0 else fi_mtime info),
        e_Ctime = (if zero then 0 else fi_ctime info), e_Atime = (if zero then 0 else fi_atime info),
        e_ChunkStart = 0, e_ChunkCount = 0, e_ChunkRefs = [], e_LinkTarget = [], e_LinkIndex = 0,
        e_DevMajor = 0, e_DevMinor = 0 \<rparr>)"

definition hardlinkKey :: "fileinfo \<Rightarrow> u64" where
  "hardlinkKey info = push_bit 32 (fi_dev info) OR fi_ino info"

definition finishFile :: "TSMEntry \<Rightarrow> u32 list \<Rightarrow> bool \<Rightarrow> Indexer \<Rightarrow> TSMEntry \<times> Indexer" where
  "finishFile entry chunkRefs unmodified idx =
     (entry\<lparr> e_ChunkRefs := chunkRefs, e_ChunkCount := word_of_nat (length chunkRefs),
             e_Ctime := racyAdjustedCtime (e_Ctime entry) (ix_indexStart idx) \<rparr>,
      countEntry unmodified idx)"

definition processRegular :: "osenv \<Rightarrow> string \<Rightarrow> fileinfo \<Rightarrow> u32 \<Rightarrow> TSMEntry \<Rightarrow> Indexer
    \<Rightarrow> (os_err + TSMEntry option) \<times> Indexer" where
  "processRegular os path info entryIndex entry idx =
     (case (if fi_nlink info > 1 then ix_hardlinks idx (hardlinkKey info) else None) of
        Some firstIdx \<Rightarrow>
          let entry' = entry\<lparr> e_Type := EntryTypeHardlink, e_LinkIndex := firstIdx \<rparr>
          in (Inr (Some entry'), countEntry (isUnmodified idx entry') idx)
      | None \<Rightarrow>
          let idx1 = (if fi_nlink info > 1
                      then idx\<lparr> ix_hardlinks := (ix_hardlinks idx)(hardlinkKey info \<mapsto> entryIndex) \<rparr> else idx)
          in case reuseParentChunks entry idx1 of
               (Some chunkRefs, idx2) \<Rightarrow>
                 let (e, idx3) = finishFile entry chunkRefs True idx2 in (Inr (Some e), idx3)
             | (None, idx2) \<Rightarrow>
                 (case processFileChunks os path (fi_size info) idx2 of
                    (Inl err, idx3) \<Rightarrow> (Inl err, idx3)
                  | (Inr chunkRefs, idx3) \<Rightarrow>
                      let (e, idx4) = finishFile entry chunkRefs False idx3 in (Inr (Some e), idx4)))"

text \<open>A failing \<^verbatim>\<open>Readlink\<close> is wrapped, so it never counts as a permission error for the caller.\<close>

definition processEntry :: "osenv \<Rightarrow> string \<Rightarrow> string \<Rightarrow> fileinfo \<Rightarrow> u32 \<Rightarrow> Indexer
    \<Rightarrow> (os_err + TSMEntry option) \<times> Indexer" where
  "processEntry os path relPath info entryIndex idx =
     (let entry = baseEntry relPath info;
          other = (\<lambda>e. (Inr (Some e), countEntry (isUnmodified idx e) idx))
      in case fi_kind info of
           KDir \<Rightarrow> other (entry\<lparr> e_Type := EntryTypeDir \<rparr>)
         | KRegular \<Rightarrow> processRegular os path info entryIndex entry idx
         | KSymlink \<Rightarrow>
             (case os_readlink os path of
                Inl _ \<Rightarrow> (Inl OtherErr, idx)
              | Inr target \<Rightarrow> other (entry\<lparr> e_Type := EntryTypeSymlink, e_LinkTarget := target,
                                            e_Size := word_of_nat (length target) \<rparr>))
         | KCharDev \<Rightarrow> other (entry\<lparr> e_Type := EntryTypeCharDev, e_DevMajor := fi_major info, e_DevMinor := fi_minor info \<rparr>)
         | KBlockDev \<Rightarrow> other (entry\<lparr> e_Type := EntryTypeBlockDev, e_DevMajor := fi_major info, e_DevMinor := fi_minor info \<rparr>)
         | KFifo \<Rightarrow> other (entry\<lparr> e_Type := EntryTypeFifo \<rparr>)
         | KSocket \<Rightarrow> (Inr None, idx)
         | KOther \<Rightarrow> (Inr None, idx))"

section \<open>The walk and the run\<close>

datatype wnode = WNode (w_path: string) (w_err: "os_err option") (w_dev: u64) (w_kids: "wnode list")

text \<open>
  \<^verbatim>\<open>filepath.Walk\<close> with the indexer's callback: an unreadable directory is skipped when the error is a
  permission error and fatal otherwise; a node on another device is skipped with its subtree.
\<close>

fun walk :: "bool \<Rightarrow> u64 \<Rightarrow> wnode \<Rightarrow> os_err + string list"
  and walks :: "bool \<Rightarrow> u64 \<Rightarrow> wnode list \<Rightarrow> os_err + string list" where
  "walk cross rootDev (WNode path err dev kids) =
     (case err of
        Some Permission \<Rightarrow> Inr []
      | Some OtherErr \<Rightarrow> Inl OtherErr
      | None \<Rightarrow>
          if \<not> cross \<and> dev \<noteq> rootDev then Inr []
          else rbind (walks cross rootDev kids) (\<lambda>ps. Inr (path # ps)))"
| "walks cross rootDev [] = Inr []"
| "walks cross rootDev (n # ns) =
     rbind (walk cross rootDev n) (\<lambda>ps. rbind (walks cross rootDev ns) (\<lambda>qs. Inr (ps @ qs)))"

definition relPathOf :: "string \<Rightarrow> string \<Rightarrow> string" where
  "relPathOf root p =
     (if p = root then [] else TrimPrefix p (if root = ''/'' then ''/'' else root @ ''/''))"

fun processAll :: "osenv \<Rightarrow> string list \<Rightarrow> u32 \<Rightarrow> Indexer \<Rightarrow> os_err + Indexer" where
  "processAll os [] entryIndex idx = Inr idx"
| "processAll os (path # rest) entryIndex idx =
     (case os_lstat os path of
        Inl Permission \<Rightarrow> processAll os rest entryIndex idx
      | Inl OtherErr \<Rightarrow> Inl OtherErr
      | Inr info \<Rightarrow>
          (case processEntry os path (relPathOf (ix_rootPath idx) path) info entryIndex idx of
             (Inl Permission, idx') \<Rightarrow> processAll os rest entryIndex idx'
           | (Inl OtherErr, idx') \<Rightarrow> Inl OtherErr
           | (Inr None, idx') \<Rightarrow> processAll os rest entryIndex idx'
           | (Inr (Some entry), idx') \<Rightarrow>
               processAll os rest (entryIndex + 1) (idx'\<lparr> ix_tsm := AddEntry entry (ix_tsm idx') \<rparr>)))"

datatype index_failure = IdxStatRoot | IdxWalk | IdxProcess | IdxWriteTSC | IdxWriteTSM

definition Index :: "osenv \<Rightarrow> int \<Rightarrow> wnode \<Rightarrow> write_fault option \<Rightarrow> write_fault option \<Rightarrow> string \<Rightarrow> string \<Rightarrow> Indexer \<Rightarrow> fsys
    \<Rightarrow> (index_failure + bytes) \<times> fsys" where
  "Index os now tree f1 f2 rootPath outBase idx0 fs =
     (let root = path_Clean rootPath in
      case os_lstat os root of
        Inl _ \<Rightarrow> (Inl IdxStatRoot, fs)
      | Inr rinfo \<Rightarrow>
          let idx1 = idx0\<lparr> ix_indexStart := now, ix_rootPath := root, ix_rootDev := fi_dev rinfo \<rparr> in
          (case walk (ix_crossDevice idx1) (ix_rootDev idx1) tree of
             Inl _ \<Rightarrow> (Inl IdxWalk, fs)
           | Inr allPaths \<Rightarrow>
               (case processAll os (sort allPaths) 0 idx1 of
                  Inl _ \<Rightarrow> (Inl IdxProcess, fs)
                | Inr idx \<Rightarrow>
                    (case TSC_Write f1 (ix_tsc idx) (outBase @ ''.tsc'') fs of
                       (Inl _, fs1) \<Rightarrow> (Inl IdxWriteTSC, fs1)
                     | (Inr (tscSHA, indexMap), fs1) \<Rightarrow>
                         (case TSM_Write f2 (ix_tsm idx) (outBase @ ''.tsm'') tscSHA indexMap fs1 of
                            (Inl _, _, fs2) \<Rightarrow> (Inl IdxWriteTSM, fs2)
                          | (Inr sha, _, fs2) \<Rightarrow> (Inr sha, fs2))))))"

definition Create :: "osenv \<Rightarrow> int \<Rightarrow> wnode \<Rightarrow> write_fault option \<Rightarrow> write_fault option \<Rightarrow> string \<Rightarrow> string
    \<Rightarrow> TSMReader option \<Rightarrow> TSCReader option \<Rightarrow> bool \<Rightarrow> u64 \<Rightarrow> fsys \<Rightarrow> (index_failure + bytes) \<times> fsys" where
  "Create os now tree f1 f2 rootPath outBase ptsm ptsc cross t fs =
     Index os now tree f1 f2 rootPath outBase (NewIndexer ptsm ptsc cross t) fs"

record IndexerStats =
  st_UnmodifiedEntries :: nat
  st_ModifiedEntries :: nat
  st_ChunkCount :: u64
  st_TotalBytes :: int

definition Stats :: "Indexer \<Rightarrow> IndexerStats" where
  "Stats idx = \<lparr> st_UnmodifiedEntries = ix_unmodified idx, st_ModifiedEntries = ix_modified idx,
     st_ChunkCount = ChunkCount (ix_tsc idx), st_TotalBytes = ix_totalBytes idx \<rparr>"

section \<open>Growing the chunk table\<close>

text \<open>
  \<open>adds w w' refs shas\<close>: the table grew from \<open>w\<close> to \<open>w'\<close> by appending, and, as long as it fits its
  32-bit indices, the invariant is kept and \<open>refs\<close> are indices at which \<open>shas\<close> are stored.
\<close>

definition refs_at :: "TSCWriter \<Rightarrow> u32 list \<Rightarrow> bytes list \<Rightarrow> bool" where
  "refs_at w refs shas =
     ((\<forall>r \<in> set refs. unat r < length (w_chunks w)) \<and> map (\<lambda>r. c_sha (w_chunks w ! unat r)) refs = shas)"

definition adds :: "TSCWriter \<Rightarrow> TSCWriter \<Rightarrow> u32 list \<Rightarrow> bytes list \<Rightarrow> bool" where
  "adds w w' refs shas =
     ((\<exists>es. w_chunks w' = w_chunks w @ es) \<and>
      (tsc_inv w \<and> length (w_chunks w') \<le> 2 ^ 32 \<longrightarrow> tsc_inv w' \<and> refs_at w' refs shas))"

lemma refs_at_extend: "\<lbrakk>refs_at w refs shas; w_chunks w' = w_chunks w @ es\<rbrakk> \<Longrightarrow> refs_at w' refs shas"
  by (auto simp: refs_at_def nth_append)

lemma adds_refl: "adds w w [] []"
  by (simp add: adds_def refs_at_def)

lemma adds_trans:
  assumes "adds w w1 r1 u1" "adds w1 w2 r2 u2"
  shows "adds w w2 (r1 @ r2) (u1 @ u2)"
proof -
  obtain es1 es2 where e: "w_chunks w1 = w_chunks w @ es1" "w_chunks w2 = w_chunks w1 @ es2"
    using assms unfolding adds_def by blast
  show ?thesis
    unfolding adds_def
  proof (intro conjI impI)
    show "\<exists>es. w_chunks w2 = w_chunks w @ es" using e by simp
    assume a: "tsc_inv w \<and> length (w_chunks w2) \<le> 2 ^ 32"
    then have "length (w_chunks w1) \<le> 2 ^ 32" using e by simp
    with a assms have "tsc_inv w1" "refs_at w1 r1 u1" by (auto simp: adds_def)
    with a assms(2) have 2: "tsc_inv w2" "refs_at w2 r2 u2" by (auto simp: adds_def)
    with refs_at_extend [OF \<open>refs_at w1 r1 u1\<close> e(2)] show "tsc_inv w2" "refs_at w2 (r1 @ r2) (u1 @ u2)"
      by (auto simp: refs_at_def)
  qed
qed

lemma adds_AddChunk:
  assumes "length sha = 32" "AddChunk w sha sz level flags = (i, w')"
  shows "adds w w' [i] [sha]"
proof -
  have "tsc_inv w' \<and> refs_at w' [i] [sha]" if "tsc_inv w" "length (w_chunks w') \<le> 2 ^ 32"
  proof (cases "w_chunkMap w sha")
    case None
    with assms(2) have "length (w_chunks w') = Suc (length (w_chunks w))" by (auto simp: AddChunk_def Let_def)
    with that(2) have "length (w_chunks w) < 2 ^ 32" by simp
    from AddChunk_inv [OF that(1) assms(1) this assms(2)] show ?thesis by (simp add: refs_at_def)
  next
    case (Some j)
    with assms(2) that(1) show ?thesis by (auto simp: AddChunk_def refs_at_def tsc_inv_def)
  qed
  with AddChunk_grows [OF assms(2)] show ?thesis by (simp add: adds_def)
qed

lemma length_BlobSHA256 [simp]: "length (BlobSHA256 d) = 32"
  by (simp add: BlobSHA256_def)

lemma adds_chunks:
  "fold_res (run_cb chunkCallback) cs (tsc, refs, tot) = Inr (tsc', refs', tot') \<Longrightarrow>
   \<exists>new. refs' = refs @ new \<and> adds tsc tsc' new (map (\<lambda>c. BlobSHA256 (fst c)) cs)"
proof (induction cs arbitrary: tsc refs tot)
  case Nil
  then show ?case using adds_refl by auto
next
  case (Cons c cs)
  let ?sha = "BlobSHA256 (fst c)" and ?fl = "if BlobSHA256 (fst c) = ZeroBlockSHA then TSCEntryFlagZeroBlock else 0"
  obtain i tsc1 where a: "AddChunk tsc ?sha (word_of_nat (length (fst c))) (word_of_nat (snd c)) ?fl = (i, tsc1)"
    by fastforce
  then have "run_cb chunkCallback c (tsc, refs, tot) = Inr (tsc1, refs @ [i], tot + uint (word_of_nat (length (fst c)) :: u32))"
    by (simp add: run_cb_def chunkCallback_def split_beta Let_def)
  with Cons.prems have "fold_res (run_cb chunkCallback) cs (tsc1, refs @ [i], tot + uint (word_of_nat (length (fst c)) :: u32))
      = Inr (tsc', refs', tot')" by simp
  from Cons.IH [OF this] obtain new where n: "refs' = (refs @ [i]) @ new" "adds tsc1 tsc' new (map (\<lambda>c. BlobSHA256 (fst c)) cs)"
    by blast
  from adds_trans [OF adds_AddChunk [OF _ a] n(2)] n(1) show ?case by auto
qed

section \<open>What one entry records\<close>

definition clean_files :: "osenv \<Rightarrow> bool" where
  "clean_files os = (\<forall>p rd n. os_open os p = Inr (rd, n) \<longrightarrow> ends_clean rd)"

definition file_data :: "osenv \<Rightarrow> string \<Rightarrow> u64 \<Rightarrow> bytes" where
  "file_data os path sz = (if sz = 0 then [] else case os_open os path of Inl _ \<Rightarrow> [] | Inr (rd, n) \<Rightarrow> contents rd)"

definition content_shas :: "bytes \<Rightarrow> bytes list" where
  "content_shas data = map (\<lambda>c. BlobSHA256 (fst c)) (ref_chunks data)"

definition frame :: "Indexer \<Rightarrow> Indexer \<Rightarrow> bool" where
  "frame idx idx' = (idx' = idx\<lparr> ix_tsc := ix_tsc idx', ix_totalBytes := ix_totalBytes idx' \<rparr>)"

lemma frame_refl [simp]: "frame idx idx"
  by (simp add: frame_def)

lemma frame_upd [simp]: "frame idx (idx\<lparr> ix_tsc := t, ix_totalBytes := b \<rparr>)"
  by (simp add: frame_def)

lemma frame_trans: "frame a b \<Longrightarrow> frame b c \<Longrightarrow> frame a c"
  unfolding frame_def by (metis Indexer.Indexer.surjective Indexer.Indexer.update_convs(4) Indexer.Indexer.update_convs(8))

lemma processFileChunks_adds:
  assumes "clean_files os" "processFileChunks os path sz idx = (Inr refs, idx')"
  shows "adds (ix_tsc idx) (ix_tsc idx') refs (content_shas (file_data os path sz)) \<and>
    frame idx idx'"
proof (cases "sz = 0")
  case True
  with assms(2) show ?thesis
    using adds_refl [of "ix_tsc idx"] by (auto simp: processFileChunks_def file_data_def content_shas_def)
next
  case False
  with assms(2) obtain rd fsize where o: "os_open os path = Inr (rd, fsize)"
    by (auto simp: processFileChunks_def split: sum.splits)
  then have cl: "ends_clean rd" using assms(1) by (auto simp: clean_files_def)
  from assms(2) False o obtain tsc tot where
    c: "ChunkFile (Some rd) fsize chunkCallback None (ix_tsc idx, [], ix_totalBytes idx) = Inr (tsc, refs, tot)"
    and idx': "idx' = idx\<lparr> ix_tsc := tsc, ix_totalBytes := tot \<rparr>"
    by (auto simp: processFileChunks_def split: sum.splits)
  then obtain n where "chunkStream rd n chunkCallback None (ix_tsc idx, [], ix_totalBytes idx) = Inr (tsc, refs, tot)"
    by (auto simp: ChunkFile_def ChunkReader_def split: option.splits)
  then have "fold_res (run_cb chunkCallback) (ref_chunks (contents rd)) (ix_tsc idx, [], ix_totalBytes idx) = Inr (tsc, refs, tot)"
    by (simp add: chunkStream_feed [OF cl] feed_def)
  from adds_chunks [OF this] idx' False o show ?thesis by (auto simp: content_shas_def file_data_def)
qed

definition parent_wf :: "Indexer \<Rightarrow> bool" where
  "parent_wf idx = (\<forall>ptsc. ix_parentTSC idx = Some ptsc \<longrightarrow> (\<forall>c \<in> set (r_Entries ptsc). wf_chunk c))"

lemma copyParent_adds:
  assumes "\<forall>c \<in> set pes. wf_chunk c" "copyParent pes prefs acc idx = (r, idx')"
  shows "frame idx idx' \<and>
    (case r of
       None \<Rightarrow> adds (ix_tsc idx) (ix_tsc idx') [] []
     | Some refs \<Rightarrow> (\<exists>new. refs = acc @ new \<and> adds (ix_tsc idx) (ix_tsc idx') new (map (\<lambda>i. c_sha (pes ! unat i)) prefs)))"
  using assms(2)
proof (induction prefs arbitrary: acc idx)
  case Nil
  then show ?case using adds_refl by auto
next
  case (Cons i prefs)
  show ?case
  proof (cases "unat i \<ge> length pes")
    case True
    with Cons.prems show ?thesis
      using adds_refl by auto
  next
    case False
    let ?c = "pes ! unat i"
    obtain j tsc where a: "AddChunk (ix_tsc idx) (c_sha ?c) (c_size ?c) (c_level ?c) (c_flags ?c) = (j, tsc)" by fastforce
    let ?idx1 = "idx\<lparr> ix_tsc := tsc, ix_totalBytes := ix_totalBytes idx + uint (c_size ?c) \<rparr>"
    have "length (c_sha ?c) = 32" using assms(1) False by (simp add: wf_chunk_def)
    note a1 = adds_AddChunk [OF this a]
    from Cons.prems False a have "copyParent pes prefs (acc @ [j]) ?idx1 = (r, idx')" by simp
    note IH = Cons.IH [OF this]
    from IH a1 show ?thesis
    proof (cases r)
      case None
      with IH have fr: "frame ?idx1 idx'" "adds tsc (ix_tsc idx') [] []" by simp_all
      from adds_trans [OF a1 fr(2)] frame_trans [OF frame_upd fr(1)] None show ?thesis
        by (auto simp: adds_def refs_at_def)
    next
      case (Some refs)
      with IH obtain new where "refs = (acc @ [j]) @ new"
        "adds tsc (ix_tsc idx') new (map (\<lambda>i. c_sha (pes ! unat i)) prefs)" by auto
      moreover have "frame idx idx'" using frame_trans [OF frame_upd] IH by blast
      ultimately show ?thesis using adds_trans [OF a1] Some by auto
    qed
  qed
qed

definition keeps :: "Indexer \<Rightarrow> Indexer \<Rightarrow> bool" where
  "keeps idx idx' = (ix_parentTSM idx' = ix_parentTSM idx \<and> ix_parentTSC idx' = ix_parentTSC idx \<and>
     ix_rootPath idx' = ix_rootPath idx \<and> ix_tsm idx' = ix_tsm idx)"

lemma frame_keeps: "frame idx idx' \<Longrightarrow> keeps idx idx'"
  unfolding frame_def keeps_def
  by (metis Indexer.Indexer.select_convs(1,2,5,6) Indexer.Indexer.surjective Indexer.Indexer.update_convs(4,8))

lemma keeps_simps [simp]:
  "keeps idx idx" "keeps idx (countEntry b idx') = keeps idx idx'" "keeps idx (idx'\<lparr> ix_hardlinks := h \<rparr>) = keeps idx idx'"
  "ix_tsc (countEntry b idx) = ix_tsc idx"
  by (simp_all add: keeps_def countEntry_def)

text \<open>Where the chunk references of a file entry come from: the file's bytes, or the parent.\<close>

definition recorded :: "osenv \<Rightarrow> Indexer \<Rightarrow> string \<Rightarrow> fileinfo \<Rightarrow> TSCWriter \<Rightarrow> TSMEntry \<Rightarrow> bool" where
  "recorded os idx path info tsc e =
     (e_Type e = EntryTypeFile \<longrightarrow>
      refs_at tsc (e_ChunkRefs e) (content_shas (file_data os path (fi_size info))) \<or>
      (\<exists>ptsm ptsc pe. ix_parentTSM idx = Some ptsm \<and> ix_parentTSC idx = Some ptsc \<and> LookupPath ptsm (e_Path e) = Some pe \<and>
         e_Type pe = EntryTypeFile \<and> e_Size pe = fi_size info \<and> e_Ctime pe = (if e_Path e = [] then 0 else fi_ctime info) \<and>
         refs_at tsc (e_ChunkRefs e) (map (\<lambda>i. c_sha (r_Entries ptsc ! unat i)) (e_ChunkRefs pe))))"

definition entry_shape :: "TSMEntry \<Rightarrow> bool" where
  "entry_shape e =
     (unat (e_Type e) < 16 \<and> e_Flags e AND 0x0F = 0 \<and>
      (e_Type e \<noteq> EntryTypeSymlink \<longrightarrow> e_LinkTarget e = []) \<and>
      (e_Type e \<noteq> EntryTypeHardlink \<longrightarrow> e_LinkIndex e = 0) \<and>
      (e_Type e \<noteq> EntryTypeBlockDev \<and> e_Type e \<noteq> EntryTypeCharDev \<longrightarrow> e_DevMajor e = 0 \<and> e_DevMinor e = 0) \<and>
      e_ChunkCount e = word_of_nat (length (e_ChunkRefs e)))"

definition entry_ok :: "osenv \<Rightarrow> Indexer \<Rightarrow> string \<Rightarrow> string \<Rightarrow> fileinfo \<Rightarrow> Indexer \<Rightarrow> TSMEntry \<Rightarrow> bool" where
  "entry_ok os idx path relPath info idx' e =
     (e_Path e = relPath \<and> entry_shape e \<and>
      (tsc_inv (ix_tsc idx) \<and> length (w_chunks (ix_tsc idx')) \<le> 2 ^ 32 \<longrightarrow> recorded os idx path info (ix_tsc idx') e))"

lemma reuse_adds:
  assumes "parent_wf idx" "reuseParentChunks entry idx = (r, idx')"
  shows "frame idx idx' \<and>
    (case r of None \<Rightarrow> adds (ix_tsc idx) (ix_tsc idx') [] []
     | Some refs \<Rightarrow> (\<exists>ptsm ptsc pe. ix_parentTSM idx = Some ptsm \<and> ix_parentTSC idx = Some ptsc \<and>
         LookupPath ptsm (e_Path entry) = Some pe \<and> e_Type pe = EntryTypeFile \<and> e_Size pe = e_Size entry \<and>
         e_Ctime pe = e_Ctime entry \<and>
         adds (ix_tsc idx) (ix_tsc idx') refs (map (\<lambda>i. c_sha (r_Entries ptsc ! unat i)) (e_ChunkRefs pe))))"
proof (cases "r = None \<and> idx' = idx")
  case True
  then show ?thesis using adds_refl by simp
next
  case False
  with assms(2) obtain ptsm ptsc pe where p: "ix_parentTSM idx = Some ptsm" "ix_parentTSC idx = Some ptsc"
    "LookupPath ptsm (e_Path entry) = Some pe" "e_Type pe = EntryTypeFile" "e_Size pe = e_Size entry" "e_Ctime pe = e_Ctime entry"
    and c: "copyParent (r_Entries ptsc) (e_ChunkRefs pe) [] idx = (r, idx')"
    by (auto simp: reuseParentChunks_def split: option.splits if_splits)
  have "\<forall>c \<in> set (r_Entries ptsc). wf_chunk c" using assms(1) p(2) by (simp add: parent_wf_def)
  from copyParent_adds [OF this c] p show ?thesis by (auto split: option.splits)
qed

lemma adds_weaken: "adds w w' refs shas \<Longrightarrow> adds w w' [] []"
  by (auto simp: adds_def refs_at_def)

lemma baseEntry_simps [simp]:
  "e_Path (baseEntry rel info) = rel" "e_Type (baseEntry rel info) = EntryTypeFile" "e_Size (baseEntry rel info) = fi_size info"
  "e_Ctime (baseEntry rel info) = (if rel = [] then 0 else fi_ctime info)"
  "e_Flags (baseEntry rel info) = 0" "e_LinkTarget (baseEntry rel info) = []" "e_LinkIndex (baseEntry rel info) = 0"
  "e_DevMajor (baseEntry rel info) = 0" "e_DevMinor (baseEntry rel info) = 0"
  "e_ChunkRefs (baseEntry rel info) = []" "e_ChunkCount (baseEntry rel info) = 0"
  by (simp_all add: baseEntry_def Let_def)

lemma processRegular_spec:
  assumes "clean_files os" "parent_wf idx"
    and pr: "processRegular os path info ei (baseEntry rel info) idx = (r, idx')"
  shows "keeps idx idx' \<and> adds (ix_tsc idx) (ix_tsc idx') [] [] \<and>
    (\<forall>e. r = Inr (Some e) \<longrightarrow> entry_ok os idx path rel info idx' e)"
proof (cases "if fi_nlink info > 1 then ix_hardlinks idx (hardlinkKey info) else None")
  case (Some firstIdx)
  with pr have r: "r = Inr (Some (baseEntry rel info\<lparr> e_Type := EntryTypeHardlink, e_LinkIndex := firstIdx \<rparr>))"
    and idx': "\<exists>b. idx' = countEntry b idx"
    by (auto simp: processRegular_def Let_def)
  from idx' obtain b where "idx' = countEntry b idx" by blast
  with r adds_refl show ?thesis
    by (auto simp: entry_ok_def entry_shape_def recorded_def entry_types)
next
  case None
  let ?e = "baseEntry rel info"
  define idx1 where "idx1 = (if fi_nlink info > 1
      then idx\<lparr> ix_hardlinks := (ix_hardlinks idx)(hardlinkKey info \<mapsto> ei) \<rparr> else idx)"
  have i1: "ix_tsc idx1 = ix_tsc idx" "keeps idx idx1" by (simp_all add: idx1_def)
  then have pw1: "parent_wf idx1" using assms(2) by (simp add: parent_wf_def keeps_def)
  obtain ro idx2 where re: "reuseParentChunks ?e idx1 = (ro, idx2)" by fastforce
  note ra = reuse_adds [OF pw1 re]
  have k2: "keeps idx idx2" using ra frame_keeps i1(2) by (auto simp: keeps_def)
  have shape: "entry_shape (?e\<lparr> e_ChunkRefs := refs, e_ChunkCount := word_of_nat (length refs), e_Ctime := c \<rparr>)" for refs c
    by (simp add: entry_shape_def entry_types)
  show ?thesis
  proof (cases ro)
    case (Some refs)
    with pr None re have r: "r = Inr (Some (fst (finishFile ?e refs True idx2)))" "idx' = snd (finishFile ?e refs True idx2)"
      by (auto simp: processRegular_def Let_def simp flip: idx1_def split: prod.splits)
    from ra Some obtain ptsm ptsc pe where p: "ix_parentTSM idx1 = Some ptsm" "ix_parentTSC idx1 = Some ptsc"
         "LookupPath ptsm rel = Some pe" "e_Type pe = EntryTypeFile" "e_Size pe = fi_size info"
         "e_Ctime pe = (if rel = [] then 0 else fi_ctime info)"
      and ad: "adds (ix_tsc idx) (ix_tsc idx2) refs (map (\<lambda>i. c_sha (r_Entries ptsc ! unat i)) (e_ChunkRefs pe))"
      by (auto simp: i1)
    have "ix_parentTSM idx = Some ptsm" "ix_parentTSC idx = Some ptsc" using p i1(2) by (simp_all add: keeps_def)
    with ad p(3-6) have "tsc_inv (ix_tsc idx) \<and> length (w_chunks (ix_tsc idx2)) \<le> 2 ^ 32 \<longrightarrow>
        recorded os idx path info (ix_tsc idx2) (?e\<lparr> e_ChunkRefs := refs, e_ChunkCount := cc, e_Ctime := c \<rparr>)" for cc c
      by (auto simp: recorded_def adds_def)
    with r shape k2 adds_weaken [OF ad] show ?thesis
      by (auto simp: finishFile_def entry_ok_def)
  next
    case rn: None
    obtain fr idx3 where pf: "processFileChunks os path (fi_size info) idx2 = (fr, idx3)" by fastforce
    have a2: "adds (ix_tsc idx) (ix_tsc idx2) [] []" using ra rn i1 by simp
    show ?thesis
    proof (cases fr)
      case (Inl err)
      then have "idx3 = idx2" using pf by (auto simp: processFileChunks_def split: sum.splits if_splits prod.splits)
      with pr None re rn pf Inl have "r = Inl err" "idx' = idx2"
        by (auto simp: processRegular_def Let_def simp flip: idx1_def)
      with k2 a2 show ?thesis by simp
    next
      case (Inr refs)
      with pr None re rn pf have r: "r = Inr (Some (fst (finishFile ?e refs False idx3)))" "idx' = snd (finishFile ?e refs False idx3)"
        by (auto simp: processRegular_def Let_def simp flip: idx1_def split: prod.splits)
      note pa = processFileChunks_adds [OF assms(1) pf [unfolded Inr]]
      have ad: "adds (ix_tsc idx) (ix_tsc idx3) refs (content_shas (file_data os path (fi_size info)))"
        using adds_trans [OF a2] pa by fastforce
      have k3: "keeps idx idx3" using pa frame_keeps k2 by (auto simp: keeps_def)
      from ad have "tsc_inv (ix_tsc idx) \<and> length (w_chunks (ix_tsc idx3)) \<le> 2 ^ 32 \<longrightarrow>
          recorded os idx path info (ix_tsc idx3) (?e\<lparr> e_ChunkRefs := refs, e_ChunkCount := cc, e_Ctime := c \<rparr>)" for cc c
        by (auto simp: recorded_def adds_def)
      with r shape k3 adds_weaken [OF ad] show ?thesis
        by (auto simp: finishFile_def entry_ok_def)
    qed
  qed
qed

lemma processEntry_spec:
  assumes "clean_files os" "parent_wf idx"
    and pe: "processEntry os path rel info ei idx = (r, idx')"
  shows "keeps idx idx' \<and> adds (ix_tsc idx) (ix_tsc idx') [] [] \<and>
    (\<forall>e. r = Inr (Some e) \<longrightarrow> entry_ok os idx path rel info idx' e)"
proof (cases "fi_kind info = KRegular")
  case True
  with pe processRegular_spec [OF assms(1,2)] show ?thesis by (simp add: processEntry_def Let_def)
next
  case False
  with pe have "ix_tsc idx' = ix_tsc idx" "keeps idx idx'"
    by (auto simp: processEntry_def Let_def split: kind.splits sum.splits)
  moreover have "entry_ok os idx path rel info idx' e" if "r = Inr (Some e)" for e
    using pe that False
    by (auto simp: processEntry_def Let_def entry_ok_def entry_shape_def recorded_def entry_types
        split: kind.splits sum.splits)
  ultimately show ?thesis using adds_refl by simp
qed

section \<open>The whole run\<close>

definition tsm_struct :: "TSMWriter \<Rightarrow> bool" where
  "tsm_struct w = (tw_fileCount w = word_of_nat (length (tw_entries w)) \<and> length (tw_fsUUID w) = 8)"

definition all_recorded :: "osenv \<Rightarrow> Indexer \<Rightarrow> bool" where
  "all_recorded os idx =
     (\<forall>e \<in> set (tw_entries (ix_tsm idx)). \<exists>path info. os_lstat os path = Inr info \<and>
        e_Path e = relPathOf (ix_rootPath idx) path \<and> entry_shape e \<and> recorded os idx path info (ix_tsc idx) e)"

definition run_inv :: "osenv \<Rightarrow> Indexer \<Rightarrow> bool" where
  "run_inv os idx = (tsc_inv (ix_tsc idx) \<and> tsm_struct (ix_tsm idx) \<and> parent_wf idx \<and> all_recorded os idx)"

text \<open>One round of the loop, as a relation: the entry that was added, if any.\<close>

lemma processAll_Cons:
  assumes "processAll os (path # rest) ei idx = Inr idx'"
  shows "(processAll os rest ei idx = Inr idx') \<or>
    (\<exists>info r idx1. os_lstat os path = Inr info \<and>
       processEntry os path (relPathOf (ix_rootPath idx) path) info ei idx = (r, idx1) \<and>
       (case r of
          Inl _ \<Rightarrow> processAll os rest ei idx1 = Inr idx'
        | Inr None \<Rightarrow> processAll os rest ei idx1 = Inr idx'
        | Inr (Some e) \<Rightarrow> processAll os rest (ei + 1) (idx1\<lparr> ix_tsm := AddEntry e (ix_tsm idx1) \<rparr>) = Inr idx'))"
  using assms by (auto split: sum.splits os_err.splits prod.splits option.splits)

lemma recorded_mono:
  "\<lbrakk>recorded os idx path info w e; w_chunks w' = w_chunks w @ es; keeps idx idx'\<rbrakk> \<Longrightarrow> recorded os idx' path info w' e"
  unfolding recorded_def keeps_def by (auto dest: refs_at_extend)

lemma all_recorded_mono:
  assumes "all_recorded os idx" "keeps idx idx'" "w_chunks (ix_tsc idx') = w_chunks (ix_tsc idx) @ es"
  shows "all_recorded os idx'"
  using assms recorded_mono [OF _ assms(3,2)] unfolding all_recorded_def keeps_def by metis

lemma all_recorded_Add:
  assumes "all_recorded os idx" "os_lstat os path = Inr info" "e_Path e = relPathOf (ix_rootPath idx) path"
    "entry_shape e" "recorded os idx path info (ix_tsc idx) e"
  shows "all_recorded os (idx\<lparr> ix_tsm := AddEntry e (ix_tsm idx) \<rparr>)"
proof -
  have [simp]: "recorded os (idx\<lparr> ix_tsm := t \<rparr>) p i w e' = recorded os idx p i w e'" for t p i w e'
    by (simp add: recorded_def)
  have "set (tw_entries (AddEntry e (ix_tsm idx))) = insert e (set (tw_entries (ix_tsm idx)))" by (simp add: AddEntry_def)
  with assms show ?thesis unfolding all_recorded_def by simp blast
qed

lemma step_run_inv:
  assumes "clean_files os" "run_inv os idx" "os_lstat os path = Inr info"
    and pe: "processEntry os path (relPathOf (ix_rootPath idx) path) info ei idx = (r, idx1)"
    and small: "length (w_chunks (ix_tsc idx1)) \<le> 2 ^ 32"
  shows "run_inv os idx1 \<and> (\<forall>e. r = Inr (Some e) \<longrightarrow> run_inv os (idx1\<lparr> ix_tsm := AddEntry e (ix_tsm idx1) \<rparr>))"
proof -
  have inv: "tsc_inv (ix_tsc idx)" "tsm_struct (ix_tsm idx)" "parent_wf idx" "all_recorded os idx"
    using assms(2) by (simp_all add: run_inv_def)
  note ps = processEntry_spec [OF assms(1) inv(3) pe]
  then have k: "keeps idx idx1" and ad: "adds (ix_tsc idx) (ix_tsc idx1) [] []" by simp_all
  obtain es where es: "w_chunks (ix_tsc idx1) = w_chunks (ix_tsc idx) @ es" using ad unfolding adds_def by blast
  have t1: "tsc_inv (ix_tsc idx1)" using ad inv(1) small by (simp add: adds_def)
  have pw: "parent_wf idx1" using inv(3) k by (simp add: parent_wf_def keeps_def)
  have ar: "all_recorded os idx1" by (rule all_recorded_mono [OF inv(4) k es])
  have st: "tsm_struct (ix_tsm idx1)" using inv(2) k by (simp add: keeps_def)
  have "run_inv os (idx1\<lparr> ix_tsm := AddEntry e (ix_tsm idx1) \<rparr>)" if "r = Inr (Some e)" for e
  proof -
    have ok: "entry_ok os idx path (relPathOf (ix_rootPath idx) path) info idx1 e" using ps that by blast
    then have "recorded os idx1 path info (ix_tsc idx1) e"
      using inv(1) small recorded_mono [OF _ append_Nil2 [symmetric] k] by (simp add: entry_ok_def)
    moreover have "e_Path e = relPathOf (ix_rootPath idx1) path" "entry_shape e"
      using ok k by (simp_all add: entry_ok_def keeps_def)
    ultimately have "all_recorded os (idx1\<lparr> ix_tsm := AddEntry e (ix_tsm idx1) \<rparr>)"
      by (intro all_recorded_Add [OF ar assms(3)])
    then show ?thesis using t1 st pw by (simp add: run_inv_def tsm_struct_def AddEntry_def parent_wf_def)
  qed
  with t1 st pw ar show ?thesis by (simp add: run_inv_def)
qed

lemma processAll_grows:
  "\<lbrakk>clean_files os; parent_wf idx; processAll os paths ei idx = Inr idx'\<rbrakk> \<Longrightarrow>
   \<exists>es. w_chunks (ix_tsc idx') = w_chunks (ix_tsc idx) @ es"
proof (induction paths arbitrary: ei idx)
  case (Cons path rest)
  from processAll_Cons [OF Cons.prems(3)] show ?case
  proof
    assume "processAll os rest ei idx = Inr idx'"
    with Cons show ?thesis by blast
  next
    assume "\<exists>info r idx1. os_lstat os path = Inr info \<and>
       processEntry os path (relPathOf (ix_rootPath idx) path) info ei idx = (r, idx1) \<and>
       (case r of Inl _ \<Rightarrow> processAll os rest ei idx1 = Inr idx'
        | Inr None \<Rightarrow> processAll os rest ei idx1 = Inr idx'
        | Inr (Some e) \<Rightarrow> processAll os rest (ei + 1) (idx1\<lparr> ix_tsm := AddEntry e (ix_tsm idx1) \<rparr>) = Inr idx')"
    then obtain info r idx1 idx2 ei2 where pe: "processEntry os path (relPathOf (ix_rootPath idx) path) info ei idx = (r, idx1)"
      and i2: "processAll os rest ei2 idx2 = Inr idx'" "ix_tsc idx2 = ix_tsc idx1" "ix_parentTSC idx2 = ix_parentTSC idx1"
      by (fastforce split: sum.splits option.splits)
    note ps = processEntry_spec [OF Cons.prems(1,2) pe]
    obtain es where es: "w_chunks (ix_tsc idx1) = w_chunks (ix_tsc idx) @ es" using ps unfolding adds_def by blast
    have "parent_wf idx2" using ps Cons.prems(2) i2(3) by (simp add: parent_wf_def keeps_def)
    from Cons.IH [OF Cons.prems(1) this i2(1)] es i2(2) show ?thesis by auto
  qed
qed simp

lemma processAll_keeps:
  "\<lbrakk>clean_files os; parent_wf idx; processAll os paths ei idx = Inr idx'\<rbrakk> \<Longrightarrow>
   ix_parentTSM idx' = ix_parentTSM idx \<and> ix_rootPath idx' = ix_rootPath idx"
proof (induction paths arbitrary: ei idx)
  case (Cons path rest)
  from processAll_Cons [OF Cons.prems(3)] show ?case
  proof
    assume "processAll os rest ei idx = Inr idx'"
    with Cons show ?thesis by blast
  next
    assume "\<exists>info r idx1. os_lstat os path = Inr info \<and>
       processEntry os path (relPathOf (ix_rootPath idx) path) info ei idx = (r, idx1) \<and>
       (case r of Inl _ \<Rightarrow> processAll os rest ei idx1 = Inr idx'
        | Inr None \<Rightarrow> processAll os rest ei idx1 = Inr idx'
        | Inr (Some e) \<Rightarrow> processAll os rest (ei + 1) (idx1\<lparr> ix_tsm := AddEntry e (ix_tsm idx1) \<rparr>) = Inr idx')"
    then obtain info r idx1 idx2 ei2 where pe: "processEntry os path (relPathOf (ix_rootPath idx) path) info ei idx = (r, idx1)"
      and i2: "processAll os rest ei2 idx2 = Inr idx'" "ix_parentTSC idx2 = ix_parentTSC idx1"
        "ix_parentTSM idx2 = ix_parentTSM idx1" "ix_rootPath idx2 = ix_rootPath idx1"
      by (fastforce split: sum.splits option.splits)
    have k: "keeps idx idx1" using processEntry_spec [OF Cons.prems(1,2) pe] by simp
    then have "parent_wf idx2" using Cons.prems(2) i2(2) by (simp add: parent_wf_def keeps_def)
    from Cons.IH [OF Cons.prems(1) this i2(1)] k i2 show ?thesis by (simp add: keeps_def)
  qed
qed simp

lemma processAll_run_inv:
  "\<lbrakk>clean_files os; run_inv os idx; processAll os paths ei idx = Inr idx'; length (w_chunks (ix_tsc idx')) \<le> 2 ^ 32\<rbrakk>
   \<Longrightarrow> run_inv os idx'"
proof (induction paths arbitrary: ei idx)
  case (Cons path rest)
  have pw: "parent_wf idx" using Cons.prems(2) by (simp add: run_inv_def)
  from processAll_Cons [OF Cons.prems(3)] show ?case
  proof
    assume "processAll os rest ei idx = Inr idx'"
    with Cons show ?thesis by blast
  next
    assume "\<exists>info r idx1. os_lstat os path = Inr info \<and>
       processEntry os path (relPathOf (ix_rootPath idx) path) info ei idx = (r, idx1) \<and>
       (case r of Inl _ \<Rightarrow> processAll os rest ei idx1 = Inr idx'
        | Inr None \<Rightarrow> processAll os rest ei idx1 = Inr idx'
        | Inr (Some e) \<Rightarrow> processAll os rest (ei + 1) (idx1\<lparr> ix_tsm := AddEntry e (ix_tsm idx1) \<rparr>) = Inr idx')"
    then obtain info r idx1 where l: "os_lstat os path = Inr info"
      and pe: "processEntry os path (relPathOf (ix_rootPath idx) path) info ei idx = (r, idx1)"
      and nx: "case r of Inl _ \<Rightarrow> processAll os rest ei idx1 = Inr idx'
        | Inr None \<Rightarrow> processAll os rest ei idx1 = Inr idx'
        | Inr (Some e) \<Rightarrow> processAll os rest (ei + 1) (idx1\<lparr> ix_tsm := AddEntry e (ix_tsm idx1) \<rparr>) = Inr idx'"
      by blast
    obtain idx2 ei2 where i2: "processAll os rest ei2 idx2 = Inr idx'" "ix_tsc idx2 = ix_tsc idx1" "ix_parentTSC idx2 = ix_parentTSC idx1"
      and which: "idx2 = idx1 \<or> (\<exists>e. r = Inr (Some e) \<and> idx2 = idx1\<lparr> ix_tsm := AddEntry e (ix_tsm idx1) \<rparr>)"
      using nx by (auto split: sum.splits option.splits)
    have "parent_wf idx2" using processEntry_spec [OF Cons.prems(1) pw pe] pw i2(3) by (simp add: parent_wf_def keeps_def)
    from processAll_grows [OF Cons.prems(1) this i2(1)] Cons.prems(4) i2(2)
    have "length (w_chunks (ix_tsc idx1)) \<le> 2 ^ 32" by auto
    from step_run_inv [OF Cons.prems(1,2) l pe this] which have "run_inv os idx2" by auto
    from Cons.IH [OF Cons.prems(1) this i2(1) Cons.prems(4)] show ?thesis .
  qed
qed simp

text \<open>The run stays within the widths of the formats: 32-bit chunk indices, 16-bit entry lengths.\<close>

definition fits :: "Indexer \<Rightarrow> bool" where
  "fits idx =
     (length (w_chunks (ix_tsc idx)) \<le> 2 ^ 32 \<and> totalRefs (tw_entries (ix_tsm idx)) < 2 ^ 32 \<and>
      length (tw_entries (ix_tsm idx)) < 2 ^ 64 \<and> (\<forall>e \<in> set (tw_entries (ix_tsm idx)). length (encodeEntry e) < 2 ^ 16))"

lemma run_inv_tsm_inv:
  assumes "run_inv os idx" "fits idx"
  shows "tsm_inv (ix_tsm idx)"
proof -
  have shape: "entry_shape e" if "e \<in> set (tw_entries (ix_tsm idx))" for e
    using assms(1) that by (auto simp: run_inv_def all_recorded_def)
  have "length (e_ChunkRefs e) < 2 ^ 32" if "e \<in> set (tw_entries (ix_tsm idx))" for e
  proof -
    have "length (e_ChunkRefs e) \<le> totalRefs (tw_entries (ix_tsm idx))"
      using that by (simp add: totalRefs_def member_le_sum_list)
    then show ?thesis using assms(2) by (simp add: fits_def)
  qed
  then have "wf_refs e" if "e \<in> set (tw_entries (ix_tsm idx))" for e
    using shape [OF that] that
    by (auto simp: wf_refs_def entry_shape_def word_greater_zero_iff word_unat_eq_iff unat_of_nat)
  then show ?thesis
    using assms shape by (auto simp: tsm_inv_def run_inv_def tsm_struct_def fits_def wf_entry_def entry_shape_def)
qed

lemma GetFileChunkSHAs_remap:
  assumes inv: "tsc_inv w" and r: "refs_at w (e_ChunkRefs e) shas" and wf: "wf_refs e'"
    and e': "strip_table e' = strip_table (remapRefs (so_indexMap (sortChunks w)) e)"
    and tsc: "r_Entries tsc = so_entries (sortChunks w)"
  shows "GetFileChunkSHAs e' tsc = shas"
proof -
  let ?m = "so_indexMap (sortChunks w)"
  have len: "length (w_chunks w) \<le> 2 ^ 32" using inv by (simp add: tsc_inv_def)
  have lm: "length ?m = length (w_chunks w)" by (simp add: sortChunks_def)
  have refs: "e_ChunkRefs e' = map (mapRef ?m) (e_ChunkRefs e)"
    using arg_cong [OF e', of e_ChunkRefs] by (simp add: strip_table_def remapRefs_def)
  have one: "(if unat (mapRef ?m i) < length (r_Entries tsc) then c_sha (r_Entries tsc ! unat (mapRef ?m i)) else replicate 32 0)
      = c_sha (w_chunks w ! unat i)" if "i \<in> set (e_ChunkRefs e)" for i
  proof -
    have "unat i < length (w_chunks w)" using r that by (simp add: refs_at_def)
    with indexMap_correct [OF len this] lm show ?thesis by (simp add: tsc mapRef_def)
  qed
  show ?thesis
  proof (cases "e_ChunkRefs e = []")
    case True
    with r refs show ?thesis by (simp add: GetFileChunkSHAs_def refs_at_def)
  next
    case False
    then have "e_ChunkCount e' \<noteq> 0" using wf refs by (auto simp: wf_refs_def)
    with False have "GetFileChunkSHAs e' tsc = map (\<lambda>i. c_sha (w_chunks w ! unat i)) (e_ChunkRefs e)"
      using one by (simp add: GetFileChunkSHAs_def refs)
    with r show ?thesis by (simp add: refs_at_def)
  qed
qed

lemma written_files_recover:
  assumes inv: "run_inv os idx" and fit: "fits idx"
    and w1: "TSC_Write f1 (ix_tsc idx) p1 fs = (Inr (tscSHA, imap), fs1)"
    and w2: "TSM_Write f2 (ix_tsm idx) p2 tscSHA imap fs1 = (Inr sha, w', fs2)"
    and ne: "p1 \<noteq> p2" "p1 \<noteq> p2 @ ''.tmp''"
  shows "\<exists>tsc tsm. ReadTSC fs2 p1 = Inr tsc \<and> ReadTSM fs2 p2 = Inr tsm \<and> m_SHA256 tsm = sha \<and> m_TSCSHA tsm = r_SHA256 tsc \<and>
    (\<forall>e \<in> set (m_Entries tsm). e_Type e = EntryTypeFile \<longrightarrow>
      (\<exists>path info. os_lstat os path = Inr info \<and> e_Path e = relPathOf (ix_rootPath idx) path \<and>
        (GetFileChunkSHAs e tsc = content_shas (file_data os path (fi_size info)) \<or> ix_parentTSM idx \<noteq> None)))"
proof -
  have tinv: "tsc_inv (ix_tsc idx)" and rec: "all_recorded os idx" using inv by (simp_all add: run_inv_def)
  from TSC_Write_read_back [OF tinv w1] obtain tsc where t: "fs1 p1 = Some (tscContent (ix_tsc idx) @ sha256 (tscContent (ix_tsc idx)))"
    "ParseTSC (tscContent (ix_tsc idx) @ sha256 (tscContent (ix_tsc idx))) = Inr tsc" "r_SHA256 tsc = tscSHA" "length tscSHA = 32"
    "r_Entries tsc = so_entries (sortChunks (ix_tsc idx))" "imap = so_indexMap (sortChunks (ix_tsc idx))" by blast
  from TSM_Write_read_back [OF run_inv_tsm_inv [OF inv fit] t(4) w2] obtain data tsm where
    m: "fs2 p2 = Some data" "ParseTSM data = Inr tsm" "m_SHA256 tsm = sha" "m_TSCSHA tsm = tscSHA"
       "\<forall>e \<in> set (m_Entries tsm). wf_refs e"
       "map strip_table (m_Entries tsm) = map (strip_table \<circ> remapRefs imap) (sort_key e_Path (tw_entries (ix_tsm idx)))"
       "\<forall>p. p \<noteq> p2 \<longrightarrow> p \<noteq> p2 @ ''.tmp'' \<longrightarrow> fs2 p = fs1 p"
    by (elim exE conjE) (rule that; assumption)
  have "fs2 p1 = fs1 p1" using m(7) ne by blast
  then have "ReadTSC fs2 p1 = Inr tsc" "ReadTSM fs2 p2 = Inr tsm" using t m by (simp_all add: ReadTSC_def ReadTSM_def)
  moreover have "\<exists>path info. os_lstat os path = Inr info \<and> e_Path e = relPathOf (ix_rootPath idx) path \<and>
        (GetFileChunkSHAs e tsc = content_shas (file_data os path (fi_size info)) \<or> ix_parentTSM idx \<noteq> None)"
    if e: "e \<in> set (m_Entries tsm)" "e_Type e = EntryTypeFile" for e
  proof -
    have "strip_table e \<in> set (map strip_table (m_Entries tsm))" using e(1) by simp
    then obtain e0 where e0: "e0 \<in> set (tw_entries (ix_tsm idx))" "strip_table e = strip_table (remapRefs imap e0)"
      unfolding m(6) by auto
    have ty: "e_Type e0 = EntryTypeFile" "e_Path e0 = e_Path e"
      using e(2) arg_cong [OF e0(2), of e_Type] arg_cong [OF e0(2), of e_Path]
      by (simp_all add: strip_table_def remapRefs_def)
    from rec e0(1) obtain path info where p: "os_lstat os path = Inr info" "e_Path e0 = relPathOf (ix_rootPath idx) path"
      "recorded os idx path info (ix_tsc idx) e0" by (auto simp: all_recorded_def)
    have g: "GetFileChunkSHAs e tsc = shas" if "refs_at (ix_tsc idx) (e_ChunkRefs e0) shas" for shas
      using m(5) e(1) e0(2) t(5,6) by (intro GetFileChunkSHAs_remap [OF tinv that]) simp_all
    have "refs_at (ix_tsc idx) (e_ChunkRefs e0) (content_shas (file_data os path (fi_size info))) \<or> ix_parentTSM idx \<noteq> None"
      using p(3) ty(1) unfolding recorded_def by blast
    with g p(1,2) ty(2) show ?thesis by metis
  qed
  ultimately show ?thesis
    by (intro exI [of _ tsc] exI [of _ tsm] conjI ballI impI) (simp_all add: m(3,4) t(3))
qed

text \<open>The state a run reaches before it writes the two files.\<close>

definition indexed :: "osenv \<Rightarrow> int \<Rightarrow> wnode \<Rightarrow> string \<Rightarrow> Indexer \<Rightarrow> Indexer option" where
  "indexed os now tree rootPath idx0 =
     (case os_lstat os (path_Clean rootPath) of
        Inl _ \<Rightarrow> None
      | Inr rinfo \<Rightarrow>
          (case walk (ix_crossDevice idx0) (fi_dev rinfo) tree of
             Inl _ \<Rightarrow> None
           | Inr allPaths \<Rightarrow>
               (case processAll os (sort allPaths) 0 (idx0\<lparr> ix_indexStart := now, ix_rootPath := path_Clean rootPath,
                        ix_rootDev := fi_dev rinfo \<rparr>) of
                  Inl _ \<Rightarrow> None
                | Inr idx \<Rightarrow> Some idx)))"

lemma indexedE:
  assumes "indexed os now tree rootPath idx0 = Some idx"
  obtains rinfo paths where
    "processAll os (sort paths) 0 (idx0\<lparr> ix_indexStart := now, ix_rootPath := path_Clean rootPath, ix_rootDev := fi_dev (rinfo :: fileinfo) \<rparr>) = Inr idx"
  using assms by (auto simp: indexed_def split: sum.splits)

lemma Index_success:
  assumes "Index os now tree f1 f2 rootPath outBase idx0 fs = (Inr sha, fs')"
  shows "\<exists>idx tscSHA imap fs1 w'. indexed os now tree rootPath idx0 = Some idx \<and>
    TSC_Write f1 (ix_tsc idx) (outBase @ ''.tsc'') fs = (Inr (tscSHA, imap), fs1) \<and>
    TSM_Write f2 (ix_tsm idx) (outBase @ ''.tsm'') tscSHA imap fs1 = (Inr sha, w', fs')"
  using assms unfolding Index_def Let_def
  by (auto simp: indexed_def split: sum.splits prod.splits)

section \<open>Reuse of the parent\<close>

lemma racy_mismatch:
  assumes "now - sint c < racyCtimeWindow"
  shows "racyAdjustedCtime c now \<noteq> c"
  using assms by (simp add: racyAdjustedCtime_def)

lemma Create_recovers:
  assumes "clean_files os" "Create os now tree f1 f2 rootPath outBase None None cross t fs = (Inr sha, fs')"
    and "pred_option fits (indexed os now tree rootPath (NewIndexer None None cross t))"
  shows "\<exists>tsc tsm. ReadTSC fs' (outBase @ ''.tsc'') = Inr tsc \<and> ReadTSM fs' (outBase @ ''.tsm'') = Inr tsm \<and>
    m_SHA256 tsm = sha \<and> m_TSCSHA tsm = r_SHA256 tsc \<and>
    (\<forall>e \<in> set (m_Entries tsm). e_Type e = EntryTypeFile \<longrightarrow>
      (\<exists>path info. os_lstat os path = Inr info \<and> e_Path e = relPathOf (path_Clean rootPath) path \<and>
        GetFileChunkSHAs e tsc = content_shas (file_data os path (fi_size info))))"
proof -
  from Index_success [OF assms(2) [unfolded Create_def]] obtain idx tscSHA imap fs1 w' where
    idx: "indexed os now tree rootPath (NewIndexer None None cross t) = Some idx"
    and w1: "TSC_Write f1 (ix_tsc idx) (outBase @ ''.tsc'') fs = (Inr (tscSHA, imap), fs1)"
    and w2: "TSM_Write f2 (ix_tsm idx) (outBase @ ''.tsm'') tscSHA imap fs1 = (Inr sha, w', fs')"
    by (elim exE conjE)
  from idx obtain rinfo paths where
    run: "processAll os (sort paths) 0 ((NewIndexer None None cross t)\<lparr> ix_indexStart := now,
           ix_rootPath := path_Clean rootPath, ix_rootDev := fi_dev (rinfo :: fileinfo) \<rparr>) = Inr idx"
    by (rule indexedE)
  let ?i0 = "(NewIndexer None None cross t)\<lparr> ix_indexStart := now, ix_rootPath := path_Clean rootPath, ix_rootDev := fi_dev rinfo \<rparr>"
  have fit: "fits idx" using assms(3) idx by simp
  have i0: "run_inv os ?i0"
    by (simp add: run_inv_def NewIndexer_def tsc_inv_New tsm_struct_def parent_wf_def all_recorded_def SetCreationTime_def NewTSMWriter_def)
  have inv: "run_inv os idx"
    using fit by (intro processAll_run_inv [OF assms(1) i0 run]) (simp add: fits_def)
  have k: "ix_parentTSM idx = None \<and> ix_rootPath idx = path_Clean rootPath"
    using processAll_keeps [OF assms(1) _ run] i0 by (simp add: run_inv_def NewIndexer_def)
  have "outBase @ ''.tsc'' \<noteq> outBase @ ''.tsm''" "outBase @ ''.tsc'' \<noteq> (outBase @ ''.tsm'') @ ''.tmp''" by simp_all
  from written_files_recover [OF inv fit w1 w2 this] k show ?thesis by simp
qed

section \<open>Properties\<close>


text \<open>A tree of one directory with one file of three zero bytes.\<close>

definition ex_info :: "kind \<Rightarrow> u64 \<Rightarrow> fileinfo" where
  "ex_info k sz = \<lparr> fi_kind = k, fi_mode = 420, fi_uid = 0, fi_gid = 0, fi_size = sz, fi_mtime = 5, fi_ctime = 6,
     fi_atime = 7, fi_dev = 1, fi_ino = 2, fi_nlink = 1, fi_major = 0, fi_minor = 0 \<rparr>"

definition ex_os :: osenv where
  "ex_os = \<lparr> os_lstat = (\<lambda>p. if p = ''r'' then Inr (ex_info KDir 0) else if p = ''r/a'' then Inr (ex_info KRegular 3) else Inl OtherErr),
     os_readlink = (\<lambda>_. Inl OtherErr), os_open = (\<lambda>p. if p = ''r/a'' then Inr (More [0, 0, 0] (Stop [] EOF), Some 3) else Inl OtherErr) \<rparr>"

definition ex_tree :: wnode where
  "ex_tree = WNode ''r'' None 1 [WNode ''r/a'' None 1 []]"

lemma ref_chunks_ex: "ref_chunks [0, 0, 0] = [([0, 0, 0], 0)]"
proof -
  have "findSplitPoint [0, 0, 0] = (0, 0)" using findSplitPoint_zeros [of 3] by (simp add: numeral_3_eq_3)
  then have "headChunk [0, 0, 0] = (3, 0)" by (simp add: headChunk_def BLOB_MAX_def)
  then show ?thesis by (subst ref_chunks.simps) simp
qed

lemma ex_clean: "clean_files ex_os"
  by (simp add: clean_files_def ex_os_def split: if_splits)

lemma ex_steps: "path_Clean ''r'' = ''r''" "relPathOf ''r'' ''r'' = []" "relPathOf ''r'' ''r/a'' = ''a''"
   "sort [''r'', ''r/a''] = [''r'', ''r/a'']"
  by code_simp+

lemma ex_chunks: "ChunkFile (Some (More [0, 0, 0] (Stop [] EOF))) (Some 3) chunkCallback None (NewTSCWriter, [], 0)
   = (let (i, w) = AddChunk NewTSCWriter (BlobSHA256 [0, 0, 0]) 3 0 (if BlobSHA256 [0, 0, 0] = ZeroBlockSHA then 1 else 0) in Inr (w, [i], 3))"
  using chunkStream_feed [of "More [0, 0, 0] (Stop [] EOF)" 3 chunkCallback "(NewTSCWriter, [], 0)"]
  by (simp add: ChunkFile_def ChunkReader_def feed_def ref_chunks_ex run_cb_def chunkCallback_def Let_def TSCEntryFlagZeroBlock_def split: prod.splits)

lemma Index_nofault:
  assumes "indexed os now tree rootPath idx0 = Some idx"
  shows "\<exists>sha fs'. Index os now tree None None rootPath outBase idx0 fs = (Inr sha, fs')"
  using assms
  by (auto simp: indexed_def Index_def Let_def TSC_Write_def TSM_Write_def write_tmp_rename_def split: sum.splits prod.splits)

lemma ex_indexed: "\<exists>idx. indexed ex_os 0 ex_tree ''r'' (NewIndexer None None False 0) = Some idx \<and> fits idx"
  using ex_chunks
  by (simp add: indexed_def ex_steps ex_os_def ex_info_def ex_tree_def processEntry_def processRegular_def reuseParentChunks_def
       NewIndexer_def processFileChunks_def Let_def finishFile_def isUnmodified_def countEntry_def baseEntry_def AddChunk_def NewTSCWriter_def)
     (simp add: fits_def AddEntry_def totalRefs_def length_encodeEntry typeData_def SetCreationTime_def NewTSMWriter_def entry_types)



text \<open>
  The index of a file with several links is recorded before its content is read. When the
  first link cannot be opened it is skipped, and the second one becomes a hard link to itself.
\<close>

lemma hardlink_to_itself:
  assumes "os_lstat os p1 = Inr info1" "os_lstat os p2 = Inr info2" "os_open os p1 = Inl Permission"
    and "fi_kind info1 = KRegular" "fi_kind info2 = KRegular" "fi_nlink info1 > 1" "fi_nlink info2 > 1" "fi_size info1 \<noteq> 0"
    and "hardlinkKey info2 = hardlinkKey info1" "ix_hardlinks idx (hardlinkKey info1) = None" "ix_parentTSM idx = None"
    and "tw_entries (ix_tsm idx) = es"
  shows "\<exists>e idx'. processAll os [p1, p2] (word_of_nat (length es)) idx = Inr idx' \<and>
    tw_entries (ix_tsm idx') = es @ [e] \<and> e_Type e = EntryTypeHardlink \<and> e_LinkIndex e = word_of_nat (length es)"
  using assms
  by (simp add: processEntry_def processRegular_def reuseParentChunks_def processFileChunks_def Let_def
      isUnmodified_def countEntry_def AddEntry_def)

end
