(* ===== verification/Download.thy ===== *)
theory Download
  imports Prelude Chunking Tsc Tsm Chunk_Index Indexer
begin

text \<open>
  Downloading a snapshot from a peer, \<^verbatim>\<open>tsm/download.go\<close>: per file, chunks found by the chunk index are
  copied from local snapshots and the others fetched in batches of ranges; every chunk is
  checked against its digest before it is written. The peer is a parameter that may answer the
  same request differently each time, and the local disk may change between any two
  observations of it: both are indexed by a counter of the observations made so far.
  Modes, owners and times are set on a best-effort basis by the code and are left out.
\<close>

section \<open>Parameters\<close>

datatype resp = ConnFail | Resp nat bytes bool

type_synonym peer = "nat \<Rightarrow> string \<Rightarrow> (int \<times> int) option \<Rightarrow> resp"

datatype node = NFile bytes | NDir | NSymlink string

type_synonym dtree = "string \<rightharpoonup> node"

text \<open>The outcome of each file-system call, by path.\<close>

record osops =
  ok_create :: "string \<Rightarrow> bool"
  ok_truncate :: "string \<Rightarrow> bool"
  ok_seek :: "string \<Rightarrow> nat \<Rightarrow> bool"
  ok_write :: "string \<Rightarrow> nat \<Rightarrow> bool"
  ok_mkdir :: "string \<Rightarrow> bool"
  ok_rename :: "string \<Rightarrow> bool"
  ok_symlink :: "string \<Rightarrow> bool"
  ok_writefile :: "string \<Rightarrow> bool"
  ctime_at :: "string \<Rightarrow> u64 option"

datatype dl_error = DCreate | DTruncate | DBadRef | DFetch | DChecksum | DSeek | DMissing | DFallbackFetch
  | DFallbackHash | DWrite | DMkdir | DRename | DSymlink | DStamp | DTsm | DParseTSM tsm_error | DTsc
  | DParseTSC tsc_error | DTarget | DPrepare | DPatch tsm_error | DWriteMeta

record dl =
  dl_n :: nat
  dl_ci :: ChunkIndex

section \<open>Requests\<close>

definition fetchFullFile :: "peer \<Rightarrow> string \<Rightarrow> nat \<Rightarrow> bytes option" where
  "fetchFullFile peer url n =
     (case peer n url None of
        ConnFail \<Rightarrow> None
      | Resp status body complete \<Rightarrow> if status \<noteq> 200 then None else if complete then Some body else None)"

record rangeSpec =
  rg_offset :: int
  rg_size :: int

fun fetchRanges :: "peer \<Rightarrow> string \<Rightarrow> rangeSpec list \<Rightarrow> nat \<Rightarrow> bytes list option \<times> nat" where
  "fetchRanges peer url [] n = (Some [], n)"
| "fetchRanges peer url (r # rs) n =
     (case peer n url (Some (rg_offset r, rg_offset r + rg_size r - 1)) of
        ConnFail \<Rightarrow> (None, n + 1)
      | Resp status body complete \<Rightarrow>
          if status \<noteq> 200 \<and> status \<noteq> 206 then (None, n + 1)
          else if \<not> complete then (None, n + 1)
          else case fetchRanges peer url rs (n + 1) of
                 (None, n') \<Rightarrow> (None, n')
               | (Some datas, n') \<Rightarrow> (Some (body # datas), n'))"

section \<open>One file\<close>

record chunkInfo =
  k_sha :: bytes
  k_size :: u32
  k_remoteOffset :: int
  k_localLoc :: "ChunkLocation option"

fun buildChunks :: "(nat \<Rightarrow> disk) \<Rightarrow> TSCReader \<Rightarrow> u32 list \<Rightarrow> int \<Rightarrow> dl \<Rightarrow> (dl_error + chunkInfo list) \<times> dl" where
  "buildChunks disks tsc [] remoteOffset st = (Inr [], st)"
| "buildChunks disks tsc (tscIdx # refs) remoteOffset st =
     (if unat tscIdx \<ge> length (r_Entries tsc) then (Inl DBadRef, st)
      else
        let tscEntry = r_Entries tsc ! unat tscIdx;
            (localLoc, ci') = FindChunk (disks (dl_n st)) (c_sha tscEntry) (dl_ci st);
            st' = \<lparr> dl_n = dl_n st + 1, dl_ci = ci' \<rparr>
        in case buildChunks disks tsc refs (remoteOffset + uint (c_size tscEntry)) st' of
             (Inl e, st'') \<Rightarrow> (Inl e, st'')
           | (Inr cs, st'') \<Rightarrow>
               (Inr (\<lparr> k_sha = c_sha tscEntry, k_size = c_size tscEntry, k_remoteOffset = remoteOffset,
                       k_localLoc = localLoc \<rparr> # cs), st''))"

definition isZeroBlock :: "chunkInfo \<Rightarrow> bool" where
  "isZeroBlock c = (unat (k_size c) = BLOB_MAX \<and> k_sha c = ZeroBlockSHA)"

definition needsRemote :: "chunkInfo list \<Rightarrow> nat list" where
  "needsRemote chunks = filter (\<lambda>i. k_localLoc (chunks ! i) = None \<and> \<not> isZeroBlock (chunks ! i)) [0..<length chunks]"

definition rangeOf :: "chunkInfo \<Rightarrow> rangeSpec" where
  "rangeOf c = \<lparr> rg_offset = k_remoteOffset c, rg_size = uint (k_size c) \<rparr>"

fun verifyBatch :: "chunkInfo list \<Rightarrow> (nat \<times> bytes) list \<Rightarrow> (nat \<rightharpoonup> bytes) \<Rightarrow> dl_error + (nat \<rightharpoonup> bytes)" where
  "verifyBatch chunks [] remoteData = Inr remoteData"
| "verifyBatch chunks ((idx, data) # rest) remoteData =
     (if BlobSHA256 data \<noteq> k_sha (chunks ! idx) then Inl DChecksum
      else verifyBatch chunks rest (remoteData(idx \<mapsto> data)))"

definition batchSize :: nat where "batchSize = 16"

function fetchBatches :: "peer \<Rightarrow> string \<Rightarrow> chunkInfo list \<Rightarrow> nat list \<Rightarrow> (nat \<rightharpoonup> bytes) \<Rightarrow> nat
    \<Rightarrow> (dl_error + (nat \<rightharpoonup> bytes)) \<times> nat" where
  "fetchBatches peer url chunks remoteChunks remoteData n =
     (if remoteChunks = [] then (Inr remoteData, n)
      else
        let batch = take batchSize remoteChunks in
        case fetchRanges peer url (map (\<lambda>idx. rangeOf (chunks ! idx)) batch) n of
          (None, n') \<Rightarrow> (Inl DFetch, n')
        | (Some results, n') \<Rightarrow>
            (case verifyBatch chunks (zip batch results) remoteData of
               Inl e \<Rightarrow> (Inl e, n')
             | Inr remoteData' \<Rightarrow> fetchBatches peer url chunks (drop batchSize remoteChunks) remoteData' n'))"
  by pat_completeness auto
termination
  by (relation "measure (\<lambda>(peer, url, chunks, remoteChunks, remoteData, n). length remoteChunks)")
     (auto simp: batchSize_def)

declare fetchBatches.simps [simp del]

text \<open>The output file is its bytes and the write position.\<close>

definition write_at :: "bytes \<Rightarrow> nat \<Rightarrow> bytes \<Rightarrow> bytes" where
  "write_at content pos data =
     take pos (content @ replicate (pos - length content) 0) @ data @ drop (pos + length data) content"

definition chunkData :: "peer \<Rightarrow> (nat \<Rightarrow> disk) \<Rightarrow> string \<Rightarrow> (nat \<rightharpoonup> bytes) \<Rightarrow> nat \<Rightarrow> chunkInfo \<Rightarrow> nat
    \<Rightarrow> (dl_error + bytes) \<times> nat" where
  "chunkData peer disks url remoteData i c n =
     (case k_localLoc c of
        None \<Rightarrow> (case remoteData i of None \<Rightarrow> (Inl DMissing, n) | Some data \<Rightarrow> (Inr data, n))
      | Some loc \<Rightarrow>
          (case VerifyAndRead (disks n) loc of
             Some data \<Rightarrow> (Inr data, n + 1)
           | None \<Rightarrow>
               (case fetchRanges peer url [rangeOf c] (n + 1) of
                  (None, n') \<Rightarrow> (Inl DFallbackFetch, n')
                | (Some fetched, n') \<Rightarrow>
                    if length fetched \<noteq> 1 \<or> BlobSHA256 (fetched ! 0) \<noteq> k_sha c then (Inl DFallbackHash, n')
                    else (Inr (fetched ! 0), n'))))"

fun writeChunks :: "osops \<Rightarrow> peer \<Rightarrow> (nat \<Rightarrow> disk) \<Rightarrow> string \<Rightarrow> string \<Rightarrow> (nat \<rightharpoonup> bytes) \<Rightarrow> nat \<Rightarrow> chunkInfo list
    \<Rightarrow> bytes \<Rightarrow> nat \<Rightarrow> nat \<Rightarrow> (dl_error + bytes) \<times> nat" where
  "writeChunks ops peer disks path url remoteData i [] content pos n = (Inr content, n)"
| "writeChunks ops peer disks path url remoteData i (c # cs) content pos n =
     (if isZeroBlock c then
        (if ok_seek ops path i
         then writeChunks ops peer disks path url remoteData (i + 1) cs content (pos + unat (k_size c)) n
         else (Inl DSeek, n))
      else
        case chunkData peer disks url remoteData i c n of
          (Inl e, n') \<Rightarrow> (Inl e, n')
        | (Inr data, n') \<Rightarrow>
            if \<not> ok_write ops path i then (Inl DWrite, n')
            else writeChunks ops peer disks path url remoteData (i + 1) cs (write_at content pos data) (pos + length data) n')"

definition downloadFile :: "osops \<Rightarrow> peer \<Rightarrow> (nat \<Rightarrow> disk) \<Rightarrow> string \<Rightarrow> string \<Rightarrow> TSMEntry \<Rightarrow> TSCReader \<Rightarrow> dl
    \<Rightarrow> (dl_error + bytes) \<times> dl" where
  "downloadFile ops peer disks outputPath url entry tsc st =
     (if \<not> ok_create ops outputPath then (Inl DCreate, st)
      else if 2 ^ 63 \<le> unat (e_Size entry) \<or> \<not> ok_truncate ops outputPath then (Inl DTruncate, st)
      else
        let content = replicate (unat (e_Size entry)) 0 in
        if e_ChunkCount entry = 0 then (Inr content, st)
        else
          case buildChunks disks tsc (e_ChunkRefs entry) 0 st of
            (Inl e, st1) \<Rightarrow> (Inl e, st1)
          | (Inr chunks, st1) \<Rightarrow>
              (case fetchBatches peer url chunks (needsRemote chunks) Map.empty (dl_n st1) of
                 (Inl e, n') \<Rightarrow> (Inl e, st1\<lparr> dl_n := n' \<rparr>)
               | (Inr remoteData, n') \<Rightarrow>
                   (case writeChunks ops peer disks outputPath url remoteData 0 chunks content 0 n' of
                      (r, n'') \<Rightarrow> (r, st1\<lparr> dl_n := n'' \<rparr>))))"

section \<open>The whole snapshot\<close>

definition path_Dir :: "string \<Rightarrow> string" where
  "path_Dir p = path_Clean (rev (dropWhile (\<lambda>c. c \<noteq> CHR ''/'') (rev p)))"

definition under :: "string \<Rightarrow> string \<Rightarrow> bool" where
  "under dir p = (p = dir \<or> HasPrefix p (dir @ ''/''))"

definition mkdirAll :: "string \<Rightarrow> dtree \<Rightarrow> dtree" where
  "mkdirAll p fs = (\<lambda>q. if fs q = None \<and> q \<noteq> [] \<and> under q p then Some NDir else fs q)"

definition removeAll_tree :: "string \<Rightarrow> dtree \<Rightarrow> dtree" where
  "removeAll_tree p fs = (\<lambda>q. if under p q then None else fs q)"

definition renameTree :: "string \<Rightarrow> string \<Rightarrow> dtree \<Rightarrow> dtree" where
  "renameTree old new fs =
     (\<lambda>q. if under new q then fs (old @ drop (length new) q) else if under old q then None else fs q)"

fun downloadFiles :: "osops \<Rightarrow> peer \<Rightarrow> (nat \<Rightarrow> disk) \<Rightarrow> string \<Rightarrow> string \<Rightarrow> string \<Rightarrow> int \<Rightarrow> TSCReader \<Rightarrow> TSMEntry list
    \<Rightarrow> dtree \<Rightarrow> (string \<rightharpoonup> u64) \<Rightarrow> dl \<Rightarrow> dl_error option \<times> dtree \<times> (string \<rightharpoonup> u64) \<times> dl" where
  "downloadFiles ops peer disks targetDir baseURL snapshotID start tsc [] fs ctimes st = (None, fs, ctimes, st)"
| "downloadFiles ops peer disks targetDir baseURL snapshotID start tsc (entry # es) fs ctimes st =
     (if e_Type entry \<noteq> EntryTypeFile
      then downloadFiles ops peer disks targetDir baseURL snapshotID start tsc es fs ctimes st
      else
        let outputPath = filepath_Join [targetDir, e_Path entry];
            tmpPath = outputPath @ ''.tmp''
        in if \<not> ok_mkdir ops (path_Dir outputPath) then (Some DMkdir, fs, ctimes, st)
           else
             let fs1 = mkdirAll (path_Dir outputPath) fs in
             case downloadFile ops peer disks tmpPath
                    (baseURL @ ''/bupdate/'' @ snapshotID @ ''/'' @ e_Path entry) entry tsc st of
               (Inl e, st') \<Rightarrow> (Some e, fs1(tmpPath := None), ctimes, st')
             | (Inr content, st') \<Rightarrow>
                 if \<not> ok_rename ops outputPath then (Some DRename, fs1(tmpPath \<mapsto> NFile content), ctimes, st')
                 else
                   downloadFiles ops peer disks targetDir baseURL snapshotID start tsc es
                     (fs1(tmpPath := None, outputPath \<mapsto> NFile content))
                     (case ctime_at ops outputPath of
                        None \<Rightarrow> ctimes
                      | Some ctime \<Rightarrow> ctimes(e_Path entry \<mapsto> racyAdjustedCtime ctime start))
                     st')"

fun createEntries :: "osops \<Rightarrow> string \<Rightarrow> TSMEntry list \<Rightarrow> dtree \<Rightarrow> dl_error option \<times> dtree" where
  "createEntries ops targetDir [] fs = (None, fs)"
| "createEntries ops targetDir (entry # es) fs =
     (let fullPath = filepath_Join [targetDir, e_Path entry] in
      if e_Type entry = EntryTypeDir then
        (if ok_mkdir ops fullPath then createEntries ops targetDir es (mkdirAll fullPath fs) else (Some DMkdir, fs))
      else if e_Type entry = EntryTypeSymlink then
        (if ok_symlink ops fullPath then createEntries ops targetDir es (fs(fullPath \<mapsto> NSymlink (e_LinkTarget entry)))
         else (Some DSymlink, fs(fullPath := None)))
      else createEntries ops targetDir es fs)"

definition createNonFileEntries :: "osops \<Rightarrow> string \<Rightarrow> TSMReader \<Rightarrow> dtree \<Rightarrow> dl_error option \<times> dtree" where
  "createNonFileEntries ops targetDir tsm fs =
     createEntries ops targetDir (sort_key (\<lambda>e. length (e_Path e)) (m_Entries tsm)) fs"

text \<open>The optional callbacks of the caller; a callback reports success and the tree it leaves.\<close>

record dl_opts =
  o_SnapshotID :: string
  o_SnapsDir :: string
  o_BaseURL :: string
  o_Create :: "(string \<Rightarrow> string \<Rightarrow> dtree \<Rightarrow> bool \<times> dtree) option"
  o_Cleanup :: "(string \<Rightarrow> dtree \<Rightarrow> dtree) option"
  o_Prepare :: "(string \<Rightarrow> string list \<Rightarrow> dtree \<Rightarrow> bool \<times> dtree) option"

definition dl_cleanup :: "dl_opts \<Rightarrow> string \<Rightarrow> dtree \<Rightarrow> dtree" where
  "dl_cleanup opts snapshotPath fs =
     (let fs1 = (case o_Cleanup opts of
                   None \<Rightarrow> removeAll_tree (snapshotPath @ ''.tmp'') fs
                 | Some f \<Rightarrow> f (snapshotPath @ ''.tmp'') fs)
      in fs1(snapshotPath @ ''.tsm.tmp'' := None, snapshotPath @ ''.tsc.tmp'' := None, snapshotPath @ ''.stamp.tmp'' := None))"

definition rename_quiet :: "osops \<Rightarrow> string \<Rightarrow> string \<Rightarrow> dtree \<Rightarrow> dtree" where
  "rename_quiet ops old new fs = (if ok_rename ops new then fs(new := fs old, old := None) else fs)"

definition createTarget :: "osops \<Rightarrow> dl_opts \<Rightarrow> string \<Rightarrow> string \<Rightarrow> dtree \<Rightarrow> bool \<times> dtree" where
  "createTarget ops opts tmpDir parentStamp fs =
     (case o_Create opts of
        Some f \<Rightarrow> f tmpDir parentStamp fs
      | None \<Rightarrow> if ok_mkdir ops tmpDir then (True, mkdirAll tmpDir fs) else (False, fs))"

definition prepareTarget :: "dl_opts \<Rightarrow> string \<Rightarrow> TSMEntry list \<Rightarrow> dtree \<Rightarrow> bool \<times> dtree" where
  "prepareTarget opts tmpDir entries fs =
     (case o_Prepare opts of
        None \<Rightarrow> (True, fs)
      | Some f \<Rightarrow> f tmpDir (map e_Path (filter (\<lambda>e. e_Type e = EntryTypeFile) entries)) fs)"

text \<open>Steps 7 to 9: fill the temporary directory, write the metadata, move everything into place.\<close>

definition installSnapshot :: "osops \<Rightarrow> peer \<Rightarrow> (nat \<Rightarrow> disk) \<Rightarrow> dl_opts \<Rightarrow> int \<Rightarrow> string \<Rightarrow> bytes \<Rightarrow> bytes \<Rightarrow> bytes
    \<Rightarrow> TSMReader \<Rightarrow> TSCReader \<Rightarrow> ChunkIndex \<Rightarrow> dtree \<Rightarrow> dl_error option \<times> dtree" where
  "installSnapshot ops peer disks opts start snapshotPath stampData tsmData tscData tsm tsc localChunks fs =
     (let tmpDir = snapshotPath @ ''.tmp'' in
      case downloadFiles ops peer disks tmpDir (TrimSuffix (o_BaseURL opts) ''/'') (o_SnapshotID opts) start tsc
             (m_Entries tsm) fs Map.empty \<lparr> dl_n = 3, dl_ci = localChunks \<rparr> of
        (Some e, fs1, _, _) \<Rightarrow> (Some e, dl_cleanup opts snapshotPath fs1)
      | (None, fs1, localCtimes, _) \<Rightarrow>
          (case createNonFileEntries ops tmpDir tsm fs1 of
             (Some e, fs2) \<Rightarrow> (Some e, dl_cleanup opts snapshotPath fs2)
           | (None, fs2) \<Rightarrow>
               (case PatchEntryCtimes tsmData localCtimes of
                  Inl e \<Rightarrow> (Some (DPatch e), dl_cleanup opts snapshotPath fs2)
                | Inr localTSMData \<Rightarrow>
                    let fs3 = fs2(snapshotPath @ ''.stamp.tmp'' \<mapsto> NFile stampData);
                        fs4 = fs3(snapshotPath @ ''.tsm.tmp'' \<mapsto> NFile localTSMData);
                        fs5 = fs4(snapshotPath @ ''.tsc.tmp'' \<mapsto> NFile tscData)
                    in if \<not> ok_writefile ops (snapshotPath @ ''.stamp.tmp'') then (Some DWriteMeta, dl_cleanup opts snapshotPath fs3)
                       else if \<not> ok_writefile ops (snapshotPath @ ''.tsm.tmp'') then (Some DWriteMeta, dl_cleanup opts snapshotPath fs4)
                       else if \<not> ok_writefile ops (snapshotPath @ ''.tsc.tmp'') then (Some DWriteMeta, dl_cleanup opts snapshotPath fs5)
                       else if \<not> ok_rename ops snapshotPath then (Some DRename, dl_cleanup opts snapshotPath fs5)
                       else
                         (None,
                          rename_quiet ops (snapshotPath @ ''.tsc.tmp'') (snapshotPath @ ''.tsc'')
                            (rename_quiet ops (snapshotPath @ ''.tsm.tmp'') (snapshotPath @ ''.tsm'')
                              (rename_quiet ops (snapshotPath @ ''.stamp.tmp'') (snapshotPath @ ''.stamp'')
                                (renameTree tmpDir snapshotPath fs5)))))))"

text \<open>The empty index that stands in when the local one cannot be opened.\<close>

definition emptyIndex :: ChunkIndex where
  "emptyIndex = \<lparr> ci_dir = [], ci_snaps = [], ci_bloom = None, ci_absent = None, ci_maxAbsent = 0,
                  ci_maxOpenTSC = 0, ci_maxLocMaps = 0 \<rparr>"

definition Download :: "osops \<Rightarrow> peer \<Rightarrow> (nat \<Rightarrow> disk) \<Rightarrow> (nat \<Rightarrow> nat \<times> nat) \<Rightarrow> readdir \<Rightarrow> dl_opts \<Rightarrow> int \<Rightarrow> dtree
    \<Rightarrow> (dl_error + (string \<times> bool)) \<times> dtree" where
  "Download ops peer disks sizing rd opts start fs =
     (let snapshotPath = filepath_Join [o_SnapsDir opts, o_SnapshotID opts];
          url = TrimSuffix (o_BaseURL opts) ''/'' @ ''/bupdate/'' @ o_SnapshotID opts;
          tmpDir = snapshotPath @ ''.tmp''
      in if fs snapshotPath \<noteq> None then (Inr (snapshotPath, True), fs)
         else
           case fetchFullFile peer (url @ ''.stamp'') 0 of None \<Rightarrow> (Inl DStamp, fs) | Some stampData \<Rightarrow>
          (case fetchFullFile peer (url @ ''.tsm'') 1 of None \<Rightarrow> (Inl DTsm, fs) | Some tsmData \<Rightarrow>
          (case ParseTSM tsmData of Inl e \<Rightarrow> (Inl (DParseTSM e), fs) | Inr tsm \<Rightarrow>
          (case fetchFullFile peer (url @ ''.tsc'') 2 of None \<Rightarrow> (Inl DTsc, fs) | Some tscData \<Rightarrow>
          (case ParseTSC tscData of Inl e \<Rightarrow> (Inl (DParseTSC e), fs) | Inr tsc \<Rightarrow>
          (case createTarget ops opts tmpDir (TrimSpace (bytes_str stampData)) fs of (created, fs1) \<Rightarrow>
             if \<not> created then (Inl DTarget, fs1)
             else
               case prepareTarget opts tmpDir (m_Entries tsm) fs1 of (prepared, fs2) \<Rightarrow>
                 if \<not> prepared then (Inl DPrepare, dl_cleanup opts snapshotPath fs2)
                 else
                   let localChunks = (case OpenChunkIndex sizing (disks 3) rd (o_SnapsDir opts) of Inl _ \<Rightarrow> emptyIndex | Inr ci \<Rightarrow> ci)
                   in case installSnapshot ops peer disks opts start snapshotPath stampData tsmData tscData tsm tsc localChunks fs2 of
                        (Some e, fs3) \<Rightarrow> (Inl e, fs3)
                      | (None, fs3) \<Rightarrow> (Inr (snapshotPath, False), fs3)))))))"

section \<open>Where the bytes come from\<close>

text \<open>Bytes the peer or the local disk ever offered, and the block of zeros a hole stands for.\<close>

definition offered :: "peer \<Rightarrow> (nat \<Rightarrow> disk) \<Rightarrow> bytes \<Rightarrow> bool" where
  "offered peer disks d =
     ((\<exists>n url r status. peer n url r = Resp status d True) \<or> (\<exists>n loc. ReadData (disks n) loc = Some d) \<or> d = replicate BLOB_MAX 0)"

lemma findLoop_sha: "findLoop d sha i n ci = (Some loc, ci') \<Longrightarrow> l_SHA256 loc = sha"
  by (induction d sha i n ci rule: findLoop.induct)
     (auto simp: Let_def split: if_splits option.splits prod.splits)

lemma FindChunk_sha: "FindChunk d sha ci = (Some loc, ci') \<Longrightarrow> l_SHA256 loc = sha"
  by (auto simp: FindChunk_def Let_def split: if_splits option.splits prod.splits dest: findLoop_sha)

lemma VerifyAndRead_sha: "VerifyAndRead d loc = Some data \<Longrightarrow> BlobSHA256 data = l_SHA256 loc \<and> ReadData d loc = Some data"
  by (auto simp: VerifyAndRead_def split: option.splits if_splits)

lemma fetchRanges_length: "fetchRanges peer url rs n = (Some ds, n') \<Longrightarrow> length ds = length rs"
  by (induction peer url rs n arbitrary: ds n' rule: fetchRanges.induct)
     (auto split: resp.splits if_splits option.splits prod.splits)

lemma fetchRanges_offered: "fetchRanges peer url rs n = (Some ds, n') \<Longrightarrow> d \<in> set ds \<Longrightarrow> offered peer disks d"
proof (induction peer url rs n arbitrary: ds n' rule: fetchRanges.induct)
  case (2 peer url r rs n)
  then show ?case
    by (auto split: resp.splits if_splits option.splits prod.splits) (auto simp: offered_def)
qed simp

text \<open>A chunk descriptor points at the right digest, wherever its bytes will come from.\<close>

definition chunk_ok :: "TSCReader \<Rightarrow> u32 \<Rightarrow> chunkInfo \<Rightarrow> bool" where
  "chunk_ok tsc r c =
     (unat r < length (r_Entries tsc) \<and> k_sha c = c_sha (r_Entries tsc ! unat r) \<and> k_size c = c_size (r_Entries tsc ! unat r) \<and>
      (\<forall>loc. k_localLoc c = Some loc \<longrightarrow> l_SHA256 loc = k_sha c))"

lemma buildChunks_ok:
  "buildChunks disks tsc refs off st = (Inr cs, st') \<Longrightarrow> list_all2 (chunk_ok tsc) refs cs"
  by (induction disks tsc refs off st arbitrary: cs st' rule: buildChunks.induct)
     (auto simp: Let_def chunk_ok_def split: if_splits sum.splits prod.splits dest: FindChunk_sha)

definition fetched_ok :: "peer \<Rightarrow> (nat \<Rightarrow> disk) \<Rightarrow> chunkInfo list \<Rightarrow> (nat \<rightharpoonup> bytes) \<Rightarrow> bool" where
  "fetched_ok peer disks chunks m = (\<forall>i d. m i = Some d \<longrightarrow> BlobSHA256 d = k_sha (chunks ! i) \<and> offered peer disks d)"

lemma fetched_ok_upd:
  "\<lbrakk>fetched_ok peer disks chunks m; BlobSHA256 d = k_sha (chunks ! i); offered peer disks d\<rbrakk>
   \<Longrightarrow> fetched_ok peer disks chunks (m(i \<mapsto> d))"
  unfolding fetched_ok_def by simp

lemma verifyBatch_ok:
  "\<lbrakk>verifyBatch chunks xs m = Inr m'; fetched_ok peer disks chunks m; \<forall>d \<in> snd ` set xs. offered peer disks d\<rbrakk>
   \<Longrightarrow> fetched_ok peer disks chunks m'"
proof (induction chunks xs m rule: verifyBatch.induct)
  case (2 chunks i d rest m)
  then have h: "BlobSHA256 d = k_sha (chunks ! i)" by (simp split: if_splits)
  have off: "offered peer disks d" "\<forall>d \<in> snd ` set rest. offered peer disks d" using 2(4) by simp_all
  have "verifyBatch chunks rest (m(i \<mapsto> d)) = Inr m'" using 2(2) h by simp
  from 2(1) [OF _ this fetched_ok_upd [OF 2(3) h off(1)] off(2)] h show ?case by simp
qed simp

lemma fetchBatches_ok:
  "\<lbrakk>fetchBatches peer url chunks rcs m n = (Inr m', n'); fetched_ok peer disks chunks m\<rbrakk> \<Longrightarrow> fetched_ok peer disks chunks m'"
proof (induction peer url chunks rcs m n rule: fetchBatches.induct)
  case (1 peer url chunks rcs m n)
  show ?case
  proof (cases "rcs = []")
    case True
    with 1 show ?thesis by (simp add: fetchBatches.simps)
  next
    case False
    with 1(2) obtain results n1 m1 where
      f: "fetchRanges peer url (map (\<lambda>idx. rangeOf (chunks ! idx)) (take batchSize rcs)) n = (Some results, n1)"
      and v: "verifyBatch chunks (zip (take batchSize rcs) results) m = Inr m1"
      and rest: "fetchBatches peer url chunks (drop batchSize rcs) m1 n1 = (Inr m', n')"
      by (subst (asm) fetchBatches.simps) (auto simp: Let_def split: option.splits sum.splits prod.splits)
    have "fetched_ok peer disks chunks m1"
      using fetchRanges_offered [OF f] by (intro verifyBatch_ok [OF v 1(3)]) (auto dest: set_zip_rightD)
    from 1(1) [OF False refl f [symmetric] refl v rest this] show ?thesis .
  qed
qed

section \<open>Writing with holes\<close>

text \<open>
  The file holds \<open>P\<close>, the bytes up to the write position, up to the zeros that a trailing hole
  has not yet materialised, on top of the \<open>S\<close> zeros the file was truncated to.
\<close>

definition holes :: "nat \<Rightarrow> bytes \<Rightarrow> bytes \<Rightarrow> bool" where
  "holes S P content =
     (S \<le> length content \<and> content @ replicate (length P - length content) 0 = P @ replicate (S - length P) 0)"

lemma holes_init: "holes S [] (replicate S 0)"
  by (simp add: holes_def)

lemma holes_length:
  assumes "holes S P content"
  shows "max (length P) (length content) = max (length P) S"
proof -
  have "length (content @ replicate (length P - length content) 0) = length (P @ replicate (S - length P) 0)"
    using assms by (simp only: holes_def)
  then show ?thesis by simp
qed

lemma holes_zeros:
  assumes "holes S P content"
  shows "holes S (P @ replicate z 0) content"
proof -
  let ?x = "max (length P + z) S - max (length P) S"
  have m: "max (length P) (length content) = max (length P) S" by (rule holes_length [OF assms])
  have e: "content @ replicate (length P - length content) 0 = P @ replicate (S - length P) 0" and s: "S \<le> length content"
    using assms by (simp_all add: holes_def)
  have "length P + z - length content = (length P - length content) + ?x" using m s by linarith
  then have "content @ replicate (length P + z - length content) 0 = (content @ replicate (length P - length content) 0) @ replicate ?x 0"
    by (simp only: replicate_add append_assoc)
  then have "content @ replicate (length P + z - length content) 0 = (P @ replicate (S - length P) 0) @ replicate ?x 0"
    by (simp only: e)
  moreover have "z + (S - (length P + z)) = (S - length P) + ?x" by linarith
  then have "replicate z 0 @ replicate (S - (length P + z)) 0 = (replicate (S - length P) 0 @ replicate ?x 0 :: bytes)"
    by (simp flip: replicate_add)
  ultimately show ?thesis using s by (simp add: holes_def)
qed

lemma holes_write:
  assumes "holes S P content"
  shows "holes S (P @ data) (write_at content (length P) data)"
proof -
  have e: "content @ replicate (length P - length content) 0 = P @ replicate (S - length P) 0" and s: "S \<le> length content"
    using assms by (simp_all add: holes_def)
  have m: "max (length P) (length content) = max (length P) S" by (rule holes_length [OF assms])
  have "drop (length P + length data) (content @ replicate (length P - length content) 0)
      = drop (length P + length data) (P @ replicate (S - length P) 0)" by (simp only: e)
  then have "drop (length P + length data) content = replicate (S - (length P + length data)) 0" by simp
  moreover have "take (length P) (content @ replicate (length P - length content) 0) = P" by (simp only: e) simp
  ultimately have "write_at content (length P) data = P @ data @ replicate (S - (length P + length data)) 0"
    by (simp add: write_at_def)
  then show ?thesis by (simp add: holes_def)
qed

lemma holes_exact: "holes S P content \<Longrightarrow> length P = S \<Longrightarrow> content = P"
  by (auto simp: holes_def)

lemma BlobSHA256_zero_block: "BlobSHA256 (replicate BLOB_MAX 0) = ZeroBlockSHA"
  by (simp add: BlobSHA256_def ZeroBlockSHA_def)

lemma chunkData_ok:
  assumes "chunkData peer disks url m i c n = (Inr data, n')"
    and "\<forall>loc. k_localLoc c = Some loc \<longrightarrow> l_SHA256 loc = k_sha c"
    and "\<forall>d. m i = Some d \<longrightarrow> BlobSHA256 d = k_sha c \<and> offered peer disks d"
  shows "BlobSHA256 data = k_sha c \<and> offered peer disks data"
proof (cases "k_localLoc c")
  case None
  with assms show ?thesis by (auto simp: chunkData_def split: option.splits)
next
  case (Some loc)
  show ?thesis
  proof (cases "VerifyAndRead (disks n) loc")
    case None
    obtain res n1 where f: "fetchRanges peer url [rangeOf c] (n + 1) = (res, n1)" by fastforce
    have cd: "chunkData peer disks url m i c n = (case res of None \<Rightarrow> (Inl DFallbackFetch, n1)
        | Some fetched \<Rightarrow> if length fetched \<noteq> 1 \<or> BlobSHA256 (fetched ! 0) \<noteq> k_sha c then (Inl DFallbackHash, n1)
                          else (Inr (fetched ! 0), n1))"
      unfolding chunkData_def Some None option.case f prod.case by simp
    then obtain fetched where fe: "res = Some fetched" "length fetched = 1" "BlobSHA256 data = k_sha c" "data = fetched ! 0"
      using assms(1) by (cases res) (simp_all split: if_splits)
    then have "data \<in> set fetched" by simp
    from fetchRanges_offered [OF f [unfolded fe(1)] this] fe(3) show ?thesis by simp
  next
    case v: (Some d)
    with Some assms(1,2) VerifyAndRead_sha [OF v] show ?thesis by (auto simp: chunkData_def offered_def)
  qed
qed

lemma writeChunks_ok:
  assumes "writeChunks ops peer disks path url m i cs content (length P) n = (Inr content', n')"
    and "holes S P content" "\<forall>j<length cs. \<forall>d. m (i + j) = Some d \<longrightarrow> BlobSHA256 d = k_sha (cs ! j) \<and> offered peer disks d"
    and "\<forall>c \<in> set cs. \<forall>loc. k_localLoc c = Some loc \<longrightarrow> l_SHA256 loc = k_sha c"
  shows "\<exists>ds. map BlobSHA256 ds = map k_sha cs \<and> list_all (offered peer disks) ds \<and> holes S (P @ concat ds) content'"
  using assms
proof (induction cs arbitrary: i content P n)
  case Nil
  then show ?case by (intro exI [of _ "[]"]) simp
next
  case (Cons c cs)
  have m': "\<forall>j<length cs. \<forall>d. m (i + 1 + j) = Some d \<longrightarrow> BlobSHA256 d = k_sha (cs ! j) \<and> offered peer disks d"
    using Cons.prems(3) by (metis Suc_eq_plus1 Suc_less_eq2 add.assoc add.commute length_Cons lessI less_Suc_eq_0_disj nth_Cons_Suc)
  have loc': "\<forall>c \<in> set cs. \<forall>loc. k_localLoc c = Some loc \<longrightarrow> l_SHA256 loc = k_sha c" using Cons.prems(4) by simp
  have "\<exists>d content1 n1. BlobSHA256 d = k_sha c \<and> offered peer disks d \<and> holes S (P @ d) content1 \<and>
      writeChunks ops peer disks path url m (i + 1) cs content1 (length (P @ d)) n1 = (Inr content', n')"
  proof (cases "isZeroBlock c")
    case True
    with Cons.prems(1) have "writeChunks ops peer disks path url m (i + 1) cs content (length (P @ replicate BLOB_MAX 0)) n = (Inr content', n')"
      by (auto simp: isZeroBlock_def split: if_splits)
    moreover have "BlobSHA256 (replicate BLOB_MAX 0) = k_sha c" using True by (simp add: isZeroBlock_def BlobSHA256_zero_block)
    moreover have "offered peer disks (replicate BLOB_MAX 0)" by (simp add: offered_def)
    ultimately show ?thesis using holes_zeros [OF Cons.prems(2)] by blast
  next
    case False
    with Cons.prems(1) obtain data n1 where d: "chunkData peer disks url m i c n = (Inr data, n1)"
      and r: "writeChunks ops peer disks path url m (i + 1) cs (write_at content (length P) data) (length (P @ data)) n1 = (Inr content', n')"
      by (auto split: sum.splits prod.splits if_splits)
    have "BlobSHA256 data = k_sha c \<and> offered peer disks data"
      using Cons.prems(3) [rule_format, of 0] Cons.prems(4) by (intro chunkData_ok [OF d]) auto
    with r holes_write [OF Cons.prems(2)] show ?thesis by blast
  qed
  then obtain d content1 n1 where d: "BlobSHA256 d = k_sha c" "offered peer disks d" "holes S (P @ d) content1"
    "writeChunks ops peer disks path url m (i + 1) cs content1 (length (P @ d)) n1 = (Inr content', n')" by blast
  from Cons.IH [OF d(4,3) m' loc'] obtain ds where
    "map BlobSHA256 ds = map k_sha cs" "list_all (offered peer disks) ds" "holes S ((P @ d) @ concat ds) content'" by blast
  with d(1,2) show ?case by (intro exI [of _ "d # ds"]) simp
qed

lemma downloadFile_holes:
  assumes "downloadFile ops peer disks path url entry tsc st = (Inr content, st')" "e_ChunkCount entry \<noteq> 0"
  shows "\<exists>ds. map BlobSHA256 ds = GetFileChunkSHAs entry tsc \<and> list_all (offered peer disks) ds \<and>
    holes (unat (e_Size entry)) (concat ds) content"
proof -
  let ?z = "replicate (unat (e_Size entry)) 0"
  from assms obtain cs st1 m n1 n2 where
    b: "buildChunks disks tsc (e_ChunkRefs entry) 0 st = (Inr cs, st1)"
    and f: "fetchBatches peer url cs (needsRemote cs) Map.empty (dl_n st1) = (Inr m, n1)"
    and w: "writeChunks ops peer disks path url m 0 cs ?z 0 n1 = (Inr content, n2)"
    unfolding downloadFile_def Let_def
    by (auto split: if_splits sum.splits prod.splits)
  have ok: "list_all2 (chunk_ok tsc) (e_ChunkRefs entry) cs" by (rule buildChunks_ok [OF b])
  have fo: "fetched_ok peer disks cs m" by (rule fetchBatches_ok [OF f]) (simp add: fetched_ok_def)
  have "\<forall>c \<in> set cs. \<forall>loc. k_localLoc c = Some loc \<longrightarrow> l_SHA256 loc = k_sha c"
    using ok by (auto simp: list_all2_conv_all_nth in_set_conv_nth chunk_ok_def)
  moreover have "\<forall>j<length cs. \<forall>d. m (0 + j) = Some d \<longrightarrow> BlobSHA256 d = k_sha (cs ! j) \<and> offered peer disks d"
    using fo by (simp add: fetched_ok_def)
  ultimately obtain ds where ds: "map BlobSHA256 ds = map k_sha cs" "list_all (offered peer disks) ds"
    "holes (unat (e_Size entry)) ([] @ concat ds) content"
    using writeChunks_ok [of ops peer disks path url m 0 cs ?z "[]" n1 content n2, OF _ holes_init] w by auto
  have "map k_sha cs = GetFileChunkSHAs entry tsc"
    using ok assms(2) by (auto simp: GetFileChunkSHAs_def list_all2_conv_all_nth chunk_ok_def intro: nth_equalityI)
  with ds show ?thesis by auto
qed

section \<open>An honest peer\<close>

definition served :: "peer \<Rightarrow> string \<Rightarrow> chunkInfo \<Rightarrow> bytes \<Rightarrow> bool" where
  "served peer url c b =
     ((\<forall>n. peer n url (Some (k_remoteOffset c, k_remoteOffset c + uint (k_size c) - 1)) = Resp 206 b True) \<and> BlobSHA256 b = k_sha c)"

definition serves :: "peer \<Rightarrow> string \<Rightarrow> bytes \<Rightarrow> bool" where
  "serves peer url data =
     (\<forall>n a b. a \<le> b \<and> b < length data \<longrightarrow> peer n url (Some (int a, int b)) = Resp 206 (slice_of data a (Suc b)) True)"

lemma fetchRanges_served:
  "list_all2 (served peer url) cs bs \<Longrightarrow> fetchRanges peer url (map rangeOf cs) n = (Some bs, n + length cs)"
proof (induction arbitrary: n rule: list_all2_induct)
  case (Cons c cs b bs)
  then show ?case by (simp add: served_def rangeOf_def)
qed simp

lemma verifyBatch_served:
  "\<forall>(i, d) \<in> set xs. BlobSHA256 d = k_sha (chunks ! i) \<Longrightarrow> \<exists>m'. verifyBatch chunks xs m = Inr m' \<and> dom m' = dom m \<union> fst ` set xs"
proof (induction xs arbitrary: m)
  case (Cons x xs)
  obtain i d where x: "x = (i, d)" by (cases x)
  with Cons.prems have h: "BlobSHA256 d = k_sha (chunks ! i)" by simp
  have "\<forall>(i, d) \<in> set xs. BlobSHA256 d = k_sha (chunks ! i)" using Cons.prems by simp
  from Cons.IH [OF this, of "m(i \<mapsto> d)"] obtain m' where m': "verifyBatch chunks xs (m(i \<mapsto> d)) = Inr m'" "dom m' = dom (m(i \<mapsto> d)) \<union> fst ` set xs"
    by (elim exE conjE)
  with x h show ?case by (intro exI [of _ m']) (simp add: insert_commute)
qed simp

lemma fetchBatches_served:
  assumes "\<forall>i \<in> set rcs. i < length cs" "list_all2 (served peer url) cs bs"
  shows "\<exists>m' n'. fetchBatches peer url cs rcs m n = (Inr m', n') \<and> set rcs \<union> dom m \<subseteq> dom m'"
  using assms(1)
proof (induction "length rcs" arbitrary: rcs m n rule: less_induct)
  case less
  show ?case
  proof (cases "rcs = []")
    case True
    then show ?thesis by (simp add: fetchBatches.simps)
  next
    case False
    let ?batch = "take batchSize rcs"
    have "list_all2 (served peer url) (map ((!) cs) ?batch) (map ((!) bs) ?batch)"
      using less.prems assms(2) by (auto simp: list_all2_conv_all_nth dest: in_set_takeD)
    then have f: "fetchRanges peer url (map (\<lambda>idx. rangeOf (cs ! idx)) ?batch) n = (Some (map ((!) bs) ?batch), n + length ?batch)"
      using fetchRanges_served [of peer url "map ((!) cs) ?batch"] by (simp add: comp_def)
    have "\<forall>(i, d) \<in> set (zip ?batch (map ((!) bs) ?batch)). BlobSHA256 d = k_sha (cs ! i)"
      using less.prems assms(2)
      by (auto simp: set_zip list_all2_conv_all_nth served_def dest: in_set_takeD)
    from verifyBatch_served [OF this, of m] obtain m1 where
      v: "verifyBatch cs (zip ?batch (map ((!) bs) ?batch)) m = Inr m1" "dom m1 = dom m \<union> set ?batch"
      by (elim exE conjE) (simp add: set_map [symmetric] del: set_map)
    have "length (drop batchSize rcs) < length rcs" using False by (simp add: batchSize_def)
    from less.hyps [OF this, of m1 "n + length ?batch"] less.prems obtain m' n' where
      r: "fetchBatches peer url cs (drop batchSize rcs) m1 (n + length ?batch) = (Inr m', n')" "set (drop batchSize rcs) \<union> dom m1 \<subseteq> dom m'"
      by (metis in_set_dropD)
    have "set rcs = set ?batch \<union> set (drop batchSize rcs)" by (metis append_take_drop_id set_append)
    moreover have "fetchBatches peer url cs rcs m n = (Inr m', n')"
      using False f v(1) r(1) by (subst fetchBatches.simps) (simp add: Let_def)
    ultimately show ?thesis using r(2) v(2) by auto
  qed
qed

text \<open>The chunk table describes \<open>bs\<close>: digest and size of each reference are those of the chunk.\<close>

definition describes :: "TSCReader \<Rightarrow> u32 \<Rightarrow> bytes \<Rightarrow> bool" where
  "describes tsc r b =
     (unat r < length (r_Entries tsc) \<and> c_sha (r_Entries tsc ! unat r) = BlobSHA256 b \<and>
      unat (c_size (r_Entries tsc ! unat r)) = length b \<and> b \<noteq> [])"

lemma buildChunks_served:
  assumes "list_all2 (describes tsc) refs bs" "serves peer url (pre @ concat bs)"
  shows "\<exists>cs st'. buildChunks disks tsc refs (int (length pre)) st = (Inr cs, st') \<and> list_all2 (served peer url) cs bs"
  using assms
proof (induction arbitrary: pre st rule: list_all2_induct)
  case (Cons r refs b bs)
  let ?e = "r_Entries tsc ! unat r"
  have r: "unat r < length (r_Entries tsc)" "c_sha ?e = BlobSHA256 b" "unat (c_size ?e) = length b" "b \<noteq> []"
    using Cons.hyps(1) by (simp_all add: describes_def)
  have u: "uint (c_size ?e) = int (length b)" using r(3) by (simp flip: uint_nat r(3))
  obtain loc ci' where fc: "FindChunk (disks (dl_n st)) (c_sha ?e) (dl_ci st) = (loc, ci')" by fastforce
  let ?c = "\<lparr> k_sha = c_sha ?e, k_size = c_size ?e, k_remoteOffset = int (length pre), k_localLoc = loc \<rparr>"
  from Cons.IH [of "pre @ b" "\<lparr> dl_n = dl_n st + 1, dl_ci = ci' \<rparr>"] Cons.prems obtain cs st' where
    cs: "buildChunks disks tsc refs (int (length pre + length b)) \<lparr> dl_n = dl_n st + 1, dl_ci = ci' \<rparr> = (Inr cs, st')"
      "list_all2 (served peer url) cs bs"
    by (auto simp: append_assoc)
  have "peer n url (Some (int (length pre), int (length pre + length b - 1)))
      = Resp 206 (slice_of (pre @ b @ concat bs) (length pre) (Suc (length pre + length b - 1))) True" for n
  proof -
    have "length pre \<le> length pre + length b - 1" "length pre + length b - 1 < length (pre @ b @ concat bs)"
      using r(4) by (cases b; simp)+
    with Cons.prems show ?thesis unfolding serves_def by simp
  qed
  moreover have "int (length pre + length b - 1) = int (length pre) + uint (c_size ?e) - 1" using u r(4) by (cases b) auto
  moreover have "Suc (length pre + length b - 1) = length pre + length b" using r(4) by (cases b) auto
  ultimately have "served peer url ?c b" using r(2) by (simp add: served_def slice_mid)
  moreover have "buildChunks disks tsc (r # refs) (int (length pre)) st = (Inr (?c # cs), st')"
    using r(1) fc cs(1) u by (simp add: Let_def)
  ultimately show ?case using cs(2) by blast
qed simp

definition all_ok :: "osops \<Rightarrow> bool" where
  "all_ok ops = (\<forall>p i. ok_create ops p \<and> ok_truncate ops p \<and> ok_seek ops p i \<and> ok_write ops p i)"

lemma chunkData_served:
  assumes "served peer url c b" "k_localLoc c = None \<Longrightarrow> i \<in> dom m"
  shows "\<exists>data n'. chunkData peer disks url m i c n = (Inr data, n')"
proof (cases "k_localLoc c")
  case None
  with assms(2) show ?thesis by (auto simp: chunkData_def)
next
  case (Some loc)
  have f: "fetchRanges peer url [rangeOf c] (n + 1) = (Some [b], n + 1 + 1)"
    using fetchRanges_served [of peer url "[c]" "[b]" "n + 1"] assms(1) by simp
  have "BlobSHA256 b = k_sha c" using assms(1) by (simp add: served_def)
  then show ?thesis
    unfolding chunkData_def Some option.case f prod.case by (cases "VerifyAndRead (disks n) loc") simp_all
qed

lemma writeChunks_served:
  assumes "all_ok ops" "list_all2 (served peer url) cs bs"
    and "\<forall>j<length cs. k_localLoc (cs ! j) = None \<and> \<not> isZeroBlock (cs ! j) \<longrightarrow> i + j \<in> dom m"
  shows "\<exists>content' n'. writeChunks ops peer disks path url m i cs content pos n = (Inr content', n')"
  using assms(2,3)
proof (induction arbitrary: i content pos n rule: list_all2_induct)
  case (Cons c cs b bs)
  have m': "\<forall>j<length cs. k_localLoc (cs ! j) = None \<and> \<not> isZeroBlock (cs ! j) \<longrightarrow> (i + 1) + j \<in> dom m"
  proof (intro allI impI)
    fix j assume "j < length cs" "k_localLoc (cs ! j) = None \<and> \<not> isZeroBlock (cs ! j)"
    with Cons.prems [rule_format, of "Suc j"] show "(i + 1) + j \<in> dom m" by simp
  qed
  show ?case
  proof (cases "isZeroBlock c")
    case True
    with Cons.IH [OF m'] assms(1) show ?thesis by (simp add: all_ok_def)
  next
    case False
    obtain data n1 where "chunkData peer disks url m i c n = (Inr data, n1)"
      using chunkData_served [OF Cons.hyps(1), of i m disks n] Cons.prems [rule_format, of 0] False by auto
    with False Cons.IH [OF m', of "write_at content pos data" "pos + length data" n1] assms(1) show ?thesis
      by (simp add: all_ok_def)
  qed
qed simp

lemma downloadFile_served:
  assumes "all_ok ops" "unat (e_Size entry) < 2 ^ 63"
    and "list_all2 (describes tsc) (e_ChunkRefs entry) bs" "serves peer url (concat bs)"
  shows "\<exists>content st'. downloadFile ops peer disks path url entry tsc st = (Inr content, st')"
proof (cases "e_ChunkCount entry = 0")
  case True
  with assms(1,2) show ?thesis by (simp add: downloadFile_def all_ok_def Let_def)
next
  case False
  from buildChunks_served [of tsc "e_ChunkRefs entry" bs peer url "[]" disks st] assms(3,4) obtain cs st1 where
    b: "buildChunks disks tsc (e_ChunkRefs entry) 0 st = (Inr cs, st1)" "list_all2 (served peer url) cs bs" by auto
  have lt: "\<forall>i \<in> set (needsRemote cs). i < length cs" by (auto simp: needsRemote_def)
  from fetchBatches_served [OF lt b(2), of Map.empty "dl_n st1"] obtain m n1 where
    f: "fetchBatches peer url cs (needsRemote cs) Map.empty (dl_n st1) = (Inr m, n1)" "set (needsRemote cs) \<subseteq> dom m" by auto
  have "\<forall>j<length cs. k_localLoc (cs ! j) = None \<and> \<not> isZeroBlock (cs ! j) \<longrightarrow> 0 + j \<in> dom m"
    using f(2) by (auto simp: needsRemote_def)
  from writeChunks_served [OF assms(1) b(2) this, of disks path "replicate (unat (e_Size entry)) 0" 0 n1] obtain c' n2 where
    "writeChunks ops peer disks path url m 0 cs (replicate (unat (e_Size entry)) 0) 0 n1 = (Inr c', n2)" by blast
  with b(1) f(1) False assms(1,2) show ?thesis by (simp add: downloadFile_def all_ok_def Let_def)
qed

section \<open>What a download touches\<close>

lemma under_iff: "under d p \<longleftrightarrow> (\<exists>r. p @ ''/'' = (d @ ''/'') @ r)"
proof
  assume "under d p"
  then show "\<exists>r. p @ ''/'' = (d @ ''/'') @ r"
    unfolding under_def HasPrefix_def
    by (metis append.assoc append_Nil2 append_take_drop_id)
next
  assume "\<exists>r. p @ ''/'' = (d @ ''/'') @ r"
  then obtain r where r: "p @ ''/'' = (d @ ''/'') @ r" by blast
  show "under d p"
  proof (cases r rule: rev_cases)
    case Nil
    with r show ?thesis by (simp add: under_def)
  next
    case (snoc ys y)
    with r have "p = (d @ ''/'') @ ys" by simp
    then show ?thesis by (simp add: under_def HasPrefix_def)
  qed
qed

lemma under_refl [simp]: "under p p"
  by (simp add: under_def)

lemma under_linear:
  assumes "under q p" "under d p"
  shows "under d q \<or> under q d"
proof -
  from assms obtain r s where "(q @ ''/'') @ r = (d @ ''/'') @ s" unfolding under_iff by metis
  then show ?thesis unfolding under_iff append_eq_append_conv2 by metis
qed

lemma under_antisym: "under p q \<Longrightarrow> under q p \<Longrightarrow> p = q"
  unfolding under_iff by (metis append.right_neutral append_assoc append_is_Nil_conv append_same_eq self_append_conv)

definition kept :: "string \<Rightarrow> dtree \<Rightarrow> dtree \<Rightarrow> bool" where
  "kept dir fs fs' = (\<forall>p. \<not> under dir p \<longrightarrow> fs' p = fs p)"

definition ancestors_ok :: "string \<Rightarrow> dtree \<Rightarrow> bool" where
  "ancestors_ok dir fs = (\<forall>q. under q dir \<and> q \<noteq> dir \<and> q \<noteq> [] \<longrightarrow> fs q \<noteq> None)"

lemma kept_refl [simp]: "kept dir fs fs"
  by (simp add: kept_def)

lemma kept_trans: "kept dir a b \<Longrightarrow> kept dir b c \<Longrightarrow> kept dir a c"
  by (simp add: kept_def)

lemma kept_upd: "under dir p \<Longrightarrow> kept dir fs fs' \<Longrightarrow> kept dir fs (fs'(p := x))"
  by (auto simp: kept_def)

lemma ancestors_kept: "ancestors_ok dir fs \<Longrightarrow> kept dir fs fs' \<Longrightarrow> ancestors_ok dir fs'"
  unfolding ancestors_ok_def kept_def by (metis under_antisym)

lemma mkdirAll_kept:
  assumes "under dir p" "ancestors_ok dir fs"
  shows "kept dir fs (mkdirAll p fs)"
  unfolding kept_def
proof (intro allI impI)
  fix q assume n: "\<not> under dir q"
  show "mkdirAll p fs q = fs q"
  proof (cases "under q p \<and> q \<noteq> []")
    case True
    then have "under q dir" using under_linear [of q p dir] assms(1) n by blast
    with n True assms(2) have "fs q \<noteq> None" unfolding ancestors_ok_def by auto
    then show ?thesis by (simp add: mkdirAll_def)
  qed (auto simp: mkdirAll_def)
qed

text \<open>The check the code does not make: every path of the manifest stays inside the target.\<close>

definition confined :: "string \<Rightarrow> TSMEntry \<Rightarrow> bool" where
  "confined dir e =
     (let p = filepath_Join [dir, e_Path e] in
      if e_Type e = EntryTypeFile then HasPrefix p (dir @ ''/'') \<and> under dir (path_Dir p) else under dir p)"

lemma under_append: "HasPrefix p (dir @ ''/'') \<Longrightarrow> under dir (p @ x)"
  by (metis HasPrefix_append HasPrefix_def append.assoc append_take_drop_id under_def)

lemma downloadFiles_kept:
  "\<lbrakk>downloadFiles ops peer disks dir base sid start tsc es fs ctimes st = (r, fs', ct', st');
    \<forall>e \<in> set es. confined dir e; ancestors_ok dir fs\<rbrakk> \<Longrightarrow> kept dir fs fs'"
proof (induction es arbitrary: fs ctimes st)
  case (Cons e es)
  show ?case
  proof (cases "e_Type e = EntryTypeFile")
    case False
    with Cons show ?thesis by simp
  next
    case True
    define out where "out = filepath_Join [dir, e_Path e]"
    define fs1 where "fs1 = mkdirAll (path_Dir out) fs"
    obtain dr st1 where dl: "downloadFile ops peer disks (out @ ''.tmp'') (base @ ''/bupdate/'' @ sid @ ''/'' @ e_Path e) e tsc st = (dr, st1)"
      by fastforce
    have c: "under dir out" "under dir (out @ ''.tmp'')" "under dir (path_Dir out)"
      using Cons.prems(2) True under_append [of out dir "[]"] under_append [of out dir] by (auto simp: confined_def Let_def out_def)
    have k1: "kept dir fs fs1" unfolding fs1_def by (rule mkdirAll_kept [OF c(3) Cons.prems(3)])
    show ?thesis
    proof (cases "ok_mkdir ops (path_Dir out)")
      case False
      with Cons.prems(1) True show ?thesis by (auto simp: out_def Let_def)
    next
      case mk: True
      show ?thesis
      proof (cases dr)
        case (Inl err)
        with Cons.prems(1) True mk dl have "fs' = fs1(out @ ''.tmp'' := None)" by (simp add: out_def fs1_def Let_def)
        then show ?thesis using kept_upd [OF c(2) k1] by (simp only:)
      next
        case (Inr content)
        show ?thesis
        proof (cases "ok_rename ops out")
          case False
          with Cons.prems(1) True mk dl Inr have "fs' = fs1(out @ ''.tmp'' \<mapsto> NFile content)" by (simp add: out_def fs1_def Let_def)
          then show ?thesis using kept_upd [OF c(2) k1] by (simp only:)
        next
          case rn: True
          let ?fs2 = "fs1(out @ ''.tmp'' := None, out \<mapsto> NFile content)"
          have k2: "kept dir fs ?fs2" by (intro kept_upd c k1)
          from Cons.prems(1) True mk dl Inr rn obtain ct1 where
            run: "downloadFiles ops peer disks dir base sid start tsc es ?fs2 ct1 st1 = (r, fs', ct', st')"
            by (simp add: out_def fs1_def Let_def)
          have "\<forall>e \<in> set es. confined dir e" using Cons.prems(2) by simp
          from kept_trans [OF k2 Cons.IH [OF run this ancestors_kept [OF Cons.prems(3) k2]]] show ?thesis .
        qed
      qed
    qed
  qed
qed simp

lemma createEntries_kept:
  "\<lbrakk>createEntries ops dir es fs = (r, fs'); \<forall>e \<in> set es. e_Type e \<noteq> EntryTypeFile \<longrightarrow> under dir (filepath_Join [dir, e_Path e]);
    ancestors_ok dir fs\<rbrakk> \<Longrightarrow> kept dir fs fs'"
proof (induction es arbitrary: fs)
  case (Cons e es)
  define out where "out = filepath_Join [dir, e_Path e]"
  have rest: "kept dir fs fs'" if "createEntries ops dir es fs1 = (r, fs')" "kept dir fs fs1" for fs1
    using Cons.IH [OF that(1)] Cons.prems(2) ancestors_kept [OF Cons.prems(3) that(2)] kept_trans [OF that(2)] by auto
  consider "e_Type e = EntryTypeDir" | "e_Type e = EntryTypeSymlink" | "e_Type e \<noteq> EntryTypeDir" "e_Type e \<noteq> EntryTypeSymlink" by blast
  then show ?case
  proof cases
    case 1
    then have u: "under dir out" using Cons.prems(2) by (simp add: out_def entry_types)
    with 1 Cons.prems(1) rest [OF _ mkdirAll_kept [OF u Cons.prems(3)]] show ?thesis
      by (auto simp: Let_def out_def split: if_splits)
  next
    case 2
    then have u: "under dir out" using Cons.prems(2) by (simp add: out_def entry_types)
    have n: "e_Type e \<noteq> EntryTypeDir" using 2 by (simp add: entry_types)
    with 2 n Cons.prems(1) rest [OF _ kept_upd [OF u kept_refl]] kept_upd [OF u kept_refl, of fs None] show ?thesis
      by (auto simp: Let_def out_def split: if_splits)
  next
    case 3
    with Cons.prems(1) rest [OF _ kept_refl] show ?thesis by (simp add: Let_def)
  qed
qed simp

definition dl_temp :: "string \<Rightarrow> string \<Rightarrow> bool" where
  "dl_temp snapshotPath p =
     (under (snapshotPath @ ''.tmp'') p \<or> p \<in> {snapshotPath @ ''.tsm.tmp'', snapshotPath @ ''.tsc.tmp'', snapshotPath @ ''.stamp.tmp''})"

lemma dl_cleanup_spec:
  assumes "o_Cleanup opts = None" "\<forall>p. \<not> dl_temp sp p \<longrightarrow> fs' p = fs p"
  shows "(\<forall>p. \<not> dl_temp sp p \<longrightarrow> dl_cleanup opts sp fs' p = fs p) \<and> (\<forall>p. dl_temp sp p \<longrightarrow> dl_cleanup opts sp fs' p = None)"
  using assms by (auto simp: dl_cleanup_def removeAll_tree_def dl_temp_def)

lemma kept_temp: "kept (sp @ ''.tmp'') fs fs' \<Longrightarrow> \<forall>p. \<not> dl_temp sp p \<longrightarrow> fs' p = fs p"
  by (auto simp: kept_def dl_temp_def)

lemma installSnapshot_failure:
  assumes "installSnapshot ops peer disks opts start sp stampData tsmData tscData tsm tsc ci fs = (Some e, fs')"
    and "o_Cleanup opts = None" "\<forall>e \<in> set (m_Entries tsm). confined (sp @ ''.tmp'') e" "ancestors_ok (sp @ ''.tmp'') fs"
  shows "(\<forall>p. \<not> dl_temp sp p \<longrightarrow> fs' p = fs p) \<and> (\<forall>p. dl_temp sp p \<longrightarrow> fs' p = None)"
proof -
  let ?dir = "sp @ ''.tmp''"
  obtain r1 fs1 ct st1 where d: "downloadFiles ops peer disks ?dir (TrimSuffix (o_BaseURL opts) ''/'') (o_SnapshotID opts) start tsc
      (m_Entries tsm) fs Map.empty \<lparr> dl_n = 3, dl_ci = ci \<rparr> = (r1, fs1, ct, st1)" by (metis prod_cases4)
  obtain r2 fs2 where c: "createNonFileEntries ops ?dir tsm fs1 = (r2, fs2)" by fastforce
  have k1: "kept ?dir fs fs1" by (rule downloadFiles_kept [OF d assms(3,4)])
  have "\<forall>e \<in> set (m_Entries tsm). e_Type e \<noteq> EntryTypeFile \<longrightarrow> under ?dir (filepath_Join [?dir, e_Path e])"
    using assms(3) by (auto simp: confined_def Let_def)
  then have k2: "kept ?dir fs fs2"
    using kept_trans [OF k1 createEntries_kept [OF c [unfolded createNonFileEntries_def] _ ancestors_kept [OF assms(4) k1]]] by simp
  have ex: "\<exists>g. (\<forall>p. \<not> dl_temp sp p \<longrightarrow> g p = fs p) \<and> fs' = dl_cleanup opts sp g"
  proof (cases r1)
    case (Some e1)
    then have "fs' = dl_cleanup opts sp fs1" using assms(1) d by (simp add: installSnapshot_def Let_def)
    then show ?thesis using kept_temp [OF k1] by blast
  next
    case None
    show ?thesis
    proof (cases "r2 \<noteq> None \<or> (\<exists>x. PatchEntryCtimes tsmData ct = Inl x)")
      case True
      then have "fs' = dl_cleanup opts sp fs2" using assms(1) d c None by (cases r2) (auto simp: installSnapshot_def Let_def)
      then show ?thesis using kept_temp [OF k2] by blast
    next
      case False
      then obtain t where t: "PatchEntryCtimes tsmData ct = Inr t" by (cases "PatchEntryCtimes tsmData ct") auto
      define f3 where "f3 = fs2(sp @ ''.stamp.tmp'' \<mapsto> NFile stampData)"
      define f4 where "f4 = f3(sp @ ''.tsm.tmp'' \<mapsto> NFile t)"
      define f5 where "f5 = f4(sp @ ''.tsc.tmp'' \<mapsto> NFile tscData)"
      have "fs' \<in> {dl_cleanup opts sp f3, dl_cleanup opts sp f4, dl_cleanup opts sp f5}"
        using assms(1) d c None False t unfolding installSnapshot_def Let_def f5_def f4_def f3_def
        by (simp split: if_splits)
      moreover have "\<forall>p. \<not> dl_temp sp p \<longrightarrow> f3 p = fs p" "\<forall>p. \<not> dl_temp sp p \<longrightarrow> f4 p = fs p" "\<forall>p. \<not> dl_temp sp p \<longrightarrow> f5 p = fs p"
        using kept_temp [OF k2] by (simp_all add: f3_def f4_def f5_def dl_temp_def)
      ultimately show ?thesis unfolding insert_iff empty_iff by (elim disjE; intro exI conjI) (assumption | simp)+
    qed
  qed
  then obtain g where g: "\<forall>p. \<not> dl_temp sp p \<longrightarrow> g p = fs p" "fs' = dl_cleanup opts sp g" by (elim exE conjE)
  show ?thesis unfolding g(2) by (rule dl_cleanup_spec [OF assms(2) g(1)])
qed

text \<open>A file the download put in place stays in place.\<close>

definition outPath :: "string \<Rightarrow> TSMEntry \<Rightarrow> string" where
  "outPath dir e = filepath_Join [dir, e_Path e]"

definition files :: "TSMEntry list \<Rightarrow> TSMEntry list" where
  "files es = filter (\<lambda>e. e_Type e = EntryTypeFile) es"

definition no_clash :: "string \<Rightarrow> TSMEntry list \<Rightarrow> bool" where
  "no_clash dir es =
     (sorted_wrt (\<lambda>a b. outPath dir b \<noteq> outPath dir a \<and> outPath dir b @ ''.tmp'' \<noteq> outPath dir a) (files es) \<and>
      (\<forall>a \<in> set (files es). \<forall>b \<in> set es. e_Type b = EntryTypeSymlink \<longrightarrow> outPath dir b \<noteq> outPath dir a))"

lemma mkdirAll_Some: "fs p = Some x \<Longrightarrow> mkdirAll d fs p = Some x"
  by (simp add: mkdirAll_def)

lemma downloadFiles_stay:
  "\<lbrakk>downloadFiles ops peer disks dir base sid start tsc es fs ct st = (None, fs', ct', st'); fs p = Some x;
    \<forall>b \<in> set (files es). outPath dir b \<noteq> p \<and> outPath dir b @ ''.tmp'' \<noteq> p\<rbrakk> \<Longrightarrow> fs' p = Some x"
proof (induction es arbitrary: fs ct st)
  case (Cons e es)
  show ?case
  proof (cases "e_Type e = EntryTypeFile")
    case False
    with Cons show ?thesis by (simp add: files_def)
  next
    case True
    define out where "out = filepath_Join [dir, e_Path e]"
    from Cons.prems(1) True obtain content st1 ct1 where
      run: "downloadFiles ops peer disks dir base sid start tsc es
        ((mkdirAll (path_Dir out) fs)(out @ ''.tmp'' := None, out \<mapsto> NFile content)) ct1 st1 = (None, fs', ct', st')"
      by (auto simp: out_def Let_def split: if_splits sum.splits prod.splits)
    have ne: "out \<noteq> p" "out @ ''.tmp'' \<noteq> p" using Cons.prems(3) True by (simp_all add: files_def outPath_def out_def)
    have "((mkdirAll (path_Dir out) fs)(out @ ''.tmp'' := None, out \<mapsto> NFile content)) p = Some x"
      using ne mkdirAll_Some [of fs p x] Cons.prems(2) by simp
    from Cons.IH [OF run this] Cons.prems(3) show ?thesis using True by (simp add: files_def)
  qed
qed simp

lemma downloadFiles_installs:
  "\<lbrakk>downloadFiles ops peer disks dir base sid start tsc es fs ct st = (None, fs', ct', st');
    sorted_wrt (\<lambda>a b. outPath dir b \<noteq> outPath dir a \<and> outPath dir b @ ''.tmp'' \<noteq> outPath dir a) (files es); e \<in> set (files es)\<rbrakk>
   \<Longrightarrow> \<exists>content st1 st2. downloadFile ops peer disks (outPath dir e @ ''.tmp'') (base @ ''/bupdate/'' @ sid @ ''/'' @ e_Path e) e tsc st1
         = (Inr content, st2) \<and> fs' (outPath dir e) = Some (NFile content)"
proof (induction es arbitrary: fs ct st)
  case (Cons x es)
  show ?case
  proof (cases "e_Type x = EntryTypeFile")
    case False
    with Cons show ?thesis by (simp add: files_def)
  next
    case True
    define out where "out = filepath_Join [dir, e_Path x]"
    from Cons.prems(1) True obtain content st1 ct1 where
      dl: "downloadFile ops peer disks (out @ ''.tmp'') (base @ ''/bupdate/'' @ sid @ ''/'' @ e_Path x) x tsc st = (Inr content, st1)" and
      run: "downloadFiles ops peer disks dir base sid start tsc es
        ((mkdirAll (path_Dir out) fs)(out @ ''.tmp'' := None, out \<mapsto> NFile content)) ct1 st1 = (None, fs', ct', st')"
      by (auto simp: out_def Let_def split: if_splits sum.splits prod.splits)
    have fl: "files (x # es) = x # files es" using True by (simp add: files_def)
    show ?thesis
    proof (cases "e = x")
      case e: True
      have "\<forall>b \<in> set (files es). outPath dir b \<noteq> out \<and> outPath dir b @ ''.tmp'' \<noteq> out"
        using Cons.prems(2) unfolding fl by (simp add: outPath_def out_def)
      from downloadFiles_stay [OF run _ this, of "NFile content"] dl e show ?thesis
        by (intro exI [of _ content] exI [of _ st] exI [of _ st1]) (simp add: outPath_def out_def)
    next
      case False
      with Cons.prems(2,3) have "sorted_wrt (\<lambda>a b. outPath dir b \<noteq> outPath dir a \<and> outPath dir b @ ''.tmp'' \<noteq> outPath dir a) (files es)"
        "e \<in> set (files es)" unfolding fl by simp_all
      from Cons.IH [OF run this] show ?thesis .
    qed
  qed
qed (simp add: files_def)

lemma createEntries_stay:
  "\<lbrakk>createEntries ops dir es fs = (None, fs'); fs p = Some x; \<forall>b \<in> set es. e_Type b = EntryTypeSymlink \<longrightarrow> outPath dir b \<noteq> p\<rbrakk>
   \<Longrightarrow> fs' p = Some x"
proof (induction es arbitrary: fs)
  case (Cons e es)
  have rest: "fs' p = Some x" if "createEntries ops dir es fs1 = (None, fs')" "fs1 p = Some x" for fs1
    using Cons.IH [OF that] Cons.prems(3) by simp
  from Cons.prems(1) consider "createEntries ops dir es (mkdirAll (outPath dir e) fs) = (None, fs')"
    | "createEntries ops dir es (fs(outPath dir e \<mapsto> NSymlink (e_LinkTarget e))) = (None, fs')" "e_Type e = EntryTypeSymlink"
    | "createEntries ops dir es fs = (None, fs')"
    by (auto simp: Let_def outPath_def split: if_splits)
  then show ?case
  proof cases
    case 1
    then show ?thesis by (rule rest) (rule mkdirAll_Some [of fs p x, OF Cons.prems(2)])
  next
    case 2
    then show ?thesis using Cons.prems(2,3) by (intro rest [OF 2(1)]) auto
  next
    case 3
    then show ?thesis using rest Cons.prems(2) by blast
  qed
qed simp

lemma installSnapshot_success:
  assumes "installSnapshot ops peer disks opts start sp stampData tsmData tscData tsm tsc ci fs = (None, fs')"
    and "no_clash (sp @ ''.tmp'') (m_Entries tsm)" "e \<in> set (files (m_Entries tsm))"
    and "outPath (sp @ ''.tmp'') e = sp @ ''.tmp/'' @ rest"
  shows "\<exists>content st1 st2. downloadFile ops peer disks (outPath (sp @ ''.tmp'') e @ ''.tmp'')
      (TrimSuffix (o_BaseURL opts) ''/'' @ ''/bupdate/'' @ o_SnapshotID opts @ ''/'' @ e_Path e) e tsc st1 = (Inr content, st2) \<and>
      fs' (sp @ ''/'' @ rest) = Some (NFile content)"
proof -
  let ?dir = "sp @ ''.tmp''"
  let ?out = "outPath ?dir e"
  obtain r1 fs1 ct st1 where d: "downloadFiles ops peer disks ?dir (TrimSuffix (o_BaseURL opts) ''/'') (o_SnapshotID opts) start tsc
      (m_Entries tsm) fs Map.empty \<lparr> dl_n = 3, dl_ci = ci \<rparr> = (r1, fs1, ct, st1)" by (metis prod_cases4)
  obtain r2 fs2 where c: "createNonFileEntries ops ?dir tsm fs1 = (r2, fs2)" by fastforce
  have r1: "r1 = None" using assms(1) d by (cases r1) (auto simp: installSnapshot_def Let_def)
  then have r2: "r2 = None" using assms(1) d c by (cases r2) (auto simp: installSnapshot_def Let_def)
  obtain t where t: "PatchEntryCtimes tsmData ct = Inr t"
    using assms(1) d c r1 r2 by (cases "PatchEntryCtimes tsmData ct") (auto simp: installSnapshot_def Let_def)
  define f5 where "f5 = fs2(sp @ ''.stamp.tmp'' \<mapsto> NFile stampData, sp @ ''.tsm.tmp'' \<mapsto> NFile t, sp @ ''.tsc.tmp'' \<mapsto> NFile tscData)"
  have fs': "fs' = rename_quiet ops (sp @ ''.tsc.tmp'') (sp @ ''.tsc'') (rename_quiet ops (sp @ ''.tsm.tmp'') (sp @ ''.tsm'')
      (rename_quiet ops (sp @ ''.stamp.tmp'') (sp @ ''.stamp'') (renameTree ?dir sp f5)))"
    using assms(1) d c r1 r2 t unfolding installSnapshot_def Let_def f5_def by (simp split: if_splits)
  have srt: "sorted_wrt (\<lambda>a b. outPath ?dir b \<noteq> outPath ?dir a \<and> outPath ?dir b @ ''.tmp'' \<noteq> outPath ?dir a) (files (m_Entries tsm))"
    using assms(2) by (simp add: no_clash_def)
  from downloadFiles_installs [OF d [unfolded r1] srt assms(3)] obtain content s1 s2 where
    dl: "downloadFile ops peer disks (?out @ ''.tmp'') (TrimSuffix (o_BaseURL opts) ''/'' @ ''/bupdate/'' @ o_SnapshotID opts @ ''/'' @ e_Path e) e tsc s1 = (Inr content, s2)"
    and f1: "fs1 ?out = Some (NFile content)" by (elim exE conjE)
  have "\<forall>b \<in> set (sort_key (\<lambda>e. length (e_Path e)) (m_Entries tsm)). e_Type b = EntryTypeSymlink \<longrightarrow> outPath ?dir b \<noteq> ?out"
    using assms(2,3) by (simp add: no_clash_def)
  from createEntries_stay [OF c [unfolded createNonFileEntries_def r2] f1 this] have f2: "fs2 ?out = Some (NFile content)" .
  have "renameTree ?dir sp f5 (sp @ ''/'' @ rest) = f5 (sp @ ''.tmp/'' @ rest)"
    by (simp add: renameTree_def under_def HasPrefix_def)
  also have "\<dots> = fs2 ?out" by (simp add: f5_def assms(4))
  finally have "renameTree ?dir sp f5 (sp @ ''/'' @ rest) = Some (NFile content)" using f2 by simp
  then have "fs' (sp @ ''/'' @ rest) = Some (NFile content)" unfolding fs' by (simp add: rename_quiet_def)
  with dl show ?thesis by blast
qed

section \<open>Properties\<close>

text \<open>
  C2: Whatever the peer answers and whatever the local disk holds or becomes meanwhile, a file that
  is downloaded consists of chunks with exactly the digests the manifest lists, in order, each
  offered by the peer or the disk or a hole of zeros; when the chunk lengths add up to the
  recorded size, the file is their concatenation, byte for byte.
\<close>

theorem downloadFile_content:
  assumes "downloadFile ops peer disks path url entry tsc st = (Inr content, st')" "e_ChunkCount entry \<noteq> 0"
  shows "\<exists>ds. map BlobSHA256 ds = GetFileChunkSHAs entry tsc \<and> list_all (offered peer disks) ds \<and>
    (length (concat ds) = unat (e_Size entry) \<longrightarrow> content = concat ds)"
  using downloadFile_holes [OF assms] holes_exact by blast

definition file_peer :: "bytes \<Rightarrow> peer" where
  "file_peer data n url r =
     (case r of None \<Rightarrow> Resp 404 [] True | Some (a, b) \<Rightarrow> Resp 206 (slice_of data (nat a) (Suc (nat b))) True)"

definition dl_tsc :: TSCReader where
  "dl_tsc = \<lparr> r_Header = parseTSCHeader [], r_Entries = [\<lparr> c_sha = BlobSHA256 [7, 8], c_size = 2, c_level = 0, c_flags = 0 \<rparr>], r_SHA256 = [] \<rparr>"

definition dl_entry :: TSMEntry where
  "dl_entry = (baseEntry ''a'' (ex_info KRegular 2))\<lparr> e_ChunkCount := 1, e_ChunkRefs := [0] \<rparr>"

definition ops_ok :: osops where
  "ops_ok = \<lparr> ok_create = (\<lambda>_. True), ok_truncate = (\<lambda>_. True), ok_seek = (\<lambda>_ _. True), ok_write = (\<lambda>_ _. True),
     ok_mkdir = (\<lambda>_. True), ok_rename = (\<lambda>_. True), ok_symlink = (\<lambda>_. True), ok_writefile = (\<lambda>_. True), ctime_at = (\<lambda>_. None) \<rparr>"

definition no_disk :: "nat \<Rightarrow> disk" where
  "no_disk n = \<lparr> d_files = Map.empty, d_dirs = {} \<rparr>"

lemma ops_ok_simps [simp]: "ok_create ops_ok p" "ok_truncate ops_ok p" "ok_seek ops_ok p i" "ok_write ops_ok p i" "ok_mkdir ops_ok p"
  "ok_rename ops_ok p" "ok_symlink ops_ok p" "ok_writefile ops_ok p" "ctime_at ops_ok p = None"
  by (simp_all add: ops_ok_def)

lemma ex_all_ok: "all_ok ops_ok" by (simp add: all_ok_def)

lemma ex_describes: "list_all2 (describes dl_tsc) (e_ChunkRefs dl_entry) [[7, 8]]"
  by (simp add: dl_entry_def describes_def dl_tsc_def)

lemma file_peer_serves: "serves (file_peer data) url data"
  by (simp add: serves_def file_peer_def)

lemma ex_dl_size: "unat (e_Size dl_entry) = 2" "e_ChunkCount dl_entry \<noteq> 0"
  by (simp_all add: dl_entry_def ex_info_def)

lemma ex_dl_run: "\<exists>content st'. downloadFile ops_ok (file_peer [7, 8]) no_disk p url dl_entry dl_tsc st = (Inr content, st')"
  using downloadFile_served [OF ex_all_ok _ ex_describes, of "file_peer [7, 8]" url no_disk p st] file_peer_serves [of "[7, 8]" url] ex_dl_size
  by simp

theorem downloadFile_content_witness:
  "\<exists>content st' ds. downloadFile ops_ok (file_peer [7, 8]) no_disk ''a'' ''u'' dl_entry dl_tsc \<lparr> dl_n = 0, dl_ci = emptyIndex \<rparr> = (Inr content, st') \<and>
     map BlobSHA256 ds = GetFileChunkSHAs dl_entry dl_tsc \<and> list_all (offered (file_peer [7, 8]) no_disk) ds"
proof -
  obtain content st' where run: "downloadFile ops_ok (file_peer [7, 8]) no_disk ''a'' ''u'' dl_entry dl_tsc \<lparr> dl_n = 0, dl_ci = emptyIndex \<rparr> = (Inr content, st')"
    using ex_dl_run by blast
  from downloadFile_content [OF run ex_dl_size(2)] obtain ds where
    "map BlobSHA256 ds = GetFileChunkSHAs dl_entry dl_tsc" "list_all (offered (file_peer [7, 8]) no_disk) ds" by (elim exE conjE)
  with run show ?thesis by blast
qed

text \<open>
  A peer that serves the right bytes is enough: when the chunk table describes the file and the
  file-system calls succeed, the download succeeds, no matter how stale, corrupt or volatile the
  local snapshots and the index over them are.
\<close>

theorem downloadFile_survives_local_corruption:
  assumes "all_ok ops" "unat (e_Size entry) < 2 ^ 63"
    and "list_all2 (describes tsc) (e_ChunkRefs entry) bs" "serves peer url (concat bs)"
  shows "\<exists>content st'. downloadFile ops peer disks path url entry tsc st = (Inr content, st')"
  by (rule downloadFile_served [OF assms])

theorem downloadFile_survives_local_corruption_witness:
  "\<exists>content st'. downloadFile ops_ok (file_peer [7, 8]) no_disk ''a'' ''u'' dl_entry dl_tsc \<lparr> dl_n = 0, dl_ci = emptyIndex \<rparr> = (Inr content, st')"
  using downloadFile_survives_local_corruption [OF ex_all_ok _ ex_describes, of "file_peer [7, 8]" "''u''" no_disk "''a''" "\<lparr> dl_n = 0, dl_ci = emptyIndex \<rparr>"]
    file_peer_serves [of "[7, 8]" "''u''"] ex_dl_size by simp


definition dl_opts_ex :: dl_opts where
  "dl_opts_ex = \<lparr> o_SnapshotID = ''x'', o_SnapsDir = ''/s'', o_BaseURL = ''http://h'', o_Create = None, o_Cleanup = None, o_Prepare = None \<rparr>"

definition no_peer :: peer where
  "no_peer n url r = ConnFail"

definition snaps_tree :: dtree where
  "snaps_tree p = Some NDir"

lemma ex_snap_path: "''/s/x'' = filepath_Join [o_SnapsDir dl_opts_ex, o_SnapshotID dl_opts_ex]"
  by code_simp

lemma ex_failing: "Download ops_ok no_peer no_disk (\<lambda>n. (64, 1)) DirNotExist dl_opts_ex 0 (snaps_tree(''/s/x'' := None))
   = (Inl DStamp, snaps_tree(''/s/x'' := None))"
  unfolding Download_def Let_def ex_snap_path [symmetric] by (simp add: fetchFullFile_def no_peer_def)



definition dl_tsm :: TSMReader where
  "dl_tsm = \<lparr> m_Header = parseTSMHeader [], m_Entries = [dl_entry], m_ChunkRefTable = [], m_SHA256 = [], m_TSCSHA = [] \<rparr>"

lemma ex_out: "outPath (''/s/x'' @ ''.tmp'') dl_entry = ''/s/x'' @ ''.tmp/'' @ ''a''"
  unfolding outPath_def dl_entry_def by (simp add: baseEntry_def ex_info_def Let_def) code_simp

lemma ex_files: "files [dl_entry] = [dl_entry]"
  by (simp add: files_def dl_entry_def baseEntry_def Let_def)

lemma ex_patch: "\<exists>t. PatchEntryCtimes (replicate 200 0) Map.empty = Inr t"
  by (simp add: PatchEntryCtimes_def TSMHeaderSize_def TSMFooterSize_def slice_of_def Uint64_def be_val_def numeral_eq_Suc)

lemma ex_install: "\<exists>fs'. installSnapshot ops_ok (file_peer [7, 8]) no_disk dl_opts_ex 0 ''/s/x'' [] (replicate 200 0) [] dl_tsm dl_tsc emptyIndex fs = (None, fs')"
proof -
  obtain content st' where run: "downloadFile ops_ok (file_peer [7, 8]) no_disk (''/s/x.tmp/a'' @ ''.tmp'')
      (TrimSuffix (o_BaseURL dl_opts_ex) ''/'' @ ''/bupdate/'' @ o_SnapshotID dl_opts_ex @ ''/'' @ e_Path dl_entry) dl_entry dl_tsc \<lparr> dl_n = 3, dl_ci = emptyIndex \<rparr> = (Inr content, st')"
    using ex_dl_run by blast
  obtain t where t: "PatchEntryCtimes (replicate 200 0) Map.empty = Inr t" using ex_patch by blast
  have ty: "e_Type dl_entry = EntryTypeFile" by (simp add: dl_entry_def baseEntry_def Let_def)
  have o: "filepath_Join [''/s/x.tmp'', e_Path dl_entry] = ''/s/x.tmp/a''" using ex_out by (simp add: outPath_def)
  show ?thesis
    using run t ty o
    by (simp add: installSnapshot_def dl_tsm_def createNonFileEntries_def entry_types Let_def)
qed


text \<open>Nothing checks the entry paths of a received manifest: a relative path leaves the target.\<close>

lemma entry_path_escapes: "outPath ''/snaps/x.tmp'' (e\<lparr> e_Path := ''../y/z'' \<rparr>) = ''/snaps/y/z''"
proof -
  have "e_Path (e\<lparr> e_Path := ''../y/z'' \<rparr>) = ''../y/z''" by simp
  then show ?thesis unfolding outPath_def by (simp only:) code_simp
qed

end
