(* ===== verification/Paths.thy ===== *)
theory Paths
  imports Prelude
begin

text \<open>
  Lexical facts about \<^verbatim>\<open>filepath.Join\<close> used wherever a name becomes a file name: a plain component
  is appended as it is, so that distinct names give distinct paths and nothing escapes its
  directory; and the interface of a directory that holds one file per key.
\<close>

section \<open>Plain components\<close>

definition plain :: "string \<Rightarrow> bool" where
  "plain c = (c \<noteq> [] \<and> c \<noteq> ''.'' \<and> c \<noteq> ''..'' \<and> CHR ''/'' \<notin> set c)"

lemma plain_simps: "plain c \<Longrightarrow> c \<noteq> []" "plain c \<Longrightarrow> c \<noteq> ''.''" "plain c \<Longrightarrow> c \<noteq> ''..''" "plain c \<Longrightarrow> CHR ''/'' \<notin> set c"
  by (simp_all add: plain_def)

lemma clean_comps_plain: "plain c \<Longrightarrow> clean_comps rooted acc (cs @ [c]) = clean_comps rooted acc cs @ [c]"
proof (induction rooted acc cs rule: clean_comps.induct)
  case (1 rooted acc)
  then show ?case by (simp add: plain_def)
next
  case (2 rooted acc x cs)
  then show ?case by (cases acc) auto
qed

lemma split_on_snoc: "c \<notin> set w \<Longrightarrow> split_on c (xs @ c # w) = split_on c xs @ [w]"
proof (induction xs)
  case Nil
  then show ?case by (simp add: split_on_last)
next
  case (Cons x xs)
  then show ?case by (cases "split_on c xs") auto
qed

lemma join_with_snoc: "join_with c (ws @ [w]) = (if ws = [] then w else join_with c ws @ c # w)"
  by (induction ws rule: join_with.induct) auto

text \<open>What is in front of the last component depends on the directory alone.\<close>

definition dirPrefix :: "string \<Rightarrow> string" where
  "dirPrefix d =
     (let rooted = (hd d = CHR ''/''); ws = clean_comps rooted [] (split_on (CHR ''/'') d)
      in (if rooted then ''/'' else []) @ (if ws = [] then [] else join_with (CHR ''/'') ws @ ''/''))"

lemma Join_plain:
  assumes "d \<noteq> []" "plain c"
  shows "filepath_Join [d, c] = dirPrefix d @ c"
proof -
  have h: "hd (d @ CHR ''/'' # c) = hd d" using assms(1) by (cases d) auto
  have s: "split_on (CHR ''/'') (d @ CHR ''/'' # c) = split_on (CHR ''/'') d @ [c]"
    by (rule split_on_snoc) (rule plain_simps(4) [OF assms(2)])
  have "filepath_Join [d, c] = path_Clean (d @ CHR ''/'' # c)" using assms(1) by (simp add: filepath_Join_def)
  also have "\<dots> = dirPrefix d @ c"
    unfolding path_Clean_def dirPrefix_def Let_def h s clean_comps_plain [OF assms(2)] join_with_snoc
    using plain_simps(1) [OF assms(2)] by (simp del: split_on.simps)
  finally show ?thesis .
qed

lemma Join_inj:
  "\<lbrakk>d \<noteq> []; plain c; plain c'; filepath_Join [d, c] = filepath_Join [d, c']\<rbrakk> \<Longrightarrow> c = c'"
  by (simp add: Join_plain)

lemma path_Clean_not_Nil [simp]: "path_Clean p \<noteq> []"
  by (simp add: path_Clean_def Let_def)

lemma filepath_Join_not_Nil: "\<exists>e \<in> set es. e \<noteq> [] \<Longrightarrow> filepath_Join es \<noteq> []"
  by (auto simp: filepath_Join_def Let_def dropWhile_eq_Nil_conv)

lemma takeWhile_split: "xs = takeWhile P xs @ drop (length (takeWhile P xs)) xs"
  by (induction xs) auto

text \<open>\<^verbatim>\<open>filepath.Ext\<close>: from the last dot of the last component.\<close>

definition filepath_Ext :: "string \<Rightarrow> string" where
  "filepath_Ext p =
     (let r = takeWhile (\<lambda>c. c \<noteq> CHR ''.'' \<and> c \<noteq> CHR ''/'') (rev p); rest = drop (length r) (rev p)
      in case rest of [] \<Rightarrow> [] | x # _ \<Rightarrow> if x = CHR ''.'' then CHR ''.'' # rev r else [])"

lemma filepath_Ext_append:
  assumes "CHR ''.'' \<notin> set x" "CHR ''/'' \<notin> set x"
  shows "filepath_Ext (n @ CHR ''.'' # x) = CHR ''.'' # x"
proof -
  have "takeWhile (\<lambda>c. c \<noteq> CHR ''.'' \<and> c \<noteq> CHR ''/'') (rev x @ CHR ''.'' # rev n) = rev x"
    using assms by (subst takeWhile_append2) auto
  then show ?thesis by (simp add: filepath_Ext_def Let_def)
qed

lemma filepath_Ext_suffix:
  assumes "filepath_Ext p = x" "x \<noteq> []"
  shows "\<exists>n. p = n @ x"
proof -
  define r where "r = takeWhile (\<lambda>c. c \<noteq> CHR ''.'' \<and> c \<noteq> CHR ''/'') (rev p)"
  define rest where "rest = drop (length r) (rev p)"
  have x: "x = (case rest of [] \<Rightarrow> [] | y # _ \<Rightarrow> if y = CHR ''.'' then CHR ''.'' # rev r else [])"
    using assms(1) unfolding filepath_Ext_def Let_def r_def [symmetric] rest_def [symmetric] by (rule sym)
  have "rev p = r @ rest" unfolding r_def rest_def by (rule takeWhile_split)
  then have p: "p = rev rest @ rev r" by (metis rev_append rev_rev_ident)
  show ?thesis
  proof (cases rest)
    case Nil
    with x assms(2) show ?thesis by simp
  next
    case (Cons y ys)
    with x assms(2) have "x = CHR ''.'' # rev r" "y = CHR ''.''" by (simp_all split: if_splits)
    with p Cons show ?thesis by simp
  qed
qed

section \<open>One file per key\<close>

text \<open>
  A store that keeps the value of a key in a file of its own. Its contract is that valid
  keys have different files; then the files, read through the keys, behave as a map.
\<close>

type_synonym fmap = "string \<rightharpoonup> bytes"

definition store_view :: "('k \<Rightarrow> string) \<Rightarrow> ('k \<Rightarrow> bool) \<Rightarrow> (bytes \<Rightarrow> 'v) \<Rightarrow> fmap \<Rightarrow> 'k \<rightharpoonup> 'v" where
  "store_view path valid dec fs k = (if valid k then map_option dec (fs (path k)) else None)"

locale key_files =
  fixes path :: "'k \<Rightarrow> string"
    and valid :: "'k \<Rightarrow> bool"
  assumes path_inj: "\<lbrakk>valid k; valid k'; path k = path k'\<rbrakk> \<Longrightarrow> k = k'"
begin

lemma view_put: "valid k \<Longrightarrow> store_view path valid dec (fs(path k \<mapsto> b)) = (store_view path valid dec fs)(k \<mapsto> dec b)"
  using path_inj by (fastforce simp: store_view_def)

lemma view_del: "valid k \<Longrightarrow> store_view path valid dec (fs(path k := None)) = (store_view path valid dec fs)(k := None)"
  using path_inj by (fastforce simp: store_view_def)

lemma view_lookup: "valid k \<Longrightarrow> store_view path valid dec fs k = map_option dec (fs (path k))"
  by (simp add: store_view_def)

lemma view_frame: "\<forall>k. valid k \<longrightarrow> p \<noteq> path k \<Longrightarrow> store_view path valid dec (fs(p := x)) = store_view path valid dec fs"
  by (rule ext) (auto simp: store_view_def)

end

section \<open>Atomic replacement\<close>

text \<open>
  \<^verbatim>\<open>CreateTemp\<close>, \<^verbatim>\<open>Write\<close>, \<^verbatim>\<open>Chmod\<close>, \<^verbatim>\<open>Close\<close>, \<^verbatim>\<open>Rename\<close>, with the deferred \<^verbatim>\<open>Remove\<close> of the temporary file, whose
  name is fresh: the file is replaced, or nothing has changed.
\<close>

datatype replace_fault = RCreateTemp | RWrite | RChmod | RClose | RRename

definition replace_file :: "replace_fault option \<Rightarrow> string \<Rightarrow> bytes \<Rightarrow> fmap \<Rightarrow> replace_fault option \<times> fmap" where
  "replace_file fault path data fs = (case fault of None \<Rightarrow> (None, fs(path \<mapsto> data)) | Some e \<Rightarrow> (Some e, fs))"

text \<open>The outcome of the calls an operation makes.\<close>

record store_io =
  io_mkdir :: bool
  io_read :: bool
  io_remove :: bool
  io_write :: "replace_fault option"
  io_now :: int

definition io_ok :: "store_io \<Rightarrow> bool" where
  "io_ok io = (io_mkdir io \<and> io_read io \<and> io_remove io \<and> io_write io = None)"

record 'v json =
  j_Marshal :: "'v \<Rightarrow> bytes"
  j_Unmarshal :: "bytes \<Rightarrow> 'v option"

definition json_law :: "'v json \<Rightarrow> bool" where
  "json_law js = (\<forall>v. j_Unmarshal js (j_Marshal js v) = Some v)"

datatype store_error = ErrExists | ErrNotFound | ErrInvalidName | ErrNilID | ErrMkdir | ErrRead | ErrParse
  | ErrRemove | ErrWrite replace_fault

section \<open>A concrete coding of records\<close>

text \<open>A self-delimiting unary coding, on which stores can be run with a JSON layer that computes.\<close>

type_synonym 'a getter = "bytes \<Rightarrow> ('a \<times> bytes) option"

definition putN :: "nat \<Rightarrow> bytes" where "putN n = replicate n 1 @ [0]"

fun getN :: "nat getter" where
  "getN [] = None"
| "getN (b # bs) = (if b = 0 then Some (0, bs) else map_option (\<lambda>(n, r). (Suc n, r)) (getN bs))"

lemma getN_putN [simp]: "getN (putN n @ r) = Some (n, r)"
  by (induction n) (auto simp: putN_def)

definition putI :: "int \<Rightarrow> bytes" where "putI i = putN (nat i) @ putN (nat (- i))"

definition getI :: "int getter" where
  "getI bs = Option.bind (getN bs) (\<lambda>(a, r). map_option (\<lambda>(b, r'). (int a - int b, r')) (getN r))"

lemma getI_putI [simp]: "getI (putI i @ r) = Some (i, r)"
  by (simp add: getI_def putI_def)

primrec getK :: "'a getter \<Rightarrow> nat \<Rightarrow> 'a list getter" where
  "getK g 0 bs = Some ([], bs)"
| "getK g (Suc k) bs = Option.bind (g bs) (\<lambda>(x, r). map_option (\<lambda>(xs, r'). (x # xs, r')) (getK g k r))"

definition putL :: "('a \<Rightarrow> bytes) \<Rightarrow> 'a list \<Rightarrow> bytes" where
  "putL p xs = putN (length xs) @ concat (map p xs)"

definition getL :: "'a getter \<Rightarrow> 'a list getter" where
  "getL g bs = Option.bind (getN bs) (\<lambda>(n, r). getK g n r)"

lemma getK_put: "\<forall>x r. g (p x @ r) = Some (x, r) \<Longrightarrow> getK g (length xs) (concat (map p xs) @ r) = Some (xs, r)"
  by (induction xs) auto

lemma getL_putL: "\<forall>x r. g (p x @ r) = Some (x, r) \<Longrightarrow> getL g (putL p xs @ r) = Some (xs, r)"
  by (simp add: getL_def putL_def getK_put)

definition putS :: "string \<Rightarrow> bytes" where "putS s = putN (length s) @ str_bytes s"

definition getS :: "string getter" where
  "getS bs = Option.bind (getN bs) (\<lambda>(n, r). Some (bytes_str (take n r), drop n r))"

lemma getS_putS [simp]: "getS (putS s @ r) = Some (s, r)"
  by (simp add: getS_def putS_def)

lemma getL_putL_S [simp]: "getL getS (putL putS xs @ r) = Some (xs, r)"
  by (rule getL_putL) simp

end
