(* ===== verification/Strconv.thy ===== *)
theory Strconv
  imports Prelude
begin

text \<open>
  The parts of \<^verbatim>\<open>strconv\<close> and \<^verbatim>\<open>bufio.Scanner\<close> the sources use: decimal numbers with a bound, and the lines
  of a text.
\<close>

section \<open>Decimal numbers\<close>

definition digit_val :: "char \<Rightarrow> nat option" where
  "digit_val c = (let n = of_char c in if 48 \<le> n \<and> n \<le> 57 then Some (n - 48) else None)"

fun digits_val :: "nat \<Rightarrow> string \<Rightarrow> nat option" where
  "digits_val acc [] = Some acc"
| "digits_val acc (c # cs) = (case digit_val c of None \<Rightarrow> None | Some d \<Rightarrow> digits_val (acc * 10 + d) cs)"

text \<open>\<^verbatim>\<open>strconv.ParseUint(s, 10, bits)\<close>: digits only, at least one, below the bound.\<close>

definition ParseUint :: "nat \<Rightarrow> string \<Rightarrow> nat option" where
  "ParseUint bits s =
     (if s = [] then None else case digits_val 0 s of None \<Rightarrow> None | Some n \<Rightarrow> if n < 2 ^ bits then Some n else None)"

text \<open>\<^verbatim>\<open>strconv.Atoi\<close>: an optional sign, then digits, in the range of \<^verbatim>\<open>int64\<close>.\<close>

definition Atoi :: "string \<Rightarrow> int option" where
  "Atoi s =
     (let (neg, body) = (case s of [] \<Rightarrow> (False, s) | c # cs \<Rightarrow> if c = CHR ''-'' then (True, cs) else if c = CHR ''+'' then (False, cs) else (False, s))
      in if body = [] then None
         else case digits_val 0 body of None \<Rightarrow> None
              | Some n \<Rightarrow>
                  let v = (if neg then - int n else int n)
                  in if - (2 ^ 63) \<le> v \<and> v < 2 ^ 63 then Some v else None)"

lemma digit_val_char: "d < 10 \<Longrightarrow> digit_val (char_of (48 + d)) = Some d"
  by (simp add: digit_val_def Let_def)

lemma digits_val_append: "digits_val acc (xs @ ys) = Option.bind (digits_val acc xs) (\<lambda>a. digits_val a ys)"
  by (induction xs arbitrary: acc) (auto split: option.splits)

lemma digits_val_dec_str: "digits_val 0 (dec_str n) = Some n"
proof (induction n rule: dec_str.induct)
  case (1 n)
  show ?case
  proof (cases "n < 10")
    case True
    then show ?thesis by (simp add: dec_str.simps [of n] digit_val_char)
  next
    case False
    have "digit_val (char_of (48 + n mod 10)) = Some (n mod 10)" by (rule digit_val_char) simp
    with False 1 [OF False] show ?thesis by (simp add: dec_str.simps [of n] digits_val_append)
  qed
qed

lemma dec_str_not_Nil [simp]: "dec_str n \<noteq> []"
  by (simp add: dec_str.simps [of n])

lemma dec_str_digits: "c \<in> set (dec_str n) \<Longrightarrow> \<exists>d < 10. c = char_of (48 + d :: nat)"
proof (induction n rule: dec_str.induct)
  case (1 n)
  then show ?case
    by (cases "n < 10") (auto simp: dec_str.simps [of n] intro: exI [of _ "n mod 10"])
qed

lemma ParseUint_dec_str: "n < 2 ^ bits \<Longrightarrow> ParseUint bits (dec_str n) = Some n"
  by (simp add: ParseUint_def digits_val_dec_str)

section \<open>Lines\<close>

text \<open>
  \<^verbatim>\<open>bufio.ScanLines\<close>: split at newlines, one trailing carriage return dropped from each line, no
  empty last line; a line longer than the buffer ends the scan with an error.
\<close>

definition dropCR :: "string \<Rightarrow> string" where
  "dropCR l = (if l \<noteq> [] \<and> of_char (last l) = (13 :: nat) then butlast l else l)"

definition newline :: char where "newline = char_of (10 :: nat)"

definition scanLines :: "string \<Rightarrow> string list" where
  "scanLines s =
     (let ls = split_on newline s
      in map dropCR (if last ls = [] then butlast ls else ls))"

definition maxLine :: nat where "maxLine = 1024 * 1024"

definition scanErr :: "string \<Rightarrow> bool" where
  "scanErr s = (\<exists>l \<in> set (split_on newline s). length l \<ge> maxLine)"

definition unlines :: "string list \<Rightarrow> string" where
  "unlines ls = concat (map (\<lambda>l. l @ [newline]) ls)"

lemma split_on_unlines:
  "\<forall>l \<in> set ls. newline \<notin> set l \<Longrightarrow> split_on newline (unlines ls) = ls @ [[]]"
proof (induction ls)
  case (Cons l ls)
  then have "split_on newline (l @ newline # unlines ls) = l # split_on newline (unlines ls)"
    by (intro split_on_append) simp
  with Cons show ?case by (simp add: unlines_def)
qed (simp add: unlines_def)

lemma scanLines_unlines:
  "\<forall>l \<in> set ls. newline \<notin> set l \<Longrightarrow> scanLines (unlines ls) = map dropCR ls"
  by (simp add: scanLines_def split_on_unlines)

lemma split_on_no_sep: "l \<in> set (split_on c xs) \<Longrightarrow> c \<notin> set l"
proof (induction xs arbitrary: l)
  case (Cons x xs)
  obtain w ws where w: "split_on c xs = w # ws" by (cases "split_on c xs") auto
  with Cons show ?case by (cases "x = c") auto
qed simp

lemma scanLines_no_newline: "l \<in> set (scanLines s) \<Longrightarrow> newline \<notin> set l"
proof -
  assume "l \<in> set (scanLines s)"
  then obtain k where k: "k \<in> set (split_on newline s)" "l = dropCR k"
    by (auto simp: scanLines_def Let_def split: if_splits dest: in_set_butlastD)
  have "set (dropCR k) \<subseteq> set k" by (auto simp: dropCR_def dest: in_set_butlastD)
  with k split_on_no_sep [OF k(1)] show "newline \<notin> set l" by blast
qed

end
