(* ===== verification/Ref_Store.thy ===== *)
theory Ref_Store
  imports Paths
begin

text \<open>
  The ref store, \<^verbatim>\<open>refs/refs.go\<close>: a named pointer to a frame with its reflog, one JSON file per ref. Frame
  IDs are represented by their canonical text. The JSON layer (\<^verbatim>\<open>encoding/json\<close> behind the
  third-party \<^verbatim>\<open>hujson\<close>) and the UUID parser are parameters; \<open>json_law\<close> is what is relied upon of
  the former. Each operation takes the outcome of the file-system calls it makes.
\<close>

section \<open>Names\<close>

definition is_letter :: "char \<Rightarrow> bool" where
  "is_letter c = (let n = of_char c :: nat in (65 \<le> n \<and> n \<le> 90) \<or> (97 \<le> n \<and> n \<le> 122))"

definition is_digit :: "char \<Rightarrow> bool" where
  "is_digit c = (let n = of_char c :: nat in 48 \<le> n \<and> n \<le> 57)"

definition refChar :: "char \<Rightarrow> bool" where
  "refChar c = (is_letter c \<or> is_digit c \<or> c = CHR ''_'' \<or> c = CHR ''-'')"

definition validRefName :: "string \<Rightarrow> bool" where
  "validRefName name =
     (case name of [] \<Rightarrow> False
      | c # cs \<Rightarrow> is_letter c \<and> list_all refChar cs)"

definition ValidateName :: "string \<Rightarrow> store_error option" where
  "ValidateName name =
     (if name = [] then Some ErrInvalidName
      else if length name > 128 then Some ErrInvalidName
      else if \<not> validRefName name then Some ErrInvalidName
      else None)"

definition ValidateFrameName :: "(string \<Rightarrow> string option) \<Rightarrow> string \<Rightarrow> store_error option" where
  "ValidateFrameName parse name = (case parse name of Some _ \<Rightarrow> None | None \<Rightarrow> ValidateName name)"

section \<open>Data and paths\<close>

record ReflogEntry =
  re_UUID :: string
  re_Time :: int

record Ref =
  rf_UUID :: string
  rf_Autorun :: "string list"
  rf_Reflog :: "ReflogEntry list"

record RefStore =
  rs_stateDir :: string
  rs_namespace :: string

definition NewRefStore :: "string \<Rightarrow> RefStore" where
  "NewRefStore stateDir = \<lparr> rs_stateDir = stateDir, rs_namespace = [] \<rparr>"

definition NewNamespaceRefStore :: "string \<Rightarrow> string \<Rightarrow> RefStore" where
  "NewNamespaceRefStore stateDir namespace = \<lparr> rs_stateDir = stateDir, rs_namespace = namespace \<rparr>"

definition refsDir :: "RefStore \<Rightarrow> string" where
  "refsDir s = (if rs_namespace s \<noteq> [] then filepath_Join [rs_stateDir s, ''refs'', rs_namespace s]
                else filepath_Join [rs_stateDir s, ''refs''])"

definition refPath :: "RefStore \<Rightarrow> string \<Rightarrow> string" where
  "refPath s name = filepath_Join [refsDir s, name @ ''.jsonc'']"

definition idDir :: "RefStore \<Rightarrow> string \<Rightarrow> string" where
  "idDir s name = (if rs_namespace s \<noteq> [] then filepath_Join [rs_stateDir s, ''id'', rs_namespace s, name]
                   else filepath_Join [rs_stateDir s, ''id'', name])"

section \<open>Operations\<close>

definition ref_write :: "Ref json \<Rightarrow> store_io \<Rightarrow> RefStore \<Rightarrow> string \<Rightarrow> Ref \<Rightarrow> fmap \<Rightarrow> store_error option \<times> fmap" where
  "ref_write js io s name r fs =
     (case replace_file (io_write io) (refPath s name) (j_Marshal js r) fs of
        (None, fs') \<Rightarrow> (None, fs') | (Some f, fs') \<Rightarrow> (Some (ErrWrite f), fs'))"

definition ref_Create :: "Ref json \<Rightarrow> store_io \<Rightarrow> RefStore \<Rightarrow> string \<Rightarrow> string \<Rightarrow> fmap \<Rightarrow> store_error option \<times> fmap" where
  "ref_Create js io s name uuid fs =
     (case ValidateName name of Some e \<Rightarrow> (Some e, fs)
      | None \<Rightarrow>
          if \<not> io_mkdir io then (Some ErrMkdir, fs)
          else if fs (refPath s name) \<noteq> None then (Some ErrExists, fs)
          else ref_write js io s name
                 \<lparr> rf_UUID = uuid, rf_Autorun = [], rf_Reflog = [\<lparr> re_UUID = uuid, re_Time = io_now io \<rparr>] \<rparr> fs)"

definition ref_Get :: "Ref json \<Rightarrow> store_io \<Rightarrow> RefStore \<Rightarrow> string \<Rightarrow> fmap \<Rightarrow> store_error + Ref" where
  "ref_Get js io s name fs =
     (case ValidateName name of Some e \<Rightarrow> Inl e
      | None \<Rightarrow>
          (case fs (refPath s name) of
             None \<Rightarrow> Inl ErrNotFound
           | Some data \<Rightarrow>
               if \<not> io_read io then Inl ErrRead
               else (case j_Unmarshal js data of None \<Rightarrow> Inl ErrParse | Some r \<Rightarrow> Inr r)))"

definition ref_Move :: "Ref json \<Rightarrow> store_io \<Rightarrow> RefStore \<Rightarrow> string \<Rightarrow> string \<Rightarrow> fmap \<Rightarrow> store_error option \<times> fmap" where
  "ref_Move js io s name newUUID fs =
     (case ref_Get js io s name fs of
        Inl e \<Rightarrow> (Some e, fs)
      | Inr r \<Rightarrow>
          ref_write js io s name
            (r\<lparr> rf_Reflog := \<lparr> re_UUID = newUUID, re_Time = io_now io \<rparr> # rf_Reflog r, rf_UUID := newUUID \<rparr>) fs)"

definition ref_Delete :: "store_io \<Rightarrow> RefStore \<Rightarrow> string \<Rightarrow> fmap \<Rightarrow> store_error option \<times> fmap" where
  "ref_Delete io s name fs =
     (case ValidateName name of Some e \<Rightarrow> (Some e, fs)
      | None \<Rightarrow>
          if fs (refPath s name) = None then (Some ErrNotFound, fs)
          else if \<not> io_remove io then (Some ErrRemove, fs)
          else (None, fs(refPath s name := None)))"

definition ref_SetAutorun :: "Ref json \<Rightarrow> store_io \<Rightarrow> RefStore \<Rightarrow> string \<Rightarrow> string list \<Rightarrow> fmap \<Rightarrow> store_error option \<times> fmap" where
  "ref_SetAutorun js io s name argv fs =
     (case ref_Get js io s name fs of
        Inl e \<Rightarrow> (Some e, fs)
      | Inr r \<Rightarrow> ref_write js io s name (r\<lparr> rf_Autorun := argv \<rparr>) fs)"

datatype dir_listing = NoDir | DirFails | Listing "(string \<times> bool) list"

definition ref_List :: "dir_listing \<Rightarrow> store_error + string list" where
  "ref_List d =
     (case d of NoDir \<Rightarrow> Inr [] | DirFails \<Rightarrow> Inl ErrRead
      | Listing entries \<Rightarrow>
          Inr (map (\<lambda>(name, _). TrimSuffix name ''.jsonc'')
                 (filter (\<lambda>(name, isDir). \<not> isDir \<and> filepath_Ext name = ''.jsonc'') entries)))"

definition ref_Exists :: "RefStore \<Rightarrow> string \<Rightarrow> fmap \<Rightarrow> bool" where
  "ref_Exists s name fs = (case ValidateName name of Some _ \<Rightarrow> False | None \<Rightarrow> fs (refPath s name) \<noteq> None)"

definition IDDirExists :: "string \<Rightarrow> dir_listing \<Rightarrow> store_error + bool" where
  "IDDirExists name d =
     (case ValidateName name of Some e \<Rightarrow> Inl e
      | None \<Rightarrow> (case d of NoDir \<Rightarrow> Inr False | DirFails \<Rightarrow> Inl ErrRead | Listing entries \<Rightarrow> Inr (length entries > 0)))"

definition EnsureIDDir :: "store_io \<Rightarrow> RefStore \<Rightarrow> string \<Rightarrow> string set \<Rightarrow> store_error option \<times> string set" where
  "EnsureIDDir io s name dirs =
     (case ValidateName name of Some e \<Rightarrow> (Some e, dirs)
      | None \<Rightarrow> if io_mkdir io then (None, insert (idDir s name) dirs) else (Some ErrMkdir, dirs))"

definition RemoveIDDir :: "store_io \<Rightarrow> RefStore \<Rightarrow> string \<Rightarrow> string set \<Rightarrow> store_error option \<times> string set" where
  "RemoveIDDir io s name dirs =
     (case ValidateName name of Some e \<Rightarrow> (Some e, dirs)
      | None \<Rightarrow> if io_remove io then (None, {d \<in> dirs. d \<noteq> idDir s name \<and> \<not> HasPrefix d (idDir s name @ ''/'')})
                else (Some ErrRemove, dirs))"

section \<open>Names become distinct files\<close>

definition valid_ref :: "string \<Rightarrow> bool" where
  "valid_ref name = (ValidateName name = None)"

lemma refChar_plain: "refChar c \<Longrightarrow> c \<noteq> CHR ''/''" "refChar c \<Longrightarrow> c \<noteq> CHR ''.''"
  by (auto simp: refChar_def is_letter_def is_digit_def)

lemma valid_ref_refChar: "valid_ref name \<Longrightarrow> name \<noteq> [] \<and> list_all refChar name"
  by (cases name) (simp_all add: valid_ref_def ValidateName_def validRefName_def refChar_def split: if_splits)

lemma valid_ref_chars:
  assumes "valid_ref name"
  shows "name \<noteq> []" "CHR ''/'' \<notin> set name" "CHR ''.'' \<notin> set name"
  using valid_ref_refChar [OF assms] refChar_plain by (auto simp: list_all_iff)

lemma valid_ref_plain: "valid_ref name \<Longrightarrow> plain (name @ ''.jsonc'')" "valid_ref name \<Longrightarrow> plain name"
  using valid_ref_chars [of name] by (auto simp: plain_def)

lemma refsDir_not_Nil: "refsDir s \<noteq> []"
  by (auto simp: refsDir_def intro!: filepath_Join_not_Nil)

interpretation rs: key_files "refPath s" valid_ref for s
proof
  fix k k' assume v: "valid_ref k" "valid_ref k'" and eq: "refPath s k = refPath s k'"
  from Join_inj [OF refsDir_not_Nil valid_ref_plain(1) [OF v(1)] valid_ref_plain(1) [OF v(2)] eq [unfolded refPath_def]]
  show "k = k'" by simp
qed

section \<open>The abstract store\<close>

text \<open>Names to refs; a file that does not parse is present without a value.\<close>

type_synonym refs_state = "string \<rightharpoonup> Ref option"

datatype ref_op = OpCreate string string | OpMove string string | OpDelete string | OpSetAutorun string "string list"

fun run_ref_op :: "Ref json \<Rightarrow> RefStore \<Rightarrow> store_io \<Rightarrow> ref_op \<Rightarrow> fmap \<Rightarrow> store_error option \<times> fmap" where
  "run_ref_op js s io (OpCreate name uuid) fs = ref_Create js io s name uuid fs"
| "run_ref_op js s io (OpMove name uuid) fs = ref_Move js io s name uuid fs"
| "run_ref_op js s io (OpDelete name) fs = ref_Delete io s name fs"
| "run_ref_op js s io (OpSetAutorun name argv) fs = ref_SetAutorun js io s name argv fs"

definition with_ref :: "refs_state \<Rightarrow> string \<Rightarrow> (Ref \<Rightarrow> Ref) \<Rightarrow> store_error option \<times> refs_state" where
  "with_ref m name f =
     (case m name of None \<Rightarrow> (Some ErrNotFound, m) | Some None \<Rightarrow> (Some ErrParse, m)
      | Some (Some r) \<Rightarrow> (None, m(name \<mapsto> Some (f r))))"

primrec op_name :: "ref_op \<Rightarrow> string" where
  "op_name (OpCreate name uuid) = name"
| "op_name (OpMove name uuid) = name"
| "op_name (OpDelete name) = name"
| "op_name (OpSetAutorun name argv) = name"

fun spec_ref_op :: "int \<Rightarrow> ref_op \<Rightarrow> refs_state \<Rightarrow> store_error option \<times> refs_state" where
  "spec_ref_op now (OpCreate name uuid) m =
     (if m name \<noteq> None then (Some ErrExists, m)
      else (None, m(name \<mapsto> Some \<lparr> rf_UUID = uuid, rf_Autorun = [], rf_Reflog = [\<lparr> re_UUID = uuid, re_Time = now \<rparr>] \<rparr>)))"
| "spec_ref_op now (OpMove name uuid) m =
     with_ref m name (\<lambda>r. r\<lparr> rf_UUID := uuid, rf_Reflog := \<lparr> re_UUID = uuid, re_Time = now \<rparr> # rf_Reflog r \<rparr>)"
| "spec_ref_op now (OpDelete name) m = (if m name = None then (Some ErrNotFound, m) else (None, m(name := None)))"
| "spec_ref_op now (OpSetAutorun name argv) m = with_ref m name (\<lambda>r. r\<lparr> rf_Autorun := argv \<rparr>)"

abbreviation ref_view :: "Ref json \<Rightarrow> RefStore \<Rightarrow> fmap \<Rightarrow> refs_state" where
  "ref_view js s \<equiv> store_view (refPath s) valid_ref (j_Unmarshal js)"

lemma ref_write_ok:
  "io_write io = None \<Longrightarrow> ref_write js io s name r fs = (None, fs(refPath s name \<mapsto> j_Marshal js r))"
  by (simp add: ref_write_def replace_file_def)

lemma ref_write_view:
  "\<lbrakk>json_law js; valid_ref name\<rbrakk> \<Longrightarrow> ref_view js s (fs(refPath s name \<mapsto> j_Marshal js r)) = (ref_view js s fs)(name \<mapsto> Some r)"
  by (simp only: rs.view_put) (simp add: json_law_def)

lemma ref_Get_view:
  assumes "valid_ref name" "io_read io"
  shows "ref_Get js io s name fs =
    (case ref_view js s fs name of None \<Rightarrow> Inl ErrNotFound | Some None \<Rightarrow> Inl ErrParse | Some (Some r) \<Rightarrow> Inr r)"
proof -
  have "ValidateName name = None" using assms(1) by (simp add: valid_ref_def)
  then show ?thesis using assms(2) unfolding ref_Get_def rs.view_lookup [OF assms(1)] by (simp split: option.split)
qed

lemma ref_modify:
  assumes "json_law js" "valid_ref name" "io_ok io"
    and "r = (case ref_Get js io s name fs of Inl e \<Rightarrow> (Some e, fs) | Inr x \<Rightarrow> ref_write js io s name (f x) fs)"
  shows "map_prod id (ref_view js s) r = with_ref (ref_view js s fs) name f"
  using assms(3) ref_Get_view [OF assms(2), of io js s fs] unfolding assms(4)
  by (auto simp: with_ref_def io_ok_def ref_write_ok ref_write_view [OF assms(1,2)] split: option.splits)

lemma ref_op_refines:
  assumes "json_law js" "io_ok io" "valid_ref (op_name op)"
  shows "map_prod id (ref_view js s) (run_ref_op js s io op fs) = spec_ref_op (io_now io) op (ref_view js s fs)"
proof (cases op)
  case (OpCreate name uuid)
  with assms have v: "valid_ref name" "ValidateName name = None" by (simp_all add: valid_ref_def)
  then show ?thesis
    using assms(2) OpCreate
    by (auto simp: ref_Create_def io_ok_def ref_write_ok ref_write_view [OF assms(1) v(1)] rs.view_lookup [OF v(1)])
next
  case (OpMove name uuid)
  with assms(3) have v: "valid_ref name" by simp
  have "(\<lambda>r. r\<lparr> rf_Reflog := \<lparr> re_UUID = uuid, re_Time = io_now io \<rparr> # rf_Reflog r, rf_UUID := uuid \<rparr>)
      = (\<lambda>r. r\<lparr> rf_UUID := uuid, rf_Reflog := \<lparr> re_UUID = uuid, re_Time = io_now io \<rparr> # rf_Reflog r \<rparr> :: Ref)"
    by (rule ext) simp
  with ref_modify [OF assms(1) v assms(2) refl, of s fs "\<lambda>r. r\<lparr> rf_Reflog := \<lparr> re_UUID = uuid, re_Time = io_now io \<rparr> # rf_Reflog r, rf_UUID := uuid \<rparr>"]
  show ?thesis unfolding OpMove run_ref_op.simps spec_ref_op.simps ref_Move_def by (simp only:)
next
  case (OpDelete name)
  with assms have v: "valid_ref name" "ValidateName name = None" by (simp_all add: valid_ref_def)
  then show ?thesis
    using assms(2) OpDelete by (auto simp: ref_Delete_def io_ok_def rs.view_lookup [OF v(1)] rs.view_del [OF v(1)])
next
  case (OpSetAutorun name argv)
  with assms(3) have v: "valid_ref name" by simp
  from ref_modify [OF assms(1) v assms(2) refl, of s fs "\<lambda>r. r\<lparr> rf_Autorun := argv \<rparr>"]
  show ?thesis unfolding OpSetAutorun run_ref_op.simps spec_ref_op.simps ref_SetAutorun_def .
qed

lemma ref_write_error: "ref_write js io s name r fs = (Some e, fs') \<Longrightarrow> fs' = fs"
  by (auto simp: ref_write_def replace_file_def split: option.splits)

lemma ref_op_error: "run_ref_op js s io op fs = (Some e, fs') \<Longrightarrow> fs' = fs"
  by (cases op) (auto simp: ref_Create_def ref_Move_def ref_Delete_def ref_SetAutorun_def
    split: option.splits sum.splits if_splits dest: ref_write_error)

lemma ref_op_invalid:
  assumes "\<not> valid_ref (op_name op)"
  shows "run_ref_op js s io op fs = (Some ErrInvalidName, fs)"
proof -
  have "ValidateName (op_name op) = Some ErrInvalidName" using assms by (simp add: valid_ref_def ValidateName_def split: if_splits)
  then show ?thesis by (cases op) (simp_all add: ref_Create_def ref_Move_def ref_Get_def ref_Delete_def ref_SetAutorun_def)
qed

text \<open>An operation that succeeds met no fault that mattered.\<close>

definition no_faults :: "store_io \<Rightarrow> store_io" where
  "no_faults io = io\<lparr> io_mkdir := True, io_read := True, io_remove := True, io_write := None \<rparr>"

lemma no_faults_simps [simp]: "io_ok (no_faults io)" "io_now (no_faults io) = io_now io" "io_write (no_faults io) = None"
  "io_read (no_faults io)" "io_mkdir (no_faults io)" "io_remove (no_faults io)"
  by (simp_all add: no_faults_def io_ok_def)

lemma ref_write_success: "ref_write js io s name r fs = (None, fs') \<Longrightarrow> fs' = fs(refPath s name \<mapsto> j_Marshal js r)"
  by (simp add: ref_write_def replace_file_def split: option.splits)

lemma ref_Get_success: "ref_Get js io s name fs = Inr r \<Longrightarrow> ref_Get js (no_faults io) s name fs = Inr r"
  unfolding ref_Get_def
  by (cases "ValidateName name"; cases "fs (refPath s name)"; cases "io_read io"; simp)

lemma ref_op_success:
  assumes "run_ref_op js s io op fs = (None, fs')"
  shows "run_ref_op js s (no_faults io) op fs = (None, fs')"
proof (cases op)
  case (OpCreate name uuid)
  with assms show ?thesis
    by (auto simp: ref_Create_def ref_write_ok split: option.splits if_splits dest: ref_write_success)
next
  case (OpMove name uuid)
  with assms obtain r where "ref_Get js io s name fs = Inr r" by (auto simp: ref_Move_def split: sum.splits)
  with assms OpMove ref_Get_success [OF this] show ?thesis by (auto simp: ref_Move_def ref_write_ok dest: ref_write_success)
next
  case (OpDelete name)
  with assms show ?thesis by (auto simp: ref_Delete_def split: option.splits if_splits)
next
  case (OpSetAutorun name argv)
  with assms obtain r where "ref_Get js io s name fs = Inr r" by (auto simp: ref_SetAutorun_def split: sum.splits)
  with assms OpSetAutorun ref_Get_success [OF this] show ?thesis by (auto simp: ref_SetAutorun_def ref_write_ok dest: ref_write_success)
qed

section \<open>Histories\<close>

text \<open>Which UUIDs a name has pointed to since it was last created, newest first.\<close>

fun pointed :: "ref_op \<Rightarrow> (string \<Rightarrow> string list) \<Rightarrow> string \<Rightarrow> string list" where
  "pointed (OpCreate name uuid) g = g(name := [uuid])"
| "pointed (OpMove name uuid) g = g(name := uuid # g name)"
| "pointed (OpDelete name) g = g(name := [])"
| "pointed (OpSetAutorun name argv) g = g"

fun run_ref_ops :: "Ref json \<Rightarrow> RefStore \<Rightarrow> (store_io \<times> ref_op) list \<Rightarrow> fmap \<Rightarrow> (string \<Rightarrow> string list) \<Rightarrow> fmap \<times> (string \<Rightarrow> string list)" where
  "run_ref_ops js s [] fs g = (fs, g)"
| "run_ref_ops js s ((io, op) # ops) fs g =
     (case run_ref_op js s io op fs of
        (None, fs') \<Rightarrow> run_ref_ops js s ops fs' (pointed op g)
      | (Some e, fs') \<Rightarrow> run_ref_ops js s ops fs' g)"

definition tracks :: "refs_state \<Rightarrow> (string \<Rightarrow> string list) \<Rightarrow> bool" where
  "tracks m g =
     (\<forall>name. case m name of None \<Rightarrow> g name = [] | Some None \<Rightarrow> False
        | Some (Some r) \<Rightarrow> g name \<noteq> [] \<and> map re_UUID (rf_Reflog r) = g name \<and> rf_UUID r = hd (g name))"

lemma tracks_upd:
  "\<lbrakk>tracks m g; us \<noteq> []; map re_UUID (rf_Reflog r) = us; rf_UUID r = hd us\<rbrakk> \<Longrightarrow> tracks (m(name \<mapsto> Some r)) (g(name := us))"
  unfolding tracks_def by (intro allI) (simp only: fun_upd_apply split: if_split, simp)

lemma tracks_del: "tracks m g \<Longrightarrow> tracks (m(name := None)) (g(name := []))"
  unfolding tracks_def by (intro allI) (simp only: fun_upd_apply split: if_split, simp)

lemma tracksD: "\<lbrakk>tracks m g; m name = Some (Some r)\<rbrakk> \<Longrightarrow> g name \<noteq> [] \<and> map re_UUID (rf_Reflog r) = g name \<and> rf_UUID r = hd (g name)"
  unfolding tracks_def by (erule allE [of _ name]) simp

lemma spec_tracks:
  assumes "tracks m g" "spec_ref_op now op m = (None, m')"
  shows "tracks m' (pointed op g)"
proof (cases op)
  case (OpCreate name uuid)
  with assms(2) have "m' = m(name \<mapsto> Some \<lparr> rf_UUID = uuid, rf_Autorun = [], rf_Reflog = [\<lparr> re_UUID = uuid, re_Time = now \<rparr>] \<rparr>)"
    by (simp split: if_splits)
  then show ?thesis unfolding OpCreate pointed.simps by (simp only:) (rule tracks_upd [OF assms(1)]; simp)
next
  case (OpMove name uuid)
  with assms(2) obtain r where r: "m name = Some (Some r)"
    "m' = m(name \<mapsto> Some (r\<lparr> rf_UUID := uuid, rf_Reflog := \<lparr> re_UUID = uuid, re_Time = now \<rparr> # rf_Reflog r \<rparr>))"
    by (simp add: with_ref_def split: option.splits)
  then show ?thesis
    using tracksD [OF assms(1) r(1)] unfolding OpMove pointed.simps r(2) by (intro tracks_upd [OF assms(1)]) simp_all
next
  case (OpDelete name)
  with assms(2) have "m' = m(name := None)" by (simp split: if_splits)
  then show ?thesis unfolding OpDelete pointed.simps by (simp only:) (rule tracks_del [OF assms(1)])
next
  case (OpSetAutorun name argv)
  with assms(2) obtain r where r: "m name = Some (Some r)" "m' = m(name \<mapsto> Some (r\<lparr> rf_Autorun := argv \<rparr>))"
    by (simp add: with_ref_def split: option.splits)
  from tracks_upd [OF assms(1), of "g name" "r\<lparr> rf_Autorun := argv \<rparr>" name] tracksD [OF assms(1) r(1)]
  show ?thesis unfolding OpSetAutorun pointed.simps r(2) by simp
qed

lemma ref_op_tracks:
  assumes "json_law js" "tracks (ref_view js s fs) g" "run_ref_op js s io op fs = (None, fs')"
  shows "tracks (ref_view js s fs') (pointed op g)"
proof -
  have "valid_ref (op_name op)" using assms(3) ref_op_invalid by fastforce
  from ref_op_refines [OF assms(1) no_faults_simps(1) this, of s io fs] ref_op_success [OF assms(3)]
  have "spec_ref_op (io_now io) op (ref_view js s fs) = (None, ref_view js s fs')" by simp
  from spec_tracks [OF assms(2) this] show ?thesis .
qed

lemma run_ref_ops_tracks:
  "\<lbrakk>json_law js; tracks (ref_view js s fs) g; run_ref_ops js s ops fs g = (fs', g')\<rbrakk> \<Longrightarrow> tracks (ref_view js s fs') g'"
proof (induction js s ops fs g rule: run_ref_ops.induct)
  case (2 js s io op ops fs g)
  show ?case
  proof (cases "run_ref_op js s io op fs")
    case (Pair r fs1)
    show ?thesis
    proof (cases r)
      case None
      with Pair 2(1) [OF Pair [symmetric]] 2(3-) ref_op_tracks [OF 2(3,4), of io op fs1] show ?thesis by simp
    next
      case (Some e)
      with Pair have "fs1 = fs" using ref_op_error by blast
      with Pair Some 2(2) [OF Pair [symmetric]] 2(3-) show ?thesis by simp
    qed
  qed
qed simp

section \<open>Properties\<close>

text \<open>
  C15: Each operation of the ref store implements the corresponding operation of a map from names to
  refs, errors included, when the file-system calls succeed; an invalid name or any failing
  call gives an error and leaves every file as it was.
\<close>

theorem ref_store_refines:
  assumes "json_law js"
  shows "(io_ok io \<and> valid_ref (op_name op) \<longrightarrow>
      map_prod id (ref_view js s) (run_ref_op js s io op fs) = spec_ref_op (io_now io) op (ref_view js s fs)) \<and>
    (\<not> valid_ref (op_name op) \<longrightarrow> run_ref_op js s io op fs = (Some ErrInvalidName, fs)) \<and>
    (fst (run_ref_op js s io op fs) = None \<or> snd (run_ref_op js s io op fs) = fs)"
proof (intro conjI impI)
  show "map_prod id (ref_view js s) (run_ref_op js s io op fs) = spec_ref_op (io_now io) op (ref_view js s fs)"
    if "io_ok io \<and> valid_ref (op_name op)" using ref_op_refines [OF assms] that by simp
  show "run_ref_op js s io op fs = (Some ErrInvalidName, fs)" if "\<not> valid_ref (op_name op)"
    using that by (rule ref_op_invalid)
  show "fst (run_ref_op js s io op fs) = None \<or> snd (run_ref_op js s io op fs) = fs"
    using ref_op_error [of js s io op fs] by (cases "run_ref_op js s io op fs"; cases "fst (run_ref_op js s io op fs)") auto
qed

text \<open>A concrete coding of refs, to run the store on.\<close>

definition getRE :: "ReflogEntry getter" where
  "getRE bs = Option.bind (getS bs) (\<lambda>(u, r). map_option (\<lambda>(t, r'). (\<lparr> re_UUID = u, re_Time = t \<rparr>, r')) (getI r))"

definition putRE :: "ReflogEntry \<Rightarrow> bytes" where
  "putRE e = putS (re_UUID e) @ putI (re_Time e)"

definition js_ref :: "Ref json" where
  "js_ref = \<lparr> j_Marshal = (\<lambda>r. putS (rf_UUID r) @ putL putS (rf_Autorun r) @ putL putRE (rf_Reflog r)),
     j_Unmarshal = (\<lambda>bs. Option.bind (getS bs) (\<lambda>(u, r). Option.bind (getL getS r) (\<lambda>(a, r').
        map_option (\<lambda>(l, _). \<lparr> rf_UUID = u, rf_Autorun = a, rf_Reflog = l \<rparr>) (getL getRE r')))) \<rparr>"

lemma js_ref_law: "json_law js_ref"
proof -
  have "getL getRE (putL putRE l @ []) = Some (l, [])" for l
    by (rule getL_putL) (simp add: getRE_def putRE_def)
  then show ?thesis by (simp add: json_law_def js_ref_def)
qed

definition io_fine :: store_io where
  "io_fine = \<lparr> io_mkdir = True, io_read = True, io_remove = True, io_write = None, io_now = 7 \<rparr>"

theorem ref_store_refines_witness:
  "map_prod id (ref_view js_ref (NewRefStore ''/d'')) (run_ref_op js_ref (NewRefStore ''/d'') io_fine (OpCreate ''main'' ''u1'') Map.empty)
   = spec_ref_op 7 (OpCreate ''main'' ''u1'') (ref_view js_ref (NewRefStore ''/d'') Map.empty)"
proof -
  have "valid_ref ''main''" unfolding valid_ref_def by code_simp
  then show ?thesis
    using ref_store_refines [OF js_ref_law, of io_fine "OpCreate ''main'' ''u1''" "NewRefStore ''/d''" Map.empty]
    by (simp add: io_ok_def io_fine_def)
qed

text \<open>
  C16: After any sequence of operations on an empty store, whichever of their file-system calls failed,
  a ref exists exactly when it was created and not deleted since, points at the frame it was
  last pointed at, and its reflog lists every frame it has pointed at, newest first.
\<close>

theorem reflog_complete:
  assumes "json_law js" "run_ref_ops js s ops Map.empty (\<lambda>_. []) = (fs, g)"
  shows "tracks (ref_view js s fs) g"
proof (rule run_ref_ops_tracks [OF assms(1) _ assms(2)])
  show "tracks (ref_view js s Map.empty) (\<lambda>_. [])" by (simp add: tracks_def store_view_def)
qed

theorem reflog_complete_witness:
  "\<exists>fs g. run_ref_ops js_ref (NewRefStore ''/d'') [(io_fine, OpCreate ''a'' ''u1''), (io_fine, OpMove ''a'' ''u2'')] Map.empty (\<lambda>_. []) = (fs, g) \<and>
     tracks (ref_view js_ref (NewRefStore ''/d'') fs) g"
  using reflog_complete [OF js_ref_law, of "NewRefStore ''/d''" "[(io_fine, OpCreate ''a'' ''u1''), (io_fine, OpMove ''a'' ''u2'')]"]
  by (metis surj_pair)

text \<open>The listing contains a ref exactly when its file is there.\<close>

lemma ref_List_iff:
  "ref_List (Listing entries) = Inr names \<Longrightarrow> name \<in> set names \<longleftrightarrow> (name @ ''.jsonc'', False) \<in> set entries"
proof -
  assume "ref_List (Listing entries) = Inr names"
  then have n: "set names = (\<lambda>(n, _). TrimSuffix n ''.jsonc'') ` {(n, d) \<in> set entries. \<not> d \<and> filepath_Ext n = ''.jsonc''}"
    by (auto simp: ref_List_def)
  have e: "filepath_Ext (x @ ''.jsonc'') = ''.jsonc''" for x
    using filepath_Ext_append [of "''jsonc''" x] by simp
  show ?thesis
  proof
    assume "name \<in> set names"
    then obtain n where m: "(n, False) \<in> set entries" "filepath_Ext n = ''.jsonc''" "name = TrimSuffix n ''.jsonc''" unfolding n by auto
    from filepath_Ext_suffix [OF m(2)] obtain x where "n = x @ ''.jsonc''" by auto
    with m show "(name @ ''.jsonc'', False) \<in> set entries" by (simp only: TrimSuffix_append)
  next
    assume "(name @ ''.jsonc'', False) \<in> set entries"
    then show "name \<in> set names" unfolding n using e [of name] TrimSuffix_append [of name "''.jsonc''"] by (intro image_eqI [of _ _ "(name @ ''.jsonc'', False)"]) simp_all
  qed
qed

text \<open>
  The two branches of \<^verbatim>\<open>ValidateFrameName\<close> overlap: a UUID that starts with a hexadecimal letter is a valid ref name.
\<close>

lemma uuid_is_ref_name: "valid_ref ''abcdef01-2345-4789-abcd-ef0123456789''"
  unfolding valid_ref_def by code_simp

end
