(* ===== verification/Frame_Store.thy ===== *)
theory Frame_Store
  imports Paths
begin

text \<open>
  The frame store, \<^verbatim>\<open>frames/frames.go\<close>: metadata of a frame with its snapshot history and taints, one
  JSON file per frame next to the frame's subvolume. A frame ID is represented by its canonical
  text, the form in which it becomes a file name; the UUID parser and the JSON layer are
  parameters.
\<close>

section \<open>Frame IDs\<close>

definition is_hex :: "char \<Rightarrow> bool" where
  "is_hex c = (let n = of_char c :: nat in (48 \<le> n \<and> n \<le> 57) \<or> (97 \<le> n \<and> n \<le> 102))"

definition is_uuid :: "string \<Rightarrow> bool" where
  "is_uuid u = (length u = 36 \<and> list_all (\<lambda>i. if i \<in> {8, 13, 18, 23} then u ! i = CHR ''-'' else is_hex (u ! i)) [0..<36])"

definition nilUUID :: string where "nilUUID = ''00000000-0000-0000-0000-000000000000''"

definition IsZero_id :: "string \<Rightarrow> bool" where "IsZero_id u = (u = nilUUID)"

section \<open>Data and paths\<close>

record HistoryEntry =
  hi_Snap :: string
  hi_Time :: int
  hi_Message :: string

record Frame =
  fr_Rootfs :: string
  fr_Home :: string
  fr_Work :: string
  fr_Taints :: "string list"
  fr_Isolation :: string
  fr_History :: "HistoryEntry list"
  fr_CreatedAt :: "int option"

record FrameStore =
  ft_stateDir :: string
  ft_namespace :: string

definition NewFrameStore :: "string \<Rightarrow> FrameStore" where
  "NewFrameStore stateDir = \<lparr> ft_stateDir = stateDir, ft_namespace = [] \<rparr>"

definition NewNamespaceFrameStore :: "string \<Rightarrow> string \<Rightarrow> FrameStore" where
  "NewNamespaceFrameStore stateDir namespace = \<lparr> ft_stateDir = stateDir, ft_namespace = namespace \<rparr>"

definition fsDir :: "FrameStore \<Rightarrow> string" where
  "fsDir s = (if ft_namespace s \<noteq> [] then filepath_Join [ft_stateDir s, ''fs'', ft_namespace s]
              else filepath_Join [ft_stateDir s, ''fs''])"

definition framePath :: "FrameStore \<Rightarrow> string \<Rightarrow> string" where
  "framePath s uuid = filepath_Join [fsDir s, uuid]"

definition metaPath :: "FrameStore \<Rightarrow> string \<Rightarrow> string" where
  "metaPath s uuid = filepath_Join [fsDir s, uuid @ ''.jsonc'']"

section \<open>Operations\<close>

definition frame_write :: "Frame json \<Rightarrow> store_io \<Rightarrow> FrameStore \<Rightarrow> string \<Rightarrow> Frame \<Rightarrow> fmap \<Rightarrow> store_error option \<times> fmap" where
  "frame_write js io s uuid f fs =
     (case replace_file (io_write io) (metaPath s uuid) (j_Marshal js f) fs of
        (None, fs') \<Rightarrow> (None, fs') | (Some e, fs') \<Rightarrow> (Some (ErrWrite e), fs'))"

definition frame_Create :: "Frame json \<Rightarrow> store_io \<Rightarrow> FrameStore \<Rightarrow> string \<Rightarrow> Frame \<Rightarrow> fmap \<Rightarrow> store_error option \<times> fmap" where
  "frame_Create js io s uuid f fs =
     (if IsZero_id uuid then (Some ErrNilID, fs)
      else if \<not> io_mkdir io then (Some ErrMkdir, fs)
      else if fs (metaPath s uuid) \<noteq> None then (Some ErrExists, fs)
      else
        let f' = (if fr_CreatedAt f = None then f\<lparr> fr_CreatedAt := Some (io_now io) \<rparr> else f)
        in frame_write js io s uuid f' fs)"

definition frame_Get :: "Frame json \<Rightarrow> store_io \<Rightarrow> FrameStore \<Rightarrow> string \<Rightarrow> fmap \<Rightarrow> store_error + Frame" where
  "frame_Get js io s uuid fs =
     (case fs (metaPath s uuid) of
        None \<Rightarrow> Inl ErrNotFound
      | Some data \<Rightarrow>
          if \<not> io_read io then Inl ErrRead
          else (case j_Unmarshal js data of None \<Rightarrow> Inl ErrParse | Some f \<Rightarrow> Inr f))"

definition frame_Update :: "Frame json \<Rightarrow> store_io \<Rightarrow> FrameStore \<Rightarrow> string \<Rightarrow> Frame \<Rightarrow> fmap \<Rightarrow> store_error option \<times> fmap" where
  "frame_Update js io s uuid f fs =
     (if fs (metaPath s uuid) = None then (Some ErrNotFound, fs) else frame_write js io s uuid f fs)"

definition frame_Delete :: "store_io \<Rightarrow> FrameStore \<Rightarrow> string \<Rightarrow> fmap \<Rightarrow> store_error option \<times> fmap" where
  "frame_Delete io s uuid fs =
     (if fs (metaPath s uuid) = None then (Some ErrNotFound, fs)
      else if \<not> io_remove io then (Some ErrRemove, fs)
      else (None, fs(metaPath s uuid := None)))"

definition AddHistoryEntry :: "Frame json \<Rightarrow> store_io \<Rightarrow> FrameStore \<Rightarrow> string \<Rightarrow> string \<Rightarrow> string \<Rightarrow> fmap \<Rightarrow> store_error option \<times> fmap" where
  "AddHistoryEntry js io s uuid snap message fs =
     (case frame_Get js io s uuid fs of
        Inl e \<Rightarrow> (Some e, fs)
      | Inr f \<Rightarrow>
          let entry = \<lparr> hi_Snap = snap, hi_Time = io_now io, hi_Message = message \<rparr>
          in frame_write js io s uuid (f\<lparr> fr_History := entry # fr_History f \<rparr>) fs)"

definition AddTaint :: "Frame json \<Rightarrow> store_io \<Rightarrow> FrameStore \<Rightarrow> string \<Rightarrow> string \<Rightarrow> fmap \<Rightarrow> store_error option \<times> fmap" where
  "AddTaint js io s uuid taint fs =
     (case frame_Get js io s uuid fs of
        Inl e \<Rightarrow> (Some e, fs)
      | Inr f \<Rightarrow>
          if taint \<in> set (fr_Taints f) then (None, fs)
          else frame_write js io s uuid (f\<lparr> fr_Taints := sort (fr_Taints f @ [taint]) \<rparr>) fs)"

definition frame_List :: "(string \<Rightarrow> string option) \<Rightarrow> (string \<times> bool) list option \<Rightarrow> string list" where
  "frame_List parse d =
     (case d of None \<Rightarrow> []
      | Some entries \<Rightarrow>
          List.map_filter (\<lambda>(name, isDir).
            if isDir then None else if filepath_Ext name \<noteq> ''.jsonc'' then None
            else parse (TrimSuffix name ''.jsonc'')) entries)"

definition frame_Exists :: "FrameStore \<Rightarrow> string \<Rightarrow> fmap \<Rightarrow> bool" where
  "frame_Exists s uuid fs = (fs (metaPath s uuid) \<noteq> None)"

definition UnionTaints :: "string list list \<Rightarrow> string list" where
  "UnionTaints sets = sort (remdups (concat sets))"

section \<open>IDs become distinct files\<close>

lemma is_hex_plain: "is_hex c \<Longrightarrow> c \<noteq> CHR ''/''" "is_hex c \<Longrightarrow> c \<noteq> CHR ''.''"
  by (auto simp: is_hex_def)

lemma is_uuid_chars:
  assumes "is_uuid u" "c \<in> set u"
  shows "c = CHR ''-'' \<or> is_hex c"
proof -
  from assms obtain i where i: "i < 36" "u ! i = c" by (auto simp: is_uuid_def in_set_conv_nth)
  with assms(1) have "if i \<in> {8, 13, 18, 23} then u ! i = CHR ''-'' else is_hex (u ! i)"
    unfolding is_uuid_def list_all_iff by (elim conjE) (erule bspec, simp)
  with i(2) show ?thesis by (simp split: if_splits)
qed

lemma is_uuid_plain:
  assumes "is_uuid u"
  shows "plain (u @ ''.jsonc'')" "plain u"
proof -
  have "CHR ''/'' \<notin> set u" using is_uuid_chars [OF assms, of "CHR ''/''"] is_hex_plain(1) [of "CHR ''/''"] by auto
  moreover have "length u = 36" using assms by (simp add: is_uuid_def)
  ultimately show "plain (u @ ''.jsonc'')" "plain u" by (auto simp: plain_def)
qed

lemma fsDir_not_Nil: "fsDir s \<noteq> []"
  by (auto simp: fsDir_def intro!: filepath_Join_not_Nil)

interpretation ft: key_files "metaPath s" is_uuid for s
proof
  fix k k' assume v: "is_uuid k" "is_uuid k'" and eq: "metaPath s k = metaPath s k'"
  from Join_inj [OF fsDir_not_Nil is_uuid_plain(1) [OF v(1)] is_uuid_plain(1) [OF v(2)] eq [unfolded metaPath_def]]
  show "k = k'" by simp
qed

abbreviation frame_view :: "Frame json \<Rightarrow> FrameStore \<Rightarrow> fmap \<Rightarrow> (string \<rightharpoonup> Frame option)" where
  "frame_view js s \<equiv> store_view (metaPath s) is_uuid (j_Unmarshal js)"

text \<open>The directory of a frame and its metadata file never collide, also across frames.\<close>

lemma framePath_metaPath:
  assumes "is_uuid u" "is_uuid v"
  shows "framePath s u \<noteq> metaPath s v"
proof
  assume "framePath s u = metaPath s v"
  then have eq: "filepath_Join [fsDir s, u] = filepath_Join [fsDir s, v @ ''.jsonc'']" unfolding framePath_def metaPath_def .
  from Join_inj [OF fsDir_not_Nil is_uuid_plain(2) [OF assms(1)] is_uuid_plain(1) [OF assms(2)] eq]
  have "length u = length (v @ ''.jsonc'')" by simp
  then show False using assms by (simp add: is_uuid_def)
qed

section \<open>Single operations\<close>

lemma frame_write_cases:
  "frame_write js io s uuid f fs = (if io_write io = None then (None, fs(metaPath s uuid \<mapsto> j_Marshal js f)) else (Some (ErrWrite (the (io_write io))), fs))"
  by (simp add: frame_write_def replace_file_def split: option.splits)

lemma frame_write_view:
  "\<lbrakk>json_law js; is_uuid u\<rbrakk> \<Longrightarrow> frame_view js s (fs(metaPath s u \<mapsto> j_Marshal js f)) = (frame_view js s fs)(u \<mapsto> Some f)"
  by (simp only: ft.view_put) (simp add: json_law_def)

lemma frame_Get_view:
  assumes "is_uuid u" "io_read io"
  shows "frame_Get js io s u fs =
    (case frame_view js s fs u of None \<Rightarrow> Inl ErrNotFound | Some None \<Rightarrow> Inl ErrParse | Some (Some f) \<Rightarrow> Inr f)"
  using assms(2) unfolding frame_Get_def ft.view_lookup [OF assms(1)] by (simp split: option.split)

lemma set_UnionTaints: "set (UnionTaints sets) = \<Union> (set ` set sets)"
  by (simp add: UnionTaints_def)

lemma UnionTaints_sorted: "sorted_wrt (<) (UnionTaints sets)"
  by (simp add: UnionTaints_def strict_sorted_iff)

section \<open>The abstract store\<close>

type_synonym frames_state = "string \<rightharpoonup> Frame option"

datatype frame_op = FCreate string Frame | FUpdate string Frame | FDelete string | FHistory string string string | FTaint string string

primrec fop_id :: "frame_op \<Rightarrow> string" where
  "fop_id (FCreate u f) = u"
| "fop_id (FUpdate u f) = u"
| "fop_id (FDelete u) = u"
| "fop_id (FHistory u snap msg) = u"
| "fop_id (FTaint u t) = u"

fun run_frame_op :: "Frame json \<Rightarrow> FrameStore \<Rightarrow> store_io \<Rightarrow> frame_op \<Rightarrow> fmap \<Rightarrow> store_error option \<times> fmap" where
  "run_frame_op js s io (FCreate u f) fs = frame_Create js io s u f fs"
| "run_frame_op js s io (FUpdate u f) fs = frame_Update js io s u f fs"
| "run_frame_op js s io (FDelete u) fs = frame_Delete io s u fs"
| "run_frame_op js s io (FHistory u snap msg) fs = AddHistoryEntry js io s u snap msg fs"
| "run_frame_op js s io (FTaint u t) fs = AddTaint js io s u t fs"

definition with_frame :: "frames_state \<Rightarrow> string \<Rightarrow> (Frame \<Rightarrow> Frame) \<Rightarrow> store_error option \<times> frames_state" where
  "with_frame m u f =
     (case m u of None \<Rightarrow> (Some ErrNotFound, m) | Some None \<Rightarrow> (Some ErrParse, m)
      | Some (Some x) \<Rightarrow> (None, m(u \<mapsto> Some (f x))))"

definition taint_frame :: "string \<Rightarrow> Frame \<Rightarrow> Frame" where
  "taint_frame t f = (if t \<in> set (fr_Taints f) then f else f\<lparr> fr_Taints := sort (fr_Taints f @ [t]) \<rparr>)"

definition stamp_frame :: "int \<Rightarrow> Frame \<Rightarrow> Frame" where
  "stamp_frame now f = (if fr_CreatedAt f = None then f\<lparr> fr_CreatedAt := Some now \<rparr> else f)"

fun spec_frame_op :: "int \<Rightarrow> frame_op \<Rightarrow> frames_state \<Rightarrow> store_error option \<times> frames_state" where
  "spec_frame_op now (FCreate u f) m =
     (if u = nilUUID then (Some ErrNilID, m) else if m u \<noteq> None then (Some ErrExists, m)
      else (None, m(u \<mapsto> Some (stamp_frame now f))))"
| "spec_frame_op now (FUpdate u f) m = (if m u = None then (Some ErrNotFound, m) else (None, m(u \<mapsto> Some f)))"
| "spec_frame_op now (FDelete u) m = (if m u = None then (Some ErrNotFound, m) else (None, m(u := None)))"
| "spec_frame_op now (FHistory u snap msg) m =
     with_frame m u (\<lambda>f. f\<lparr> fr_History := \<lparr> hi_Snap = snap, hi_Time = now, hi_Message = msg \<rparr> # fr_History f \<rparr>)"
| "spec_frame_op now (FTaint u t) m = with_frame m u (taint_frame t)"

lemma frame_op_refines:
  assumes js: "json_law js" and io: "io_ok io" and v: "is_uuid (fop_id op)"
  shows "map_prod id (frame_view js s) (run_frame_op js s io op fs) = spec_frame_op (io_now io) op (frame_view js s fs)"
proof -
  have w: "io_write io = None" "io_read io" "io_mkdir io" "io_remove io" using io by (simp_all add: io_ok_def)
  show ?thesis
  proof (cases op)
    case (FCreate u f)
    with v have u: "is_uuid u" by simp
    show ?thesis
      using w unfolding FCreate run_frame_op.simps spec_frame_op.simps frame_Create_def IsZero_id_def Let_def
      by (auto simp: frame_write_cases frame_write_view [OF js u] ft.view_lookup [OF u] stamp_frame_def)
  next
    case (FUpdate u f)
    with v have u: "is_uuid u" by simp
    show ?thesis
      using w unfolding FUpdate run_frame_op.simps spec_frame_op.simps frame_Update_def
      by (auto simp: frame_write_cases frame_write_view [OF js u] ft.view_lookup [OF u])
  next
    case (FDelete u)
    with v have u: "is_uuid u" by simp
    show ?thesis
      using w unfolding FDelete run_frame_op.simps spec_frame_op.simps frame_Delete_def
      by (auto simp: ft.view_lookup [OF u] ft.view_del [OF u])
  next
    case (FHistory u snap msg)
    with v have u: "is_uuid u" by simp
    show ?thesis
      using w unfolding FHistory run_frame_op.simps spec_frame_op.simps AddHistoryEntry_def with_frame_def frame_Get_view [OF u w(2)] Let_def
      by (simp add: frame_write_cases frame_write_view [OF js u] split: option.split)
  next
    case (FTaint u t)
    with v have u: "is_uuid u" by simp
    have id: "(frame_view js s fs)(u \<mapsto> Some f) = frame_view js s fs" if "frame_view js s fs u = Some (Some f)" for f
      using that by (simp add: fun_upd_idem)
    show ?thesis
      using w id unfolding FTaint run_frame_op.simps spec_frame_op.simps AddTaint_def with_frame_def frame_Get_view [OF u w(2)]
      by (auto simp add: taint_frame_def frame_write_cases frame_write_view [OF js u] split: option.split)
  qed
qed

lemma frame_op_error: "run_frame_op js s io op fs = (Some e, fs') \<Longrightarrow> fs' = fs"
  by (cases op) (auto simp: frame_Create_def frame_Update_def frame_Delete_def AddHistoryEntry_def AddTaint_def frame_write_cases Let_def
    split: sum.splits if_splits)

section \<open>Properties\<close>

text \<open>
  C17: Each operation of the frame store implements the corresponding operation of a map from frame IDs
  to metadata, with its errors, when the file-system calls succeed, and an operation that
  fails leaves every file as it was.
\<close>

theorem frame_store_refines:
  assumes "json_law js"
  shows "(io_ok io \<and> is_uuid (fop_id op) \<longrightarrow>
      map_prod id (frame_view js s) (run_frame_op js s io op fs) = spec_frame_op (io_now io) op (frame_view js s fs)) \<and>
    (fst (run_frame_op js s io op fs) = None \<or> snd (run_frame_op js s io op fs) = fs)"
proof (intro conjI impI)
  show "map_prod id (frame_view js s) (run_frame_op js s io op fs) = spec_frame_op (io_now io) op (frame_view js s fs)"
    if "io_ok io \<and> is_uuid (fop_id op)" using frame_op_refines [OF assms] that by simp
  show "fst (run_frame_op js s io op fs) = None \<or> snd (run_frame_op js s io op fs) = fs"
    using frame_op_error [of js s io op fs] by (cases "run_frame_op js s io op fs"; cases "fst (run_frame_op js s io op fs)") auto
qed

definition putHE :: "HistoryEntry \<Rightarrow> bytes" where
  "putHE e = putS (hi_Snap e) @ putI (hi_Time e) @ putS (hi_Message e)"

definition getHE :: "HistoryEntry getter" where
  "getHE bs = Option.bind (getS bs) (\<lambda>(a, r). Option.bind (getI r) (\<lambda>(t, r').
     map_option (\<lambda>(m, r''). (\<lparr> hi_Snap = a, hi_Time = t, hi_Message = m \<rparr>, r'')) (getS r')))"

definition js_frame :: "Frame json" where
  "js_frame = \<lparr> j_Marshal = (\<lambda>f. putS (fr_Rootfs f) @ putS (fr_Home f) @ putS (fr_Work f) @ putL putS (fr_Taints f) @ putS (fr_Isolation f) @
        putL putHE (fr_History f) @ putL putI (case fr_CreatedAt f of None \<Rightarrow> [] | Some t \<Rightarrow> [t])),
     j_Unmarshal = (\<lambda>bs. Option.bind (getS bs) (\<lambda>(a, r). Option.bind (getS r) (\<lambda>(b, r). Option.bind (getS r) (\<lambda>(c, r).
       Option.bind (getL getS r) (\<lambda>(ts, r). Option.bind (getS r) (\<lambda>(i, r). Option.bind (getL getHE r) (\<lambda>(h, r).
       map_option (\<lambda>(cs, _). \<lparr> fr_Rootfs = a, fr_Home = b, fr_Work = c, fr_Taints = ts, fr_Isolation = i, fr_History = h,
          fr_CreatedAt = (case cs of [] \<Rightarrow> None | t # _ \<Rightarrow> Some t) \<rparr>) (getL getI r)))))))) \<rparr>"

lemma js_frame_law: "json_law js_frame"
proof -
  have 1: "getL getHE (putL putHE l @ r) = Some (l, r)" for l r
    by (rule getL_putL) (simp add: getHE_def putHE_def)
  have 2: "getL getI (putL putI l @ []) = Some (l, [])" for l
    by (rule getL_putL) simp
  show ?thesis using 2 by (simp add: json_law_def js_frame_def 1 split: option.split)
qed

definition ex_frame :: Frame where
  "ex_frame = \<lparr> fr_Rootfs = ''r'', fr_Home = [], fr_Work = [], fr_Taints = [''b''], fr_Isolation = ''vm'', fr_History = [], fr_CreatedAt = None \<rparr>"

definition ex_id :: string where "ex_id = ''01890000-0000-7000-8000-000000000001''"

lemma ex_id_uuid: "is_uuid ex_id" by code_simp

theorem frame_store_refines_witness:
  "\<exists>io. io_ok io \<and> map_prod id (frame_view js_frame (NewFrameStore ''/d'')) (run_frame_op js_frame (NewFrameStore ''/d'') io (FCreate ex_id ex_frame) Map.empty)
     = spec_frame_op (io_now io) (FCreate ex_id ex_frame) (frame_view js_frame (NewFrameStore ''/d'') Map.empty)"
proof -
  define io where "io = \<lparr> io_mkdir = True, io_read = True, io_remove = True, io_write = None, io_now = 7 \<rparr>"
  have "io_ok io" by (simp add: io_ok_def io_def)
  with frame_store_refines [OF js_frame_law, of io "FCreate ex_id ex_frame" "NewFrameStore ''/d''" Map.empty] ex_id_uuid
  show ?thesis by (intro exI [of _ io]) simp
qed

text \<open>
  Taints only grow: tainting a frame changes no other frame and nothing else of this one, adds
  exactly that taint and keeps the taint list strictly sorted, also when the taint list is the
  union of those of its components.
\<close>

theorem AddTaint_grows:
  assumes "json_law js" "is_uuid u" "frame_view js s fs u = Some (Some f)" "AddTaint js io s u t fs = (None, fs')"
    and "fr_Taints f = UnionTaints sets"
  shows "\<exists>f'. frame_view js s fs' = (frame_view js s fs)(u \<mapsto> Some f') \<and> f'\<lparr> fr_Taints := fr_Taints f \<rparr> = f \<and>
    set (fr_Taints f') = insert t (\<Union> (set ` set sets)) \<and> sorted_wrt (<) (fr_Taints f')"
proof (intro exI [of _ "taint_frame t f"] conjI)
  have g: "frame_Get js io s u fs = Inr f"
    using assms(3,4) unfolding AddTaint_def frame_Get_def ft.view_lookup [OF assms(2)] by (auto split: if_splits option.splits)
  show "frame_view js s fs' = (frame_view js s fs)(u \<mapsto> Some (taint_frame t f))"
  proof (cases "t \<in> set (fr_Taints f)")
    case True
    with assms(4) g have "fs' = fs" by (simp add: AddTaint_def)
    with True assms(3) show ?thesis by (simp add: taint_frame_def fun_upd_idem)
  next
    case False
    with assms(4) g have "fs' = fs(metaPath s u \<mapsto> j_Marshal js (taint_frame t f))"
      by (simp add: AddTaint_def taint_frame_def frame_write_cases split: if_splits)
    then show ?thesis by (simp only: frame_write_view [OF assms(1,2)])
  qed
  show "(taint_frame t f)\<lparr> fr_Taints := fr_Taints f \<rparr> = f" by (simp add: taint_frame_def)
  show "set (fr_Taints (taint_frame t f)) = insert t (\<Union> (set ` set sets))"
    using set_UnionTaints [of sets] unfolding assms(5) [symmetric] by (auto simp: taint_frame_def)
  show "sorted_wrt (<) (fr_Taints (taint_frame t f))"
    using UnionTaints_sorted [of sets] unfolding assms(5) [symmetric] by (simp add: taint_frame_def strict_sorted_iff)
qed

theorem AddTaint_grows_witness:
  "\<exists>io fs fs' f'. AddTaint js_frame io (NewFrameStore ''/d'') ex_id ''a'' fs = (None, fs') \<and>
     frame_view js_frame (NewFrameStore ''/d'') fs' ex_id = Some (Some f') \<and> set (fr_Taints f') = {''a'', ''b''}"
proof -
  define io where "io = \<lparr> io_mkdir = True, io_read = True, io_remove = True, io_write = None, io_now = 7 \<rparr>"
  define s where "s = NewFrameStore ''/d''"
  define fs where "fs = (\<lambda>p. if p = metaPath s ex_id then Some (j_Marshal js_frame ex_frame) else None)"
  have v: "frame_view js_frame s fs ex_id = Some (Some ex_frame)"
    using js_frame_law by (simp add: ft.view_lookup [OF ex_id_uuid] fs_def json_law_def)
  have "fst (AddTaint js_frame io s ex_id ''a'' fs) = None"
    using js_frame_law by (simp add: AddTaint_def frame_Get_def fs_def io_def frame_write_cases json_law_def ex_frame_def)
  then obtain fs' where r: "AddTaint js_frame io s ex_id ''a'' fs = (None, fs')" by (metis prod.collapse)
  have u: "fr_Taints ex_frame = UnionTaints [[''b'']]" by (simp add: ex_frame_def UnionTaints_def)
  from AddTaint_grows [OF js_frame_law ex_id_uuid v r u] obtain f' where
    "frame_view js_frame s fs' = (frame_view js_frame s fs)(ex_id \<mapsto> Some f')" "set (fr_Taints f') = {''a'', ''b''}" by auto
  then have "frame_view js_frame s fs' ex_id = Some (Some f')" "set (fr_Taints f') = {''a'', ''b''}" by simp_all
  with r show ?thesis unfolding s_def by blast
qed

end
