(* ===== verification/Ref_Id.thy ===== *)
theory Ref_Id
  imports Paths
begin

text \<open>
  Per-ref identity subvolumes, \<^verbatim>\<open>refid/refid.go\<close> over \<^verbatim>\<open>btrfsutil/btrfsutil.go\<close>. A frame's \<^verbatim>\<open>/id\<close> directory is a node
  with its children by name; names are plain components, so a child is all that
  \<^verbatim>\<open>Path(framePath, refName)\<close> can reach. Whether a call (a system call or a \<^verbatim>\<open>btrfs\<close> command) succeeds
  is a parameter, by call and path.
\<close>

section \<open>State\<close>

record refnode =
  nd_dir :: bool
  nd_subvol :: bool
  nd_uid :: nat
  nd_gid :: nat
  nd_mode :: nat
  nd_content :: bytes

record idnode =
  id_subvol :: bool
  id_uid :: nat
  id_gid :: nat
  id_mode :: nat
  id_entries :: "string \<rightharpoonup> refnode"

type_synonym idfs = "string \<rightharpoonup> idnode"

datatype idcall = CChown | CChmod | CRemoveAll | CCreateSubvol | CDeleteSubvol | CRename | CReadDir

type_synonym outcomes = "idcall \<Rightarrow> string \<Rightarrow> bool"

datatype id_error = IdInvalidName | IdFailed idcall

definition ThundersnapUID :: nat where "ThundersnapUID = 7575"
definition ThundersnapGID :: nat where "ThundersnapGID = 7575"

section \<open>Paths and names\<close>

definition validateRefName :: "string \<Rightarrow> id_error option" where
  "validateRefName refName =
     (if refName = [] \<or> refName = ''.'' \<or> refName = ''..'' then Some IdInvalidName
      else if CHR ''/'' \<in> set refName then Some IdInvalidName
      else None)"

definition IDDir :: "string \<Rightarrow> string" where
  "IDDir fp = filepath_Join [fp, ''id'']"

definition id_Path :: "string \<Rightarrow> string \<Rightarrow> string" where
  "id_Path fp refName = filepath_Join [IDDir fp, refName]"

section \<open>Operations\<close>

definition freshNode :: refnode where
  "freshNode = \<lparr> nd_dir = True, nd_subvol = True, nd_uid = 0, nd_gid = 0, nd_mode = 493, nd_content = [] \<rparr>"

definition configureIDDir :: "outcomes \<Rightarrow> string \<Rightarrow> idfs \<Rightarrow> id_error option \<times> idfs" where
  "configureIDDir ok fp fs =
     (case fs fp of None \<Rightarrow> (Some (IdFailed CChown), fs)
      | Some d \<Rightarrow>
          if \<not> ok CChown (IDDir fp) then (Some (IdFailed CChown), fs)
          else
            let d1 = d\<lparr> id_uid := 0, id_gid := 0 \<rparr> in
            if \<not> ok CChmod (IDDir fp) then (Some (IdFailed CChmod), fs(fp \<mapsto> d1))
            else (None, fs(fp \<mapsto> d1\<lparr> id_mode := 493 \<rparr>)))"

definition entry :: "idfs \<Rightarrow> string \<Rightarrow> string \<Rightarrow> refnode option" where
  "entry fs fp name = Option.bind (fs fp) (\<lambda>d. id_entries d name)"

definition set_entry :: "string \<Rightarrow> string \<Rightarrow> refnode option \<Rightarrow> idfs \<Rightarrow> idfs" where
  "set_entry fp name n fs = (case fs fp of None \<Rightarrow> fs | Some d \<Rightarrow> fs(fp \<mapsto> d\<lparr> id_entries := (id_entries d)(name := n) \<rparr>))"

definition isSubvol :: "idfs \<Rightarrow> string \<Rightarrow> string \<Rightarrow> bool" where
  "isSubvol fs fp name = (case entry fs fp name of None \<Rightarrow> False | Some n \<Rightarrow> nd_subvol n)"

definition configureRefDir :: "outcomes \<Rightarrow> string \<Rightarrow> string \<Rightarrow> idfs \<Rightarrow> id_error option \<times> idfs" where
  "configureRefDir ok fp name fs =
     (case entry fs fp name of None \<Rightarrow> (Some (IdFailed CChown), fs)
      | Some n \<Rightarrow>
          if \<not> ok CChown (id_Path fp name) then (Some (IdFailed CChown), fs)
          else
            let n1 = n\<lparr> nd_uid := ThundersnapUID, nd_gid := ThundersnapGID \<rparr> in
            if \<not> ok CChmod (id_Path fp name) then (Some (IdFailed CChmod), set_entry fp name (Some n1) fs)
            else (None, set_entry fp name (Some (n1\<lparr> nd_mode := 448 \<rparr>)) fs))"

definition removeIfPlainDir :: "outcomes \<Rightarrow> string \<Rightarrow> string \<Rightarrow> idfs \<Rightarrow> id_error option \<times> idfs" where
  "removeIfPlainDir ok fp name fs =
     (case entry fs fp name of None \<Rightarrow> (None, fs)
      | Some n \<Rightarrow>
          if nd_subvol n \<or> \<not> nd_dir n then (None, fs)
          else if ok CRemoveAll (id_Path fp name) then (None, set_entry fp name None fs)
          else (Some (IdFailed CRemoveAll), fs))"

definition createSubvol :: "outcomes \<Rightarrow> string \<Rightarrow> string \<Rightarrow> idfs \<Rightarrow> id_error option \<times> idfs" where
  "createSubvol ok fp name fs =
     (if ok CCreateSubvol (id_Path fp name) \<and> fs fp \<noteq> None \<and> entry fs fp name = None
      then (None, set_entry fp name (Some freshNode) fs) else (Some (IdFailed CCreateSubvol), fs))"

definition freshDir :: idnode where
  "freshDir = \<lparr> id_subvol = True, id_uid = 0, id_gid = 0, id_mode = 493, id_entries = Map.empty \<rparr>"

text \<open>A plain \<^verbatim>\<open>/id\<close> directory is removed with everything in it before the subvolume is created.\<close>

definition ensureIDSubvol :: "outcomes \<Rightarrow> string \<Rightarrow> idfs \<Rightarrow> id_error option \<times> idfs" where
  "ensureIDSubvol ok fp fs =
     (case fs fp of
        Some d \<Rightarrow>
          if id_subvol d then configureIDDir ok fp fs
          else if \<not> ok CRemoveAll (IDDir fp) then (Some (IdFailed CRemoveAll), fs)
          else if \<not> ok CCreateSubvol (IDDir fp) then (Some (IdFailed CCreateSubvol), fs(fp := None))
          else configureIDDir ok fp (fs(fp \<mapsto> freshDir))
      | None \<Rightarrow>
          if \<not> ok CCreateSubvol (IDDir fp) then (Some (IdFailed CCreateSubvol), fs)
          else configureIDDir ok fp (fs(fp \<mapsto> freshDir)))"

definition andThen :: "id_error option \<times> idfs \<Rightarrow> (idfs \<Rightarrow> id_error option \<times> idfs) \<Rightarrow> id_error option \<times> idfs" where
  "andThen r f = (case r of (Some e, fs) \<Rightarrow> (Some e, fs) | (None, fs) \<Rightarrow> f fs)"

definition id_Ensure :: "outcomes \<Rightarrow> string \<Rightarrow> string \<Rightarrow> idfs \<Rightarrow> id_error option \<times> idfs" where
  "id_Ensure ok fp name fs =
     (case validateRefName name of Some e \<Rightarrow> (Some e, fs)
      | None \<Rightarrow>
          andThen (ensureIDSubvol ok fp fs) (\<lambda>fs1.
          andThen (if isSubvol fs1 fp name then (None, fs1)
                   else andThen (removeIfPlainDir ok fp name fs1) (createSubvol ok fp name))
            (configureRefDir ok fp name)))"

fun repairAll :: "outcomes \<Rightarrow> string \<Rightarrow> string list \<Rightarrow> idfs \<Rightarrow> id_error option \<times> idfs" where
  "repairAll ok fp [] fs = (None, fs)"
| "repairAll ok fp (name # names) fs =
     (case entry fs fp name of None \<Rightarrow> repairAll ok fp names fs
      | Some n \<Rightarrow>
          if \<not> nd_dir n \<or> \<not> nd_subvol n then repairAll ok fp names fs
          else andThen (configureRefDir ok fp name fs) (repairAll ok fp names))"

definition RepairOwnership :: "outcomes \<Rightarrow> string list \<Rightarrow> string \<Rightarrow> idfs \<Rightarrow> id_error option \<times> idfs" where
  "RepairOwnership ok names fp fs =
     andThen (ensureIDSubvol ok fp fs) (\<lambda>fs1.
       if \<not> ok CReadDir (IDDir fp) then (Some (IdFailed CReadDir), fs1) else repairAll ok fp names fs1)"

definition clearDst :: "outcomes \<Rightarrow> string \<Rightarrow> string \<Rightarrow> idfs \<Rightarrow> id_error option \<times> idfs" where
  "clearDst ok fp name fs =
     (if isSubvol fs fp name then
        (if ok CDeleteSubvol (id_Path fp name) then (None, set_entry fp name None fs) else (Some (IdFailed CDeleteSubvol), fs))
      else removeIfPlainDir ok fp name fs)"

definition renameEntry :: "outcomes \<Rightarrow> string \<Rightarrow> string \<Rightarrow> string \<Rightarrow> idfs \<Rightarrow> id_error option \<times> idfs" where
  "renameEntry ok sfp dfp name fs =
     (case entry fs sfp name of None \<Rightarrow> (Some (IdFailed CRename), fs)
      | Some n \<Rightarrow>
          if ok CRename (id_Path sfp name) then (None, set_entry dfp name (Some n) (set_entry sfp name None fs))
          else (Some (IdFailed CRename), fs))"

definition id_Move :: "outcomes \<Rightarrow> string \<Rightarrow> string \<Rightarrow> string \<Rightarrow> idfs \<Rightarrow> id_error option \<times> idfs" where
  "id_Move ok sfp dfp name fs =
     (case validateRefName name of Some e \<Rightarrow> (Some e, fs)
      | None \<Rightarrow>
          andThen (ensureIDSubvol ok dfp fs) (\<lambda>fs1.
            if \<not> isSubvol fs1 sfp name then id_Ensure ok dfp name fs1
            else
              andThen (clearDst ok dfp name fs1) (\<lambda>fs2.
              andThen (renameEntry ok sfp dfp name fs2)
                (configureRefDir ok dfp name))))"

definition id_Remove :: "outcomes \<Rightarrow> string \<Rightarrow> string \<Rightarrow> idfs \<Rightarrow> id_error option \<times> idfs" where
  "id_Remove ok fp name fs =
     (case validateRefName name of Some e \<Rightarrow> (Some e, fs)
      | None \<Rightarrow>
          if \<not> isSubvol fs fp name then
            (if ok CRemoveAll (id_Path fp name) then (None, set_entry fp name None fs) else (Some (IdFailed CRemoveAll), fs))
          else if ok CDeleteSubvol (id_Path fp name) then (None, set_entry fp name None fs)
          else (Some (IdFailed CDeleteSubvol), fs))"

section \<open>Reading and writing entries\<close>

lemma andThen_None: "andThen r f = (None, fs') \<longleftrightarrow> (\<exists>fs. r = (None, fs) \<and> f fs = (None, fs'))"
  by (cases r; cases "fst r") (auto simp: andThen_def)

lemma entry_set_entry: "fs fp \<noteq> None \<Longrightarrow> entry (set_entry fp name n fs) fp' name' = (if fp' = fp \<and> name' = name then n else entry fs fp' name')"
  by (auto simp: entry_def set_entry_def)

lemma entry_set_None: "entry (set_entry fp name None fs) fp' name' = (if fp' = fp \<and> name' = name then None else entry fs fp' name')"
  by (auto simp: entry_def set_entry_def split: option.splits)

lemma set_entry_dom [simp]: "set_entry fp name n fs fp' = None \<longleftrightarrow> fs fp' = None"
  by (auto simp: set_entry_def split: option.splits)

lemma entry_SomeD: "entry fs fp name = Some n \<Longrightarrow> fs fp \<noteq> None"
  by (cases "fs fp") (simp_all add: entry_def)

lemma configureRefDir_ok:
  assumes "configureRefDir ok fp name fs = (None, fs')"
  shows "\<exists>n. entry fs fp name = Some n \<and>
    entry fs' fp name = Some (n\<lparr> nd_uid := ThundersnapUID, nd_gid := ThundersnapGID, nd_mode := 448 \<rparr>) \<and>
    (\<forall>fp' name'. (fp', name') \<noteq> (fp, name) \<longrightarrow> entry fs' fp' name' = entry fs fp' name')"
  using assms by (auto simp: configureRefDir_def Let_def entry_set_entry split: option.splits if_splits dest: entry_SomeD)

lemma configureIDDir_ok:
  assumes "configureIDDir ok fp fs = (None, fs')"
  shows "fs' fp \<noteq> None \<and> (\<forall>fp' name'. entry fs' fp' name' = entry fs fp' name') \<and> (\<forall>fp'. fp' \<noteq> fp \<longrightarrow> fs' fp' = fs fp')"
  using assms by (auto simp: configureIDDir_def Let_def entry_def split: option.splits if_splits)

lemma ensureIDSubvol_ok:
  assumes "ensureIDSubvol ok fp fs = (None, fs')"
  shows "fs' fp \<noteq> None \<and> (\<forall>fp' name'. fp' \<noteq> fp \<longrightarrow> entry fs' fp' name' = entry fs fp' name') \<and>
    (pred_option id_subvol (fs fp) \<longrightarrow> (\<forall>name'. entry fs' fp name' = entry fs fp name'))"
proof -
  from assms have "(pred_option id_subvol (fs fp) \<and> fs fp \<noteq> None \<and> configureIDDir ok fp fs = (None, fs')) \<or>
    ((fs fp = None \<or> \<not> pred_option id_subvol (fs fp)) \<and> configureIDDir ok fp (fs(fp \<mapsto> freshDir)) = (None, fs'))"
    by (auto simp: ensureIDSubvol_def split: option.splits if_splits)
  then show ?thesis
  proof (elim disjE)
    assume "pred_option id_subvol (fs fp) \<and> fs fp \<noteq> None \<and> configureIDDir ok fp fs = (None, fs')"
    then have "configureIDDir ok fp fs = (None, fs')" by simp
    from configureIDDir_ok [OF this] show ?thesis by simp
  next
    assume o: "(fs fp = None \<or> \<not> pred_option id_subvol (fs fp)) \<and> configureIDDir ok fp (fs(fp \<mapsto> freshDir)) = (None, fs')"
    then have "configureIDDir ok fp (fs(fp \<mapsto> freshDir)) = (None, fs')" by simp
    from configureIDDir_ok [OF this] o show ?thesis by (auto simp: entry_def freshDir_def)
  qed
qed

lemma validateRefName_plain: "validateRefName name = None \<longleftrightarrow> plain name"
  by (auto simp: validateRefName_def plain_def)

text \<open>The contents an identity has, seen through the store.\<close>

definition identity :: "idfs \<Rightarrow> string \<Rightarrow> string \<Rightarrow> bytes option" where
  "identity fs fp name = (case entry fs fp name of None \<Rightarrow> None | Some n \<Rightarrow> if nd_subvol n then Some (nd_content n) else None)"

definition private_node :: "refnode \<Rightarrow> bool" where
  "private_node n = (nd_subvol n \<and> nd_uid n = ThundersnapUID \<and> nd_gid n = ThundersnapGID \<and> nd_mode n = 448)"

lemma createSubvol_ok:
  "createSubvol ok fp name fs = (None, fs') \<Longrightarrow> entry fs' fp name = Some freshNode \<and> fs fp \<noteq> None \<and>
    (\<forall>fp' name'. (fp', name') \<noteq> (fp, name) \<longrightarrow> entry fs' fp' name' = entry fs fp' name')"
  by (auto simp: createSubvol_def entry_set_entry split: if_splits)

lemma removeIfPlainDir_ok:
  "removeIfPlainDir ok fp name fs = (None, fs') \<Longrightarrow> (\<forall>fp' name'. (fp', name') \<noteq> (fp, name) \<longrightarrow> entry fs' fp' name' = entry fs fp' name') \<and>
    (\<forall>n. entry fs' fp name = Some n \<longrightarrow> entry fs fp name = Some n)"
  by (auto simp: removeIfPlainDir_def entry_set_None split: option.splits if_splits)

lemma Ensure_ok:
  assumes "id_Ensure ok fp name fs = (None, fs')" "pred_option id_subvol (fs fp)"
  shows "\<exists>n. entry fs' fp name = Some n \<and> private_node n \<and>
    nd_content n = (case identity fs fp name of None \<Rightarrow> [] | Some c \<Rightarrow> c) \<and>
    (\<forall>fp' name'. (fp', name') \<noteq> (fp, name) \<longrightarrow> entry fs' fp' name' = entry fs fp' name')"
proof -
  from assms(1) obtain fs1 fs2 where e: "ensureIDSubvol ok fp fs = (None, fs1)"
    and m: "(if isSubvol fs1 fp name then (None, fs1) else andThen (removeIfPlainDir ok fp name fs1) (createSubvol ok fp name)) = (None, fs2)"
    and c: "configureRefDir ok fp name fs2 = (None, fs')"
    by (auto simp: id_Ensure_def andThen_None split: option.splits)
  have e1: "entry fs1 fp' name' = entry fs fp' name'" for fp' name'
    using ensureIDSubvol_ok [OF e] assms(2) by (cases "fp' = fp") auto
  from configureRefDir_ok [OF c] obtain n where n: "entry fs2 fp name = Some n"
    "entry fs' fp name = Some (n\<lparr> nd_uid := ThundersnapUID, nd_gid := ThundersnapGID, nd_mode := 448 \<rparr>)"
    "\<forall>fp' name'. (fp', name') \<noteq> (fp, name) \<longrightarrow> entry fs' fp' name' = entry fs2 fp' name'" by blast
  show ?thesis
  proof (cases "isSubvol fs1 fp name")
    case True
    with m have "fs2 = fs1" by simp
    moreover from this True n(1) have "nd_subvol n" by (simp add: isSubvol_def)
    ultimately show ?thesis using n e1 by (auto simp: private_node_def identity_def)
  next
    case False
    with m obtain fs3 where r: "removeIfPlainDir ok fp name fs1 = (None, fs3)" and cr: "createSubvol ok fp name fs3 = (None, fs2)"
      by (auto simp: andThen_None)
    have "identity fs fp name = None" using False e1 by (auto simp: isSubvol_def identity_def split: option.splits)
    with createSubvol_ok [OF cr] removeIfPlainDir_ok [OF r] n e1 show ?thesis
      by (auto simp: private_node_def freshNode_def)
  qed
qed

lemma set_entry_subvol [simp]: "pred_option id_subvol (set_entry fp name n fs fp') = pred_option id_subvol (fs fp')"
  by (auto simp: set_entry_def split: option.splits)

lemma Ensure_subvol:
  assumes "id_Ensure ok fp name fs = (None, fs')"
  shows "pred_option id_subvol (fs' fp)"
proof -
  from assms obtain fs1 fs2 where e: "ensureIDSubvol ok fp fs = (None, fs1)"
    and m: "(if isSubvol fs1 fp name then (None, fs1) else andThen (removeIfPlainDir ok fp name fs1) (createSubvol ok fp name)) = (None, fs2)"
    and c: "configureRefDir ok fp name fs2 = (None, fs')"
    by (auto simp: id_Ensure_def andThen_None split: option.splits)
  have 1: "pred_option id_subvol (fs1 fp)"
    using e by (auto simp: ensureIDSubvol_def configureIDDir_def Let_def freshDir_def split: option.splits if_splits)
  have "fs2 = fs1 \<or> fs2 = set_entry fp name (Some freshNode) fs1 \<or> fs2 = set_entry fp name (Some freshNode) (set_entry fp name None fs1)"
    using m by (auto simp: andThen_None removeIfPlainDir_def createSubvol_def split: option.splits if_splits)
  with 1 have "pred_option id_subvol (fs2 fp)" by (elim disjE) (simp_all only: set_entry_subvol)
  then show ?thesis using c by (auto simp: configureRefDir_def Let_def split: option.splits if_splits)
qed

lemma Move_ok:
  assumes "id_Move ok sfp dfp name fs = (None, fs')" "sfp \<noteq> dfp" "identity fs sfp name = Some content" "pred_option id_subvol (fs dfp)"
  shows "(\<exists>n. entry fs' dfp name = Some n \<and> private_node n \<and> nd_content n = content) \<and> entry fs' sfp name = None \<and>
    (\<forall>fp' name'. name' \<noteq> name \<or> (fp' \<noteq> sfp \<and> fp' \<noteq> dfp) \<longrightarrow> entry fs' fp' name' = entry fs fp' name')"
proof -
  from assms(3) obtain n0 where n0: "entry fs sfp name = Some n0" "nd_subvol n0" "nd_content n0 = content"
    by (auto simp: identity_def split: option.splits if_splits)
  from assms(1) obtain fs1 where e: "ensureIDSubvol ok dfp fs = (None, fs1)"
    and rest: "(if \<not> isSubvol fs1 sfp name then id_Ensure ok dfp name fs1
        else andThen (clearDst ok dfp name fs1) (\<lambda>fs2. andThen (renameEntry ok sfp dfp name fs2) (configureRefDir ok dfp name))) = (None, fs')"
    by (auto simp: id_Move_def andThen_None split: option.splits)
  have e1: "entry fs1 fp' name' = entry fs fp' name'" for fp' name'
    using ensureIDSubvol_ok [OF e] assms(4) by (cases "fp' = dfp") auto
  have "isSubvol fs1 sfp name" using e1 n0 by (simp add: isSubvol_def)
  with rest obtain fs2 fs3 where c: "clearDst ok dfp name fs1 = (None, fs2)" and r: "renameEntry ok sfp dfp name fs2 = (None, fs3)"
    and f: "configureRefDir ok dfp name fs3 = (None, fs')" by (auto simp: andThen_None)
  have c1: "entry fs2 fp' name' = entry fs1 fp' name'" if "(fp', name') \<noteq> (dfp, name)" for fp' name'
    using c that removeIfPlainDir_ok [of ok dfp name fs1 fs2] by (auto simp: clearDst_def entry_set_None split: if_splits)
  have s2: "entry fs2 sfp name = Some n0" using c1 [of sfp name] assms(2) e1 n0 by simp
  have d1: "fs1 dfp \<noteq> None" using ensureIDSubvol_ok [OF e] by simp
  have "fs2 = fs1 \<or> fs2 = set_entry dfp name None fs1" using c by (auto simp: clearDst_def removeIfPlainDir_def split: if_splits option.splits)
  then have "fs2 dfp \<noteq> None" using d1 set_entry_dom [of dfp name None fs1 dfp] by (elim disjE) (simp_all del: not_None_eq)
  then have r1: "entry fs3 fp' name' = (if fp' = dfp \<and> name' = name then Some n0 else if fp' = sfp \<and> name' = name then None else entry fs2 fp' name')" for fp' name'
    using r s2 by (auto simp: renameEntry_def entry_set_entry entry_set_None split: if_splits)
  from configureRefDir_ok [OF f] r1 c1 e1 n0 assms(2) show ?thesis by (auto simp: private_node_def)
qed

section \<open>Properties\<close>

text \<open>
  Moving a ref to another frame carries its identity along: the destination ends up with the
  source's content as a private subvolume owned by the frame user, the source no longer has it,
  and no identity of another ref is touched.
\<close>

theorem id_Move_carries_identity:
  assumes "id_Move ok sfp dfp name fs = (None, fs')" "sfp \<noteq> dfp" "identity fs sfp name = Some content" "pred_option id_subvol (fs dfp)"
  shows "identity fs' dfp name = Some content \<and> identity fs' sfp name = None \<and> pred_option private_node (entry fs' dfp name) \<and>
    (\<forall>fp' name'. name' \<noteq> name \<or> (fp' \<noteq> sfp \<and> fp' \<noteq> dfp) \<longrightarrow> identity fs' fp' name' = identity fs fp' name')"
  using Move_ok [OF assms] by (auto simp: identity_def private_node_def)

definition ex_ids :: idfs where
  "ex_ids = [''/f/a'' \<mapsto> freshDir\<lparr> id_entries := [''r'' \<mapsto> freshNode\<lparr> nd_content := [1, 2] \<rparr>] \<rparr>, ''/f/b'' \<mapsto> freshDir]"

theorem id_Move_carries_identity_witness:
  "\<exists>fs'. id_Move (\<lambda>_ _. True) ''/f/a'' ''/f/b'' ''r'' ex_ids = (None, fs') \<and> identity fs' ''/f/b'' ''r'' = Some [1, 2]"
proof -
  have "fst (id_Move (\<lambda>_ _. True) ''/f/a'' ''/f/b'' ''r'' ex_ids) = None"
    by (simp add: id_Move_def validateRefName_def ensureIDSubvol_def ex_ids_def freshDir_def freshNode_def configureIDDir_def andThen_def
      isSubvol_def entry_def clearDst_def removeIfPlainDir_def renameEntry_def set_entry_def configureRefDir_def Let_def)
  then obtain fs' where r: "id_Move (\<lambda>_ _. True) ''/f/a'' ''/f/b'' ''r'' ex_ids = (None, fs')" by (metis prod.collapse)
  have "identity ex_ids ''/f/a'' ''r'' = Some [1, 2]" "pred_option id_subvol (ex_ids ''/f/b'')"
    by (simp_all add: identity_def entry_def ex_ids_def freshNode_def freshDir_def)
  from id_Move_carries_identity [OF r _ this] r show ?thesis by simp
qed

text \<open>
  Creating an identity is idempotent and never loses one: after a successful \<^verbatim>\<open>Ensure\<close> the ref has a
  private subvolume with the content it had, empty if it had none, nothing else has changed, and
  a second \<^verbatim>\<open>Ensure\<close> changes nothing; an invalid name changes nothing at all.
\<close>

theorem id_Ensure_idempotent:
  assumes "id_Ensure ok fp name fs = (None, fs')" "pred_option id_subvol (fs fp)" "id_Ensure ok' fp name fs' = (None, fs'')"
  shows "identity fs' fp name = Some (case identity fs fp name of None \<Rightarrow> [] | Some c \<Rightarrow> c) \<and> pred_option private_node (entry fs' fp name) \<and>
    (\<forall>fp' name'. (fp', name') \<noteq> (fp, name) \<longrightarrow> entry fs' fp' name' = entry fs fp' name') \<and>
    (\<forall>fp' name'. identity fs'' fp' name' = identity fs' fp' name')"
proof -
  from Ensure_ok [OF assms(1,2)] obtain n where n: "entry fs' fp name = Some n" "private_node n"
    "nd_content n = (case identity fs fp name of None \<Rightarrow> [] | Some c \<Rightarrow> c)"
    "\<forall>fp' name'. (fp', name') \<noteq> (fp, name) \<longrightarrow> entry fs' fp' name' = entry fs fp' name'" by blast
  have i: "identity fs' fp name = Some (nd_content n)" using n(1,2) by (simp add: identity_def private_node_def)
  from Ensure_ok [OF assms(3) Ensure_subvol [OF assms(1)]] obtain n2 where n2: "entry fs'' fp name = Some n2" "private_node n2" "nd_content n2 = nd_content n"
    "\<forall>fp' name'. (fp', name') \<noteq> (fp, name) \<longrightarrow> entry fs'' fp' name' = entry fs' fp' name'" unfolding i by auto
  have "identity fs'' fp' name' = identity fs' fp' name'" for fp' name'
    using n n2 by (cases "(fp', name') = (fp, name)") (auto simp: identity_def private_node_def)
  with n i show ?thesis by simp
qed

theorem id_Ensure_idempotent_witness:
  "\<exists>fs' fs''. id_Ensure (\<lambda>_ _. True) ''/f/a'' ''r'' ex_ids = (None, fs') \<and> id_Ensure (\<lambda>_ _. True) ''/f/a'' ''r'' fs' = (None, fs'') \<and>
     identity fs'' ''/f/a'' ''r'' = Some [1, 2]"
proof -
  note defs = id_Ensure_def validateRefName_def ensureIDSubvol_def ex_ids_def freshDir_def freshNode_def configureIDDir_def andThen_def
      isSubvol_def entry_def set_entry_def configureRefDir_def Let_def
  have "\<exists>fs' fs''. id_Ensure (\<lambda>_ _. True) ''/f/a'' ''r'' ex_ids = (None, fs') \<and> id_Ensure (\<lambda>_ _. True) ''/f/a'' ''r'' fs' = (None, fs'')"
    by (simp add: defs)
  then obtain fs' fs'' where r: "id_Ensure (\<lambda>_ _. True) ''/f/a'' ''r'' ex_ids = (None, fs')" "id_Ensure (\<lambda>_ _. True) ''/f/a'' ''r'' fs' = (None, fs'')"
    by (elim exE conjE)
  have "identity ex_ids ''/f/a'' ''r'' = Some [1, 2]" "pred_option id_subvol (ex_ids ''/f/a'')"
    by (simp_all add: identity_def entry_def ex_ids_def freshNode_def freshDir_def)
  with id_Ensure_idempotent [OF r(1) _ r(2)] r show ?thesis by simp
qed

text \<open>Moving a ref onto the frame it is in deletes the identity before the rename looks for it.\<close>

lemma Move_onto_itself_loses_identity:
  assumes "plain name" "\<forall>c p. ok c p" "identity fs fp name = Some content" "pred_option id_subvol (fs fp)"
  shows "fst (id_Move ok fp fp name fs) = Some (IdFailed CRename) \<and> identity (snd (id_Move ok fp fp name fs)) fp name = None"
proof -
  from assms(3) obtain n where n: "entry fs fp name = Some n" "nd_subvol n" by (auto simp: identity_def split: option.splits if_splits)
  obtain fs1 where e: "ensureIDSubvol ok fp fs = (None, fs1)"
    using assms(2,4) entry_SomeD [OF n(1)] by (auto simp: ensureIDSubvol_def configureIDDir_def Let_def)
  have e1: "entry fs1 fp name = Some n" using ensureIDSubvol_ok [OF e] assms(4) n by simp
  have "clearDst ok fp name fs1 = (None, set_entry fp name None fs1)" using e1 n(2) assms(2) by (simp add: clearDst_def isSubvol_def)
  then have "id_Move ok fp fp name fs = (Some (IdFailed CRename), set_entry fp name None fs1)"
    using e e1 n(2) assms(1) by (simp add: id_Move_def validateRefName_plain [THEN iffD2] andThen_def isSubvol_def renameEntry_def entry_set_None)
  then show ?thesis by (simp add: identity_def entry_set_None)
qed

end
