(* ===== verification/Passwd.thy ===== *)
theory Passwd
  imports Paths Strconv
begin

text \<open>
  The account thundersnap adds to a container's \<^verbatim>\<open>/etc/passwd\<close>, \<^verbatim>\<open>/etc/shadow\<close> and \<^verbatim>\<open>/etc/group\<close>,
  \<^verbatim>\<open>tsm/stripuids.go\<close>. Files are a mode and a text; which reads and writes fail is a parameter.
\<close>

section \<open>Entries\<close>

record passwdEntry =
  pw_Username :: string
  pw_Password :: string
  pw_UID :: u32
  pw_GID :: u32
  pw_GECOS :: string
  pw_Home :: string
  pw_Shell :: string

definition colon :: char where "colon = CHR '':''"

definition parsePasswdEntry :: "string \<Rightarrow> passwdEntry option" where
  "parsePasswdEntry line =
     (if line = [] \<or> HasPrefix line ''#'' then None
      else
        let fields = split_on colon line in
        if length fields < 7 then None
        else case ParseUint 32 (fields ! 2) of None \<Rightarrow> None
        | Some uid \<Rightarrow>
            (case ParseUint 32 (fields ! 3) of None \<Rightarrow> None
             | Some gid \<Rightarrow>
                 Some \<lparr> pw_Username = fields ! 0, pw_Password = fields ! 1, pw_UID = word_of_nat uid, pw_GID = word_of_nat gid,
                        pw_GECOS = fields ! 4, pw_Home = fields ! 5, pw_Shell = fields ! 6 \<rparr>))"

record UserInfo =
  u_Username :: string
  u_UID :: u32
  u_GID :: u32
  u_Home :: string
  u_Shell :: string

section \<open>Files\<close>

type_synonym etc = "string \<rightharpoonup> nat \<times> string"

record pwio =
  rd_ok :: "string \<Rightarrow> bool"
  wr_fault :: "string \<Rightarrow> replace_fault option"

datatype pw_error = PwRead | PwScan | PwStat | PwWrite

definition atomicWriteFile :: "pwio \<Rightarrow> string \<Rightarrow> string \<Rightarrow> nat \<Rightarrow> etc \<Rightarrow> pw_error option \<times> etc" where
  "atomicWriteFile io path data defaultMode fs =
     (let mode = (case fs path of Some (m, _) \<Rightarrow> m | None \<Rightarrow> defaultMode)
      in case wr_fault io path of None \<Rightarrow> (None, fs(path \<mapsto> (mode, data))) | Some _ \<Rightarrow> (Some PwWrite, fs))"

definition scanPrefix :: "string \<Rightarrow> string list" where
  "scanPrefix s =
     (let ls = split_on newline s
      in map dropCR (takeWhile (\<lambda>l. length l < maxLine) (if last ls = [] then butlast ls else ls)))"

definition etcPath :: "string \<Rightarrow> string \<Rightarrow> string" where
  "etcPath rootfs name = filepath_Join [rootfs, ''etc'', name]"

section \<open>Lookup\<close>

fun firstUser :: "string \<Rightarrow> string list \<Rightarrow> passwdEntry option" where
  "firstUser username [] = None"
| "firstUser username (line # lines) =
     (case parsePasswdEntry line of
        Some e \<Rightarrow> if pw_Username e = username then Some e else firstUser username lines
      | None \<Rightarrow> firstUser username lines)"

definition LookupUser :: "pwio \<Rightarrow> string \<Rightarrow> string \<Rightarrow> etc \<Rightarrow> UserInfo option" where
  "LookupUser io rootfs username fs =
     (case fs (etcPath rootfs ''passwd'') of
        None \<Rightarrow> None
      | Some (_, data) \<Rightarrow>
          if \<not> rd_ok io (etcPath rootfs ''passwd'') then None
          else map_option (\<lambda>e. \<lparr> u_Username = pw_Username e, u_UID = pw_UID e, u_GID = pw_GID e, u_Home = pw_Home e, u_Shell = pw_Shell e \<rparr>)
                 (firstUser username (scanPrefix data)))"

section \<open>Adding the account\<close>

fun insertAfter :: "(string \<Rightarrow> bool) \<Rightarrow> string \<Rightarrow> string list \<Rightarrow> string list" where
  "insertAfter P new [] = [new]"
| "insertAfter P new (line # lines) = (if P line then line # new # lines else line # insertAfter P new lines)"

definition is_name :: "string \<Rightarrow> string \<Rightarrow> bool" where
  "is_name name line = (line \<noteq> [] \<and> \<not> HasPrefix line ''#'' \<and> hd (split_on colon line) = name)"

definition newShadowEntry :: string where "newShadowEntry = ''user:!:0:0:99999:7:::''"

definition ensureUserInShadow :: "pwio \<Rightarrow> string \<Rightarrow> etc \<Rightarrow> pw_error option \<times> etc" where
  "ensureUserInShadow io rootfs fs =
     (let path = etcPath rootfs ''shadow'' in
      case fs path of None \<Rightarrow> (None, fs)
      | Some (_, data) \<Rightarrow>
          if \<not> rd_ok io path then (Some PwRead, fs)
          else if scanErr data then (Some PwScan, fs)
          else
            let lines = scanLines data in
            if list_ex (is_name ''user'') lines then (None, fs)
            else atomicWriteFile io path (unlines (insertAfter (is_name ''root'') newShadowEntry lines)) 416 fs)"

definition groupClash :: "string \<Rightarrow> bool" where
  "groupClash line =
     (if line = [] \<or> HasPrefix line ''#'' then False
      else
        let fields = split_on colon line in
        if length fields < 3 then False
        else fields ! 0 = ''user'' \<or> ParseUint 32 (fields ! 2) = Some 7575)"

definition newGroupEntry :: string where "newGroupEntry = ''user:x:7575:''"

definition ensureUserInGroup :: "pwio \<Rightarrow> string \<Rightarrow> etc \<Rightarrow> pw_error option \<times> etc" where
  "ensureUserInGroup io rootfs fs =
     (let path = etcPath rootfs ''group'' in
      case fs path of None \<Rightarrow> (None, fs)
      | Some (_, data) \<Rightarrow>
          if \<not> rd_ok io path then (Some PwRead, fs)
          else if scanErr data then (Some PwScan, fs)
          else
            let lines = scanLines data in
            if list_ex groupClash lines then (None, fs)
            else atomicWriteFile io path (unlines (lines @ [newGroupEntry])) 420 fs)"

definition isRootEntry :: "string \<Rightarrow> bool" where
  "isRootEntry line = (case parsePasswdEntry line of None \<Rightarrow> False | Some e \<Rightarrow> pw_UID e = 0)"

definition isUserEntry :: "string \<Rightarrow> bool" where
  "isUserEntry line = (case parsePasswdEntry line of None \<Rightarrow> False | Some e \<Rightarrow> pw_Username e = ''user'')"

definition newPasswdEntry :: "bool \<Rightarrow> string" where
  "newPasswdEntry hasBash = ''user:x:7575:7575:user:/home:'' @ (if hasBash then ''/bin/bash'' else ''/bin/sh'')"

text \<open>The home of the last entry of that name is returned.\<close>

definition userHome :: "string list \<Rightarrow> string" where
  "userHome lines = pw_Home (the (parsePasswdEntry (last (filter isUserEntry lines))))"

definition EnsureUserInPasswd :: "pwio \<Rightarrow> bool \<Rightarrow> string \<Rightarrow> etc \<Rightarrow> (pw_error + string) \<times> etc" where
  "EnsureUserInPasswd io hasBash rootfs fs =
     (let path = etcPath rootfs ''passwd'' in
      case fs path of None \<Rightarrow> (Inr [], fs)
      | Some (_, data) \<Rightarrow>
          if \<not> rd_ok io path then (Inl PwRead, fs)
          else if scanErr data then (Inl PwScan, fs)
          else
            let lines = scanLines data in
            if list_ex isUserEntry lines then (Inr (userHome lines), fs)
            else
              case atomicWriteFile io path (unlines (insertAfter isRootEntry (newPasswdEntry hasBash) lines)) 420 fs of
                (Some e, fs1) \<Rightarrow> (Inl e, fs1)
              | (None, fs1) \<Rightarrow>
                  (case ensureUserInShadow io rootfs fs1 of
                     (Some e, fs2) \<Rightarrow> (Inl e, fs2)
                   | (None, fs2) \<Rightarrow>
                       (case ensureUserInGroup io rootfs fs2 of
                          (Some e, fs3) \<Rightarrow> (Inl e, fs3)
                        | (None, fs3) \<Rightarrow> (Inr ''/home'', fs3))))"

definition sudoersContent :: string where
  "sudoersContent =
     ''# Thundersnap: do not try to write the unavailable host audit log'' @ [newline] @
     ''Defaults:user !log_allowed, !log_denied'' @ [newline] @
     ''# Thundersnap: allow the user account passwordless sudo'' @ [newline] @
     ''user ALL=(ALL) NOPASSWD: ALL'' @ [newline]"

datatype stat = StatOk | StatMissing | StatError

definition EnsureSudoers :: "pwio \<Rightarrow> stat \<Rightarrow> string \<Rightarrow> etc \<Rightarrow> pw_error option \<times> etc" where
  "EnsureSudoers io st rootfs fs =
     (case st of StatMissing \<Rightarrow> (None, fs) | StatError \<Rightarrow> (Some PwStat, fs)
      | StatOk \<Rightarrow>
          let path = filepath_Join [filepath_Join [rootfs, ''etc'', ''sudoers.d''], ''thundersnap-user'']
          in case wr_fault io path of Some _ \<Rightarrow> (Some PwWrite, fs)
             | None \<Rightarrow> (None, fs(path \<mapsto> (case fs path of Some (m, _) \<Rightarrow> m | None \<Rightarrow> 288, sudoersContent))))"

section \<open>Lemmas\<close>

lemma split_new: "split_on colon (newPasswdEntry b) =
    [''user'', ''x'', ''7575'', ''7575'', ''user'', ''/home'', if b then ''/bin/bash'' else ''/bin/sh'']"
  by (cases b) (simp_all add: newPasswdEntry_def colon_def)

lemma ParseUint_7575: "ParseUint 32 ''7575'' = Some 7575"
  by (simp add: ParseUint_def digit_val_def Let_def)

lemma parse_new: "parsePasswdEntry (newPasswdEntry b) =
    Some \<lparr> pw_Username = ''user'', pw_Password = ''x'', pw_UID = 7575, pw_GID = 7575, pw_GECOS = ''user'', pw_Home = ''/home'',
      pw_Shell = (if b then ''/bin/bash'' else ''/bin/sh'') \<rparr>"
proof -
  have "newPasswdEntry b \<noteq> []" "\<not> HasPrefix (newPasswdEntry b) ''#''" by (simp_all add: newPasswdEntry_def HasPrefix_def)
  then show ?thesis unfolding parsePasswdEntry_def Let_def split_new by (simp add: ParseUint_7575)
qed

lemma new_no_newline: "newline \<notin> set (newPasswdEntry b)" "dropCR (newPasswdEntry b) = newPasswdEntry b" "length (newPasswdEntry b) < maxLine"
  by (simp_all add: newPasswdEntry_def newline_def dropCR_def maxLine_def char_of_def)

lemma set_insertAfter: "set (insertAfter P new ls) = insert new (set ls)"
  by (induction P new ls rule: insertAfter.induct) auto

lemma firstUser_insert_other:
  "parsePasswdEntry new = Some e \<Longrightarrow> pw_Username e \<noteq> u \<Longrightarrow> firstUser u (insertAfter P new ls) = firstUser u ls"
  by (induction P new ls rule: insertAfter.induct) (auto split: option.splits)

lemma firstUser_insert_same:
  "\<lbrakk>parsePasswdEntry new = Some e; pw_Username e = u; firstUser u ls = None\<rbrakk> \<Longrightarrow> firstUser u (insertAfter P new ls) = Some e"
  by (induction P new ls rule: insertAfter.induct) (auto split: option.splits if_splits)

lemma firstUser_None: "firstUser ''user'' ls = None \<longleftrightarrow> \<not> list_ex isUserEntry ls"
  by (induction ls) (auto simp: isUserEntry_def split: option.splits)

lemma scanPrefix_scanLines: "\<not> scanErr s \<Longrightarrow> scanPrefix s = scanLines s"
proof -
  assume ne: "\<not> scanErr s"
  define ls where "ls = (if last (split_on newline s) = [] then butlast (split_on newline s) else split_on newline s)"
  have "\<forall>l \<in> set ls. length l < maxLine" using ne by (auto simp: scanErr_def ls_def not_le dest: in_set_butlastD)
  then have "takeWhile (\<lambda>l. length l < maxLine) ls = ls" by (simp add: takeWhile_eq_all_conv)
  then show "scanPrefix s = scanLines s" unfolding scanPrefix_def scanLines_def Let_def ls_def [symmetric] by (simp only:)
qed

lemma etcPath_distinct: "etcPath rootfs ''passwd'' \<noteq> etcPath rootfs ''shadow''" "etcPath rootfs ''passwd'' \<noteq> etcPath rootfs ''group''"
proof -
  have j: "etcPath rootfs n = filepath_Join [if rootfs = [] then ''etc'' else rootfs @ ''/etc'', n]" if "n \<noteq> []" for n
    using that by (simp add: etcPath_def filepath_Join_def)
  have p: "plain ''passwd''" "plain ''shadow''" "plain ''group''" by (simp_all add: plain_def)
  have d: "(if rootfs = [] then ''etc'' else rootfs @ ''/etc'') \<noteq> []" by simp
  show "etcPath rootfs ''passwd'' \<noteq> etcPath rootfs ''shadow''" "etcPath rootfs ''passwd'' \<noteq> etcPath rootfs ''group''"
    using Join_inj [OF d p(1) p(2)] Join_inj [OF d p(1) p(3)] by (auto simp: j)
qed

lemma atomicWriteFile_ok:
  "atomicWriteFile io path data m fs = (None, fs') \<Longrightarrow> (\<exists>mode. fs' path = Some (mode, data)) \<and> (\<forall>p. p \<noteq> path \<longrightarrow> fs' p = fs p)"
  by (auto simp: atomicWriteFile_def Let_def split: option.splits)

lemma shadow_frame: "ensureUserInShadow io rootfs fs = (r, fs') \<Longrightarrow> p \<noteq> etcPath rootfs ''shadow'' \<Longrightarrow> fs' p = fs p"
  by (auto simp: ensureUserInShadow_def atomicWriteFile_def Let_def split: option.splits if_splits)

lemma group_frame: "ensureUserInGroup io rootfs fs = (r, fs') \<Longrightarrow> p \<noteq> etcPath rootfs ''group'' \<Longrightarrow> fs' p = fs p"
  by (auto simp: ensureUserInGroup_def atomicWriteFile_def Let_def split: option.splits if_splits)

lemma Ensure_writes:
  assumes "EnsureUserInPasswd io b rootfs fs = (Inr home, fs')" "fs (etcPath rootfs ''passwd'') = Some (m, data)"
    and "\<not> list_ex isUserEntry (scanLines data)"
  shows "home = ''/home'' \<and> \<not> scanErr data \<and> rd_ok io (etcPath rootfs ''passwd'') \<and>
    (\<exists>mode. fs' (etcPath rootfs ''passwd'') = Some (mode, unlines (insertAfter isRootEntry (newPasswdEntry b) (scanLines data))))"
proof -
  let ?p = "etcPath rootfs ''passwd''"
  let ?d = "unlines (insertAfter isRootEntry (newPasswdEntry b) (scanLines data))"
  from assms obtain fs1 fs2 where w: "atomicWriteFile io ?p ?d 420 fs = (None, fs1)" "ensureUserInShadow io rootfs fs1 = (None, fs2)"
      "ensureUserInGroup io rootfs fs2 = (None, fs')" "home = ''/home''" "\<not> scanErr data" "rd_ok io ?p"
    by (auto simp: EnsureUserInPasswd_def Let_def split: if_splits option.splits prod.splits)
  from atomicWriteFile_ok [OF w(1)] obtain mode where "fs1 ?p = Some (mode, ?d)" by blast
  then have "fs' ?p = Some (mode, ?d)"
    using shadow_frame [OF w(2) etcPath_distinct(1)] group_frame [OF w(3) etcPath_distinct(2)] by simp
  with w show ?thesis by blast
qed

text \<open>What is read back from the rewritten file, for a file without stray carriage returns.\<close>

lemma rewritten_lines:
  assumes "\<not> scanErr data" "\<forall>l \<in> set (scanLines data). dropCR l = l"
    and out_def: "out = unlines (insertAfter isRootEntry (newPasswdEntry b) (scanLines data))"
  shows "scanLines out = insertAfter isRootEntry (newPasswdEntry b) (scanLines data)" "\<not> scanErr out"
proof -
  let ?ls = "insertAfter isRootEntry (newPasswdEntry b) (scanLines data)"
  have nn: "\<forall>l \<in> set ?ls. newline \<notin> set l" using scanLines_no_newline new_no_newline(1) by (auto simp: set_insertAfter)
  have cr: "\<forall>l \<in> set ?ls. dropCR l = l" using assms(2) new_no_newline(2) by (auto simp: set_insertAfter)
  show "scanLines out = ?ls" using cr unfolding out_def scanLines_unlines [OF nn] by (simp add: map_idI)
  have len: "length l < maxLine" if l: "l \<in> set (scanLines data)" for l
  proof -
    from l obtain k where k: "k \<in> set (split_on newline data)" "l = dropCR k"
      by (auto simp: scanLines_def Let_def split: if_splits dest: in_set_butlastD)
    have "length l \<le> length k" using k(2) by (simp add: dropCR_def)
    with k(1) assms(1) show ?thesis by (auto simp: scanErr_def not_le)
  qed
  show "\<not> scanErr out"
    using len new_no_newline(3) unfolding scanErr_def out_def split_on_unlines [OF nn] by (auto simp: set_insertAfter not_le maxLine_def)
qed

lemma filter_inserted:
  "\<not> list_ex isUserEntry xs \<Longrightarrow> filter isUserEntry (insertAfter isRootEntry (newPasswdEntry b) xs) = [newPasswdEntry b]"
proof (induction xs)
  case Nil
  then show ?case by (simp add: isUserEntry_def parse_new)
next
  case (Cons x xs)
  have n: "isUserEntry (newPasswdEntry b)" by (simp add: isUserEntry_def parse_new)
  have "filter isUserEntry xs = []" using Cons.prems by (simp add: list_ex_iff filter_empty_conv)
  with Cons n show ?case by simp
qed

section \<open>Properties\<close>

text \<open>
  C40: After a successful run on a container with a password file that had no such account, the
  account \<^verbatim>\<open>user\<close> is found with UID and GID 7575 and the returned home, every other account is
  found exactly as before, and running again changes nothing.
\<close>

theorem EnsureUserInPasswd_adds_only_user:
  assumes "EnsureUserInPasswd io b rootfs fs = (Inr home, fs')" "fs (etcPath rootfs ''passwd'') = Some (m, data)"
    and "\<not> list_ex isUserEntry (scanLines data)" "\<forall>l \<in> set (scanLines data). dropCR l = l"
  shows "LookupUser io rootfs ''user'' fs' = Some \<lparr> u_Username = ''user'', u_UID = 7575, u_GID = 7575, u_Home = home, u_Shell = (if b then ''/bin/bash'' else ''/bin/sh'') \<rparr> \<and>
    (\<forall>u. u \<noteq> ''user'' \<longrightarrow> LookupUser io rootfs u fs' = LookupUser io rootfs u fs) \<and>
    EnsureUserInPasswd io b rootfs fs' = (Inr home, fs')"
proof -
  let ?p = "etcPath rootfs ''passwd''"
  let ?ls = "insertAfter isRootEntry (newPasswdEntry b) (scanLines data)"
  from Ensure_writes [OF assms(1-3)] obtain mode where w: "home = ''/home''" "\<not> scanErr data" "rd_ok io ?p"
    "fs' ?p = Some (mode, unlines ?ls)" by blast
  note rl = rewritten_lines [OF w(2) assms(4) refl, of b]
  have pre: "scanPrefix (unlines ?ls) = ?ls" using scanPrefix_scanLines [OF rl(2)] rl(1) by simp
  have fu: "firstUser ''user'' ?ls = Some \<lparr> pw_Username = ''user'', pw_Password = ''x'', pw_UID = 7575, pw_GID = 7575, pw_GECOS = ''user'', pw_Home = ''/home'',
      pw_Shell = (if b then ''/bin/bash'' else ''/bin/sh'') \<rparr>"
    using assms(3) by (intro firstUser_insert_same [OF parse_new]) (simp_all add: firstUser_None)
  have ex: "list_ex isUserEntry ?ls" using fu firstUser_None [of ?ls] by simp
  have "filter isUserEntry ?ls = [newPasswdEntry b]" by (rule filter_inserted [OF assms(3)])
  then have uh: "userHome ?ls = ''/home''" by (simp add: userHome_def parse_new)
  have "LookupUser io rootfs u fs' = LookupUser io rootfs u fs" if "u \<noteq> ''user''" for u
    using that w assms(2) pre firstUser_insert_other [where u = u, OF parse_new [of b], where P = isRootEntry and ls = "scanLines data"] scanPrefix_scanLines [OF w(2)]
    by (simp add: LookupUser_def)
  moreover have "EnsureUserInPasswd io b rootfs fs' = (Inr home, fs')"
    using w rl ex uh by (simp add: EnsureUserInPasswd_def Let_def)
  ultimately show ?thesis using w pre fu by (simp add: LookupUser_def)
qed

definition rootLine :: string where "rootLine = ''root:x:0:0:root:/root:/bin/sh''"

definition ex_etc :: etc where
  "ex_etc = [etcPath ''/r'' ''passwd'' \<mapsto> (420, unlines [rootLine])]"

definition pwio_ok :: pwio where
  "pwio_ok = \<lparr> rd_ok = (\<lambda>_. True), wr_fault = (\<lambda>_. None) \<rparr>"

lemma rootLine_facts: "newline \<notin> set rootLine" "dropCR rootLine = rootLine" "length rootLine < maxLine" "\<not> isUserEntry rootLine"
  by (simp_all add: rootLine_def newline_def dropCR_def maxLine_def char_of_def isUserEntry_def parsePasswdEntry_def HasPrefix_def
    colon_def ParseUint_def digit_val_def Let_def)

lemma ex_scan: "scanLines (unlines [rootLine]) = [rootLine]" "\<not> scanErr (unlines [rootLine])"
  using rootLine_facts scanLines_unlines [of "[rootLine]"] split_on_unlines [of "[rootLine]"]
  by (simp_all add: scanErr_def not_le maxLine_def)

theorem EnsureUserInPasswd_adds_only_user_witness:
  "\<exists>fs'. EnsureUserInPasswd pwio_ok False ''/r'' ex_etc = (Inr ''/home'', fs') \<and> LookupUser pwio_ok ''/r'' ''root'' fs' = LookupUser pwio_ok ''/r'' ''root'' ex_etc"
proof -
  have p: "ex_etc (etcPath ''/r'' ''passwd'') = Some (420, unlines [rootLine])" by (simp add: ex_etc_def)
  have q: "ex_etc (etcPath ''/r'' ''shadow'') = None" "ex_etc (etcPath ''/r'' ''group'') = None"
    using etcPath_distinct [of "''/r''"] by (simp_all add: ex_etc_def)
  have "fst (EnsureUserInPasswd pwio_ok False ''/r'' ex_etc) = Inr ''/home''"
    using p q ex_scan rootLine_facts(4) etcPath_distinct [of "''/r''"]
    by (simp add: EnsureUserInPasswd_def Let_def pwio_ok_def atomicWriteFile_def ensureUserInShadow_def ensureUserInGroup_def)
  then obtain fs' where r: "EnsureUserInPasswd pwio_ok False ''/r'' ex_etc = (Inr ''/home'', fs')" by (metis prod.collapse)
  from EnsureUserInPasswd_adds_only_user [OF r p] ex_scan(1) rootLine_facts
  have "\<forall>u. u \<noteq> ''user'' \<longrightarrow> LookupUser pwio_ok ''/r'' u fs' = LookupUser pwio_ok ''/r'' u ex_etc" by simp
  then have "LookupUser pwio_ok ''/r'' ''root'' fs' = LookupUser pwio_ok ''/r'' ''root'' ex_etc" by simp
  with r show ?thesis by blast
qed

end
