(* ===== verification/Snap_Meta.thy ===== *)
theory Snap_Meta
  imports Snap_Hash Indexer Frame_Store
begin

text \<open>
  Snap and frame metadata files and the finalisation of one captured subvolume:
  \<^verbatim>\<open>cmd/thundersnapd/metadata.go\<close>, the stamp files and the snap deletion of \<^verbatim>\<open>cmd/thundersnapd/main.go\<close>,
  and \<^verbatim>\<open>captureSubvol\<close> / \<^verbatim>\<open>indexAndFinalizeSubvol\<close> of \<^verbatim>\<open>cmd/thundersnapd/snapqueue.go\<close>. The state is
  the set of files and the set of btrfs subvolumes. A subvolume is what a walk sees of it from
  the path where it is mounted. JSON, the clock, random names and the outcome of each
  system call are parameters.
\<close>

section \<open>Files and subvolumes\<close>

type_synonym subvol = "string \<Rightarrow> osenv \<times> wnode"

record world =
  w_files :: fsys
  w_vols :: "string \<rightharpoonup> subvol"

text \<open>\<^verbatim>\<open>os.WriteFile\<close> truncates before it writes: a failed write may leave a partial file behind.\<close>

datatype os_write = WriteOk | WriteNotOpened | WritePartial bytes

definition WriteFile :: "os_write \<Rightarrow> string \<Rightarrow> bytes \<Rightarrow> fsys \<Rightarrow> bool \<times> fsys" where
  "WriteFile r path data fs =
     (case r of WriteOk \<Rightarrow> (True, fs(path \<mapsto> data)) | WriteNotOpened \<Rightarrow> (False, fs) | WritePartial p \<Rightarrow> (False, fs(path \<mapsto> p)))"

definition Remove :: "string \<Rightarrow> fsys \<Rightarrow> fsys" where "Remove p fs = fs(p := None)"

definition Rename :: "bool \<Rightarrow> string \<Rightarrow> string \<Rightarrow> fsys \<Rightarrow> bool \<times> fsys" where
  "Rename ok old new fs =
     (case fs old of None \<Rightarrow> (False, fs) | Some d \<Rightarrow> if ok then (True, fs(old := None, new \<mapsto> d)) else (False, fs))"

text \<open>A temporary file written and renamed into place: the outcomes of its two calls.\<close>

record tmp_write =
  t_write :: os_write
  t_rename :: bool

definition tmp_ok :: "tmp_write \<Rightarrow> bool" where "tmp_ok r = (t_write r = WriteOk \<and> t_rename r)"

section \<open>Snap metadata\<close>

record SnapSource =
  ss_Type :: string
  ss_Ref :: string

record SnapMeta =
  sm_Parent :: string
  sm_Taints :: "string list"
  sm_Source :: "SnapSource option"

definition snapMetaPath :: "string \<Rightarrow> string \<Rightarrow> string" where
  "snapMetaPath snapshotsDir snapID = filepath_Join [snapshotsDir, snapID @ ''.jsonc'']"

text \<open>The callers only test the result for nil: a missing and an unreadable file are both None.\<close>

definition readSnapMeta :: "SnapMeta json \<Rightarrow> string \<Rightarrow> string \<Rightarrow> fsys \<Rightarrow> SnapMeta option" where
  "readSnapMeta js snapshotsDir snapID fs = Option.bind (fs (snapMetaPath snapshotsDir snapID)) (j_Unmarshal js)"

definition writeSnapMeta :: "SnapMeta json \<Rightarrow> os_write \<Rightarrow> string \<Rightarrow> string \<Rightarrow> SnapMeta \<Rightarrow> fsys \<Rightarrow> bool \<times> fsys" where
  "writeSnapMeta js r snapshotsDir snapID meta fs = WriteFile r (snapMetaPath snapshotsDir snapID) (j_Marshal js meta) fs"

section \<open>Frame sidecars\<close>

definition readFrameSidecar :: "Frame json \<Rightarrow> string \<Rightarrow> fsys \<Rightarrow> Frame option" where
  "readFrameSidecar js rootFS fs = Option.bind (fs (rootFS @ ''.jsonc'')) (j_Unmarshal js)"

definition writeFrameSidecar :: "Frame json \<Rightarrow> tmp_write \<Rightarrow> string \<Rightarrow> Frame \<Rightarrow> fsys \<Rightarrow> bool \<times> fsys" where
  "writeFrameSidecar js r rootFS f fs =
     (let path = rootFS @ ''.jsonc''; tmp = path @ ''.tmp''
      in case WriteFile (t_write r) tmp (j_Marshal js f) fs of
           (False, fs1) \<Rightarrow> (False, fs1)
         | (True, fs1) \<Rightarrow>
             (case Rename (t_rename r) tmp path fs1 of
                (False, fs2) \<Rightarrow> (False, Remove tmp fs2)
              | (True, fs2) \<Rightarrow> (True, fs2)))"

section \<open>Taint sets\<close>

text \<open>A nil slice is the empty list; \<^verbatim>\<open>omitempty\<close> and the set functions never produce an empty slice that is not nil.\<close>

definition IntersectTaints :: "string list \<Rightarrow> string list \<Rightarrow> string list" where
  "IntersectTaints a b = (if a = [] \<or> b = [] then [] else sort (filter (\<lambda>t. t \<in> set b) a))"

fun taintsEqual :: "string list \<Rightarrow> string list \<Rightarrow> bool" where
  "taintsEqual [] [] = True"
| "taintsEqual (x # a) (y # b) = (x = y \<and> taintsEqual a b)"
| "taintsEqual _ _ = False"

definition getSnapTaints :: "SnapMeta json \<Rightarrow> string \<Rightarrow> string \<Rightarrow> fsys \<Rightarrow> string list" where
  "getSnapTaints js snapshotsDir snapID fs =
     (if snapID = [] then [] else case readSnapMeta js snapshotsDir snapID fs of None \<Rightarrow> [] | Some m \<Rightarrow> sm_Taints m)"

section \<open>Stamp files\<close>

definition readStampFile :: "string \<Rightarrow> fsys \<Rightarrow> string" where
  "readStampFile path fs = (case fs (path @ ''.stamp'') of None \<Rightarrow> [] | Some d \<Rightarrow> TrimSpace (bytes_str d))"

definition writeStampFile :: "tmp_write \<Rightarrow> string \<Rightarrow> string \<Rightarrow> fsys \<Rightarrow> bool \<times> fsys" where
  "writeStampFile r path snapshotID fs =
     (let stampPath = path @ ''.stamp''; tmpPath = stampPath @ ''.tmp''
      in case WriteFile (t_write r) tmpPath (str_bytes (snapshotID @ [CHR 0x0A])) fs of
           (False, fs1) \<Rightarrow> (False, fs1)
         | (True, fs1) \<Rightarrow> Rename (t_rename r) tmpPath stampPath fs1)"

section \<open>Capture and finalisation of one subvolume\<close>

definition loadParentManifest :: "string \<Rightarrow> string \<Rightarrow> fsys \<Rightarrow> TSMReader option \<times> TSCReader option" where
  "loadParentManifest snapsDir parentStampID fs =
     (if parentStampID = [] then (None, None)
      else let base = filepath_Join [snapsDir, parentStampID]
           in case ReadTSM fs (base @ ''.tsm'') of
                Inl _ \<Rightarrow> (None, None)
              | Inr m \<Rightarrow> (case ReadTSC fs (base @ ''.tsc'') of Inl _ \<Rightarrow> (None, None) | Inr c \<Rightarrow> (Some m, Some c)))"

text \<open>The outcomes of the calls one finalisation makes.\<close>

record index_env =
  ie_stamp :: tmp_write
  ie_now :: int
  ie_ctime :: u64
  ie_tsc :: "write_fault option"
  ie_tsm :: "write_fault option"
  ie_meta :: os_write
  ie_rename :: bool
  ie_renameStamp :: bool
  ie_renameTSM :: bool
  ie_renameTSC :: bool
  ie_delete :: bool

datatype snap_error = SnapStampErr | SnapCreateErr | SnapReadErr | SnapRenameErr | SnapNoSubvol
  | SnapCaptureErr | SnapHomeNotSubvol | SnapWorkNotSubvol | SnapSubdirErr

record snapcfg =
  cfg_snapsDir :: string
  cfg_meta :: "SnapMeta json"
  cfg_frame :: "Frame json"

definition cleanupTmp :: "bool \<Rightarrow> string \<Rightarrow> world \<Rightarrow> world" where
  "cleanupTmp del tmpPath w =
     w\<lparr> w_vols := (if del then (w_vols w)(tmpPath := None) else w_vols w),
        w_files := Remove (tmpPath @ ''.tsc'') (Remove (tmpPath @ ''.tsm'') (Remove (tmpPath @ ''.stamp'') (w_files w))) \<rparr>"

text \<open>A snap with the same content exists: intersect the taints and discard the capture.\<close>

definition dedupTaints :: "snapcfg \<Rightarrow> os_write \<Rightarrow> string \<Rightarrow> string list \<Rightarrow> fsys \<Rightarrow> fsys" where
  "dedupTaints cfg r snapshotID taints fs =
     (case readSnapMeta (cfg_meta cfg) (cfg_snapsDir cfg) snapshotID fs of
        None \<Rightarrow> fs
      | Some existingMeta \<Rightarrow>
          if taints = [] then fs
          else let intersected = IntersectTaints (sm_Taints existingMeta) taints
               in if taintsEqual (sm_Taints existingMeta) intersected then fs
                  else snd (writeSnapMeta (cfg_meta cfg) r (cfg_snapsDir cfg) snapshotID (existingMeta\<lparr> sm_Taints := intersected \<rparr>) fs))"

definition installSnap :: "snapcfg \<Rightarrow> index_env \<Rightarrow> string \<Rightarrow> string \<Rightarrow> string \<Rightarrow> string list \<Rightarrow> world \<Rightarrow> world" where
  "installSnap cfg e tmpPath snapshotID parentStampID taints w =
     (let finalPath = filepath_Join [cfg_snapsDir cfg, snapshotID];
          vols = (w_vols w)(tmpPath := None, finalPath := w_vols w tmpPath);
          fs1 = snd (Rename (ie_renameStamp e) (tmpPath @ ''.stamp'') (finalPath @ ''.stamp'') (w_files w));
          fs2 = snd (Rename (ie_renameTSM e) (tmpPath @ ''.tsm'') (finalPath @ ''.tsm'') fs1);
          fs3 = snd (Rename (ie_renameTSC e) (tmpPath @ ''.tsc'') (finalPath @ ''.tsc'') fs2);
          fs4 = snd (writeSnapMeta (cfg_meta cfg) (ie_meta e) (cfg_snapsDir cfg) snapshotID
                  \<lparr> sm_Parent = parentStampID, sm_Taints = taints, sm_Source = None \<rparr> fs3)
      in w\<lparr> w_vols := vols, w_files := fs4 \<rparr>)"

definition indexTmp :: "snapcfg \<Rightarrow> index_env \<Rightarrow> string \<Rightarrow> string \<Rightarrow> string \<Rightarrow> world \<Rightarrow> (snap_error + TSMReader) \<times> fsys" where
  "indexTmp cfg e tmpPath subdir parentStampID w =
     (case writeStampFile (ie_stamp e) tmpPath parentStampID (w_files w) of
        (False, fs1) \<Rightarrow> (Inl SnapStampErr, fs1)
      | (True, fs1) \<Rightarrow>
          (case w_vols w tmpPath of
             None \<Rightarrow> (Inl SnapCreateErr, fs1)
           | Some vol \<Rightarrow>
               let (os, tree) = vol tmpPath;
                   (ptsm, ptsc) = (if subdir = [] then loadParentManifest (cfg_snapsDir cfg) parentStampID fs1 else (None, None))
               in case Create os (ie_now e) tree (ie_tsc e) (ie_tsm e) tmpPath tmpPath ptsm ptsc False (ie_ctime e) fs1 of
                    (Inl _, fs2) \<Rightarrow> (Inl SnapCreateErr, fs2)
                  | (Inr _, fs2) \<Rightarrow>
                      (case ReadTSM fs2 (tmpPath @ ''.tsm'') of
                         Inl _ \<Rightarrow> (Inl SnapReadErr, fs2)
                       | Inr tsmReader \<Rightarrow> (Inr tsmReader, fs2))))"

definition indexAndFinalizeSubvol :: "snapcfg \<Rightarrow> index_env \<Rightarrow> string \<Rightarrow> string \<Rightarrow> string \<Rightarrow> string list \<Rightarrow> world
    \<Rightarrow> (snap_error + string) \<times> world" where
  "indexAndFinalizeSubvol cfg e tmpPath subdir parentStampID taints w =
     (case indexTmp cfg e tmpPath subdir parentStampID w of
        (Inl err, fs2) \<Rightarrow> (Inl err, cleanupTmp (ie_delete e) tmpPath (w\<lparr> w_files := fs2 \<rparr>))
      | (Inr tsmReader, fs2) \<Rightarrow>
          let snapshotID = Encode (m_SHA256 tsmReader);
              finalPath = filepath_Join [cfg_snapsDir cfg, snapshotID];
              taints' = (if taints = [] then getSnapTaints (cfg_meta cfg) (cfg_snapsDir cfg) parentStampID fs2 else taints)
          in if w_vols w finalPath \<noteq> None \<or> fs2 finalPath \<noteq> None
             then (Inr snapshotID, cleanupTmp (ie_delete e) tmpPath
                     (w\<lparr> w_files := dedupTaints cfg (ie_meta e) snapshotID taints' fs2 \<rparr>))
             else if \<not> ie_rename e then (Inl SnapRenameErr, cleanupTmp (ie_delete e) tmpPath (w\<lparr> w_files := fs2 \<rparr>))
             else (Inr snapshotID, installSnap cfg e tmpPath snapshotID parentStampID taints' (w\<lparr> w_files := fs2 \<rparr>)))"

section \<open>Deleting a snap\<close>

fun relinkLoop :: "SnapMeta json \<Rightarrow> (string \<Rightarrow> os_write) \<Rightarrow> string \<Rightarrow> string \<Rightarrow> string \<Rightarrow> string list \<Rightarrow> fsys \<Rightarrow> fsys" where
  "relinkLoop js wr snapsDir oldParent newParent [] fs = fs"
| "relinkLoop js wr snapsDir oldParent newParent (name # names) fs =
     (let next = relinkLoop js wr snapsDir oldParent newParent names
      in if \<not> HasSuffix name ''.jsonc'' then next fs
         else let snapID = TrimSuffix name ''.jsonc''
              in if snapID = oldParent then next fs
                 else case readSnapMeta js snapsDir snapID fs of
                        None \<Rightarrow> next fs
                      | Some meta \<Rightarrow>
                          if sm_Parent meta = oldParent
                          then next (snd (writeSnapMeta js (wr snapID) snapsDir snapID (meta\<lparr> sm_Parent := newParent \<rparr>) fs))
                          else next fs)"

definition relinkSnapChildren :: "SnapMeta json \<Rightarrow> (string \<Rightarrow> os_write) \<Rightarrow> string list option \<Rightarrow> string \<Rightarrow> string \<Rightarrow> string \<Rightarrow> fsys \<Rightarrow> bool \<times> fsys" where
  "relinkSnapChildren js wr entries snapsDir oldParent newParent fs =
     (case entries of None \<Rightarrow> (False, fs) | Some names \<Rightarrow> (True, relinkLoop js wr snapsDir oldParent newParent names fs))"

datatype http_status = StatusOK | StatusBadRequest | StatusNotFound | StatusInternal

text \<open>
  The POST request after decoding; \<open>entries\<close> is what \<^verbatim>\<open>os.ReadDir\<close> returns for the snaps
  directory and \<open>del\<close> whether btrfs deletes the subvolume.
\<close>

definition handleDeleteSnap :: "snapcfg \<Rightarrow> (string \<Rightarrow> os_write) \<Rightarrow> string list option \<Rightarrow> bool \<Rightarrow> string \<Rightarrow> world \<Rightarrow> http_status \<times> world" where
  "handleDeleteSnap cfg wr entries del sid w =
     (if sid = [] then (StatusBadRequest, w)
      else let snapPath = filepath_Join [cfg_snapsDir cfg, sid]
           in if w_vols w snapPath = None \<and> w_files w snapPath = None then (StatusNotFound, w)
              else let deletedParent = (case readSnapMeta (cfg_meta cfg) (cfg_snapsDir cfg) sid (w_files w) of None \<Rightarrow> [] | Some m \<Rightarrow> sm_Parent m);
                       fs1 = snd (relinkSnapChildren (cfg_meta cfg) wr entries (cfg_snapsDir cfg) sid deletedParent (w_files w))
                   in if \<not> del \<or> w_vols w snapPath = None then (StatusInternal, w\<lparr> w_files := fs1 \<rparr>)
                      else (StatusOK, w\<lparr> w_vols := (w_vols w)(snapPath := None),
                              w_files := Remove (snapPath @ ''.tsc'') (Remove (snapPath @ ''.tsm'')
                                (Remove (snapPath @ ''.stamp'') (Remove (snapPath @ ''.jsonc'') fs1))) \<rparr>))"

section \<open>Elementary facts\<close>

lemma writeStampFile_ok: "tmp_ok r \<Longrightarrow> fst (writeStampFile r path sid fs)"
  by (simp add: writeStampFile_def WriteFile_def Rename_def tmp_ok_def Let_def)

lemma writeStampFile_files:
  "p \<notin> {path @ ''.stamp'', path @ ''.stamp.tmp''} \<Longrightarrow> snd (writeStampFile r path sid fs) p = fs p"
  by (auto simp: writeStampFile_def WriteFile_def Rename_def Let_def split: os_write.split)

lemma readStampFile_write:
  assumes "fst (writeStampFile r path sid fs)"
  shows "readStampFile path (snd (writeStampFile r path sid fs)) = TrimSpace sid"
proof -
  have "snd (writeStampFile r path sid fs) (path @ ''.stamp'') = Some (str_bytes (sid @ [CHR 0x0A]))"
    using assms by (auto simp: writeStampFile_def WriteFile_def Rename_def Let_def split: os_write.splits)
  moreover have nl: "is_space (CHR 0x0A)" by (simp add: is_space_def)
  have "TrimSpace (sid @ [CHR 0x0A]) = TrimSpace sid"
  proof (cases "\<forall>x \<in> set sid. is_space x")
    case True
    then have a: "\<forall>x \<in> set (sid @ [CHR 0x0A]). is_space x" using nl by simp
    have "dropWhile is_space (sid @ [CHR 0x0A]) = []" "dropWhile is_space sid = []"
      using True by (intro iffD2 [OF dropWhile_eq_Nil_conv] a, intro iffD2 [OF dropWhile_eq_Nil_conv])
    then show ?thesis unfolding TrimSpace_def by (simp only: rev.simps dropWhile.simps)
  next
    case False
    then have "dropWhile is_space (sid @ [CHR 0x0A]) = dropWhile is_space sid @ [CHR 0x0A]"
      by (auto intro: dropWhile_append1)
    then show ?thesis using nl by (simp add: TrimSpace_def)
  qed
  ultimately show ?thesis by (simp add: readStampFile_def)
qed

lemma writeFrameSidecar_files:
  "p \<notin> {f @ ''.jsonc'', f @ ''.jsonc.tmp''} \<Longrightarrow> snd (writeFrameSidecar js r f m fs) p = fs p"
  by (auto simp: writeFrameSidecar_def WriteFile_def Rename_def Remove_def Let_def split: os_write.split)

lemma writeFrameSidecar_fails:
  "\<not> fst (writeFrameSidecar js r f m fs) \<Longrightarrow> snd (writeFrameSidecar js r f m fs) (f @ ''.jsonc'') = fs (f @ ''.jsonc'')"
  by (auto simp: writeFrameSidecar_def WriteFile_def Rename_def Remove_def Let_def split: os_write.splits if_splits)

lemma writeFrameSidecar_fst: "fst (writeFrameSidecar js r f m fs) = tmp_ok r"
  by (auto simp: writeFrameSidecar_def WriteFile_def Rename_def Remove_def Let_def tmp_ok_def split: os_write.splits)

lemma readFrameSidecar_write:
  assumes "json_law js"
  shows "readFrameSidecar js f (snd (writeFrameSidecar js r f m fs)) = (if tmp_ok r then Some m else readFrameSidecar js f fs)"
  using assms
  by (auto simp: readFrameSidecar_def writeFrameSidecar_def WriteFile_def Rename_def Remove_def Let_def tmp_ok_def json_law_def split: os_write.splits)

lemma taintsEqual_iff [simp]: "taintsEqual a b = (a = b)"
  by (induction a b rule: taintsEqual.induct) auto

lemma set_IntersectTaints: "set (IntersectTaints a b) = set a \<inter> set b"
  by (auto simp: IntersectTaints_def)

lemma getSnapTaints_cong:
  "fs (snapMetaPath d sid) = fs' (snapMetaPath d sid) \<Longrightarrow> getSnapTaints js d sid fs = getSnapTaints js d sid fs'"
  by (simp add: getSnapTaints_def readSnapMeta_def)


section \<open>What a finalisation touches\<close>

definition tmpFiles :: "string \<Rightarrow> string set" where
  "tmpFiles tmp = (\<lambda>x. tmp @ x) ` {''.stamp'', ''.stamp.tmp'', ''.tsc'', ''.tsc.tmp'', ''.tsm'', ''.tsm.tmp''}"

lemma Create_files:
  assumes "p \<notin> tmpFiles out"
  shows "snd (Create os now tree f1 f2 root out ptsm ptsc cross t fs) p = fs p"
proof -
  have w: "snd (write_tmp_rename f path c fs) p = fs p" if "p \<noteq> path" "p \<noteq> path @ ''.tmp''" for f path c fs
    using write_tmp_rename_cases(4) [of f path c fs _ _ p] that by (cases "write_tmp_rename f path c fs") simp
  have n: "p \<noteq> out @ ''.tsc''" "p \<noteq> out @ ''.tsc.tmp''" "p \<noteq> out @ ''.tsm''" "p \<noteq> out @ ''.tsm.tmp''"
    using assms by (auto simp: tmpFiles_def)
  have 1: "fs' p = fs p" if "TSC_Write f w' (out @ ''.tsc'') fs = (r, fs')" for f w' fs fs' r
    using w [of "out @ ''.tsc''" f "tscContent w' @ sha256 (tscContent w')" fs] n that
    by (auto simp: TSC_Write_def Let_def split: prod.splits option.splits)
  have 2: "fs' p = fs p" if "TSM_Write f w' (out @ ''.tsm'') a b fs = (r, w'', fs')" for f w' a b fs r w'' fs'
  proof -
    obtain es refs where a: "assignRefs b [] (tw_entries (sortEntries w')) = (es, refs)" by fastforce
    let ?c = "tsmFile (tsmHeader (sortEntries w'\<lparr>tw_entries := es\<rparr>) a) es refs a"
    obtain e fs1 where b: "write_tmp_rename f (out @ ''.tsm'') ?c fs = (e, fs1)" by fastforce
    have "fs' = fs1" using that by (simp add: TSM_Write_def Let_def a b split: option.splits)
    with w [of "out @ ''.tsm''" f ?c fs] n b show ?thesis by simp
  qed
  show ?thesis
    unfolding Create_def Index_def Let_def by (auto split: sum.split prod.split dest!: 1 2)
qed

lemma indexTmp_files:
  assumes "p \<notin> tmpFiles tmp" "indexTmp cfg e tmp subdir parent w = (r, fs)"
  shows "fs p = w_files w p"
proof -
  have 1: "fs1 p = w_files w p" if "writeStampFile (ie_stamp e) tmp parent (w_files w) = (b, fs1)" for b fs1
    using writeStampFile_files [of p tmp "ie_stamp e" parent "w_files w"] assms(1) that by (simp add: tmpFiles_def)
  have 2: "fs2 p = fs1 p" if "Create os now tree f1 f2 tmp tmp a b c t fs1 = (r', fs2)" for os now tree f1 f2 a b c t r' fs1 fs2
    using Create_files [OF assms(1), of os now tree f1 f2 tmp a b c t fs1] that by simp
  show ?thesis
    using assms(2) unfolding indexTmp_def Let_def by (auto split: sum.splits prod.splits bool.splits option.splits dest!: 1 2)
qed

lemma Encode_alphabet: "set (Encode h) \<subseteq> set alphabet"
proof -
  have "length alphabet = 64" by (simp add: alphabet_def)
  then show ?thesis using encodeVal_less [of h] by (auto simp: Encode_def)
qed

lemma Encode_plain: "plain (Encode h)" "CHR ''.'' \<notin> set (Encode h)"
proof -
  have "CHR ''/'' \<notin> set alphabet" "CHR ''.'' \<notin> set alphabet" by (simp_all add: alphabet_def)
  then have "CHR ''/'' \<notin> set (Encode h)" and d: "CHR ''.'' \<notin> set (Encode h)" using Encode_alphabet [of h] by auto
  moreover have "length (Encode h) = 43" by (simp add: Encode_def EncodedSize_def)
  ultimately show "plain (Encode h)" by (auto simp: plain_def)
  show "CHR ''.'' \<notin> set (Encode h)" by (rule d)
qed

text \<open>A captured subvolume never has the name of a finished snap, nor do its files.\<close>

definition tmpName :: "string \<Rightarrow> string \<Rightarrow> bool" where
  "tmpName d tmp = (d \<noteq> [] \<and> (\<exists>t. plain (t @ ''.tmp'') \<and> tmp = filepath_Join [d, t @ ''.tmp'']))"

lemma tmpName_not_final:
  assumes "tmpName d tmp"
  shows "filepath_Join [d, Encode h] \<noteq> tmp"
proof
  assume eq: "filepath_Join [d, Encode h] = tmp"
  from assms obtain t where t: "d \<noteq> []" "plain (t @ ''.tmp'')" "tmp = filepath_Join [d, t @ ''.tmp'']" by (auto simp: tmpName_def)
  with eq have "filepath_Join [d, Encode h] = filepath_Join [d, t @ ''.tmp'']" by simp
  from Join_inj [OF t(1) Encode_plain(1) t(2) this] have "Encode h = t @ ''.tmp''" .
  then have "CHR ''.'' \<in> set (Encode h)" by simp
  with Encode_plain(2) show False by blast
qed

lemma dedupTaints_files: "p \<noteq> snapMetaPath (cfg_snapsDir cfg) sid \<Longrightarrow> dedupTaints cfg r sid ts fs p = fs p"
  by (auto simp: dedupTaints_def writeSnapMeta_def WriteFile_def Let_def split: option.split os_write.split)

lemma finalize_cases:
  assumes "indexAndFinalizeSubvol cfg e tmp subdir parent taints w = (r, w')"
  obtains (fails) err where "r = Inl err" "w_vols w' = (w_vols w)(tmp := if ie_delete e then None else w_vols w tmp)"
      "\<forall>p. p \<notin> tmpFiles tmp \<longrightarrow> w_files w' p = w_files w p"
  | (dedup) m fs where "r = Inr (Encode (m_SHA256 m))" "indexTmp cfg e tmp subdir parent w = (Inr m, fs)"
      "w_vols w (filepath_Join [cfg_snapsDir cfg, Encode (m_SHA256 m)]) \<noteq> None \<or> fs (filepath_Join [cfg_snapsDir cfg, Encode (m_SHA256 m)]) \<noteq> None"
      "w' = cleanupTmp (ie_delete e) tmp (w\<lparr> w_files := dedupTaints cfg (ie_meta e) (Encode (m_SHA256 m))
         (if taints = [] then getSnapTaints (cfg_meta cfg) (cfg_snapsDir cfg) parent fs else taints) fs \<rparr>)"
  | (installs) m fs where "r = Inr (Encode (m_SHA256 m))" "indexTmp cfg e tmp subdir parent w = (Inr m, fs)"
      "w_vols w (filepath_Join [cfg_snapsDir cfg, Encode (m_SHA256 m)]) = None" "fs (filepath_Join [cfg_snapsDir cfg, Encode (m_SHA256 m)]) = None"
      "w' = installSnap cfg e tmp (Encode (m_SHA256 m)) parent
         (if taints = [] then getSnapTaints (cfg_meta cfg) (cfg_snapsDir cfg) parent fs else taints) (w\<lparr> w_files := fs \<rparr>)"
proof -
  obtain r1 fs where i: "indexTmp cfg e tmp subdir parent w = (r1, fs)" by fastforce
  have f: "\<forall>p. p \<notin> tmpFiles tmp \<longrightarrow> w_files (cleanupTmp (ie_delete e) tmp (w\<lparr> w_files := fs \<rparr>)) p = w_files w p"
    using indexTmp_files [OF _ i] by (auto simp: cleanupTmp_def Remove_def tmpFiles_def)
  have v: "w_vols (cleanupTmp (ie_delete e) tmp (w\<lparr> w_files := fs \<rparr>)) = (w_vols w)(tmp := if ie_delete e then None else w_vols w tmp)"
    by (simp add: cleanupTmp_def)
  show ?thesis
  proof (cases r1)
    case (Inl err)
    then show ?thesis using assms i f v by (intro fails [of err]) (auto simp: indexAndFinalizeSubvol_def)
  next
    case (Inr m)
    let ?final = "filepath_Join [cfg_snapsDir cfg, Encode (m_SHA256 m)]"
    consider (a) "w_vols w ?final \<noteq> None \<or> fs ?final \<noteq> None" | (b) "w_vols w ?final = None" "fs ?final = None" "\<not> ie_rename e"
      | (c) "w_vols w ?final = None" "fs ?final = None" "ie_rename e" by auto
    then show ?thesis
    proof cases
      case a
      with assms i Inr show ?thesis by (intro dedup [of m fs]) (auto simp: indexAndFinalizeSubvol_def Let_def)
    next
      case b
      with assms i Inr f v show ?thesis by (intro fails [of SnapRenameErr]) (auto simp: indexAndFinalizeSubvol_def Let_def)
    next
      case c
      with assms i Inr show ?thesis by (intro installs [of m fs]) (auto simp: indexAndFinalizeSubvol_def Let_def)
    qed
  qed
qed

lemma Rename_files: "p \<noteq> a \<Longrightarrow> p \<noteq> b \<Longrightarrow> snd (Rename ok a b fs) p = fs p"
  by (simp add: Rename_def split: option.split)

lemma installSnap_vols:
  "w_vols (installSnap cfg e tmp sid parent ts w) = (w_vols w)(tmp := None, filepath_Join [cfg_snapsDir cfg, sid] := w_vols w tmp)"
  by (simp add: installSnap_def Let_def)

section \<open>The metadata files as a map\<close>

definition snapKey :: "string \<Rightarrow> bool" where "snapKey k = (CHR ''/'' \<notin> set k)"

lemma snapKey_plain: "snapKey k \<Longrightarrow> plain (k @ ''.jsonc'')"
proof -
  assume "snapKey k"
  then have "CHR ''/'' \<notin> set (k @ ''.jsonc'')" by (simp add: snapKey_def)
  moreover have "length (k @ ''.jsonc'') > 5" by simp
  ultimately show ?thesis unfolding plain_def by auto
qed

interpretation sn: key_files "snapMetaPath (c # d)" snapKey for c d
proof
  fix k k' assume v: "snapKey k" "snapKey k'" and eq: "snapMetaPath (c # d) k = snapMetaPath (c # d) k'"
  from Join_inj [OF _ snapKey_plain [OF v(1)] snapKey_plain [OF v(2)] eq [unfolded snapMetaPath_def]]
  show "k = k'" by simp
qed

abbreviation snap_view :: "snapcfg \<Rightarrow> fsys \<Rightarrow> (string \<rightharpoonup> SnapMeta option)" where
  "snap_view cfg \<equiv> store_view (snapMetaPath (cfg_snapsDir cfg)) snapKey (j_Unmarshal (cfg_meta cfg))"

definition cfg_ok :: "snapcfg \<Rightarrow> bool" where
  "cfg_ok cfg = (cfg_snapsDir cfg \<noteq> [] \<and> json_law (cfg_meta cfg) \<and> json_law (cfg_frame cfg))"

lemma snap_view_put:
  assumes "cfg_ok cfg" "snapKey k"
  shows "snap_view cfg (fs(snapMetaPath (cfg_snapsDir cfg) k \<mapsto> j_Marshal (cfg_meta cfg) m)) = (snap_view cfg fs)(k \<mapsto> Some m)"
proof -
  obtain c d where "cfg_snapsDir cfg = c # d" using assms(1) by (cases "cfg_snapsDir cfg") (simp_all add: cfg_ok_def)
  then show ?thesis using assms(1) by (simp only: sn.view_put [OF assms(2)]) (simp add: cfg_ok_def json_law_def)
qed

lemma snap_view_del:
  assumes "cfg_ok cfg" "snapKey k"
  shows "snap_view cfg (fs(snapMetaPath (cfg_snapsDir cfg) k := None)) = (snap_view cfg fs)(k := None)"
proof -
  obtain c d where "cfg_snapsDir cfg = c # d" using assms(1) by (cases "cfg_snapsDir cfg") (simp_all add: cfg_ok_def)
  then show ?thesis using sn.view_del [OF assms(2)] by simp
qed

lemma snap_view_read:
  "snapKey k \<Longrightarrow> readSnapMeta (cfg_meta cfg) (cfg_snapsDir cfg) k fs = Option.bind (snap_view cfg fs k) id"
  by (simp add: readSnapMeta_def store_view_def Option.bind_map_option o_def split: Option.bind_split)

section \<open>Relinking\<close>

definition relink :: "string \<Rightarrow> string \<Rightarrow> SnapMeta \<Rightarrow> SnapMeta" where
  "relink old new m = (if sm_Parent m = old then m\<lparr> sm_Parent := new \<rparr> else m)"

definition relink_view :: "string \<Rightarrow> string \<Rightarrow> string set \<Rightarrow> (string \<rightharpoonup> SnapMeta option) \<Rightarrow> (string \<rightharpoonup> SnapMeta option)" where
  "relink_view old new K v = (\<lambda>k. if k \<in> K \<and> k \<noteq> old then map_option (map_option (relink old new)) (v k) else v k)"

definition listed :: "string list \<Rightarrow> string set" where
  "listed names = {k. k @ ''.jsonc'' \<in> set names}"

lemma relink_view_step:
  "relink_view old new (insert k K) v = relink_view old new K (relink_view old new {k} v)"
proof -
  have r: "relink old new (relink old new m) = relink old new m" for m by (simp add: relink_def)
  have "map_option (map_option (relink old new)) (map_option (map_option (relink old new)) x) = map_option (map_option (relink old new)) x" for x
    by (cases x; cases "the x") (simp_all add: r)
  then show ?thesis by (auto simp: relink_view_def)
qed

lemma relinkLoop_view:
  assumes c: "cfg_ok cfg" and w: "\<forall>k. wr k = WriteOk" and n: "\<forall>x \<in> set names. CHR ''/'' \<notin> set x"
  shows "snap_view cfg (relinkLoop (cfg_meta cfg) wr (cfg_snapsDir cfg) old new names fs) = relink_view old new (listed names) (snap_view cfg fs)"
  using n
proof (induction names arbitrary: fs)
  case Nil
  then show ?case by (simp add: relink_view_def listed_def)
next
  case (Cons name names)
  show ?case
  proof (cases "HasSuffix name ''.jsonc''")
    case False
    then have "listed (name # names) = listed names" by (auto simp: listed_def)
    with Cons False show ?thesis by simp
  next
    case True
    then obtain k where k: "name = k @ ''.jsonc''" by (auto simp: HasSuffix_iff)
    then have sk: "snapKey k" using Cons.prems by (simp add: snapKey_def)
    have l: "listed (name # names) = insert k (listed names)" by (auto simp: listed_def k)
    let ?fs1 = "if k \<noteq> old \<and> (\<exists>m. snap_view cfg fs k = Some (Some m) \<and> sm_Parent m = old)
       then snd (writeSnapMeta (cfg_meta cfg) (wr k) (cfg_snapsDir cfg) k (the (the (snap_view cfg fs k))\<lparr> sm_Parent := new \<rparr>) fs) else fs"
    have "relinkLoop (cfg_meta cfg) wr (cfg_snapsDir cfg) old new (name # names) fs = relinkLoop (cfg_meta cfg) wr (cfg_snapsDir cfg) old new names ?fs1"
      using True by (cases "snap_view cfg fs k"; cases "the (snap_view cfg fs k)") (auto simp add: k Let_def snap_view_read [OF sk])
    moreover have "snap_view cfg ?fs1 = relink_view old new {k} (snap_view cfg fs)"
    proof (cases "k \<noteq> old \<and> (\<exists>m. snap_view cfg fs k = Some (Some m) \<and> sm_Parent m = old)")
      case True
      then obtain m where m: "k \<noteq> old" "snap_view cfg fs k = Some (Some m)" "sm_Parent m = old" by blast
      have "?fs1 = fs(snapMetaPath (cfg_snapsDir cfg) k \<mapsto> j_Marshal (cfg_meta cfg) (m\<lparr> sm_Parent := new \<rparr>))"
        using m w by (simp add: writeSnapMeta_def WriteFile_def)
      then have "snap_view cfg ?fs1 = (snap_view cfg fs)(k \<mapsto> Some (m\<lparr> sm_Parent := new \<rparr>))"
        by (simp only: snap_view_put [OF c sk])
      also have "\<dots> = relink_view old new {k} (snap_view cfg fs)"
        using m by (intro ext) (simp add: relink_view_def relink_def)
      finally show ?thesis .
    next
      case False
      then have "map_option (map_option (relink old new)) (snap_view cfg fs k) = snap_view cfg fs k" if "k \<noteq> old"
        using that by (cases "snap_view cfg fs k"; cases "the (snap_view cfg fs k)") (simp_all add: relink_def)
      then have "relink_view old new {k} (snap_view cfg fs) = snap_view cfg fs" by (intro ext) (auto simp add: relink_view_def)
      with False show ?thesis by (simp only: if_False)
    qed
    ultimately show ?thesis using Cons.IH [of ?fs1] Cons.prems unfolding l relink_view_step [of old new k "listed names"] by simp
  qed
qed


section \<open>Properties\<close>

text \<open>
  C14: Finalising a captured subvolume names it by the digest of its manifest and never replaces a snap
  that exists: every other subvolume is kept as it was, a new snap has the captured
  contents, and a failure leaves nothing but possibly the capture's own temporary files.
\<close>

theorem finalize_content_addressed:
  assumes "tmpName (cfg_snapsDir cfg) tmp" "indexAndFinalizeSubvol cfg e tmp subdir parent taints w = (r, w')"
  shows "(\<forall>p. p \<noteq> tmp \<and> w_vols w p \<noteq> None \<longrightarrow> w_vols w' p = w_vols w p) \<and>
    (\<forall>sid. r = Inr sid \<longrightarrow> (\<exists>m fs. indexTmp cfg e tmp subdir parent w = (Inr m, fs) \<and> sid = Encode (m_SHA256 m) \<and>
       (w_vols w (filepath_Join [cfg_snapsDir cfg, sid]) = None \<and> fs (filepath_Join [cfg_snapsDir cfg, sid]) = None \<longrightarrow>
          w_vols w' = (w_vols w)(tmp := None, filepath_Join [cfg_snapsDir cfg, sid] := w_vols w tmp)))) \<and>
    (\<forall>err. r = Inl err \<longrightarrow> (\<forall>p. p \<noteq> tmp \<longrightarrow> w_vols w' p = w_vols w p) \<and> (\<forall>p. p \<notin> tmpFiles tmp \<longrightarrow> w_files w' p = w_files w p))"
  using assms(2)
proof (cases rule: finalize_cases)
  case (fails err)
  then show ?thesis by simp
next
  case (dedup m fs)
  have "w_vols w' p = w_vols w p" if "p \<noteq> tmp" for p unfolding dedup(4) using that by (simp add: cleanupTmp_def)
  moreover have "\<not> (w_vols w (filepath_Join [cfg_snapsDir cfg, Encode (m_SHA256 m)]) = None \<and> fs (filepath_Join [cfg_snapsDir cfg, Encode (m_SHA256 m)]) = None)"
    using dedup(3) by blast
  ultimately show ?thesis using dedup(2) by (auto simp add: dedup(1))
next
  case (installs m fs)
  with tmpName_not_final [OF assms(1)] show ?thesis by (auto simp: installSnap_vols)
qed

definition ok_env :: index_env where
  "ok_env = \<lparr> ie_stamp = \<lparr> t_write = WriteOk, t_rename = True \<rparr>, ie_now = 0, ie_ctime = 0, ie_tsc = None, ie_tsm = None,
     ie_meta = WriteOk, ie_rename = True, ie_renameStamp = True, ie_renameTSM = True, ie_renameTSC = True, ie_delete = True \<rparr>"

definition putSrc :: "SnapSource \<Rightarrow> bytes" where "putSrc x = putS (ss_Type x) @ putS (ss_Ref x)"

definition getSrc :: "SnapSource getter" where
  "getSrc bs = Option.bind (getS bs) (\<lambda>(a, r). map_option (\<lambda>(b, r'). (\<lparr> ss_Type = a, ss_Ref = b \<rparr>, r')) (getS r))"

definition js_meta :: "SnapMeta json" where
  "js_meta = \<lparr> j_Marshal = (\<lambda>m. putS (sm_Parent m) @ putL putS (sm_Taints m) @ putL putSrc (case sm_Source m of None \<Rightarrow> [] | Some x \<Rightarrow> [x])),
     j_Unmarshal = (\<lambda>bs. Option.bind (getS bs) (\<lambda>(p, r). Option.bind (getL getS r) (\<lambda>(ts, r). map_option (\<lambda>(xs, _).
       \<lparr> sm_Parent = p, sm_Taints = ts, sm_Source = (case xs of [] \<Rightarrow> None | x # _ \<Rightarrow> Some x) \<rparr>) (getL getSrc r)))) \<rparr>"

lemma js_meta_law: "json_law js_meta"
proof -
  have "getL getSrc (putL putSrc l @ []) = Some (l, [])" for l
    by (rule getL_putL) (simp add: getSrc_def putSrc_def)
  then show ?thesis by (simp add: json_law_def js_meta_def split: option.split)
qed

definition ex_cfg :: snapcfg where
  "ex_cfg = \<lparr> cfg_snapsDir = ''s'', cfg_meta = js_meta, cfg_frame = js_frame \<rparr>"

lemma ex_cfg_ok: "cfg_ok ex_cfg"
  by (simp add: cfg_ok_def ex_cfg_def js_meta_law js_frame_law)

text \<open>A subvolume that holds nothing but its root directory.\<close>

definition ex_vol :: subvol where
  "ex_vol p = (\<lparr> os_lstat = (\<lambda>_. Inr (ex_info KDir 0)), os_readlink = (\<lambda>_. Inl OtherErr), os_open = (\<lambda>_. Inl OtherErr) \<rparr>, WNode p None 1 [])"

lemma ex_vol_indexed:
  assumes "path_Clean p = p"
  shows "\<exists>idx. indexed (fst (ex_vol p)) 0 (snd (ex_vol p)) p (NewIndexer None None False 0) = Some idx \<and> fits idx"
  using assms
  by (simp add: indexed_def ex_vol_def ex_info_def processEntry_def relPathOf_def NewIndexer_def Let_def baseEntry_def isUnmodified_def
       countEntry_def)
     (simp add: fits_def AddEntry_def totalRefs_def length_encodeEntry typeData_def SetCreationTime_def NewTSMWriter_def NewTSCWriter_def entry_types)

lemma ex_vol_clean: "clean_files (fst (ex_vol p))"
  by (simp add: clean_files_def ex_vol_def)

text \<open>With no faults such a subvolume is indexed whatever else is on disk.\<close>

lemma ex_indexTmp:
  assumes "path_Clean tmp = tmp" "w_vols w tmp = Some ex_vol" "parent = []"
  shows "\<exists>m fs. indexTmp cfg ok_env tmp subdir parent w = (Inr m, fs)"
proof -
  obtain fs1 where st: "writeStampFile (ie_stamp ok_env) tmp parent (w_files w) = (True, fs1)"
    using writeStampFile_ok [of "ie_stamp ok_env" tmp parent "w_files w"]
    by (cases "writeStampFile (ie_stamp ok_env) tmp parent (w_files w)") (simp add: ok_env_def tmp_ok_def)
  from ex_vol_indexed [OF assms(1)] obtain idx where
    idx: "indexed (fst (ex_vol tmp)) 0 (snd (ex_vol tmp)) tmp (NewIndexer None None False 0) = Some idx" "fits idx" by (elim exE conjE)
  from Index_nofault [OF idx(1), of tmp fs1] obtain sha fs2 where
    run: "Create (fst (ex_vol tmp)) 0 (snd (ex_vol tmp)) None None tmp tmp None None False 0 fs1 = (Inr sha, fs2)"
    unfolding Create_def by (elim exE)
  have "pred_option fits (indexed (fst (ex_vol tmp)) 0 (snd (ex_vol tmp)) tmp (NewIndexer None None False 0))"
    unfolding idx(1) using idx(2) by simp
  from Create_recovers [OF ex_vol_clean run this] obtain m where "ReadTSM fs2 (tmp @ ''.tsm'') = Inr m"
    by (elim exE conjE)
  moreover have "(if subdir = [] then loadParentManifest (cfg_snapsDir cfg) parent fs1 else (None, None)) = (None, None)"
    by (simp add: assms(3) loadParentManifest_def)
  moreover obtain os tree where "ex_vol tmp = (os, tree)" by fastforce
  moreover have "ie_now ok_env = 0" "ie_tsc ok_env = None" "ie_tsm ok_env = None" "ie_ctime ok_env = 0" by (simp_all add: ok_env_def)
  ultimately show ?thesis using run by (simp add: indexTmp_def st assms(2) Let_def)
qed

theorem finalize_content_addressed_witness:
  "\<exists>sid w'. indexAndFinalizeSubvol ex_cfg ok_env ''s/x.tmp'' [] [] [''t''] \<lparr> w_files = Map.empty, w_vols = [''s/x.tmp'' \<mapsto> ex_vol] \<rparr> = (Inr sid, w')
     \<and> w_vols w' ''s/x.tmp'' = None \<and> w_vols w' (filepath_Join [''s'', sid]) = Some ex_vol"
proof -
  let ?w = "\<lparr> w_files = Map.empty, w_vols = [''s/x.tmp'' \<mapsto> ex_vol] \<rparr>"
  have cl: "path_Clean ''s/x.tmp'' = ''s/x.tmp''" by code_simp
  have "filepath_Join [''s'', ''x'' @ ''.tmp''] = ''s/x.tmp''" by code_simp
  then have tn: "tmpName (cfg_snapsDir ex_cfg) ''s/x.tmp''"
    unfolding tmpName_def ex_cfg_def by (intro conjI exI [of _ "''x''"]) (simp_all add: plain_def)
  from ex_indexTmp [OF cl, of ?w "[]" ex_cfg "[]"] obtain m fs where i: "indexTmp ex_cfg ok_env ''s/x.tmp'' [] [] ?w = (Inr m, fs)" by auto
  let ?f = "filepath_Join [''s'', Encode (m_SHA256 m)]"
  have ne: "?f \<noteq> ''s/x.tmp''" using tmpName_not_final [OF tn, of "m_SHA256 m"] by (simp add: ex_cfg_def)
  have nt: "?f \<notin> tmpFiles ''s/x.tmp''"
  proof -
    have "?f = ''s/'' @ Encode (m_SHA256 m)" using Join_plain [OF _ Encode_plain(1), of "''s''" "m_SHA256 m"]
      by (simp add: dirPrefix_def Let_def)
    then have "CHR ''.'' \<notin> set ?f" using Encode_plain(2) [of "m_SHA256 m"] by simp
    then show ?thesis by (auto simp: tmpFiles_def)
  qed
  have f: "fs ?f = None" using indexTmp_files [OF nt i] by simp
  obtain r w' where run: "indexAndFinalizeSubvol ex_cfg ok_env ''s/x.tmp'' [] [] [''t''] ?w = (r, w')" by fastforce
  have r: "r = Inr (Encode (m_SHA256 m))"
    using run i f ne by (auto simp: indexAndFinalizeSubvol_def Let_def ex_cfg_def ok_env_def)
  from finalize_content_addressed [OF tn run] r i f ne run show ?thesis by (auto simp: ex_cfg_def)
qed


text \<open>
  C28: Deleting a snap contracts the parent relation: its metadata disappears, its children take its
  parent, and every other snap keeps its metadata.
\<close>

theorem delete_snap_relinks:
  assumes "cfg_ok cfg" "plain sid" "w_vols w (filepath_Join [cfg_snapsDir cfg, sid]) \<noteq> None" "\<forall>k. wr k = WriteOk"
    and "\<forall>n \<in> set names. CHR ''/'' \<notin> set n" "\<forall>k. snapKey k \<and> w_files w (snapMetaPath (cfg_snapsDir cfg) k) \<noteq> None \<longrightarrow> k @ ''.jsonc'' \<in> set names"
  shows "\<exists>w'. handleDeleteSnap cfg wr (Some names) True sid w = (StatusOK, w') \<and>
    w_vols w' = (w_vols w)(filepath_Join [cfg_snapsDir cfg, sid] := None) \<and>
    snap_view cfg (w_files w') =
      (\<lambda>k. if k = sid then None
           else map_option (map_option (relink sid (case snap_view cfg (w_files w) sid of Some (Some m) \<Rightarrow> sm_Parent m | _ \<Rightarrow> [])))
             (snap_view cfg (w_files w) k))"
proof -
  define d where "d = cfg_snapsDir cfg"
  have d: "d \<noteq> []" using assms(1) by (simp add: cfg_ok_def d_def)
  have sk: "snapKey sid" using assms(2) by (simp add: snapKey_def plain_def)
  define snapPath where "snapPath = filepath_Join [d, sid]"
  have sp: "snapPath = dirPrefix d @ sid" unfolding snapPath_def by (rule Join_plain [OF d assms(2)])
  have mp: "snapMetaPath d k = dirPrefix d @ k @ ''.jsonc''" if "snapKey k" for k
    unfolding snapMetaPath_def by (rule Join_plain [OF d snapKey_plain [OF that]])
  define parent where "parent = (case snap_view cfg (w_files w) sid of Some (Some m) \<Rightarrow> sm_Parent m | _ \<Rightarrow> [])"
  have dp: "(case readSnapMeta (cfg_meta cfg) d sid (w_files w) of None \<Rightarrow> [] | Some m \<Rightarrow> sm_Parent m) = parent"
    unfolding parent_def d_def snap_view_read [OF sk] by (simp split: option.split)
  define fs1 where "fs1 = relinkLoop (cfg_meta cfg) wr d sid parent names (w_files w)"
  have v1: "snap_view cfg fs1 = relink_view sid parent (listed names) (snap_view cfg (w_files w))"
    unfolding fs1_def d_def by (rule relinkLoop_view [OF assms(1,4,5)])
  define fs2 where "fs2 = Remove (snapPath @ ''.tsc'') (Remove (snapPath @ ''.tsm'') (Remove (snapPath @ ''.stamp'') (Remove (snapPath @ ''.jsonc'') fs1)))"
  have run: "handleDeleteSnap cfg wr (Some names) True sid w = (StatusOK, w\<lparr> w_vols := (w_vols w)(snapPath := None), w_files := fs2 \<rparr>)"
    using assms(2,3) dp by (simp add: handleDeleteSnap_def Let_def relinkSnapChildren_def snapPath_def d_def fs1_def fs2_def plain_def)
  have other: "snap_view cfg (Remove (snapPath @ x) fs) = snap_view cfg fs" if x: "x \<in> {''.tsc'', ''.tsm'', ''.stamp''}" for x fs
  proof -
    have "snapMetaPath d k \<noteq> snapPath @ x" if "snapKey k" for k
    proof
      assume "snapMetaPath d k = snapPath @ x"
      from this [symmetric] have "take 2 (rev (snapPath @ x)) = take 2 (rev (dirPrefix d @ k @ ''.jsonc''))" unfolding mp [OF that] by simp
      then show False using x by auto
    qed
    then show ?thesis unfolding Remove_def d_def [symmetric] by (intro ext) (auto simp add: store_view_def)
  qed
  have "snap_view cfg fs2 = snap_view cfg (Remove (snapPath @ ''.jsonc'') fs1)" unfolding fs2_def by (simp add: other)
  also have "snapPath @ ''.jsonc'' = snapMetaPath d sid" unfolding mp [OF sk] sp by simp
  also have "snap_view cfg (Remove (snapMetaPath d sid) fs1) = (snap_view cfg fs1)(sid := None)"
    unfolding Remove_def d_def by (rule snap_view_del [OF assms(1) sk])
  also have "\<dots> = (\<lambda>k. if k = sid then None else map_option (map_option (relink sid parent)) (snap_view cfg (w_files w) k))"
  proof -
    have "snap_view cfg (w_files w) k = None" if "k \<notin> listed names" for k
      using assms(6) that by (auto simp: listed_def store_view_def)
    then show ?thesis unfolding v1 by (intro ext) (auto simp: relink_view_def)
  qed
  finally have v2: "snap_view cfg fs2 = (\<lambda>k. if k = sid then None else map_option (map_option (relink sid parent)) (snap_view cfg (w_files w) k))" .
  show ?thesis
    by (rule exI, rule conjI, rule run) (simp add: v2 snapPath_def d_def, simp only: parent_def)
qed

definition ex_meta :: "string \<Rightarrow> SnapMeta" where
  "ex_meta p = \<lparr> sm_Parent = p, sm_Taints = [], sm_Source = None \<rparr>"

definition ex_snaps :: world where
  "ex_snaps = \<lparr> w_files = [''s/a.jsonc'' \<mapsto> j_Marshal js_meta (ex_meta ''b''), ''s/c.jsonc'' \<mapsto> j_Marshal js_meta (ex_meta ''a'')],
     w_vols = [''s/a'' \<mapsto> ex_vol] \<rparr>"

lemma ex_snapMetaPath: "snapKey k \<Longrightarrow> snapMetaPath ''s'' k = ''s/'' @ k @ ''.jsonc''"
  unfolding snapMetaPath_def using Join_plain [OF _ snapKey_plain, of "''s''" k] by (simp add: dirPrefix_def Let_def)

theorem delete_snap_relinks_witness:
  "\<exists>w'. handleDeleteSnap ex_cfg (\<lambda>_. WriteOk) (Some [''a.jsonc'', ''c.jsonc'']) True ''a'' ex_snaps = (StatusOK, w') \<and>
    snap_view ex_cfg (w_files w') ''a'' = None \<and> snap_view ex_cfg (w_files w') ''c'' = Some (Some (ex_meta ''b''))"
proof -
  have u: "j_Unmarshal js_meta (j_Marshal js_meta m) = Some m" for m using js_meta_law by (simp add: json_law_def)
  have p: "plain ''a''" "snapKey ''a''" "snapKey ''c''" by (simp_all add: plain_def snapKey_def)
  have j: "filepath_Join [cfg_snapsDir ex_cfg, ''a''] = ''s/a''" unfolding ex_cfg_def by simp code_simp
  have v: "w_vols ex_snaps (filepath_Join [cfg_snapsDir ex_cfg, ''a'']) \<noteq> None" unfolding j by (simp add: ex_snaps_def)
  have n: "\<forall>n \<in> set [''a.jsonc'', ''c.jsonc'']. CHR ''/'' \<notin> set n" by simp
  have l: "\<forall>k. snapKey k \<and> w_files ex_snaps (snapMetaPath (cfg_snapsDir ex_cfg) k) \<noteq> None \<longrightarrow> k @ ''.jsonc'' \<in> set [''a.jsonc'', ''c.jsonc'']"
  proof (intro allI impI)
    fix k assume k: "snapKey k \<and> w_files ex_snaps (snapMetaPath (cfg_snapsDir ex_cfg) k) \<noteq> None"
    then have "w_files ex_snaps (''s/'' @ k @ ''.jsonc'') \<noteq> None" using ex_snapMetaPath [of k] by (simp add: ex_cfg_def)
    then show "k @ ''.jsonc'' \<in> set [''a.jsonc'', ''c.jsonc'']" by (simp add: ex_snaps_def split: if_splits)
  qed
  have a: "snap_view ex_cfg (w_files ex_snaps) ''a'' = Some (Some (ex_meta ''b''))"
    and c: "snap_view ex_cfg (w_files ex_snaps) ''c'' = Some (Some (ex_meta ''a''))"
    using ex_snapMetaPath [OF p(2)] ex_snapMetaPath [OF p(3)] p by (simp_all add: store_view_def ex_cfg_def ex_snaps_def u)
  have b: "sm_Parent (ex_meta ''b'') = ''b''" by (simp add: ex_meta_def)
  have wr: "\<forall>k. (\<lambda>_ :: string. WriteOk) k = WriteOk" by simp
  obtain w' where w': "handleDeleteSnap ex_cfg (\<lambda>_. WriteOk) (Some [''a.jsonc'', ''c.jsonc'']) True ''a'' ex_snaps = (StatusOK, w')"
    "snap_view ex_cfg (w_files w') = (\<lambda>k. if k = ''a'' then None else map_option (map_option (relink ''a'' ''b'')) (snap_view ex_cfg (w_files ex_snaps) k))"
    using delete_snap_relinks [OF ex_cfg_ok p(1) v wr n l] unfolding a option.case b by (elim exE conjE) (rule that)
  show ?thesis
    by (intro exI [of _ w'] conjI w'(1)) (simp_all add: w'(2) c relink_def ex_meta_def)
qed

text \<open>
  The ID of the request is not checked: a relative path reaches subvolumes outside the snaps
  directory, here the home subvolume of a frame.
\<close>

lemma delete_snap_escapes:
  assumes "cfg_snapsDir cfg = ''/d/snaps''" "w_vols w ''/d/fs/u/f/home'' \<noteq> None"
  shows "\<exists>w'. handleDeleteSnap cfg wr names True ''../fs/u/f/home'' w = (StatusOK, w') \<and> w_vols w' ''/d/fs/u/f/home'' = None"
proof -
  have "filepath_Join [''/d/snaps'', ''../fs/u/f/home''] = ''/d/fs/u/f/home''" by code_simp
  with assms show ?thesis by (simp add: handleDeleteSnap_def Let_def)
qed

text \<open>
  The documentation asks for the intersection over all provenances. A capture of the same content
  by a frame without taints does not remove the taints of the snap, although the
  intersection with its taints is empty.
\<close>

lemma dedup_ignores_untainted: "dedupTaints cfg r sid [] fs = fs" "IntersectTaints ts [] = []"
  by (simp_all add: dedupTaints_def IntersectTaints_def split: option.split)

end
