(* ===== verification/Snap_Queue.thy ===== *)
theory Snap_Queue
  imports Snap_Meta "HOL-Library.AList" "HOL-Library.Multiset" "HOL-Library.Sublist"
begin

text \<open>
  The background snap queue, \<^verbatim>\<open>cmd/thundersnapd/snapqueue.go\<close>: captures enqueue jobs, a single worker
  indexes them in FIFO order and then updates the frame they came from, forks wire a new frame to
  the job that captured its source, and \<^verbatim>\<open>/taint\<close> updates the same sidecar files. Every region the
  code executes under \<^verbatim>\<open>snapQueue.mu\<close> or under a per-frame sidecar lock, and every single file it
  writes outside of them, is one step; a job is its index in the list of all jobs.
  Progress events are output only and left out.
\<close>

section \<open>Jobs\<close>

datatype componentKind = CompRoot | CompHome | CompWork | CompSubdir

record pendingComponent =
  pc_kind :: componentKind
  pc_tmpPath :: string
  pc_taints :: "string list"
  pc_parentJob :: "nat option"
  pc_parentSnap :: string

record snapJob =
  jb_frame :: string
  jb_subdir :: string
  jb_comps :: "pendingComponent list"
  jb_finalized :: "componentKind \<rightharpoonup> string"
  jb_result :: string
  jb_err :: "snap_error option"
  jb_done :: bool

definition isSubdir :: "snapJob \<Rightarrow> bool" where "isSubdir j = (jb_subdir j \<noteq> [])"

definition finalizedID :: "(componentKind \<rightharpoonup> string) \<Rightarrow> componentKind \<Rightarrow> string" where
  "finalizedID fin k = (case fin k of None \<Rightarrow> [] | Some x \<Rightarrow> x)"

definition resultID :: "snapJob \<Rightarrow> string" where
  "resultID j = (if isSubdir j then finalizedID (jb_finalized j) CompSubdir else jb_result j)"

definition componentTmp :: "snapJob \<Rightarrow> componentKind \<Rightarrow> string" where
  "componentTmp j k = (case find (\<lambda>c. pc_kind c = k) (jb_comps j) of None \<Rightarrow> [] | Some c \<Rightarrow> pc_tmpPath c)"

section \<open>The queue and the goroutines that share it\<close>

text \<open>Where the worker is in \<^verbatim>\<open>run\<close> and \<^verbatim>\<open>processJob\<close>, and where a fork is in \<^verbatim>\<open>forkFrame\<close>.\<close>

datatype worker = Idle
  | Indexing nat "pendingComponent list" "componentKind \<rightharpoonup> string"
  | Stamping nat HistoryEntry
  | Updating nat HistoryEntry
  | Listing nat HistoryEntry
  | Forks nat HistoryEntry "string list"
  | ForkMeta nat HistoryEntry "string list"
  | Finishing nat

datatype fork_thread = ForkLocked string string Frame | ForkSetup string Frame | ForkStamp string string

record snapQueue =
  q_jobs :: "snapJob list"
  q_pending :: "nat list"
  q_framePendingSnap :: "(string \<times> nat) list"
  q_worker :: worker
  q_forks :: "fork_thread list"
  q_world :: world

definition newSnapQueue :: "world \<Rightarrow> snapQueue" where
  "newSnapQueue w = \<lparr> q_jobs = [], q_pending = [], q_framePendingSnap = [], q_worker = Idle, q_forks = [], q_world = w \<rparr>"

definition emptyFrame :: Frame where
  "emptyFrame = \<lparr> fr_Rootfs = [], fr_Home = [], fr_Work = [], fr_Taints = [], fr_Isolation = [], fr_History = [], fr_CreatedAt = None \<rparr>"

definition updateFrameMetaLocked :: "snapcfg \<Rightarrow> tmp_write \<Rightarrow> string \<Rightarrow> (Frame \<Rightarrow> Frame) \<Rightarrow> world \<Rightarrow> Frame option \<times> world" where
  "updateFrameMetaLocked cfg r f mutator w =
     (let meta = (case readFrameSidecar (cfg_frame cfg) f (w_files w) of None \<Rightarrow> emptyFrame | Some m \<Rightarrow> m);
          meta' = mutator meta
      in case writeFrameSidecar (cfg_frame cfg) r f meta' (w_files w) of
           (False, fs') \<Rightarrow> (None, w\<lparr> w_files := fs' \<rparr>)
         | (True, fs') \<Rightarrow> (Some meta', w\<lparr> w_files := fs' \<rparr>))"

definition enqueueLocked :: "snapJob \<Rightarrow> snapQueue \<Rightarrow> nat \<times> snapQueue" where
  "enqueueLocked job q = (length (q_jobs q), q\<lparr> q_jobs := q_jobs q @ [job], q_pending := q_pending q @ [length (q_jobs q)] \<rparr>)"

section \<open>Capture\<close>

definition Validate :: "string \<Rightarrow> string option" where
  "Validate subdir =
     (let clean = TrimPrefix (path_Clean (''/'' @ subdir)) ''/''
      in if clean = [] \<or> clean = ''.'' then None else Some clean)"

text \<open>
  \<open>tmpID\<close> is the random name, None when generating it or taking the btrfs snapshot fails. \<open>reduce\<close> is the
  effect of \<^verbatim>\<open>snapsubdir.Snapshot\<close> on the contents.
\<close>

definition captureSubvol :: "snapcfg \<Rightarrow> (subvol \<Rightarrow> string \<Rightarrow> subvol option) \<Rightarrow> string option \<Rightarrow> string \<Rightarrow> string \<Rightarrow> world
    \<Rightarrow> (snap_error + string) \<times> world" where
  "captureSubvol cfg reduce tmpID source subdir w =
     (case tmpID of
        None \<Rightarrow> (Inl SnapCaptureErr, w)
      | Some t \<Rightarrow>
          let tmpPath = filepath_Join [cfg_snapsDir cfg, t @ ''.tmp'']
          in case w_vols w source of
               None \<Rightarrow> (Inl SnapCaptureErr, w)
             | Some v \<Rightarrow>
                 if \<not> plain (t @ ''.tmp'') \<or> w_vols w tmpPath \<noteq> None then (Inl SnapCaptureErr, w)
                 else if subdir = [] then (Inr tmpPath, w\<lparr> w_vols := (w_vols w)(tmpPath \<mapsto> v) \<rparr>)
                 else (case reduce v subdir of
                         None \<Rightarrow> (Inl SnapSubdirErr, w)
                       | Some v' \<Rightarrow> (Inr tmpPath, w\<lparr> w_vols := (w_vols w)(tmpPath \<mapsto> v') \<rparr>)))"

definition isSubvolume :: "world \<Rightarrow> string \<Rightarrow> bool" where "isSubvolume w p = (w_vols w p \<noteq> None)"

definition isDirEmpty :: "world \<Rightarrow> string \<Rightarrow> bool" where
  "isDirEmpty w p = (case w_vols w p of None \<Rightarrow> True | Some v \<Rightarrow> w_kids (snd (v p)) = [])"

definition cleanupCaptured :: "bool \<Rightarrow> pendingComponent list \<Rightarrow> world \<Rightarrow> world" where
  "cleanupCaptured del comps w =
     foldl (\<lambda>w c. w\<lparr> w_vols := (if del then (w_vols w)(pc_tmpPath c := None) else w_vols w), w_files := Remove (pc_tmpPath c @ ''.stamp'') (w_files w) \<rparr>) w comps"

record capture_env =
  ce_root :: "string option"
  ce_home :: "string option"
  ce_work :: "string option"
  ce_delete :: bool
  ce_reduce :: "subvol \<Rightarrow> string \<Rightarrow> subvol option"

definition newJob :: "string \<Rightarrow> string \<Rightarrow> pendingComponent list \<Rightarrow> snapJob" where
  "newJob f subdir comps = \<lparr> jb_frame = f, jb_subdir = subdir, jb_comps = comps, jb_finalized = Map.empty, jb_result = [], jb_err = None, jb_done = False \<rparr>"

text \<open>The home and the work part of a full capture: nothing is captured of an empty subvolume.\<close>

definition captureComponent :: "snapcfg \<Rightarrow> bool \<Rightarrow> string option \<Rightarrow> snap_error \<Rightarrow> pendingComponent \<Rightarrow> string \<Rightarrow> pendingComponent list \<Rightarrow> world
    \<Rightarrow> (snap_error + pendingComponent list) \<times> world" where
  "captureComponent cfg del tmpID notSubvol pc path comps w =
     (if \<not> isSubvolume w path then (Inl notSubvol, cleanupCaptured del comps w)
      else if isDirEmpty w path then (Inr comps, w)
      else case captureSubvol cfg (\<lambda>_ _. None) tmpID path [] w of
             (Inl e, w') \<Rightarrow> (Inl e, cleanupCaptured del comps w')
           | (Inr tmp, w') \<Rightarrow> (Inr (comps @ [pc\<lparr> pc_tmpPath := tmp \<rparr>]), w'))"

text \<open>The three parts of a full capture, in the order of the code.\<close>

definition captureParts :: "snapcfg \<Rightarrow> capture_env \<Rightarrow> string \<Rightarrow> pendingComponent \<Rightarrow> pendingComponent \<Rightarrow> pendingComponent \<Rightarrow> world
    \<Rightarrow> (snap_error + pendingComponent list) \<times> world" where
  "captureParts cfg ce rootFS pr ph pw w0 =
     (let homePath = filepath_Join [rootFS, ''home'']; workPath = filepath_Join [rootFS, ''work'']
      in case captureSubvol cfg (\<lambda>_ _. None) (ce_root ce) rootFS [] w0 of
           (Inl e, w1) \<Rightarrow> (Inl e, w1)
         | (Inr rootTmp, w1) \<Rightarrow>
             (case captureComponent cfg (ce_delete ce) (ce_home ce) SnapHomeNotSubvol ph homePath [pr\<lparr> pc_tmpPath := rootTmp \<rparr>] w1 of
                (Inl e, w2) \<Rightarrow> (Inl e, w2)
              | (Inr comps, w2) \<Rightarrow> captureComponent cfg (ce_delete ce) (ce_work ce) SnapWorkNotSubvol pw workPath comps w2))"

definition captureSubdir :: "snapcfg \<Rightarrow> capture_env \<Rightarrow> string \<Rightarrow> string \<Rightarrow> snapQueue \<Rightarrow> (snap_error + nat) \<times> snapQueue" where
  "captureSubdir cfg ce rootFS subdir q =
     (case Validate subdir of
        None \<Rightarrow> (Inl SnapSubdirErr, q)
      | Some clean \<Rightarrow>
          let taints = (case readFrameSidecar (cfg_frame cfg) rootFS (w_files (q_world q)) of None \<Rightarrow> [] | Some m \<Rightarrow> fr_Taints m)
          in case captureSubvol cfg (ce_reduce ce) (ce_root ce) rootFS clean (q_world q) of
               (Inl e, w') \<Rightarrow> (Inl e, q\<lparr> q_world := w' \<rparr>)
             | (Inr tmp, w') \<Rightarrow>
                 let (j, q') = enqueueLocked (newJob rootFS clean
                       [\<lparr> pc_kind = CompSubdir, pc_tmpPath = tmp, pc_taints = taints, pc_parentJob = None, pc_parentSnap = [] \<rparr>])
                       (q\<lparr> q_world := w' \<rparr>)
                 in (Inr j, q'))"

definition captureSnapJobLocked :: "snapcfg \<Rightarrow> capture_env \<Rightarrow> string \<Rightarrow> string \<Rightarrow> snapQueue \<Rightarrow> (snap_error + nat) \<times> snapQueue" where
  "captureSnapJobLocked cfg ce rootFS subdir q =
     (if subdir \<noteq> [] then captureSubdir cfg ce rootFS subdir q
      else
        let w0 = q_world q;
            frameMeta = readFrameSidecar (cfg_frame cfg) rootFS (w_files w0);
            frameTaints = (case frameMeta of None \<Rightarrow> [] | Some m \<Rightarrow> fr_Taints m);
            stamp = readStampFile rootFS (w_files w0);
            baseStampID = (if stamp = [] then ''1'' else stamp);
            homeParentSnap = (case frameMeta of None \<Rightarrow> [] | Some m \<Rightarrow> fr_Home m);
            workParentSnap = (case frameMeta of None \<Rightarrow> [] | Some m \<Rightarrow> fr_Work m);
            baseJob = map_of (q_framePendingSnap q) rootFS;
            pc = (\<lambda>k snap. \<lparr> pc_kind = k, pc_tmpPath = [], pc_taints = frameTaints, pc_parentJob = baseJob, pc_parentSnap = snap \<rparr>)
        in case captureParts cfg ce rootFS (pc CompRoot baseStampID) (pc CompHome homeParentSnap) (pc CompWork workParentSnap) w0 of
             (Inl e, w') \<Rightarrow> (Inl e, q\<lparr> q_world := w' \<rparr>)
           | (Inr comps, w') \<Rightarrow>
               let (j, q') = enqueueLocked (newJob rootFS [] comps) (q\<lparr> q_world := w' \<rparr>)
               in (Inr j, q'\<lparr> q_framePendingSnap := AList.update rootFS j (q_framePendingSnap q') \<rparr>))"

section \<open>The worker\<close>

text \<open>What the system does during one step of the worker.\<close>

record worker_env =
  we_index :: index_env
  we_stamp :: tmp_write
  we_sidecar :: tmp_write
  we_now :: int
  we_order :: "string list \<Rightarrow> string list"

definition resolveParent :: "snapJob list \<Rightarrow> pendingComponent \<Rightarrow> string" where
  "resolveParent jobs c =
     (case pc_parentJob c of
        None \<Rightarrow> pc_parentSnap c
      | Some p \<Rightarrow> let pid = finalizedID (jb_finalized (jobs ! p)) (pc_kind c) in if pid \<noteq> [] then pid else pc_parentSnap c)"

text \<open>The iteration order of a Go map is not specified.\<close>

definition iterOrder :: "worker_env \<Rightarrow> string list \<Rightarrow> string list" where
  "iterOrder ev xs = (if mset (we_order ev xs) = mset xs then we_order ev xs else xs)"

definition forkedFramesForJob :: "snapQueue \<Rightarrow> nat \<Rightarrow> string list" where
  "forkedFramesForJob q j = map fst (filter (\<lambda>(fr, j'). j' = j \<and> fr \<noteq> jb_frame (q_jobs q ! j)) (q_framePendingSnap q))"

definition finishJob :: "nat \<Rightarrow> snapQueue \<Rightarrow> snapQueue" where
  "finishJob j q = q\<lparr> q_framePendingSnap := filter (\<lambda>(fr, j'). j' \<noteq> j) (q_framePendingSnap q),
     q_jobs := (q_jobs q)[j := (q_jobs q ! j)\<lparr> jb_done := True \<rparr>], q_worker := Idle \<rparr>"

definition triplet :: "(componentKind \<rightharpoonup> string) \<Rightarrow> string" where
  "triplet fin = (let n = (\<lambda>s. if s = [] then ''nil'' else s)
     in finalizedID fin CompRoot @ '':'' @ n (finalizedID fin CompHome) @ '':'' @ n (finalizedID fin CompWork))"

definition setSnaps :: "(componentKind \<rightharpoonup> string) \<Rightarrow> HistoryEntry \<Rightarrow> Frame \<Rightarrow> Frame" where
  "setSnaps fin h m =
     (let home = finalizedID fin CompHome; work = finalizedID fin CompWork
      in m\<lparr> fr_Rootfs := finalizedID fin CompRoot, fr_Home := (if home \<noteq> [] then home else fr_Home m),
            fr_Work := (if work \<noteq> [] then work else fr_Work m), fr_History := h # fr_History m \<rparr>)"

definition failJob :: "bool \<Rightarrow> nat \<Rightarrow> (componentKind \<rightharpoonup> string) \<Rightarrow> snap_error \<Rightarrow> snapQueue \<Rightarrow> snapQueue" where
  "failJob del j fin e q =
     (let unindexed = filter (\<lambda>c. fin (pc_kind c) = None) (jb_comps (q_jobs q ! j))
      in q\<lparr> q_world := cleanupCaptured del unindexed (q_world q),
            q_jobs := (q_jobs q)[j := (q_jobs q ! j)\<lparr> jb_err := Some e \<rparr>], q_worker := Finishing j \<rparr>)"

definition indexedJob :: "int \<Rightarrow> nat \<Rightarrow> (componentKind \<rightharpoonup> string) \<Rightarrow> snapQueue \<Rightarrow> snapQueue" where
  "indexedJob now j fin q =
     (let job = q_jobs q ! j; job' = job\<lparr> jb_finalized := fin \<rparr>
      in if isSubdir job
         then q\<lparr> q_jobs := (q_jobs q)[j := job'],
                 q_worker := Updating j \<lparr> hi_Snap = finalizedID fin CompSubdir, hi_Time = now, hi_Message = [] \<rparr> \<rparr>
         else q\<lparr> q_jobs := (q_jobs q)[j := job'\<lparr> jb_result := triplet fin \<rparr>],
                 q_worker := Stamping j \<lparr> hi_Snap = triplet fin, hi_Time = now, hi_Message = [] \<rparr> \<rparr>)"

definition workerStep :: "snapcfg \<Rightarrow> worker_env \<Rightarrow> snapQueue \<Rightarrow> snapQueue option" where
  "workerStep cfg ev q =
     (case q_worker q of
        Idle \<Rightarrow> (case q_pending q of [] \<Rightarrow> None
                 | j # js \<Rightarrow> Some (q\<lparr> q_pending := js, q_worker := Indexing j (jb_comps (q_jobs q ! j)) Map.empty \<rparr>))
      | Indexing j [] fin \<Rightarrow> Some (indexedJob (we_now ev) j fin q)
      | Indexing j (c # cs) fin \<Rightarrow>
          (case indexAndFinalizeSubvol cfg (we_index ev) (pc_tmpPath c) (jb_subdir (q_jobs q ! j)) (resolveParent (q_jobs q) c)
                  (pc_taints c) (q_world q) of
             (Inl e, w') \<Rightarrow> Some (failJob (ie_delete (we_index ev)) j fin e (q\<lparr> q_world := w' \<rparr>))
           | (Inr sid, w') \<Rightarrow> Some (q\<lparr> q_world := w', q_worker := Indexing j cs (fin(pc_kind c \<mapsto> sid)) \<rparr>))
      | Stamping j h \<Rightarrow>
          let job = q_jobs q ! j; w = q_world q
          in Some (q\<lparr> q_world := w\<lparr> w_files := snd (writeStampFile (we_stamp ev) (jb_frame job) (finalizedID (jb_finalized job) CompRoot) (w_files w)) \<rparr>,
                      q_worker := Updating j h \<rparr>)
      | Updating j h \<Rightarrow>
          let job = q_jobs q ! j;
              mutator = (if isSubdir job then (\<lambda>m. m\<lparr> fr_History := h # fr_History m \<rparr>) else setSnaps (jb_finalized job) h)
          in Some (q\<lparr> q_world := snd (updateFrameMetaLocked cfg (we_sidecar ev) (jb_frame job) mutator (q_world q)),
                      q_worker := (if isSubdir job then Finishing j else Listing j h) \<rparr>)
      | Listing j h \<Rightarrow> Some (q\<lparr> q_worker := Forks j h (iterOrder ev (forkedFramesForJob q j)) \<rparr>)
      | Forks j h [] \<Rightarrow> Some (q\<lparr> q_worker := Finishing j \<rparr>)
      | Forks j h (ff # ffs) \<Rightarrow>
          let w = q_world q
          in Some (q\<lparr> q_world := w\<lparr> w_files := snd (writeStampFile (we_stamp ev) ff (finalizedID (jb_finalized (q_jobs q ! j)) CompRoot) (w_files w)) \<rparr>,
                      q_worker := ForkMeta j h (ff # ffs) \<rparr>)
      | ForkMeta j h [] \<Rightarrow> Some (q\<lparr> q_worker := Finishing j \<rparr>)
      | ForkMeta j h (ff # ffs) \<Rightarrow>
          Some (q\<lparr> q_world := snd (updateFrameMetaLocked cfg (we_sidecar ev) ff (setSnaps (jb_finalized (q_jobs q ! j)) h) (q_world q)),
                   q_worker := Forks j h ffs \<rparr>)
      | Finishing j \<Rightarrow> Some (finishJob j q))"

section \<open>Forks\<close>

text \<open>A new, empty subvolume.\<close>

definition newSubvol :: subvol where
  "newSubvol p = (\<lparr> os_lstat = (\<lambda>x. if x = p then Inr \<lparr> fi_kind = KDir, fi_mode = 493, fi_uid = 0, fi_gid = 0, fi_size = 0, fi_mtime = 0, fi_ctime = 0,
       fi_atime = 0, fi_dev = 0, fi_ino = 256, fi_nlink = 1, fi_major = 0, fi_minor = 0 \<rparr> else Inl OtherErr),
     os_readlink = (\<lambda>_. Inl OtherErr), os_open = (\<lambda>_. Inl OtherErr) \<rparr>, WNode p None 0 [])"

definition forkMeta :: "snapcfg \<Rightarrow> string \<Rightarrow> world \<Rightarrow> Frame" where
  "forkMeta cfg rootFS w = (case readFrameSidecar (cfg_frame cfg) rootFS (w_files w) of None \<Rightarrow> emptyFrame | Some m \<Rightarrow> m)"

text \<open>\<open>ok\<close> tells whether the n-th btrfs command succeeds.\<close>

definition cloneSubvol :: "bool \<Rightarrow> string \<Rightarrow> string \<Rightarrow> world \<Rightarrow> world option" where
  "cloneSubvol ok src dst w =
     (case w_vols w src of None \<Rightarrow> None | Some v \<Rightarrow> if ok then Some (w\<lparr> w_vols := (w_vols w)(dst \<mapsto> v) \<rparr>) else None)"

definition cloneFrameSubvolsLocked :: "(nat \<Rightarrow> bool) \<Rightarrow> string \<Rightarrow> snapJob \<Rightarrow> world \<Rightarrow> world option" where
  "cloneFrameSubvolsLocked ok path job w =
     (if \<not> ok 0 then None
      else let rootTmp = componentTmp job CompRoot; homeTmp = componentTmp job CompHome; workTmp = componentTmp job CompWork
           in if rootTmp = [] then None
              else Option.bind (cloneSubvol (ok 1) rootTmp path w) (\<lambda>w1.
                   Option.bind (if homeTmp = [] then Some w1 else cloneSubvol (ok 2) homeTmp (filepath_Join [path, ''home'']) w1) (\<lambda>w2.
                   if workTmp = [] then Some w2 else cloneSubvol (ok 3) workTmp (filepath_Join [path, ''work'']) w2)))"

text \<open>\<^verbatim>\<open>forkFrame\<close> reads the sidecar of the source, then captures and clones under the queue lock.\<close>

definition forkBegin :: "snapcfg \<Rightarrow> string \<Rightarrow> string \<Rightarrow> snapQueue \<Rightarrow> snapQueue" where
  "forkBegin cfg rootFS new q = q\<lparr> q_forks := ForkLocked rootFS new (forkMeta cfg rootFS (q_world q)) # q_forks q \<rparr>"

definition forkLocked :: "snapcfg \<Rightarrow> capture_env \<Rightarrow> (nat \<Rightarrow> bool) \<Rightarrow> string \<Rightarrow> string \<Rightarrow> Frame \<Rightarrow> snapQueue \<Rightarrow> snapQueue" where
  "forkLocked cfg ce ok rootFS new meta q =
     (case captureSnapJobLocked cfg ce rootFS [] q of
        (Inl e, q1) \<Rightarrow> q1
      | (Inr j, q1) \<Rightarrow>
          (case cloneFrameSubvolsLocked ok new (q_jobs q1 ! j) (q_world q1) of
             None \<Rightarrow> q1
           | Some w' \<Rightarrow> q1\<lparr> q_world := w', q_framePendingSnap := AList.update new j (q_framePendingSnap q1),
                            q_forks := ForkSetup new meta # q_forks q1 \<rparr>))"

definition ensureSubvol :: "bool \<Rightarrow> string \<Rightarrow> world \<Rightarrow> world option" where
  "ensureSubvol ok path w =
     (if isSubvolume w path then Some w else if ok then Some (w\<lparr> w_vols := (w_vols w)(path \<mapsto> newSubvol) \<rparr>) else None)"

text \<open>\<^verbatim>\<open>cloneFrameSetup\<close> up to the sidecar, and its stamp; both run without a lock.\<close>

definition cloneFrameSetup :: "snapcfg \<Rightarrow> (nat \<Rightarrow> bool) \<Rightarrow> tmp_write \<Rightarrow> int \<Rightarrow> string \<Rightarrow> Frame \<Rightarrow> world \<Rightarrow> world option" where
  "cloneFrameSetup cfg ok r now path meta w =
     Option.bind (ensureSubvol (ok 0) (filepath_Join [path, ''home'']) w) (\<lambda>w1.
     Option.bind (ensureSubvol (ok 1) (filepath_Join [path, ''work'']) w1) (\<lambda>w2.
     map_option (\<lambda>w3. w3\<lparr> w_files := snd (writeFrameSidecar (cfg_frame cfg) r path (meta\<lparr> fr_CreatedAt := Some now \<rparr>) (w_files w3)) \<rparr>)
       (ensureSubvol (ok 2) (filepath_Join [path, ''id'']) w2)))"

definition forkSetup :: "snapcfg \<Rightarrow> (nat \<Rightarrow> bool) \<Rightarrow> tmp_write \<Rightarrow> int \<Rightarrow> string \<Rightarrow> Frame \<Rightarrow> snapQueue \<Rightarrow> snapQueue" where
  "forkSetup cfg ok r now path meta q =
     (case cloneFrameSetup cfg ok r now path meta (q_world q) of
        None \<Rightarrow> q
      | Some w' \<Rightarrow> q\<lparr> q_world := w', q_forks := ForkStamp path (fr_Rootfs meta) # q_forks q \<rparr>)"

definition forkStamp :: "tmp_write \<Rightarrow> string \<Rightarrow> string \<Rightarrow> snapQueue \<Rightarrow> snapQueue" where
  "forkStamp r path sid q =
     (let w = q_world q in q\<lparr> q_world := w\<lparr> w_files := snd (writeStampFile r path sid (w_files w)) \<rparr> \<rparr>)"

section \<open>Taints\<close>

definition taintMutator :: "string \<Rightarrow> string \<Rightarrow> Frame \<Rightarrow> Frame" where
  "taintMutator stamp t m =
     (let m1 = (if fr_Rootfs m = [] then m\<lparr> fr_Rootfs := stamp \<rparr> else m)
      in if t \<in> set (fr_Taints m1) then m1 else m1\<lparr> fr_Taints := UnionTaints [fr_Taints m1 @ [t]] \<rparr>)"

definition handleTaint :: "snapcfg \<Rightarrow> tmp_write \<Rightarrow> string \<Rightarrow> string \<Rightarrow> world \<Rightarrow> http_status \<times> string list \<times> world" where
  "handleTaint cfg r rootFS taintName w =
     (if taintName = [] then (StatusBadRequest, [], w)
      else case updateFrameMetaLocked cfg r rootFS (taintMutator (readStampFile rootFS (w_files w)) taintName) w of
             (None, w') \<Rightarrow> (StatusInternal, [], w')
           | (Some m, w') \<Rightarrow> (StatusOK, fr_Taints m, w'))"

section \<open>Interleavings\<close>

text \<open>
  Every interleaving of the goroutines. Programs running in the frames may change the
  contents of any subvolume at any time (\<open>live\<close>); the name of a new frame is fresh.
\<close>

datatype action = ACapture | AForkBegin | AForkLocked | AForkSetup string | AForkStamp string | ATaint string string | AWorker | ALive

inductive step :: "snapcfg \<Rightarrow> action \<Rightarrow> snapQueue \<Rightarrow> snapQueue \<Rightarrow> bool" for cfg where
  capture: "step cfg ACapture q (snd (captureSnapJobLocked cfg ce rootFS subdir q))"
| forkBegin: "new \<notin> jb_frame ` set (q_jobs q) \<Longrightarrow> step cfg AForkBegin q (forkBegin cfg rootFS new q)"
| forkLocked: "\<lbrakk>q_forks q = a @ ForkLocked rootFS new meta # b; new \<notin> jb_frame ` set (q_jobs q); new \<noteq> rootFS\<rbrakk> \<Longrightarrow>
    step cfg AForkLocked q (forkLocked cfg ce ok rootFS new meta (q\<lparr> q_forks := a @ b \<rparr>))"
| forkSetup: "q_forks q = a @ ForkSetup new meta # b \<Longrightarrow>
    step cfg (AForkSetup new) q (forkSetup cfg ok r now new meta (q\<lparr> q_forks := a @ b \<rparr>))"
| forkStamp: "q_forks q = a @ ForkStamp new sid # b \<Longrightarrow> step cfg (AForkStamp new) q (forkStamp r new sid (q\<lparr> q_forks := a @ b \<rparr>))"
| taint: "step cfg (ATaint rootFS t) q (q\<lparr> q_world := snd (snd (handleTaint cfg r rootFS t (q_world q))) \<rparr>)"
| worker: "workerStep cfg ev q = Some q' \<Longrightarrow> step cfg AWorker q q'"
| live: "step cfg ALive q (q\<lparr> q_world := (q_world q)\<lparr> w_vols := vols \<rparr> \<rparr>)"

inductive_cases stepE: "step cfg a q q'"

inductive_simps step_worker_iff: "step cfg AWorker q q'"

inductive reachable :: "snapcfg \<Rightarrow> snapQueue \<Rightarrow> bool" for cfg where
  start: "reachable cfg (newSnapQueue w)"
| step: "\<lbrakk>reachable cfg q; step cfg a q q'\<rbrakk> \<Longrightarrow> reachable cfg q'"

section \<open>The invariant\<close>

definition busy :: "snapQueue \<Rightarrow> nat option" where
  "busy q = (case q_worker q of Idle \<Rightarrow> None | Indexing j _ _ \<Rightarrow> Some j | Stamping j _ \<Rightarrow> Some j | Updating j _ \<Rightarrow> Some j
     | Listing j _ \<Rightarrow> Some j | Forks j _ _ \<Rightarrow> Some j | ForkMeta j _ _ \<Rightarrow> Some j | Finishing j \<Rightarrow> Some j)"

definition comps_inv :: "snapcfg \<Rightarrow> nat \<Rightarrow> pendingComponent list \<Rightarrow> bool" where
  "comps_inv cfg j cs = (\<forall>c \<in> set cs. tmpName (cfg_snapsDir cfg) (pc_tmpPath c) \<and> pred_option (\<lambda>p. p < j) (pc_parentJob c))"

text \<open>Jobs run in the order of their numbers: finished, then the one at the worker, then the waiting ones.\<close>

definition fifo_inv :: "snapQueue \<Rightarrow> bool" where
  "fifo_inv q = (let n = length (q_jobs q) - length (q_pending q) in
     length (q_pending q) \<le> length (q_jobs q) \<and> q_pending q = [n..<length (q_jobs q)] \<and>
     (case busy q of None \<Rightarrow> True | Some b \<Rightarrow> Suc b = n) \<and>
     (\<forall>j < length (q_jobs q). jb_done (q_jobs q ! j) = (j < n \<and> busy q \<noteq> Some j)))"

definition jobs_inv :: "snapcfg \<Rightarrow> snapQueue \<Rightarrow> bool" where
  "jobs_inv cfg q = ((\<forall>j < length (q_jobs q). comps_inv cfg j (jb_comps (q_jobs q ! j))) \<and>
     (case q_worker q of Indexing j cs _ \<Rightarrow> comps_inv cfg j cs | _ \<Rightarrow> True))"

text \<open>
  The last pending snap of a frame: only unfinished full jobs are in the map, and a frame that has
  an unfinished full job is in it, with that job or a later one.
\<close>

definition chain_inv :: "snapQueue \<Rightarrow> bool" where
  "chain_inv q = (distinct (map fst (q_framePendingSnap q)) \<and>
     (\<forall>(fr, j) \<in> set (q_framePendingSnap q). j < length (q_jobs q) \<and> \<not> jb_done (q_jobs q ! j) \<and> \<not> isSubdir (q_jobs q ! j)) \<and>
     (\<forall>j < length (q_jobs q). \<not> jb_done (q_jobs q ! j) \<and> \<not> isSubdir (q_jobs q ! j) \<longrightarrow>
        (\<exists>j' \<ge> j. map_of (q_framePendingSnap q) (jb_frame (q_jobs q ! j)) = Some j')))"

definition q_inv :: "snapcfg \<Rightarrow> snapQueue \<Rightarrow> bool" where
  "q_inv cfg q = (fifo_inv q \<and> jobs_inv cfg q \<and> chain_inv q)"

lemma q_inv_cong:
  "\<lbrakk>q_jobs q' = q_jobs q; q_pending q' = q_pending q; q_framePendingSnap q' = q_framePendingSnap q; q_worker q' = q_worker q\<rbrakk>
    \<Longrightarrow> q_inv cfg q' = q_inv cfg q"
  by (simp add: q_inv_def fifo_inv_def jobs_inv_def chain_inv_def busy_def)

section \<open>What a capture does\<close>

lemma captureSubvol_name:
  assumes "cfg_snapsDir cfg \<noteq> []" "captureSubvol cfg rd t src sd w = (Inr tmp, w')"
  shows "tmpName (cfg_snapsDir cfg) tmp" "w_files w' = w_files w"
  using assms by (auto simp: captureSubvol_def tmpName_def Let_def split: option.splits if_splits)

lemma captureSubvol_files: "w_files (snd (captureSubvol cfg rd t src sd w)) = w_files w"
  by (simp add: captureSubvol_def Let_def split: option.split)

lemma captureComponent_comps:
  assumes "cfg_snapsDir cfg \<noteq> []" "captureComponent cfg del t e pc path comps w = (Inr comps', w')"
    and "\<forall>c \<in> set comps. tmpName (cfg_snapsDir cfg) (pc_tmpPath c) \<and> pc_parentJob c = b" "pc_parentJob pc = b"
  shows "(\<forall>c \<in> set comps'. tmpName (cfg_snapsDir cfg) (pc_tmpPath c) \<and> pc_parentJob c = b) \<and> (comps \<noteq> [] \<longrightarrow> comps' \<noteq> [])"
  using assms captureSubvol_name(1) [OF assms(1), of "\<lambda>_ _. None" t path "[]" w]
  by (auto simp: captureComponent_def split: if_splits prod.splits sum.splits)

lemma captureParts_comps:
  assumes "cfg_snapsDir cfg \<noteq> []" "captureParts cfg ce rootFS pr ph pw w = (Inr comps, w')"
    and "pc_parentJob pr = b" "pc_parentJob ph = b" "pc_parentJob pw = b"
  shows "comps \<noteq> [] \<and> (\<forall>c \<in> set comps. tmpName (cfg_snapsDir cfg) (pc_tmpPath c) \<and> pc_parentJob c = b)"
proof -
  from assms(2) obtain tmp w1 comps2 w2 where
    c: "captureSubvol cfg (\<lambda>_ _. None) (ce_root ce) rootFS [] w = (Inr tmp, w1)"
    "captureComponent cfg (ce_delete ce) (ce_home ce) SnapHomeNotSubvol ph (filepath_Join [rootFS, ''home'']) [pr\<lparr> pc_tmpPath := tmp \<rparr>] w1 = (Inr comps2, w2)"
    "captureComponent cfg (ce_delete ce) (ce_work ce) SnapWorkNotSubvol pw (filepath_Join [rootFS, ''work'']) comps2 w2 = (Inr comps, w')"
    unfolding captureParts_def Let_def by (auto split: sum.splits prod.splits)
  have 1: "\<forall>c \<in> set [pr\<lparr> pc_tmpPath := tmp \<rparr>]. tmpName (cfg_snapsDir cfg) (pc_tmpPath c) \<and> pc_parentJob c = b"
    using assms(3) captureSubvol_name(1) [OF assms(1) c(1)] by simp
  note 2 = captureComponent_comps [OF assms(1) c(2) 1 assms(4)]
  note 3 = captureComponent_comps [OF assms(1) c(3) conjunct1 [OF 2] assms(5)]
  show ?thesis using 2 3 by auto
qed

lemma capture_cases:
  assumes "cfg_snapsDir cfg \<noteq> []"
  obtains (fails) e w' where "captureSnapJobLocked cfg ce rootFS subdir q = (Inl e, q\<lparr> q_world := w' \<rparr>)"
  | (subdir) sd c w' where "subdir \<noteq> []" "sd \<noteq> []" "pc_parentJob c = None" "tmpName (cfg_snapsDir cfg) (pc_tmpPath c)"
      "captureSnapJobLocked cfg ce rootFS subdir q = (Inr (length (q_jobs q)), snd (enqueueLocked (newJob rootFS sd [c]) (q\<lparr> q_world := w' \<rparr>)))"
  | (full) comps w' where "subdir = []" "comps \<noteq> []" "\<forall>c \<in> set comps. tmpName (cfg_snapsDir cfg) (pc_tmpPath c) \<and> pc_parentJob c = map_of (q_framePendingSnap q) rootFS"
      "captureSnapJobLocked cfg ce rootFS subdir q = (Inr (length (q_jobs q)),
         (snd (enqueueLocked (newJob rootFS [] comps) (q\<lparr> q_world := w' \<rparr>)))\<lparr> q_framePendingSnap := AList.update rootFS (length (q_jobs q)) (q_framePendingSnap q) \<rparr>)"
proof (cases "subdir = []")
  case False
  show ?thesis
  proof (cases "Validate subdir")
    case None
    with False show ?thesis by (intro fails [of SnapSubdirErr "q_world q"]) (simp add: captureSnapJobLocked_def captureSubdir_def)
  next
    case (Some clean)
    obtain r w' where c: "captureSubvol cfg (ce_reduce ce) (ce_root ce) rootFS clean (q_world q) = (r, w')" by fastforce
    have ne: "clean \<noteq> []" using Some by (simp add: Validate_def Let_def split: if_splits)
    show ?thesis
    proof (cases r)
      case (Inl e)
      with False Some c show ?thesis by (intro fails [of e w']) (simp add: captureSnapJobLocked_def captureSubdir_def)
    next
      case (Inr tmp)
      with False Some c captureSubvol_name(1) [OF assms, of "ce_reduce ce" "ce_root ce" rootFS clean "q_world q" tmp w'] ne
      show ?thesis by (intro subdir) (auto simp: captureSnapJobLocked_def captureSubdir_def enqueueLocked_def)
    qed
  qed
next
  case True
  define b where "b = map_of (q_framePendingSnap q) rootFS"
  let ?m = "readFrameSidecar (cfg_frame cfg) rootFS (w_files (q_world q))" and ?st = "readStampFile rootFS (w_files (q_world q))"
  let ?pc = "\<lambda>k snap. \<lparr> pc_kind = k, pc_tmpPath = [], pc_taints = (case ?m of None \<Rightarrow> [] | Some m \<Rightarrow> fr_Taints m), pc_parentJob = b, pc_parentSnap = snap \<rparr>"
  obtain pr ph pw where pj: "pc_parentJob pr = b" "pc_parentJob ph = b" "pc_parentJob pw = b"
    and run: "captureSnapJobLocked cfg ce rootFS [] q =
      (case captureParts cfg ce rootFS pr ph pw (q_world q) of
         (Inl e, w') \<Rightarrow> (Inl e, q\<lparr> q_world := w' \<rparr>)
       | (Inr comps, w') \<Rightarrow> (Inr (length (q_jobs q)), (snd (enqueueLocked (newJob rootFS [] comps) (q\<lparr> q_world := w' \<rparr>)))\<lparr>
            q_framePendingSnap := AList.update rootFS (length (q_jobs q)) (q_framePendingSnap q) \<rparr>))"
    by (rule that [of "?pc CompRoot (if ?st = [] then ''1'' else ?st)" "?pc CompHome (case ?m of None \<Rightarrow> [] | Some m \<Rightarrow> fr_Home m)"
          "?pc CompWork (case ?m of None \<Rightarrow> [] | Some m \<Rightarrow> fr_Work m)"])
       (simp_all add: captureSnapJobLocked_def Let_def enqueueLocked_def b_def cong: prod.case_cong sum.case_cong)
  obtain r w' where parts: "captureParts cfg ce rootFS pr ph pw (q_world q) = (r, w')" by fastforce
  show ?thesis
  proof (cases r)
    case (Inl e)
    with True run parts show ?thesis by (auto intro: fails)
  next
    case (Inr comps)
    from captureParts_comps [OF assms parts [unfolded Inr] pj] show ?thesis using True run parts Inr by (intro full [of comps w']) (auto simp: b_def)
  qed
qed

section \<open>Every step keeps the invariant\<close>

lemma map_of_update_distinct: "distinct (map fst al) \<Longrightarrow> distinct (map fst (AList.update k v al))"
  by (rule AList.distinct_update)

lemma set_AList_update: "(k', v') \<in> set (AList.update k v al) \<Longrightarrow> distinct (map fst al) \<Longrightarrow> (k' = k \<and> v' = v) \<or> (k' \<noteq> k \<and> (k', v') \<in> set al)"
  using map_of_is_SomeI [of "AList.update k v al" k' v'] distinct_update [of al k v]
  by (auto simp: update_conv' split: if_splits dest: map_of_SomeD)

lemma fifo_enqueue: "fifo_inv q \<Longrightarrow> \<not> jb_done job \<Longrightarrow> fifo_inv (snd (enqueueLocked job q))"
  by (auto simp: fifo_inv_def enqueueLocked_def Let_def busy_def nth_append less_Suc_eq Suc_diff_le)

lemma jobs_enqueue: "jobs_inv cfg q \<Longrightarrow> comps_inv cfg (length (q_jobs q)) (jb_comps job) \<Longrightarrow> jobs_inv cfg (snd (enqueueLocked job q))"
  by (auto simp: jobs_inv_def enqueueLocked_def nth_append less_Suc_eq)

lemma chain_enqueue_subdir: "chain_inv q \<Longrightarrow> isSubdir job \<Longrightarrow> chain_inv (snd (enqueueLocked job q))"
  by (fastforce simp: chain_inv_def enqueueLocked_def nth_append less_Suc_eq)

lemma chain_enqueue_full:
  assumes "chain_inv q" "\<not> isSubdir job" "\<not> jb_done job" "jb_frame job = f"
  shows "chain_inv ((snd (enqueueLocked job q))\<lparr> q_framePendingSnap := AList.update f (length (q_jobs q)) (q_framePendingSnap q) \<rparr>)"
proof -
  let ?n = "length (q_jobs q)" and ?al = "q_framePendingSnap q"
  have d: "distinct (map fst ?al)" using assms(1) by (simp add: chain_inv_def)
  have a: "j < Suc ?n \<and> \<not> jb_done ((q_jobs q @ [job]) ! j) \<and> \<not> isSubdir ((q_jobs q @ [job]) ! j)"
    if "(fr, j) \<in> set (AList.update f ?n ?al)" for fr j
    using set_AList_update [OF that d] assms by (auto simp: chain_inv_def nth_append)
  have b: "\<exists>j' \<ge> j. map_of (AList.update f ?n ?al) (jb_frame ((q_jobs q @ [job]) ! j)) = Some j'"
    if "j < Suc ?n" "\<not> jb_done ((q_jobs q @ [job]) ! j)" "\<not> isSubdir ((q_jobs q @ [job]) ! j)" for j
  proof (cases "jb_frame ((q_jobs q @ [job]) ! j) = f")
    case True
    with that(1) show ?thesis by (intro exI [of _ ?n]) (simp add: update_conv')
  next
    case False
    then have "j < ?n" using that(1) assms(4) by (auto simp: nth_append less_Suc_eq)
    with that False assms(1) show ?thesis by (auto simp: chain_inv_def nth_append update_conv')
  qed
  show ?thesis using a b d by (auto simp: chain_inv_def enqueueLocked_def intro: distinct_update)
qed

lemma q_inv_world: "q_inv cfg (q\<lparr> q_world := w \<rparr>) = q_inv cfg q" "q_inv cfg (q\<lparr> q_forks := fk \<rparr>) = q_inv cfg q"
  by (rule q_inv_cong; simp)+

lemma capture_inv:
  assumes "cfg_snapsDir cfg \<noteq> []" "q_inv cfg q"
  shows "q_inv cfg (snd (captureSnapJobLocked cfg ce rootFS subdir q))"
proof -
  have wi: "fifo_inv (q\<lparr> q_world := w \<rparr>)" "jobs_inv cfg (q\<lparr> q_world := w \<rparr>)" "chain_inv (q\<lparr> q_world := w \<rparr>)" for w
    using assms(2) q_inv_world(1) [of cfg w q] by (simp_all add: q_inv_def)
  from assms(1) show ?thesis
  proof (cases rule: capture_cases [of cfg ce rootFS subdir q])
    case (fails e w')
    then show ?thesis using assms(2) by (simp add: q_inv_world)
  next
    case (subdir sd c w')
    then have "comps_inv cfg n (jb_comps (newJob rootFS sd [c]))" "isSubdir (newJob rootFS sd [c])" "\<not> jb_done (newJob rootFS sd [c])" for n
      by (simp_all add: comps_inv_def newJob_def isSubdir_def)
    then show ?thesis unfolding q_inv_def subdir(5) by (simp add: fifo_enqueue jobs_enqueue chain_enqueue_subdir wi)
  next
    case (full comps w')
    let ?job = "newJob rootFS [] comps" and ?q1 = "q\<lparr> q_world := w' \<rparr>"
    have ch: "pred_option (\<lambda>p. p < length (q_jobs q)) (map_of (q_framePendingSnap q) rootFS)"
      using assms(2) by (auto simp: q_inv_def chain_inv_def pred_option_def dest!: map_of_SomeD)
    have c: "comps_inv cfg (length (q_jobs ?q1)) (jb_comps ?job)" using full(3) ch by (simp add: comps_inv_def newJob_def)
    have j: "\<not> isSubdir ?job" "\<not> jb_done ?job" "jb_frame ?job = rootFS" by (simp_all add: newJob_def isSubdir_def)
    have e: "fifo_inv (q'\<lparr> q_framePendingSnap := al \<rparr>) = fifo_inv q'" "jobs_inv cfg (q'\<lparr> q_framePendingSnap := al \<rparr>) = jobs_inv cfg q'" for q' :: snapQueue and al
      by (simp_all add: fifo_inv_def jobs_inv_def busy_def)
    show ?thesis
      unfolding q_inv_def full(4) snd_conv e
      using fifo_enqueue [OF wi(1) [of w'] j(2)] jobs_enqueue [OF wi(2) c] chain_enqueue_full [OF wi(3) [of w'] j] by simp
  qed
qed

text \<open>A step of the worker that keeps the job it is at.\<close>

definition same_job :: "snapJob \<Rightarrow> snapJob \<Rightarrow> bool" where
  "same_job a b = (jb_frame a = jb_frame b \<and> jb_subdir a = jb_subdir b \<and> jb_comps a = jb_comps b \<and> jb_done a = jb_done b)"

lemma q_inv_same_jobs:
  assumes "q_inv cfg q" "list_all2 same_job (q_jobs q') (q_jobs q)" "q_pending q' = q_pending q" "q_framePendingSnap q' = q_framePendingSnap q"
    and "busy q' = busy q" "case q_worker q' of Indexing j cs _ \<Rightarrow> comps_inv cfg j cs | _ \<Rightarrow> True"
  shows "q_inv cfg q'"
proof -
  have l: "length (q_jobs q') = length (q_jobs q)" using assms(2) by (rule list_all2_lengthD)
  have s: "jb_frame (q_jobs q' ! j) = jb_frame (q_jobs q ! j)" "isSubdir (q_jobs q' ! j) = isSubdir (q_jobs q ! j)"
    "jb_comps (q_jobs q' ! j) = jb_comps (q_jobs q ! j)" "jb_done (q_jobs q' ! j) = jb_done (q_jobs q ! j)" if "j < length (q_jobs q)" for j
    using list_all2_nthD2 [OF assms(2) that] by (simp_all add: same_job_def isSubdir_def)
  have "fifo_inv q'" using assms(1) unfolding q_inv_def fifo_inv_def assms(3,5) l by (simp add: s Let_def)
  moreover have "jobs_inv cfg q'" using assms(1,6) unfolding q_inv_def jobs_inv_def l by (simp add: s)
  moreover have "chain_inv q'" using assms(1) unfolding q_inv_def chain_inv_def l assms(4) by (auto simp: s)
  ultimately show ?thesis by (simp add: q_inv_def)
qed

lemma same_jobs_refl: "list_all2 same_job js js"
  by (simp add: list_all2_refl same_job_def)

lemma same_jobs_update: "same_job x (js ! j) \<Longrightarrow> list_all2 same_job (js[j := x]) js"
  by (cases "j < length js") (auto simp: list_all2_conv_all_nth nth_list_update same_job_def)

lemma pop_inv:
  assumes "q_inv cfg q" "q_worker q = Idle" "q_pending q = j # js"
  shows "q_inv cfg (q\<lparr> q_pending := js, q_worker := Indexing j (jb_comps (q_jobs q ! j)) Map.empty \<rparr>)"
proof -
  let ?N = "length (q_jobs q)" and ?n = "length (q_jobs q) - Suc (length js)"
  have f: "Suc (length js) \<le> ?N" "j # js = [?n..<?N]" "\<forall>i < ?N. jb_done (q_jobs q ! i) = (i < ?n)"
    using assms unfolding q_inv_def fifo_inv_def Let_def by (auto simp: busy_def)
  from f(2) [symmetric] have j: "j = ?n" "[?n + 1..<?N] = js" unfolding upt_eq_Cons_conv by blast+
  have "?n + 1 = ?N - length js" using f(1) by linarith
  with j(2) have js: "js = [?N - length js..<?N]" by simp
  have "fifo_inv (q\<lparr> q_pending := js, q_worker := Indexing j (jb_comps (q_jobs q ! j)) Map.empty \<rparr>)"
    using f(1,3) j(1) js by (auto simp: fifo_inv_def busy_def Let_def)
  moreover have "jobs_inv cfg (q\<lparr> q_pending := js, q_worker := Indexing j (jb_comps (q_jobs q ! j)) Map.empty \<rparr>)"
    using assms(1) f(1) j(1) by (simp add: q_inv_def jobs_inv_def)
  moreover have "chain_inv (q\<lparr> q_pending := js, q_worker := Indexing j (jb_comps (q_jobs q ! j)) Map.empty \<rparr>) = chain_inv q"
    by (simp add: chain_inv_def)
  ultimately show ?thesis using assms(1) by (simp add: q_inv_def)
qed

lemma finish_inv:
  assumes "q_inv cfg q" "q_worker q = Finishing j"
  shows "q_inv cfg (finishJob j q)"
proof -
  let ?N = "length (q_jobs q)" and ?al = "q_framePendingSnap q"
  have f: "length (q_pending q) \<le> ?N" "q_pending q = [?N - length (q_pending q)..<?N]" "Suc j = ?N - length (q_pending q)"
    "\<forall>i < ?N. jb_done (q_jobs q ! i) = (i < ?N - length (q_pending q) \<and> i \<noteq> j)"
    using assms unfolding q_inv_def fifo_inv_def Let_def by (auto simp: busy_def)
  have j: "j < ?N" using f(1,3) by linarith
  have nth: "jb_frame (q_jobs (finishJob j q) ! i) = jb_frame (q_jobs q ! i)" "isSubdir (q_jobs (finishJob j q) ! i) = isSubdir (q_jobs q ! i)"
    "jb_comps (q_jobs (finishJob j q) ! i) = jb_comps (q_jobs q ! i)" "jb_done (q_jobs (finishJob j q) ! i) = (i = j \<or> jb_done (q_jobs q ! i))" for i
    using j by (cases "i = j"; simp add: finishJob_def isSubdir_def)+
  have "fifo_inv (finishJob j q)" using f j unfolding fifo_inv_def Let_def by (auto simp: nth) (simp_all add: finishJob_def busy_def)
  moreover have "jobs_inv cfg (finishJob j q)"
    using assms(1) unfolding q_inv_def jobs_inv_def by (auto simp: nth) (simp_all add: finishJob_def)
  moreover have "chain_inv (finishJob j q)"
  proof -
    have c: "distinct (map fst ?al)" "\<forall>(fr, i) \<in> set ?al. i < ?N \<and> \<not> jb_done (q_jobs q ! i) \<and> \<not> isSubdir (q_jobs q ! i)"
      "\<forall>i < ?N. \<not> jb_done (q_jobs q ! i) \<and> \<not> isSubdir (q_jobs q ! i) \<longrightarrow> (\<exists>i' \<ge> i. map_of ?al (jb_frame (q_jobs q ! i)) = Some i')"
      using assms(1) unfolding q_inv_def chain_inv_def by blast+
    have al: "q_framePendingSnap (finishJob j q) = filter (\<lambda>(fr, j'). j' \<noteq> j) ?al" and l: "length (q_jobs (finishJob j q)) = ?N"
      by (simp_all add: finishJob_def)
    have d: "distinct (map fst (filter (\<lambda>(fr, j'). j' \<noteq> j) ?al))" using c(1) by (rule distinct_map_filter)
    have "\<exists>i' \<ge> i. map_of (filter (\<lambda>(fr, j'). j' \<noteq> j) ?al) (jb_frame (q_jobs q ! i)) = Some i'"
      if i: "i < ?N" "i \<noteq> j" "\<not> jb_done (q_jobs q ! i)" "\<not> isSubdir (q_jobs q ! i)" for i
    proof -
      from c(3) i obtain i' where i': "i \<le> i'" "map_of ?al (jb_frame (q_jobs q ! i)) = Some i'" by blast
      have "i > j" using f(3,4) i by auto
      with i' have "(jb_frame (q_jobs q ! i), i') \<in> set (filter (\<lambda>(fr, j'). j' \<noteq> j) ?al)" by (auto dest: map_of_SomeD)
      with d i'(1) show ?thesis by (intro exI [of _ i'] conjI map_of_is_SomeI)
    qed
    then show ?thesis unfolding chain_inv_def al l using c(2) d by (auto simp: nth)
  qed
  ultimately show ?thesis by (simp add: q_inv_def)
qed

lemma worker_inv:
  assumes "q_inv cfg q" "workerStep cfg ev q = Some q'"
  shows "q_inv cfg q'"
proof (cases "q_worker q")
  case Idle
  with assms show ?thesis by (auto simp: workerStep_def split: list.splits intro: pop_inv)
next
  case (Finishing j)
  with assms show ?thesis by (auto simp: workerStep_def intro: finish_inv)
next
  case (Indexing j cs fin)
  have ci: "comps_inv cfg j cs" using assms(1) Indexing by (simp add: q_inv_def jobs_inv_def)
  show ?thesis
  proof (cases cs)
    case Nil
    with Indexing assms(2) have "q' = indexedJob (we_now ev) j fin q" by (simp add: workerStep_def)
    then show ?thesis using assms(1) Indexing
      by (intro q_inv_same_jobs [OF assms(1)]) (auto simp: indexedJob_def Let_def busy_def same_job_def intro!: same_jobs_update)
  next
    case (Cons c cs')
    with ci have "comps_inv cfg j cs'" by (simp add: comps_inv_def)
    then show ?thesis using assms(2) Indexing Cons
      by (intro q_inv_same_jobs [OF assms(1)])
         (auto simp: workerStep_def failJob_def Let_def busy_def same_job_def same_jobs_refl intro!: same_jobs_update split: prod.splits sum.splits)
  qed
qed (use assms(2) in \<open>(intro q_inv_same_jobs [OF assms(1)]; auto simp: workerStep_def Let_def busy_def same_jobs_refl split: list.splits if_splits)\<close>)+

lemma inv_map:
  "q_inv cfg (q\<lparr> q_world := w, q_framePendingSnap := al, q_forks := fk \<rparr>) = (fifo_inv q \<and> jobs_inv cfg q \<and> chain_inv (q\<lparr> q_framePendingSnap := al \<rparr>))"
  "q_inv cfg q \<Longrightarrow> fifo_inv q" "q_inv cfg q \<Longrightarrow> jobs_inv cfg q"
  by (simp_all add: q_inv_def fifo_inv_def jobs_inv_def chain_inv_def busy_def)

lemma fork_locked_inv:
  assumes "cfg_snapsDir cfg \<noteq> []" "q_inv cfg q" "new \<notin> jb_frame ` set (q_jobs q)" "new \<noteq> rootFS"
  shows "q_inv cfg (forkLocked cfg ce ok rootFS new meta q)"
proof -
  obtain r q1 where run: "captureSnapJobLocked cfg ce rootFS [] q = (r, q1)" by fastforce
  have q1: "q_inv cfg q1" using capture_inv [OF assms(1,2), of ce rootFS "[]"] run by simp
  have wire: "q_inv cfg (q1\<lparr> q_world := w', q_framePendingSnap := AList.update new j (q_framePendingSnap q1), q_forks := fk \<rparr>)"
    if r: "r = Inr j" for j w' fk
    using assms(1)
  proof (cases rule: capture_cases [of cfg ce rootFS "[]" q])
    case (full comps w1)
    have j: "j = length (q_jobs q)" and jobs: "q_jobs q1 = q_jobs q @ [newJob rootFS [] comps]"
      using full(4) run r by (auto simp: enqueueLocked_def)
    have nf: "jb_frame (q_jobs q1 ! i) \<noteq> new" if "i < length (q_jobs q1)" for i
      using that assms(3,4) unfolding jobs by (auto simp: nth_append newJob_def less_Suc_eq)
    let ?al = "q_framePendingSnap q1"
    have d: "distinct (map fst ?al)" using q1 by (simp add: q_inv_def chain_inv_def)
    have "chain_inv (q1\<lparr> q_framePendingSnap := AList.update new j ?al \<rparr>)"
      using q1 nf d unfolding q_inv_def chain_inv_def
      by (auto simp: update_conv' distinct_update jobs j newJob_def isSubdir_def dest: set_AList_update [OF _ d])
    then show ?thesis using q1 by (simp add: inv_map)
  qed (use run r in \<open>auto simp: enqueueLocked_def\<close>)
  show ?thesis using q1 wire unfolding forkLocked_def run by (auto split: sum.split option.split)
qed

lemma step_inv:
  assumes "cfg_snapsDir cfg \<noteq> []" "step cfg a q q'" "q_inv cfg q"
  shows "q_inv cfg q'"
  using assms(2)
proof cases
  case (forkLocked a rootFS new meta b ce ok)
  with assms(1,3) show ?thesis by (auto intro!: fork_locked_inv simp: q_inv_world)
next
  case (worker ev)
  with assms(3) show ?thesis by (auto intro: worker_inv)
qed (use assms(1,3) in \<open>auto simp: capture_inv q_inv_world forkBegin_def forkSetup_def forkStamp_def Let_def split: option.split\<close>)

lemma reachable_inv:
  assumes "cfg_snapsDir cfg \<noteq> []" "reachable cfg q"
  shows "q_inv cfg q"
  using assms(2)
proof induction
  case (start w)
  show ?case by (simp add: q_inv_def fifo_inv_def jobs_inv_def chain_inv_def newSnapQueue_def busy_def)
next
  case (step q a q')
  then show ?case by (blast intro: step_inv [OF assms(1)])
qed

section \<open>The worker drains the queue\<close>

definition jobWork :: "snapQueue \<Rightarrow> nat \<Rightarrow> nat" where
  "jobWork q j = length (jb_comps (q_jobs q ! j)) + 2 * length (q_framePendingSnap q) + 9"

text \<open>A bound on the steps the worker still has to make.\<close>

definition work :: "snapQueue \<Rightarrow> nat" where
  "work q = sum_list (map (jobWork q) (q_pending q)) +
     (let f = 2 * length (q_framePendingSnap q) in
      case q_worker q of Idle \<Rightarrow> 0 | Indexing j cs _ \<Rightarrow> length cs + f + 8 | Stamping _ _ \<Rightarrow> f + 6 | Updating _ _ \<Rightarrow> f + 5 | Listing _ _ \<Rightarrow> f + 4
      | Forks _ _ ffs \<Rightarrow> 2 * length ffs + 3 | ForkMeta _ _ ffs \<Rightarrow> 2 * length ffs + 2 | Finishing _ \<Rightarrow> 1)"

lemma work_less:
  assumes "length (q_jobs q') = length (q_jobs q)" "\<forall>j. length (jb_comps (q_jobs q' ! j)) = length (jb_comps (q_jobs q ! j))"
    and "length (q_framePendingSnap q') \<le> length (q_framePendingSnap q)" "q_pending q' = q_pending q"
    and "work (q'\<lparr> q_pending := [] \<rparr>) < work (q\<lparr> q_pending := [] \<rparr>)"
  shows "work q' < work q"
proof -
  have "sum_list (map (jobWork q') (q_pending q)) \<le> sum_list (map (jobWork q) (q_pending q))"
    using assms(2,3) by (intro sum_list_mono) (simp add: jobWork_def)
  then show ?thesis using assms(4,5) by (simp add: work_def)
qed

lemma comps_list_update: "jb_comps x = jb_comps (js ! j) \<Longrightarrow> length (jb_comps (js[j := x] ! i)) = length (jb_comps (js ! i))"
  by (cases "j < length js"; cases "i = j") (auto simp: list_update_beyond)

lemma jobWork_cong: "jobWork (q\<lparr> q_pending := js, q_worker := w \<rparr>) = jobWork q"
  by (intro ext) (simp add: jobWork_def)

lemma worker_progress: "workerStep cfg ev q = None \<longleftrightarrow> q_worker q = Idle \<and> q_pending q = []"
  by (auto simp: workerStep_def Let_def split: worker.splits list.splits prod.splits sum.splits)

lemma worker_work:
  assumes "workerStep cfg ev q = Some q'"
  shows "work q' < work q"
proof (cases "q_worker q")
  case Idle
  with assms show ?thesis by (auto simp: workerStep_def work_def jobWork_cong Let_def split: list.splits) (simp add: jobWork_def)
next
  case (Indexing j cs fin)
  show ?thesis
  proof (cases cs)
    case Nil
    with Indexing assms have q': "q' = indexedJob (we_now ev) j fin q" by (simp add: workerStep_def)
    show ?thesis unfolding q'
      by (rule work_less) (simp_all add: indexedJob_def Let_def comps_list_update work_def Indexing Nil)
  next
    case (Cons c cs')
    obtain r w' where run: "indexAndFinalizeSubvol cfg (we_index ev) (pc_tmpPath c) (jb_subdir (q_jobs q ! j)) (resolveParent (q_jobs q) c)
        (pc_taints c) (q_world q) = (r, w')" by fastforce
    show ?thesis
    proof (cases r)
      case (Inl e)
      with Indexing Cons assms run have q': "q' = failJob (ie_delete (we_index ev)) j fin e (q\<lparr> q_world := w' \<rparr>)" by (simp add: workerStep_def)
      show ?thesis unfolding q'
        by (rule work_less) (simp_all add: failJob_def Let_def comps_list_update work_def Indexing Cons)
    next
      case (Inr sid)
      with Indexing Cons assms run have q': "q' = q\<lparr> q_world := w', q_worker := Indexing j cs' (fin(pc_kind c \<mapsto> sid)) \<rparr>" by (simp add: workerStep_def)
      show ?thesis unfolding q' by (rule work_less) (simp_all add: work_def Indexing Cons)
    qed
  qed
next
  case (Listing j h)
  have "length (iterOrder ev (forkedFramesForJob q j)) = length (forkedFramesForJob q j)"
    by (auto simp: iterOrder_def dest: mset_eq_length)
  also have "\<dots> \<le> length (q_framePendingSnap q)" by (simp add: forkedFramesForJob_def)
  finally have l: "length (iterOrder ev (forkedFramesForJob q j)) \<le> length (q_framePendingSnap q)" .
  from Listing assms have q': "q' = q\<lparr> q_worker := Forks j h (iterOrder ev (forkedFramesForJob q j)) \<rparr>" by (simp add: workerStep_def)
  show ?thesis unfolding q' by (rule work_less) (insert l, simp_all add: work_def Listing)
next
  case (Finishing j)
  with assms have q': "q' = finishJob j q" by (simp add: workerStep_def)
  show ?thesis unfolding q' by (rule work_less) (simp_all add: finishJob_def work_def comps_list_update Finishing)
next
  case (Forks j h ffs)
  show ?thesis
  proof (cases ffs)
    case Nil
    with Forks assms have q': "q' = q\<lparr> q_worker := Finishing j \<rparr>" by (simp add: workerStep_def)
    show ?thesis unfolding q' by (rule work_less) (simp_all add: work_def Forks)
  next
    case (Cons f fs)
    with Forks assms obtain w' where q': "q' = q\<lparr> q_world := w', q_worker := ForkMeta j h (f # fs) \<rparr>" by (auto simp: workerStep_def Let_def)
    show ?thesis unfolding q' by (rule work_less) (simp_all add: work_def Forks Cons)
  qed
next
  case (ForkMeta j h ffs)
  show ?thesis
  proof (cases ffs)
    case Nil
    with ForkMeta assms have q': "q' = q\<lparr> q_worker := Finishing j \<rparr>" by (simp add: workerStep_def)
    show ?thesis unfolding q' by (rule work_less) (simp_all add: work_def ForkMeta)
  next
    case (Cons f fs)
    with ForkMeta assms obtain w' where q': "q' = q\<lparr> q_world := w', q_worker := Forks j h fs \<rparr>" by (auto simp: workerStep_def)
    show ?thesis unfolding q' by (rule work_less) (simp_all add: work_def ForkMeta Cons)
  qed
next
  case (Stamping j h)
  with assms obtain w' where q': "q' = q\<lparr> q_world := w', q_worker := Updating j h \<rparr>" by (auto simp: workerStep_def Let_def)
  show ?thesis unfolding q' by (rule work_less) (simp_all add: work_def Stamping)
next
  case (Updating j h)
  with assms obtain w' x where q': "q' = q\<lparr> q_world := w', q_worker := x \<rparr>" "x = Finishing j \<or> x = Listing j h"
    by (auto simp: workerStep_def Let_def split: if_splits)
  show ?thesis unfolding q'(1) by (rule work_less) (insert q'(2), auto simp add: work_def Updating)
qed

text \<open>The worker running alone; it stops where it would wait for a new job.\<close>

primrec drain :: "snapcfg \<Rightarrow> (nat \<Rightarrow> worker_env) \<Rightarrow> nat \<Rightarrow> snapQueue \<Rightarrow> snapQueue" where
  "drain cfg evs 0 q = q"
| "drain cfg evs (Suc n) q = (case workerStep cfg (evs n) q of None \<Rightarrow> q | Some q' \<Rightarrow> drain cfg evs n q')"

lemma drain_idle: "work q \<le> n \<Longrightarrow> q_worker (drain cfg evs n q) = Idle \<and> q_pending (drain cfg evs n q) = []"
proof (induction n arbitrary: q)
  case 0
  then have "workerStep cfg (evs 0) q = None" using worker_work [of cfg "evs 0" q] by (cases "workerStep cfg (evs 0) q") auto
  then show ?case by (simp add: worker_progress)
next
  case (Suc n)
  show ?case
  proof (cases "workerStep cfg (evs n) q")
    case None
    then have "q_worker q = Idle \<and> q_pending q = []" by (simp only: worker_progress)
    with None show ?thesis by simp
  next
    case (Some q')
    with Suc worker_work [OF Some] show ?thesis by simp
  qed
qed

lemma drain_reachable: "reachable cfg q \<Longrightarrow> reachable cfg (drain cfg evs n q)"
  by (induction n arbitrary: q) (auto split: option.split intro: reachable.step step.worker)

lemma drain_jobs: "length (q_jobs (drain cfg evs n q)) = length (q_jobs q)"
proof (induction n arbitrary: q)
  case (Suc n)
  have "length (q_jobs q') = length (q_jobs q)" if "workerStep cfg (evs n) q = Some q'" for q'
    using that by (auto simp: workerStep_def indexedJob_def failJob_def finishJob_def Let_def split: worker.splits list.splits prod.splits sum.splits if_splits)
  with Suc show ?case by (auto split: option.split)
qed simp

section \<open>What happens to a sidecar\<close>

text \<open>Nothing that is known of a frame gets lost: taints, history, isolation, creation time.\<close>

definition sidecar_le :: "Frame \<Rightarrow> Frame \<Rightarrow> bool" where
  "sidecar_le m m' = (set (fr_Taints m) \<subseteq> set (fr_Taints m') \<and> suffix (fr_History m) (fr_History m') \<and>
     fr_Isolation m' = fr_Isolation m \<and> fr_CreatedAt m' = fr_CreatedAt m)"

lemma sidecar_le_refl: "sidecar_le m m"
  by (simp add: sidecar_le_def)

named_theorems sidecar_grows

lemma sidecar_le_mutators [sidecar_grows]:
  "sidecar_le m (setSnaps fin h m)" "sidecar_le m (m\<lparr> fr_History := h # fr_History m \<rparr>)" "sidecar_le m (taintMutator stamp t m)"
  by (auto simp: sidecar_le_def setSnaps_def taintMutator_def Let_def set_UnionTaints suffix_def)

text \<open>A path that is not in the snaps directory.\<close>

definition outside :: "snapcfg \<Rightarrow> string \<Rightarrow> bool" where
  "outside cfg p = (\<not> prefix (dirPrefix (cfg_snapsDir cfg)) p)"

lemma outside_Join: "\<lbrakk>outside cfg p; cfg_snapsDir cfg \<noteq> []; plain c\<rbrakk> \<Longrightarrow> p \<noteq> filepath_Join [cfg_snapsDir cfg, c] @ x"
  by (auto simp: outside_def Join_plain)

lemma outside_tmp: "\<lbrakk>outside cfg p; tmpName (cfg_snapsDir cfg) tmp\<rbrakk> \<Longrightarrow> p \<noteq> tmp @ x"
  using outside_Join [of cfg p] by (auto simp: tmpName_def)

lemma outside_tmpFiles: "\<lbrakk>outside cfg p; tmpName (cfg_snapsDir cfg) tmp\<rbrakk> \<Longrightarrow> p \<notin> tmpFiles tmp"
  using outside_tmp [of cfg p tmp] by (auto simp: tmpFiles_def)

lemma outside_meta:
  assumes "outside cfg p" "cfg_snapsDir cfg \<noteq> []"
  shows "p \<noteq> snapMetaPath (cfg_snapsDir cfg) (Encode h)"
proof -
  have "snapKey (Encode h)" using Encode_plain(1) [of h] by (simp add: snapKey_def plain_def)
  then show ?thesis using outside_Join [OF assms snapKey_plain, of "Encode h" "[]"] by (simp add: snapMetaPath_def)
qed

lemma finalize_outside:
  assumes "outside cfg p" "tmpName (cfg_snapsDir cfg) tmp" "indexAndFinalizeSubvol cfg e tmp subdir parent taints w = (r, w')"
  shows "w_files w' p = w_files w p"
proof -
  have d: "cfg_snapsDir cfg \<noteq> []" using assms(2) by (simp add: tmpName_def)
  have t: "p \<noteq> tmp @ x" for x using assms(1,2) by (rule outside_tmp)
  have f: "p \<noteq> filepath_Join [cfg_snapsDir cfg, Encode h] @ x" for h x using assms(1) d Encode_plain(1) by (rule outside_Join)
  have m: "p \<noteq> snapMetaPath (cfg_snapsDir cfg) (Encode h)" for h using assms(1) d by (rule outside_meta)
  from assms(3) show ?thesis
  proof (cases rule: finalize_cases)
    case (fails err)
    then show ?thesis using outside_tmpFiles [OF assms(1,2)] by blast
  next
    case (dedup ma fs)
    show ?thesis unfolding dedup(4)
      using indexTmp_files [OF outside_tmpFiles [OF assms(1,2)] dedup(2)] by (simp add: cleanupTmp_def Remove_def t m dedupTaints_files)
  next
    case (installs ma fs)
    have r: "snd (Rename ok (tmp @ x) (filepath_Join [cfg_snapsDir cfg, Encode h] @ y) fs) p = fs p" for ok x h y fs
      by (rule Rename_files) (rule t, rule f)
    have wm: "snd (writeSnapMeta js wr (cfg_snapsDir cfg) (Encode h) meta fs) p = fs p" for js wr h meta fs
      using m by (simp add: writeSnapMeta_def WriteFile_def split: os_write.split)
    show ?thesis unfolding installs(5)
      using indexTmp_files [OF outside_tmpFiles [OF assms(1,2)] installs(2)] by (simp add: installSnap_def Let_def wm r)
  qed
qed

lemma cleanupCaptured_outside:
  "\<lbrakk>outside cfg p; \<forall>c \<in> set comps. tmpName (cfg_snapsDir cfg) (pc_tmpPath c)\<rbrakk> \<Longrightarrow> w_files (cleanupCaptured del comps w) p = w_files w p"
proof (induction comps arbitrary: w)
  case (Cons c comps)
  then have "p \<noteq> pc_tmpPath c @ ''.stamp''" using outside_tmp [of cfg p "pc_tmpPath c"] by simp
  with Cons show ?case by (simp add: cleanupCaptured_def Remove_def)
qed (simp add: cleanupCaptured_def)

lemma sidecar_other_files: "f @ ''.jsonc'' \<notin> {g @ ''.stamp'', g @ ''.stamp.tmp''}" "f \<noteq> g \<Longrightarrow> f @ ''.jsonc'' \<notin> {g @ ''.jsonc'', g @ ''.jsonc.tmp''}"
proof -
  have l: "xs @ a \<noteq> ys @ b" if "last a \<noteq> last b" "a \<noteq> []" "b \<noteq> []" for xs ys a b :: string
    using that by (metis last_appendR)
  show "f @ ''.jsonc'' \<notin> {g @ ''.stamp'', g @ ''.stamp.tmp''}" using l [of "''.jsonc''" "''.stamp''"] l [of "''.jsonc''" "''.stamp.tmp''"] by simp
  show "f @ ''.jsonc'' \<notin> {g @ ''.jsonc'', g @ ''.jsonc.tmp''}" if "f \<noteq> g" using that l [of "''.jsonc''" "''.jsonc.tmp''"] by simp
qed

lemma readFrameSidecar_cong: "fs (f @ ''.jsonc'') = fs' (f @ ''.jsonc'') \<Longrightarrow> readFrameSidecar js f fs = readFrameSidecar js f fs'"
  by (simp add: readFrameSidecar_def)

definition grows :: "snapcfg \<Rightarrow> string \<Rightarrow> world \<Rightarrow> world \<Rightarrow> bool" where
  "grows cfg f w w' = (\<forall>m. readFrameSidecar (cfg_frame cfg) f (w_files w) = Some m \<longrightarrow>
     (\<exists>m'. readFrameSidecar (cfg_frame cfg) f (w_files w') = Some m' \<and> sidecar_le m m'))"

lemma grows_same: "w_files w' (f @ ''.jsonc'') = w_files w (f @ ''.jsonc'') \<Longrightarrow> grows cfg f w w'"
  by (auto simp: grows_def readFrameSidecar_def sidecar_le_refl)

lemma grows_stamp: "w_files w' = snd (writeStampFile r g sid (w_files w)) \<Longrightarrow> grows cfg f w w'"
  by (rule grows_same) (simp add: writeStampFile_files [OF sidecar_other_files(1)])

lemma grows_update:
  assumes "cfg_ok cfg" "\<And>m. sidecar_le m (mut m)"
  shows "grows cfg f w (snd (updateFrameMetaLocked cfg r g mut w))"
proof -
  let ?meta = "case readFrameSidecar (cfg_frame cfg) g (w_files w) of None \<Rightarrow> emptyFrame | Some m \<Rightarrow> m"
  have w': "w_files (snd (updateFrameMetaLocked cfg r g mut w)) = snd (writeFrameSidecar (cfg_frame cfg) r g (mut ?meta) (w_files w))"
    by (simp add: updateFrameMetaLocked_def Let_def split: prod.split bool.split)
  show ?thesis
  proof (cases "f = g")
    case False
    then show ?thesis unfolding w' by (intro grows_same) (simp add: w' writeFrameSidecar_files [OF sidecar_other_files(2)])
  next
    case True
    have "json_law (cfg_frame cfg)" using assms(1) by (simp add: cfg_ok_def)
    from readFrameSidecar_write [OF this, of f r "mut ?meta" "w_files w"] show ?thesis
      using assms(2) unfolding grows_def w' True by (auto simp: sidecar_le_refl)
  qed
qed

lemma worker_grows:
  assumes "cfg_ok cfg" "q_inv cfg q" "outside cfg (f @ ''.jsonc'')" "workerStep cfg ev q = Some q'"
  shows "grows cfg f (q_world q) (q_world q')"
proof (cases "q_worker q")
  case (Indexing j cs fin)
  have ci: "comps_inv cfg j cs" using assms(2) Indexing by (simp add: q_inv_def jobs_inv_def)
  have j: "j < length (q_jobs q)" using assms(2) Indexing by (auto simp: q_inv_def fifo_inv_def busy_def Let_def)
  then have cj: "comps_inv cfg j (jb_comps (q_jobs q ! j))" using assms(2) by (simp add: q_inv_def jobs_inv_def)
  show ?thesis
  proof (cases cs)
    case Nil
    with Indexing assms(4) show ?thesis by (intro grows_same) (auto simp: workerStep_def indexedJob_def Let_def)
  next
    case (Cons c cs')
    obtain r w' where run: "indexAndFinalizeSubvol cfg (we_index ev) (pc_tmpPath c) (jb_subdir (q_jobs q ! j)) (resolveParent (q_jobs q) c)
        (pc_taints c) (q_world q) = (r, w')" by fastforce
    have tn: "tmpName (cfg_snapsDir cfg) (pc_tmpPath c)" using ci Cons by (simp add: comps_inv_def)
    have a: "w_files w' (f @ ''.jsonc'') = w_files (q_world q) (f @ ''.jsonc'')" by (rule finalize_outside [OF assms(3) tn run])
    have b: "w_files (cleanupCaptured del (filter P (jb_comps (q_jobs q ! j))) w) (f @ ''.jsonc'') = w_files w (f @ ''.jsonc'')" for del P w
      using cj by (intro cleanupCaptured_outside [OF assms(3)]) (simp add: comps_inv_def)
    show ?thesis using Indexing Cons assms(4) run a b by (intro grows_same) (auto simp: workerStep_def failJob_def Let_def split: sum.splits)
  qed
next
  case Idle
  with assms(4) show ?thesis by (intro grows_same) (auto simp: workerStep_def split: list.splits)
next
  case (Stamping j h)
  with assms(4) show ?thesis by (intro grows_stamp) (auto simp: workerStep_def Let_def)
next
  case (Updating j h)
  with assms(4) grows_update [OF assms(1) sidecar_le_mutators(1)] grows_update [OF assms(1) sidecar_le_mutators(2)] show ?thesis
    by (auto simp: workerStep_def Let_def split: if_splits)
next
  case (Forks j h ffs)
  with assms(4) show ?thesis by (cases ffs) (auto simp: workerStep_def Let_def intro: grows_same grows_stamp)
next
  case (ForkMeta j h ffs)
  with assms(4) grows_update [OF assms(1) sidecar_le_mutators(1)] show ?thesis by (cases ffs) (auto simp: workerStep_def intro: grows_same)
qed (use assms(4) in \<open>(intro grows_same; auto simp: workerStep_def finishJob_def)\<close>)+

lemma captureComponent_outside:
  assumes "outside cfg p" "\<forall>c \<in> set comps. tmpName (cfg_snapsDir cfg) (pc_tmpPath c)" "captureComponent cfg del t e pc path comps w = (r, w')"
  shows "w_files w' p = w_files w p"
  using assms(3) captureSubvol_files [of cfg "\<lambda>_ _. None" t path "[]" w] cleanupCaptured_outside [OF assms(1,2)]
  by (auto simp: captureComponent_def split: if_splits prod.splits sum.splits)

lemma captureComponent_names:
  assumes "cfg_snapsDir cfg \<noteq> []" "captureComponent cfg del t e pc path comps w = (Inr comps', w')"
    and "\<forall>c \<in> set comps. tmpName (cfg_snapsDir cfg) (pc_tmpPath c)"
  shows "\<forall>c \<in> set comps'. tmpName (cfg_snapsDir cfg) (pc_tmpPath c)"
  using assms captureSubvol_name(1) [OF assms(1), of "\<lambda>_ _. None" t path "[]" w]
  by (auto simp: captureComponent_def split: if_splits prod.splits sum.splits)

lemma captureParts_outside:
  assumes "outside cfg p" "cfg_snapsDir cfg \<noteq> []" "captureParts cfg ce rootFS pr ph pw w = (r, w')"
  shows "w_files w' p = w_files w p"
proof -
  obtain r1 w1 where c1: "captureSubvol cfg (\<lambda>_ _. None) (ce_root ce) rootFS [] w = (r1, w1)" by fastforce
  have w1: "w_files w1 = w_files w" using captureSubvol_files [of cfg "\<lambda>_ _. None" "ce_root ce" rootFS "[]" w] c1 by simp
  show ?thesis
  proof (cases r1)
    case (Inl e)
    with assms(3) c1 w1 show ?thesis by (simp add: captureParts_def Let_def)
  next
    case (Inr tmp)
    have t: "\<forall>c \<in> set [pr\<lparr> pc_tmpPath := tmp \<rparr>]. tmpName (cfg_snapsDir cfg) (pc_tmpPath c)"
      using captureSubvol_name(1) [OF assms(2) c1 [unfolded Inr]] by simp
    obtain r2 w2 where c2: "captureComponent cfg (ce_delete ce) (ce_home ce) SnapHomeNotSubvol ph (filepath_Join [rootFS, ''home'']) [pr\<lparr> pc_tmpPath := tmp \<rparr>] w1 = (r2, w2)"
      by fastforce
    note w2 = captureComponent_outside [OF assms(1) t c2]
    show ?thesis
    proof (cases r2)
      case Inl2: (Inl e)
      with assms(3) c1 c2 Inr w1 w2 show ?thesis by (simp add: captureParts_def Let_def)
    next
      case Inr2: (Inr comps)
      have c3: "captureComponent cfg (ce_delete ce) (ce_work ce) SnapWorkNotSubvol pw (filepath_Join [rootFS, ''work'']) comps w2 = (r, w')"
        using assms(3) c1 c2 Inr Inr2 by (simp add: captureParts_def Let_def)
      from captureComponent_outside [OF assms(1) captureComponent_names [OF assms(2) c2 [unfolded Inr2] t] c3] w1 w2 show ?thesis by simp
    qed
  qed
qed

lemma capture_outside:
  assumes "outside cfg p" "cfg_snapsDir cfg \<noteq> []"
  shows "w_files (q_world (snd (captureSnapJobLocked cfg ce rootFS subdir q))) p = w_files (q_world q) p"
proof (cases "subdir = []")
  case False
  then show ?thesis using captureSubvol_files [of cfg "ce_reduce ce" "ce_root ce" rootFS "the (Validate subdir)" "q_world q"]
    by (auto simp: captureSnapJobLocked_def captureSubdir_def enqueueLocked_def Let_def split: option.splits prod.split sum.split)
next
  case True
  then show ?thesis
    by (auto simp: captureSnapJobLocked_def enqueueLocked_def Let_def split: prod.split sum.split dest: captureParts_outside [OF assms])
qed

lemma step_grows:
  assumes "cfg_ok cfg" "q_inv cfg q" "outside cfg (f @ ''.jsonc'')" "step cfg a q q'" "a \<noteq> AForkSetup f"
  shows "grows cfg f (q_world q) (q_world q')"
proof -
  have d: "cfg_snapsDir cfg \<noteq> []" using assms(1) by (simp add: cfg_ok_def)
  note cap = capture_outside [OF assms(3) d]
  from assms(4) show ?thesis
  proof cases
    case (capture ce rootFS subdir)
    then show ?thesis using cap by (auto intro: grows_same)
  next
    case (forkLocked a rootFS new meta b ce ok)
    have cl: "w_files w' = w_files w" if "cloneFrameSubvolsLocked ok p job w = Some w'" for ok p job w w'
      using that by (auto simp: cloneFrameSubvolsLocked_def cloneSubvol_def Let_def bind_eq_Some_conv split: if_splits option.splits)
    show ?thesis using cap [of ce rootFS "[]" "q\<lparr> q_forks := a @ b \<rparr>"] unfolding forkLocked
      by (intro grows_same) (auto simp: Snap_Queue.forkLocked_def split: prod.split sum.split option.split dest: cl)
  next
    case (forkSetup a new meta b ok r now)
    have cl: "w_files w' p = snd (writeFrameSidecar (cfg_frame cfg) r new (meta\<lparr> fr_CreatedAt := Some now \<rparr>) (w_files w)) p"
      if "cloneFrameSetup cfg ok r now new meta w = Some w'" for w w' p
      using that by (auto simp: cloneFrameSetup_def ensureSubvol_def bind_eq_Some_conv split: if_splits)
    show ?thesis using assms(5) unfolding forkSetup
      by (intro grows_same) (auto simp: Snap_Queue.forkSetup_def cl writeFrameSidecar_files [OF sidecar_other_files(2)] split: option.split)
  next
    case (taint rootFS t r)
    have "snd (snd (handleTaint cfg r rootFS t (q_world q))) = (if t = [] then q_world q
      else snd (updateFrameMetaLocked cfg r rootFS (taintMutator (readStampFile rootFS (w_files (q_world q))) t) (q_world q)))"
      by (simp add: handleTaint_def split: prod.split option.split)
    then show ?thesis using taint grows_update [OF assms(1) sidecar_le_mutators(3)] by (auto intro: grows_same)
  next
    case (worker ev)
    then show ?thesis using worker_grows [OF assms(1-3)] by simp
  next
    case (forkStamp a new sid b r)
    then show ?thesis by (intro grows_stamp) (auto simp: Snap_Queue.forkStamp_def Let_def)
  qed (auto simp: forkBegin_def intro: grows_same)
qed

section \<open>Properties\<close>

text \<open>
  C3: In every interleaving of captures, forks, taints and the worker, the snap a captured component
  chains to is an earlier job and is already finished when the worker indexes the component,
  so that its content ID is known by then.
\<close>

theorem parent_finished_first:
  assumes "cfg_ok cfg" "reachable cfg q" "q_worker q = Indexing j (c # cs) fin" "pc_parentJob c = Some p"
  shows "p < j \<and> j < length (q_jobs q) \<and> jb_done (q_jobs q ! p)"
proof -
  have i: "q_inv cfg q" using reachable_inv assms(1,2) by (simp add: cfg_ok_def)
  have b: "busy q = Some j" using assms(3) by (simp add: busy_def)
  have f: "length (q_pending q) \<le> length (q_jobs q)" "Suc j = length (q_jobs q) - length (q_pending q)"
    "\<forall>i < length (q_jobs q). jb_done (q_jobs q ! i) = (i < Suc j \<and> i \<noteq> j)"
    using i unfolding q_inv_def fifo_inv_def Let_def b by auto
  have "p < j" using i assms(3,4) by (simp add: q_inv_def jobs_inv_def comps_inv_def)
  with f show ?thesis by auto
qed

text \<open>
  A capture of a frame that has an unfinished snap is chained to it or to a later unfinished one:
  no pending snap of the frame is skipped.
\<close>

theorem capture_chains_to_pending:
  assumes "cfg_ok cfg" "reachable cfg q" "captureSnapJobLocked cfg ce rootFS [] q = (Inr j, q')"
    and "i < length (q_jobs q)" "jb_frame (q_jobs q ! i) = rootFS" "\<not> isSubdir (q_jobs q ! i)" "\<not> jb_done (q_jobs q ! i)"
  shows "jb_comps (q_jobs q' ! j) \<noteq> [] \<and> (\<exists>p. i \<le> p \<and> p < j \<and> \<not> jb_done (q_jobs q ! p) \<and>
    (\<forall>c \<in> set (jb_comps (q_jobs q' ! j)). pc_parentJob c = Some p))"
proof -
  have d: "cfg_snapsDir cfg \<noteq> []" using assms(1) by (simp add: cfg_ok_def)
  have ch: "chain_inv q" using reachable_inv [OF d assms(2)] by (simp add: q_inv_def)
  then obtain p where p: "i \<le> p" "map_of (q_framePendingSnap q) rootFS = Some p"
    using assms(4-7) unfolding chain_inv_def by blast
  have p': "p < length (q_jobs q)" "\<not> jb_done (q_jobs q ! p)"
    using ch map_of_SomeD [OF p(2)] by (auto simp: chain_inv_def)
  from d show ?thesis
  proof (cases rule: capture_cases [of cfg ce rootFS "[]" q])
    case (full comps w')
    with assms(3) have j: "j = length (q_jobs q)" "jb_comps (q_jobs q' ! j) = comps" by (auto simp: enqueueLocked_def newJob_def)
    with full(2,3) p p' show ?thesis by auto
  qed (use assms(3) in auto)
qed

text \<open>
  C22: The worker terminates and never gets stuck: from every reachable state, whatever the system calls
  return, it finishes all jobs within a number of steps that is known in advance.
\<close>

theorem worker_finishes_all_jobs:
  assumes "cfg_ok cfg" "reachable cfg q" "work q \<le> n"
  shows "q_worker (drain cfg evs n q) = Idle \<and> q_pending (drain cfg evs n q) = [] \<and>
    length (q_jobs (drain cfg evs n q)) = length (q_jobs q) \<and> (\<forall>job \<in> set (q_jobs (drain cfg evs n q)). jb_done job) \<and>
    q_framePendingSnap (drain cfg evs n q) = []"
proof -
  let ?q = "drain cfg evs n q"
  have idle: "q_worker ?q = Idle" "q_pending ?q = []" using drain_idle [OF assms(3)] by auto
  have i: "q_inv cfg ?q" using reachable_inv drain_reachable [OF assms(2)] assms(1) by (simp add: cfg_ok_def)
  have dn: "\<forall>job \<in> set (q_jobs ?q). jb_done job"
    using i idle by (auto simp: q_inv_def fifo_inv_def busy_def in_set_conv_nth Let_def)
  have "q_framePendingSnap ?q = []"
  proof (rule ccontr)
    assume "q_framePendingSnap ?q \<noteq> []"
    then obtain fr j where "(fr, j) \<in> set (q_framePendingSnap ?q)" by (cases "q_framePendingSnap ?q") auto
    with i have "j < length (q_jobs ?q)" "\<not> jb_done (q_jobs ?q ! j)" unfolding q_inv_def chain_inv_def by blast+
    with dn show False by simp
  qed
  with idle dn drain_jobs [of cfg evs n q] show ?thesis by simp
qed



section \<open>Runs of a small system\<close>

text \<open>One frame \<open>f\<close> with an empty home and work subvolume.\<close>

definition ex_world :: world where
  "ex_world = \<lparr> w_files = [''f.jsonc'' \<mapsto> j_Marshal js_frame ex_frame], w_vols = [''f'' \<mapsto> ex_vol, ''f/home'' \<mapsto> ex_vol, ''f/work'' \<mapsto> ex_vol] \<rparr>"

definition ex_ce :: "string \<Rightarrow> capture_env" where
  "ex_ce t = \<lparr> ce_root = Some t, ce_home = None, ce_work = None, ce_delete = True, ce_reduce = (\<lambda>_ _. None) \<rparr>"

text \<open>A worker whose stamp files cannot be written.\<close>

definition ex_ev :: worker_env where
  "ex_ev = \<lparr> we_index = ok_env\<lparr> ie_stamp := \<lparr> t_write = WriteNotOpened, t_rename = True \<rparr> \<rparr>, we_stamp = \<lparr> t_write = WriteOk, t_rename = True \<rparr>,
     we_sidecar = \<lparr> t_write = WriteOk, t_rename = True \<rparr>, we_now = 0, we_order = id \<rparr>"

lemma ex_capture:
  assumes "w_vols (q_world q) ''f'' = Some ex_vol" "w_vols (q_world q) ''f/home'' = Some ex_vol" "w_vols (q_world q) ''f/work'' = Some ex_vol"
    and "plain (t @ ''.tmp'')" "w_vols (q_world q) (filepath_Join [''s'', t @ ''.tmp'']) = None"
    and "filepath_Join [''s'', t @ ''.tmp''] \<notin> {''f'', ''f/home'', ''f/work''}"
  shows "\<exists>c. captureSnapJobLocked ex_cfg (ex_ce t) ''f'' [] q = (Inr (length (q_jobs q)),
      q\<lparr> q_world := (q_world q)\<lparr> w_vols := (w_vols (q_world q))(filepath_Join [''s'', t @ ''.tmp''] \<mapsto> ex_vol) \<rparr>,
         q_jobs := q_jobs q @ [newJob ''f'' [] [c]], q_pending := q_pending q @ [length (q_jobs q)],
         q_framePendingSnap := AList.update ''f'' (length (q_jobs q)) (q_framePendingSnap q) \<rparr>) \<and>
      pc_parentJob c = map_of (q_framePendingSnap q) ''f''"
proof -
  define tmp where "tmp = filepath_Join [''s'', t @ ''.tmp'']"
  have j: "filepath_Join [''f'', ''home''] = ''f/home''" "filepath_Join [''f'', ''work''] = ''f/work''" by code_simp+
  have e: "w_kids (snd (ex_vol p)) = []" for p by (simp add: ex_vol_def)
  have c: "captureSubvol ex_cfg (\<lambda>_ _. None) (ce_root (ex_ce t)) ''f'' [] (q_world q) =
      (Inr tmp, (q_world q)\<lparr> w_vols := (w_vols (q_world q))(tmp \<mapsto> ex_vol) \<rparr>)"
    using assms unfolding tmp_def by (simp add: captureSubvol_def ex_ce_def ex_cfg_def Let_def)
  have n: "captureComponent ex_cfg (ce_delete (ex_ce t)) x err pc path comps w = (Inr comps, w)" if "w_vols w path = Some ex_vol" for x err pc path comps w
    using that by (simp add: captureComponent_def isSubvolume_def isDirEmpty_def e)
  have parts: "captureParts ex_cfg (ex_ce t) ''f'' pr ph pw (q_world q) =
      (Inr [pr\<lparr> pc_tmpPath := tmp \<rparr>], (q_world q)\<lparr> w_vols := (w_vols (q_world q))(tmp \<mapsto> ex_vol) \<rparr>)" for pr ph pw
    using assms(2,3,6) unfolding captureParts_def Let_def c j tmp_def [symmetric] by (simp add: n)
  show ?thesis unfolding captureSnapJobLocked_def Let_def parts tmp_def [symmetric]
    by (simp add: enqueueLocked_def) (intro conjI impI; rule exI; rule conjI, rule refl, simp)
qed

lemma ex_first_capture:
  "\<exists>q c. reachable ex_cfg q \<and> q_world q = ex_world\<lparr> w_vols := (w_vols ex_world)(''s/a.tmp'' \<mapsto> ex_vol) \<rparr> \<and> q_jobs q = [newJob ''f'' [] [c]] \<and>
     q_pending q = [0] \<and> q_framePendingSnap q = [(''f'', 0)] \<and> q_worker q = Idle"
proof -
  let ?q0 = "newSnapQueue ex_world"
  have t: "filepath_Join [''s'', ''a'' @ ''.tmp''] = ''s/a.tmp''" by code_simp
  obtain c where c: "snd (captureSnapJobLocked ex_cfg (ex_ce ''a'') ''f'' [] ?q0) =
      ?q0\<lparr> q_world := ex_world\<lparr> w_vols := (w_vols ex_world)(''s/a.tmp'' \<mapsto> ex_vol) \<rparr>, q_jobs := [newJob ''f'' [] [c]], q_pending := [0],
           q_framePendingSnap := [(''f'', 0)] \<rparr>"
    using ex_capture [of ?q0 "''a''"] unfolding t by (auto simp: newSnapQueue_def ex_world_def plain_def)
  have "reachable ex_cfg (snd (captureSnapJobLocked ex_cfg (ex_ce ''a'') ''f'' [] ?q0))"
    by (rule reachable.step [OF reachable.start step.capture])
  then show ?thesis unfolding c by (intro exI [of _ c] exI conjI, assumption) (simp_all add: newSnapQueue_def)
qed

lemma ex_second_capture:
  assumes "q_world q = ex_world\<lparr> w_vols := (w_vols ex_world)(''s/a.tmp'' \<mapsto> ex_vol) \<rparr>" "q_jobs q = [j0]" "q_pending q = [0]" "q_framePendingSnap q = [(''f'', 0)]"
  shows "\<exists>c w'. captureSnapJobLocked ex_cfg (ex_ce ''b'') ''f'' [] q = (Inr 1, q\<lparr> q_world := w', q_jobs := [j0, newJob ''f'' [] [c]], q_pending := [0, 1],
     q_framePendingSnap := [(''f'', 1)] \<rparr>) \<and> pc_parentJob c = Some 0"
proof -
  have t: "filepath_Join [''s'', ''b'' @ ''.tmp''] = ''s/b.tmp''" by code_simp
  show ?thesis using ex_capture [of q "''b''"] assms unfolding t by (auto simp: ex_world_def plain_def)
qed

theorem capture_chains_to_pending_witness:
  "\<exists>q q'. reachable ex_cfg q \<and> captureSnapJobLocked ex_cfg (ex_ce ''b'') ''f'' [] q = (Inr 1, q') \<and>
     map pc_parentJob (jb_comps (q_jobs q' ! 1)) = [Some 0] \<and> \<not> jb_done (q_jobs q ! 0)"
proof -
  obtain q c where q: "reachable ex_cfg q" "q_world q = ex_world\<lparr> w_vols := (w_vols ex_world)(''s/a.tmp'' \<mapsto> ex_vol) \<rparr>" "q_jobs q = [newJob ''f'' [] [c]]"
    "q_pending q = [0]" "q_framePendingSnap q = [(''f'', 0)]" using ex_first_capture by (elim exE conjE)
  obtain c' w' where c': "captureSnapJobLocked ex_cfg (ex_ce ''b'') ''f'' [] q = (Inr 1, q\<lparr> q_world := w', q_jobs := [newJob ''f'' [] [c], newJob ''f'' [] [c']],
      q_pending := [0, 1], q_framePendingSnap := [(''f'', 1)] \<rparr>)" using ex_second_capture [OF q(2-5)] by (elim exE conjE)
  have j: "(0::nat) < length (q_jobs q)" "jb_frame (q_jobs q ! 0) = ''f''" "\<not> isSubdir (q_jobs q ! 0)" "\<not> jb_done (q_jobs q ! 0)"
    unfolding q(3) by (simp_all add: newJob_def isSubdir_def)
  from capture_chains_to_pending [OF ex_cfg_ok q(1) c' j] have pj: "pc_parentJob c' = Some 0" by (auto simp: newJob_def)
  show ?thesis
    by (intro exI [of _ q] exI conjI, (rule q(1)), (rule c'), (simp add: newJob_def pj), rule j(4))
qed

theorem worker_finishes_all_jobs_witness:
  "\<exists>q. reachable ex_cfg q \<and> length (q_jobs q) = 1 \<and> \<not> jb_done (q_jobs q ! 0) \<and> jb_done (q_jobs (drain ex_cfg (\<lambda>_. ex_ev) (work q) q) ! 0)"
proof -
  obtain q c where q: "reachable ex_cfg q" "q_jobs q = [newJob ''f'' [] [c]]" using ex_first_capture by (elim exE conjE)
  from worker_finishes_all_jobs [OF ex_cfg_ok q(1) order_refl, of "\<lambda>_. ex_ev"] q(2)
  have "jb_done (q_jobs (drain ex_cfg (\<lambda>_. ex_ev) (work q) q) ! 0)" by (auto simp: length_Suc_conv)
  with q show ?thesis by (intro exI [of _ q] conjI) (simp_all add: newJob_def)
qed

lemma ex_index_fails: "\<exists>w'. indexAndFinalizeSubvol cfg (we_index ex_ev) tmp sd parent ts w = (Inl SnapStampErr, w')"
  by (simp add: indexAndFinalizeSubvol_def indexTmp_def writeStampFile_def WriteFile_def ex_ev_def Let_def)

lemma ex_job_fails:
  assumes "q_worker q = Indexing j [c] fin"
  shows "\<exists>w' e. workerStep cfg ex_ev q = Some (q\<lparr> q_world := w', q_jobs := (q_jobs q)[j := (q_jobs q ! j)\<lparr> jb_err := Some e \<rparr>], q_worker := Finishing j \<rparr>)"
proof -
  obtain w' where "indexAndFinalizeSubvol cfg (we_index ex_ev) (pc_tmpPath c) (jb_subdir (q_jobs q ! j)) (resolveParent (q_jobs q) c) (pc_taints c) (q_world q)
    = (Inl SnapStampErr, w')" using ex_index_fails by blast
  then show ?thesis using assms by (auto simp: workerStep_def failJob_def Let_def)
qed

theorem parent_finished_first_witness:
  "\<exists>q c fin. reachable ex_cfg q \<and> q_worker q = Indexing 1 [c] fin \<and> pc_parentJob c = Some 0 \<and> jb_done (q_jobs q ! 0)"
proof -
  obtain q c where q: "reachable ex_cfg q" "q_world q = ex_world\<lparr> w_vols := (w_vols ex_world)(''s/a.tmp'' \<mapsto> ex_vol) \<rparr>" "q_jobs q = [newJob ''f'' [] [c]]"
    "q_pending q = [0]" "q_framePendingSnap q = [(''f'', 0)]" "q_worker q = Idle" using ex_first_capture by (elim exE conjE)
  obtain c' w' where c': "captureSnapJobLocked ex_cfg (ex_ce ''b'') ''f'' [] q = (Inr 1, q\<lparr> q_world := w', q_jobs := [newJob ''f'' [] [c], newJob ''f'' [] [c']],
      q_pending := [0, 1], q_framePendingSnap := [(''f'', 1)] \<rparr>)" "pc_parentJob c' = Some 0" using ex_second_capture [OF q(2-5)] by (elim exE conjE)
  define q2 where "q2 = snd (captureSnapJobLocked ex_cfg (ex_ce ''b'') ''f'' [] q)"
  have r2: "reachable ex_cfg q2" unfolding q2_def by (rule reachable.step [OF q(1) step.capture])
  define q3 where "q3 = q2\<lparr> q_pending := [1], q_worker := Indexing 0 [c] Map.empty \<rparr>"
  have q2: "q_worker q2 = Idle" "q_pending q2 = [0, 1]" "q_jobs q2 = [newJob ''f'' [] [c], newJob ''f'' [] [c']]" "q_framePendingSnap q2 = [(''f'', 1)]"
    unfolding q2_def c' using q(6) by simp_all
  have "workerStep ex_cfg ex_ev q2 = Some q3" using q2 by (simp add: workerStep_def q3_def newJob_def)
  then have r3: "reachable ex_cfg q3" by (rule reachable.step [OF r2 step.worker])
  have "q_worker q3 = Indexing 0 [c] Map.empty" by (simp add: q3_def)
  from ex_job_fails [OF this, of ex_cfg] obtain w4 e where
    "workerStep ex_cfg ex_ev q3 = Some (q3\<lparr> q_world := w4, q_jobs := (q_jobs q3)[0 := (q_jobs q3 ! 0)\<lparr> jb_err := Some e \<rparr>], q_worker := Finishing 0 \<rparr>)" (is "_ = Some ?q4")
    by (elim exE)
  then have r4: "reachable ex_cfg ?q4" by (rule reachable.step [OF r3 step.worker])
  have "workerStep ex_cfg ex_ev ?q4 = Some (finishJob 0 ?q4)" by (simp add: workerStep_def)
  then have r5: "reachable ex_cfg (finishJob 0 ?q4)" (is "reachable _ ?q5") by (rule reachable.step [OF r4 step.worker])
  have q5: "q_worker ?q5 = Idle" "q_pending ?q5 = [1]" "jb_comps (q_jobs ?q5 ! 1) = [c']"
    using q2 by (simp_all add: finishJob_def q3_def newJob_def)
  then have "workerStep ex_cfg ex_ev ?q5 = Some (?q5\<lparr> q_pending := [], q_worker := Indexing 1 [c'] Map.empty \<rparr>)" (is "_ = Some ?q6") by (simp add: workerStep_def)
  then have r6: "reachable ex_cfg ?q6" by (rule reachable.step [OF r5 step.worker])
  have w6: "q_worker ?q6 = Indexing 1 [c'] Map.empty" by simp
  from parent_finished_first [OF ex_cfg_ok r6 w6 c'(2)] r6 w6 c'(2) show ?thesis by blast
qed


section \<open>Two updates that do get lost\<close>

text \<open>
  A fork writes the sidecar of the new frame without the lock, from metadata it read before
  the capture. When the worker has finished the job by then, what it recorded in the new
  frame, the fork-point snap and its history entry, is overwritten.
\<close>

lemma fork_overwrites_sidecar:
  assumes "cfg_ok cfg" "tmp_ok r"
  shows "readFrameSidecar (cfg_frame cfg) new (w_files (q_world (forkSetup cfg (\<lambda>_. True) r now new meta q))) = Some (meta\<lparr> fr_CreatedAt := Some now \<rparr>)"
proof -
  have "json_law (cfg_frame cfg)" using assms(1) by (simp add: cfg_ok_def)
  from readFrameSidecar_write [OF this, of new r "meta\<lparr> fr_CreatedAt := Some now \<rparr>"] assms(2) show ?thesis
    by (simp add: forkSetup_def cloneFrameSetup_def ensureSubvol_def)
qed

text \<open>
  The error of reading a sidecar is dropped: a sidecar that exists and cannot be read or parsed is
  replaced by a fresh one, without the taints it had.
\<close>

lemma taint_replaces_unreadable:
  assumes "cfg_ok cfg" "tmp_ok r" "t \<noteq> []" "readFrameSidecar (cfg_frame cfg) f (w_files w) = None"
  shows "map_option fr_Taints (readFrameSidecar (cfg_frame cfg) f (w_files (snd (snd (handleTaint cfg r f t w))))) = Some [t]"
proof -
  have js: "json_law (cfg_frame cfg)" using assms(1) by (simp add: cfg_ok_def)
  have "w_files (snd (snd (handleTaint cfg r f t w))) =
      snd (writeFrameSidecar (cfg_frame cfg) r f (taintMutator (readStampFile f (w_files w)) t emptyFrame) (w_files w))"
    using assms(3,4) by (simp add: handleTaint_def updateFrameMetaLocked_def Let_def split: prod.split bool.split)
  then show ?thesis
    using assms(2) by (simp add: readFrameSidecar_write [OF js] taintMutator_def emptyFrame_def UnionTaints_def)
qed

end
