(* ===== verification/Streams.thy ===== *)
theory Streams
  imports Prelude
begin

text \<open>
  Reading from a byte stream: what \<^verbatim>\<open>io.ReadFull\<close> and \<^verbatim>\<open>binary.Read\<close> return on the bytes that arrive on a
  connection until it is closed, and the big-endian fields the wire protocols are made of.
\<close>

datatype read_err = EOF_err | UnexpectedEOF

definition ReadFull :: "nat \<Rightarrow> bytes \<Rightarrow> read_err + bytes \<times> bytes" where
  "ReadFull n bs =
     (if n = 0 then Inr ([], bs) else if bs = [] then Inl EOF_err
      else if length bs < n then Inl UnexpectedEOF else Inr (take n bs, drop n bs))"

lemma ReadFull_append [simp]: "length a = n \<Longrightarrow> ReadFull n (a @ r) = Inr (a, r)"
  by (cases a) (auto simp: ReadFull_def)

lemma ReadFull_exact [simp]: "length a = n \<Longrightarrow> ReadFull n a = Inr (a, [])"
  using ReadFull_append [of a n "[]"] by simp

lemma ReadFull_Nil [simp]: "0 < n \<Longrightarrow> ReadFull n [] = Inl EOF_err"
  by (simp add: ReadFull_def)

lemma ReadFull_split: "ReadFull n bs = Inr (a, r) \<Longrightarrow> bs = a @ r \<and> length a = n"
  by (auto simp: ReadFull_def split: if_splits)

definition readU16 :: "bytes \<Rightarrow> read_err + u16 \<times> bytes" where
  "readU16 bs = rbind (ReadFull 2 bs) (\<lambda>(a, r). Inr (Uint16 a, r))"

definition readU32 :: "bytes \<Rightarrow> read_err + u32 \<times> bytes" where
  "readU32 bs = rbind (ReadFull 4 bs) (\<lambda>(a, r). Inr (Uint32 a, r))"

definition readU64 :: "bytes \<Rightarrow> read_err + u64 \<times> bytes" where
  "readU64 bs = rbind (ReadFull 8 bs) (\<lambda>(a, r). Inr (Uint64 a, r))"

lemma readU_put [simp]:
  "readU16 (PutUint16 x @ r) = Inr (x, r)" "readU32 (PutUint32 y @ r) = Inr (y, r)" "readU64 (PutUint64 z @ r) = Inr (z, r)"
  by (simp_all add: readU16_def readU32_def readU64_def)

lemma readU_put_end [simp]:
  "readU16 (PutUint16 x) = Inr (x, [])" "readU32 (PutUint32 y) = Inr (y, [])" "readU64 (PutUint64 z) = Inr (z, [])"
  using readU_put(1) [of x "[]"] readU_put(2) [of y "[]"] readU_put(3) [of z "[]"] by simp_all

lemma readU_length:
  "readU16 bs = Inr (x, r) \<Longrightarrow> length bs = 2 + length r"
  "readU32 bs = Inr (y, r) \<Longrightarrow> length bs = 4 + length r"
  "readU64 bs = Inr (z, r) \<Longrightarrow> length bs = 8 + length r"
  by (auto simp: readU16_def readU32_def readU64_def rbind_def dest: ReadFull_split split: sum.splits prod.splits)

end
