(* ===== verification/Vshd_Proto.thy ===== *)
theory Vshd_Proto
  imports Streams
begin

text \<open>
  The frame protocol between the daemon and the session helper, \<^verbatim>\<open>vshdproto/vshdproto.go\<close>:
  type-length-value frames with bounded payloads, and the payloads of the control frames.
\<close>

section \<open>Frames\<close>

definition FrameStdin :: byte where "FrameStdin = 1"
definition FrameStdout :: byte where "FrameStdout = 2"
definition FrameStderr :: byte where "FrameStderr = 3"
definition FrameWinsize :: byte where "FrameWinsize = 4"
definition FrameExit :: byte where "FrameExit = 5"
definition FrameSignal :: byte where "FrameSignal = 6"

definition maxFrameLen :: nat where "maxFrameLen = 16 * 2 ^ 20"
definition headerLen :: nat where "headerLen = 5"

datatype frame_err = FrameTooLarge | FrameRead read_err | FrameWrite

text \<open>
  \<^verbatim>\<open>WriteFrame\<close> with the number of bytes the writer accepts before it fails, None when it does not:
  the result and what has been written.
\<close>

definition WriteFrame :: "nat option \<Rightarrow> byte \<Rightarrow> bytes \<Rightarrow> frame_err option \<times> bytes" where
  "WriteFrame fault typ payload =
     (if length payload > maxFrameLen then (Some FrameTooLarge, [])
      else let out = (typ # PutUint32 (word_of_nat (length payload))) @ payload
           in case fault of None \<Rightarrow> (None, out)
              | Some k \<Rightarrow> if k < length out then (Some FrameWrite, take k out) else (None, out))"

definition ReadFrame :: "bytes \<Rightarrow> frame_err + (byte \<times> bytes) \<times> bytes" where
  "ReadFrame r =
     (case ReadFull headerLen r of
        Inl e \<Rightarrow> Inl (FrameRead e)
      | Inr (hdr, r1) \<Rightarrow>
          let n = unat (Uint32 (drop 1 hdr))
          in if n > maxFrameLen then Inl FrameTooLarge
             else if n = 0 then Inr ((hd hdr, []), r1)
             else (case ReadFull n r1 of
                     Inl e \<Rightarrow> Inl (FrameRead (if e = EOF_err then UnexpectedEOF else e))
                   | Inr (payload, r2) \<Rightarrow> Inr ((hd hdr, payload), r2)))"

record Winsize =
  ws_Rows :: u16
  ws_Cols :: u16
  ws_X :: u16
  ws_Y :: u16

definition EncodeWinsize :: "Winsize \<Rightarrow> bytes" where
  "EncodeWinsize ws = PutUint16 (ws_Rows ws) @ PutUint16 (ws_Cols ws) @ PutUint16 (ws_X ws) @ PutUint16 (ws_Y ws)"

definition DecodeWinsize :: "bytes \<Rightarrow> Winsize option" where
  "DecodeWinsize p =
     (if length p \<noteq> 8 then None
      else Some \<lparr> ws_Rows = Uint16 (slice_of p 0 2), ws_Cols = Uint16 (slice_of p 2 4), ws_X = Uint16 (slice_of p 4 6), ws_Y = Uint16 (slice_of p 6 8) \<rparr>)"

text \<open>A signed 32-bit integer has the bits of the word that is sent.\<close>

definition EncodeExit :: "u32 \<Rightarrow> bytes" where "EncodeExit code = PutUint32 code"

definition DecodeExit :: "bytes \<Rightarrow> u32 option" where
  "DecodeExit p = (if length p \<noteq> 4 then None else Some (Uint32 p))"

definition EncodeSignal :: "u32 \<Rightarrow> bytes" where "EncodeSignal sig = EncodeExit sig"

definition DecodeSignal :: "bytes \<Rightarrow> u32 option" where
  "DecodeSignal p = (if length p \<noteq> 4 then None else Some (Uint32 p))"

section \<open>Frames as a stream codec\<close>

definition frame_bytes :: "byte \<times> bytes \<Rightarrow> bytes" where
  "frame_bytes f = snd (WriteFrame None (fst f) (snd f))"

definition wf_frame :: "byte \<times> bytes \<Rightarrow> bool" where "wf_frame f = (length (snd f) \<le> maxFrameLen)"

lemma frame_bytes_wf:
  assumes "wf_frame f"
  shows "frame_bytes f = (fst f # PutUint32 (word_of_nat (length (snd f)))) @ snd f"
  using assms by (simp add: frame_bytes_def wf_frame_def WriteFrame_def Let_def)

lemma unat_frame_len: "n \<le> maxFrameLen \<Longrightarrow> unat (word_of_nat n :: u32) = n"
  by (simp add: unat_of_nat maxFrameLen_def)

lemma ReadFrame_frame_bytes:
  assumes "wf_frame f"
  shows "ReadFrame (frame_bytes f @ rest) = Inr (f, rest)"
proof -
  let ?hdr = "fst f # PutUint32 (word_of_nat (length (snd f)))"
  have l: "length ?hdr = headerLen" by (simp add: headerLen_def)
  have n: "unat (Uint32 (drop 1 ?hdr)) = length (snd f)" using assms by (simp add: unat_frame_len wf_frame_def)
  have "ReadFull headerLen (frame_bytes f @ rest) = Inr (?hdr, snd f @ rest)"
    unfolding frame_bytes_wf [OF assms] append_assoc by (rule ReadFull_append [OF l])
  then show ?thesis using assms unfolding ReadFrame_def by (cases f) (simp add: wf_frame_def unat_frame_len Let_def)
qed

interpretation frames: stream_codec frame_bytes ReadFrame wf_frame
  by unfold_locales (rule ReadFrame_frame_bytes)

lemma ReadFrame_bound: "ReadFrame r = Inr ((t, p), rest) \<Longrightarrow> length p \<le> maxFrameLen"
  by (auto simp: ReadFrame_def Let_def dest!: ReadFull_split split: sum.splits if_splits)

text \<open>A frame cut short is never delivered, and a clean end is told from a cut.\<close>

lemma ReadFrame_cut:
  assumes "wf_frame f" "k < length (frame_bytes f)"
  shows "ReadFrame (take k (frame_bytes f)) = Inl (FrameRead (if k = 0 then EOF_err else UnexpectedEOF))"
proof (cases "k < headerLen")
  case True
  then show ?thesis using assms unfolding frame_bytes_wf [OF assms(1)]
    by (cases k) (auto simp: ReadFrame_def ReadFull_def headerLen_def)
next
  case False
  let ?hdr = "fst f # PutUint32 (word_of_nat (length (snd f)))"
  have l: "length ?hdr = headerLen" by (simp add: headerLen_def)
  have n: "unat (Uint32 (drop 1 ?hdr)) = length (snd f)" using assms by (simp add: unat_frame_len wf_frame_def)
  have t: "take k (frame_bytes f) = ?hdr @ take (k - headerLen) (snd f)"
    using False l unfolding frame_bytes_wf [OF assms(1)] by (metis linorder_not_less take_append take_all)
  have c: "k - headerLen < length (snd f)" using assms(2) False l unfolding frame_bytes_wf [OF assms(1)] by simp
  then have c': "length (snd f) \<noteq> 0" by auto
  have "ReadFull (length (snd f)) (take (k - headerLen) (snd f)) = Inl (if k = headerLen then EOF_err else UnexpectedEOF)"
    using c False by (auto simp: ReadFull_def)
  then show ?thesis unfolding t ReadFrame_def ReadFull_append [OF l] sum.case prod.case Let_def n
    using assms(1) c' False by (simp add: wf_frame_def headerLen_def)
qed

section \<open>Properties\<close>

text \<open>
  C34: The frame protocol is a faithful channel: any sequence of frames that could be written is read back
  frame by frame, control payloads decode to what was encoded, no frame is larger than the
  bound whatever arrives, and a connection that breaks within a frame never delivers it and is not
  mistaken for a clean end.
\<close>

theorem vshd_frames_roundtrip:
  "((\<forall>f \<in> set fs. wf_frame f) \<longrightarrow> frames.get_n (length fs) (concat (map frame_bytes fs) @ rest) = Inr (fs, rest)) \<and>
   DecodeWinsize (EncodeWinsize ws) = Some ws \<and> DecodeExit (EncodeExit code) = Some code \<and> DecodeSignal (EncodeSignal code) = Some code \<and>
   (ReadFrame r = Inr ((t, p), rest') \<longrightarrow> length p \<le> maxFrameLen) \<and>
   (wf_frame f \<and> k < length (frame_bytes f) \<longrightarrow>
      ReadFrame (take k (frame_bytes f)) = Inl (FrameRead (if k = 0 then EOF_err else UnexpectedEOF)))"
proof (intro conjI impI)
  show "frames.get_n (length fs) (concat (map frame_bytes fs) @ rest) = Inr (fs, rest)" if "\<forall>f \<in> set fs. wf_frame f"
    using that by (rule frames.get_n_puts)
  show "DecodeWinsize (EncodeWinsize ws) = Some ws"
    by (simp add: DecodeWinsize_def EncodeWinsize_def slice_of_def)
  show "DecodeExit (EncodeExit code) = Some code" "DecodeSignal (EncodeSignal code) = Some code"
    by (simp_all add: DecodeExit_def EncodeExit_def DecodeSignal_def EncodeSignal_def)
  show "length p \<le> maxFrameLen" if "ReadFrame r = Inr ((t, p), rest')" using that by (rule ReadFrame_bound)
  show "ReadFrame (take k (frame_bytes f)) = Inl (FrameRead (if k = 0 then EOF_err else UnexpectedEOF))" if "wf_frame f \<and> k < length (frame_bytes f)"
    using that ReadFrame_cut by simp
qed

theorem vshd_frames_roundtrip_witness:
  "frames.get_n 2 (frame_bytes (FrameStdin, [104, 105]) @ frame_bytes (FrameExit, EncodeExit 0)) = Inr ([(FrameStdin, [104, 105]), (FrameExit, EncodeExit 0)], []) \<and>
   ReadFrame (take 6 (frame_bytes (FrameStdin, [104, 105]))) = Inl (FrameRead UnexpectedEOF)"
proof -
  have w: "wf_frame (FrameStdin, [104, 105])" "wf_frame (FrameExit, EncodeExit 0)" by (simp_all add: wf_frame_def maxFrameLen_def EncodeExit_def)
  then have l: "length (frame_bytes (FrameStdin, [104, 105])) = 7" by (simp add: frame_bytes_wf)
  from vshd_frames_roundtrip [of "[(FrameStdin, [104, 105]), (FrameExit, EncodeExit 0)]" "[]" undefined undefined undefined undefined undefined undefined "(FrameStdin, [104, 105])" 6] w l
  show ?thesis by (simp add: numeral_2_eq_2)
qed

end
