(* ===== verification/Nbd.thy ===== *)
theory Nbd
  imports Streams
begin

text \<open>
  The network block device, \<^verbatim>\<open>infiniblock\<close>: the wire format (\<^verbatim>\<open>nbd.go\<close>), the sparse-file backend
  (\<^verbatim>\<open>backend.go\<close>), the server's negotiation and transmission (\<^verbatim>\<open>server.go\<close>) and the client
  (\<^verbatim>\<open>client.go\<close>). A connection is the list of bytes the peer sends until it closes it; the
  server's answer is the list of bytes it writes, and the model covers connections whose write
  side does not fail.
\<close>

unbundle bit_operations_syntax

section \<open>Protocol constants and messages\<close>

definition nbdMagic :: u64 where "nbdMagic = 0x4e42444d41474943"
definition ihaveoptMagic :: u64 where "ihaveoptMagic = 0x49484156454f5054"
definition optReplyMagic :: u64 where "optReplyMagic = 0x3e889045565a9"
definition requestMagic :: u32 where "requestMagic = 0x25609513"
definition simpleReplyMagic :: u32 where "simpleReplyMagic = 0x67446698"

definition nbdFlagFixedNewstyle :: u16 where "nbdFlagFixedNewstyle = 1"
definition nbdFlagNoZeroes :: u16 where "nbdFlagNoZeroes = 2"
definition nbdFlagCFixedNewstyle :: u32 where "nbdFlagCFixedNewstyle = 1"
definition nbdFlagCNoZeroes :: u32 where "nbdFlagCNoZeroes = 2"

definition nbdFlagHasFlags :: u16 where "nbdFlagHasFlags = 1"
definition nbdFlagSendFlush :: u16 where "nbdFlagSendFlush = 4"
definition nbdFlagSendTrim :: u16 where "nbdFlagSendTrim = 32"

definition nbdOptExportName :: u32 where "nbdOptExportName = 1"
definition nbdOptAbort :: u32 where "nbdOptAbort = 2"
definition nbdOptList :: u32 where "nbdOptList = 3"
definition nbdOptInfo :: u32 where "nbdOptInfo = 6"
definition nbdOptGo :: u32 where "nbdOptGo = 7"

definition nbdRepAck :: u32 where "nbdRepAck = 1"
definition nbdRepServer :: u32 where "nbdRepServer = 2"
definition nbdRepInfo :: u32 where "nbdRepInfo = 3"
definition nbdRepErrUnsup :: u32 where "nbdRepErrUnsup = 0x80000001"
definition nbdRepErrTooBig :: u32 where "nbdRepErrTooBig = 0x80000009"
definition nbdInfoExport :: u16 where "nbdInfoExport = 0"

definition nbdCmdRead :: u16 where "nbdCmdRead = 0"
definition nbdCmdWrite :: u16 where "nbdCmdWrite = 1"
definition nbdCmdDisc :: u16 where "nbdCmdDisc = 2"
definition nbdCmdFlush :: u16 where "nbdCmdFlush = 3"
definition nbdCmdTrim :: u16 where "nbdCmdTrim = 4"
definition nbdCmdFlagFUA :: u16 where "nbdCmdFlagFUA = 1"

definition nbdEOK :: u32 where "nbdEOK = 0"
definition nbdEIO :: u32 where "nbdEIO = 5"
definition nbdEInval :: u32 where "nbdEInval = 22"
definition nbdEOverflow :: u32 where "nbdEOverflow = 75"
definition nbdENotSup :: u32 where "nbdENotSup = 95"

definition DefaultExportSize :: u64 where "DefaultExportSize = 15 * 2 ^ 40"

lemmas nbd_opts = nbdOptExportName_def nbdOptAbort_def nbdOptList_def nbdOptInfo_def nbdOptGo_def
lemmas nbd_cmds = nbdCmdRead_def nbdCmdWrite_def nbdCmdDisc_def nbdCmdFlush_def nbdCmdTrim_def
lemmas nbd_errs = nbdEOK_def nbdEIO_def nbdEInval_def nbdEOverflow_def nbdENotSup_def

record Request =
  rq_Magic :: u32
  rq_Flags :: u16
  rq_Type :: u16
  rq_Handle :: u64
  rq_Offset :: u64
  rq_Length :: u32

definition RequestSize :: nat where "RequestSize = 28"

definition requestBytes :: "Request \<Rightarrow> bytes" where
  "requestBytes r = PutUint32 (rq_Magic r) @ PutUint16 (rq_Flags r) @ PutUint16 (rq_Type r) @ PutUint64 (rq_Handle r) @
     PutUint64 (rq_Offset r) @ PutUint32 (rq_Length r)"

definition ReadRequest :: "bytes \<Rightarrow> read_err + Request \<times> bytes" where
  "ReadRequest bs =
     rbind (ReadFull RequestSize bs) (\<lambda>(h, rest).
       Inr (\<lparr> rq_Magic = Uint32 (slice_of h 0 4), rq_Flags = Uint16 (slice_of h 4 6), rq_Type = Uint16 (slice_of h 6 8),
              rq_Handle = Uint64 (slice_of h 8 16), rq_Offset = Uint64 (slice_of h 16 24), rq_Length = Uint32 (slice_of h 24 28) \<rparr>, rest))"

record SimpleReply =
  sr_Magic :: u32
  sr_Error :: u32
  sr_Handle :: u64

definition replyBytes :: "SimpleReply \<Rightarrow> bytes" where
  "replyBytes r = PutUint32 (sr_Magic r) @ PutUint32 (sr_Error r) @ PutUint64 (sr_Handle r)"

definition WriteSimpleReply :: "u64 \<Rightarrow> u32 \<Rightarrow> bytes" where
  "WriteSimpleReply handle errCode = replyBytes \<lparr> sr_Magic = simpleReplyMagic, sr_Error = errCode, sr_Handle = handle \<rparr>"

section \<open>Backends\<close>

text \<open>
  The \<^verbatim>\<open>Backend\<close> interface. A read returns whether it failed (a short read at the end of the file does
  not count) and the bytes it read; offsets are the \<^verbatim>\<open>int64\<close> the server passes.
\<close>

record 'b Backend =
  bk_ReadAt :: "nat \<Rightarrow> int \<Rightarrow> 'b \<Rightarrow> (bool \<times> bytes) \<times> 'b"
  bk_WriteAt :: "bytes \<Rightarrow> int \<Rightarrow> 'b \<Rightarrow> bool \<times> 'b"
  bk_Trim :: "int \<Rightarrow> int \<Rightarrow> 'b \<Rightarrow> bool \<times> 'b"
  bk_Sync :: "'b \<Rightarrow> bool \<times> 'b"

text \<open>
  A sparse file: its bytes, and the outcome of the system calls to come: None succeeds, \<open>Some k\<close> fails
  (a write after \<open>k\<close> bytes). The list may end; all calls after it succeed.
\<close>

record SparseFile =
  sf_data :: bytes
  sf_faults :: "nat option list"

definition sf_next :: "SparseFile \<Rightarrow> nat option \<times> SparseFile" where
  "sf_next s = (case sf_faults s of [] \<Rightarrow> (None, s) | f # fs \<Rightarrow> (f, s\<lparr> sf_faults := fs \<rparr>))"

definition pwrite :: "nat \<Rightarrow> bytes \<Rightarrow> bytes \<Rightarrow> bytes" where
  "pwrite off p d = (if p = [] then d else take off (d @ replicate (off - length d) 0) @ p @ drop (off + length p) d)"

definition punch :: "nat \<Rightarrow> nat \<Rightarrow> bytes \<Rightarrow> bytes" where
  "punch off n d = map (\<lambda>i. if off \<le> i \<and> i < off + n then 0 else d ! i) [0..<length d]"

text \<open>Go rejects a negative offset; \<^verbatim>\<open>fallocate\<close> also a length that is not positive.\<close>

definition sf_ReadAt :: "nat \<Rightarrow> int \<Rightarrow> SparseFile \<Rightarrow> (bool \<times> bytes) \<times> SparseFile" where
  "sf_ReadAt n off s =
     (if off < 0 then ((False, []), s)
      else case sf_next s of
             (Some _, s') \<Rightarrow> ((False, []), s')
           | (None, s') \<Rightarrow> ((True, take n (drop (nat off) (sf_data s'))), s'))"

definition sf_WriteAt :: "bytes \<Rightarrow> int \<Rightarrow> SparseFile \<Rightarrow> bool \<times> SparseFile" where
  "sf_WriteAt p off s =
     (if off < 0 then (False, s)
      else case sf_next s of
             (Some k, s') \<Rightarrow> (False, s'\<lparr> sf_data := pwrite (nat off) (take k p) (sf_data s') \<rparr>)
           | (None, s') \<Rightarrow> (True, s'\<lparr> sf_data := pwrite (nat off) p (sf_data s') \<rparr>))"

definition sf_Trim :: "int \<Rightarrow> int \<Rightarrow> SparseFile \<Rightarrow> bool \<times> SparseFile" where
  "sf_Trim off n s =
     (if off < 0 \<or> n \<le> 0 then (False, s)
      else case sf_next s of
             (Some _, s') \<Rightarrow> (False, s')
           | (None, s') \<Rightarrow> (True, s'\<lparr> sf_data := punch (nat off) (nat n) (sf_data s') \<rparr>))"

definition sf_Sync :: "SparseFile \<Rightarrow> bool \<times> SparseFile" where
  "sf_Sync s = (case sf_next s of (Some _, s') \<Rightarrow> (False, s') | (None, s') \<Rightarrow> (True, s'))"

definition sparseBackend :: "SparseFile Backend" where
  "sparseBackend = \<lparr> bk_ReadAt = sf_ReadAt, bk_WriteAt = sf_WriteAt, bk_Trim = sf_Trim, bk_Sync = sf_Sync \<rparr>"

section \<open>The server: negotiation\<close>

record Server =
  srv_exportSize :: u64
  srv_exportName :: string

definition NewServer :: "u64 \<Rightarrow> string \<Rightarrow> Server" where
  "NewServer sz name = \<lparr> srv_exportSize = (if sz = 0 then DefaultExportSize else sz),
     srv_exportName = (if name = [] then ''default'' else name) \<rparr>"

definition maxOptionLen :: u32 where "maxOptionLen = 2 ^ 20"
definition maxRequestLen :: u32 where "maxRequestLen = 32 * 2 ^ 20"

definition txFlags :: u16 where "txFlags = nbdFlagHasFlags OR nbdFlagSendFlush OR nbdFlagSendTrim"

definition sendOptReply :: "u32 \<Rightarrow> u32 \<Rightarrow> bytes \<Rightarrow> bytes" where
  "sendOptReply opt replyType data = PutUint64 optReplyMagic @ PutUint32 opt @ PutUint32 replyType @ PutUint32 (word_of_nat (length data)) @ data"

datatype conn_err = ConnRead read_err | BadMagic | OptionTooBig | UnknownOption | InvalidRequest

definition greeting :: bytes where
  "greeting = PutUint64 nbdMagic @ PutUint64 ihaveoptMagic @ PutUint16 (nbdFlagFixedNewstyle OR nbdFlagNoZeroes)"

definition exportInfo :: "Server \<Rightarrow> bytes" where
  "exportInfo s = PutUint16 nbdInfoExport @ PutUint64 (srv_exportSize s) @ PutUint16 txFlags"

text \<open>One option: what is sent, and whether the negotiation ends, goes on, or fails.\<close>

datatype opt_outcome = OptDone | OptMore | OptFail conn_err

definition handleOption :: "Server \<Rightarrow> u32 \<Rightarrow> u32 \<Rightarrow> bytes \<Rightarrow> bytes \<times> opt_outcome" where
  "handleOption s clientFlags optCode optData =
     (if optCode = nbdOptExportName then
        (PutUint64 (srv_exportSize s) @ PutUint16 txFlags @ (if clientFlags AND nbdFlagCNoZeroes = 0 then replicate 124 0 else []), OptDone)
      else if optCode = nbdOptAbort then (sendOptReply optCode nbdRepAck [], OptFail (ConnRead EOF_err))
      else if optCode = nbdOptGo \<or> optCode = nbdOptInfo then
        (sendOptReply optCode nbdRepInfo (exportInfo s) @ sendOptReply optCode nbdRepAck [], if optCode = nbdOptGo then OptDone else OptMore)
      else if optCode = nbdOptList then
        (sendOptReply optCode nbdRepServer (PutUint32 (word_of_nat (length (srv_exportName s))) @ str_bytes (srv_exportName s)) @
         sendOptReply optCode nbdRepAck [], OptMore)
      else if clientFlags AND nbdFlagCFixedNewstyle = 0 then ([], OptFail UnknownOption)
      else (sendOptReply optCode nbdRepErrUnsup [], OptMore))"

definition readOptHeader :: "bytes \<Rightarrow> conn_err + (u32 \<times> u32) \<times> bytes" where
  "readOptHeader bs =
     (case readU64 bs of
        Inl e \<Rightarrow> Inl (ConnRead e)
      | Inr (m, r1) \<Rightarrow>
          if m \<noteq> ihaveoptMagic then Inl BadMagic
          else (case readU32 r1 of
                  Inl e \<Rightarrow> Inl (ConnRead e)
                | Inr (code, r2) \<Rightarrow>
                    (case readU32 r2 of Inl e \<Rightarrow> Inl (ConnRead e) | Inr (len, r3) \<Rightarrow> Inr ((code, len), r3))))"

lemma readOptHeader_length: "readOptHeader bs = Inr (h, rest) \<Longrightarrow> length bs = 16 + length rest"
  by (auto simp: readOptHeader_def dest!: readU_length split: sum.splits if_splits)

function haggle :: "Server \<Rightarrow> u32 \<Rightarrow> bytes \<Rightarrow> (conn_err + bytes) \<times> bytes" where
  "haggle s clientFlags bs =
     (case readOptHeader bs of
        Inl e \<Rightarrow> (Inl e, [])
      | Inr ((optCode, optLen), r) \<Rightarrow>
          if optLen > maxOptionLen then
            (if clientFlags AND nbdFlagCFixedNewstyle \<noteq> 0
             then let (res, out) = haggle s clientFlags r in (res, sendOptReply optCode nbdRepErrTooBig [] @ out)
             else (Inl OptionTooBig, []))
          else
            (case ReadFull (unat optLen) r of
               Inl e \<Rightarrow> (Inl (ConnRead e), [])
             | Inr (optData, r') \<Rightarrow>
                 (case handleOption s clientFlags optCode optData of
                    (out, OptDone) \<Rightarrow> (Inr r', out)
                  | (out, OptFail e) \<Rightarrow> (Inl e, out)
                  | (out, OptMore) \<Rightarrow> let (res, out') = haggle s clientFlags r' in (res, out @ out'))))"
  by pat_completeness auto

termination
proof (relation "measure (\<lambda>(s, f, bs). length bs)")
  show "((s, f, r), (s, f, bs)) \<in> measure (\<lambda>(s, f, bs). length bs)" if "readOptHeader bs = Inr x" "(h, r) = x" for s f r bs x h
    using readOptHeader_length [of bs h r] that by simp
qed (auto dest!: readOptHeader_length ReadFull_split)

text \<open>The result carries the input that is left when the transmission phase begins.\<close>

definition srv_handshake :: "Server \<Rightarrow> bytes \<Rightarrow> (conn_err + bytes) \<times> bytes" where
  "srv_handshake s bs =
     (case readU32 bs of
        Inl e \<Rightarrow> (Inl (ConnRead e), greeting)
      | Inr (clientFlags, r) \<Rightarrow> let (res, out) = haggle s clientFlags r in (res, greeting @ out))"

section \<open>The server: transmission\<close>

definition validateRequest :: "Server \<Rightarrow> Request \<Rightarrow> u32" where
  "validateRequest s req =
     (let end = rq_Offset req + ucast (rq_Length req); maxInt64 = (2 ^ 63 - 1 :: u64)
      in if rq_Length req > maxRequestLen then nbdEInval
         else if rq_Offset req > srv_exportSize s then nbdEInval
         else if ucast (rq_Length req) > srv_exportSize s - rq_Offset req then nbdEInval
         else if rq_Offset req > maxInt64 \<or> end > maxInt64 then nbdEOverflow
         else nbdEOK)"

definition handleRead :: "'b Backend \<Rightarrow> Request \<Rightarrow> 'b \<Rightarrow> bytes \<times> 'b" where
  "handleRead bk req b =
     (let n = unat (rq_Length req)
      in case bk_ReadAt bk n (sint (rq_Offset req)) b of
           ((False, _), b') \<Rightarrow> (WriteSimpleReply (rq_Handle req) nbdEIO, b')
         | ((True, d), b') \<Rightarrow> (WriteSimpleReply (rq_Handle req) nbdEOK @ d @ replicate (n - length d) 0, b'))"

definition handleWrite :: "'b Backend \<Rightarrow> Request \<Rightarrow> bytes \<Rightarrow> 'b \<Rightarrow> bytes \<times> 'b" where
  "handleWrite bk req data b =
     (case bk_WriteAt bk data (sint (rq_Offset req)) b of
        (False, b') \<Rightarrow> (WriteSimpleReply (rq_Handle req) nbdEIO, b')
      | (True, b') \<Rightarrow>
          if rq_Flags req AND nbdCmdFlagFUA \<noteq> 0
          then (case bk_Sync bk b' of
                  (False, b'') \<Rightarrow> (WriteSimpleReply (rq_Handle req) nbdEIO, b'')
                | (True, b'') \<Rightarrow> (WriteSimpleReply (rq_Handle req) nbdEOK, b''))
          else (WriteSimpleReply (rq_Handle req) nbdEOK, b'))"

definition handleFlush :: "'b Backend \<Rightarrow> Request \<Rightarrow> 'b \<Rightarrow> bytes \<times> 'b" where
  "handleFlush bk req b =
     (case bk_Sync bk b of
        (False, b') \<Rightarrow> (WriteSimpleReply (rq_Handle req) nbdEIO, b')
      | (True, b') \<Rightarrow> (WriteSimpleReply (rq_Handle req) nbdEOK, b'))"

definition handleTrim :: "'b Backend \<Rightarrow> Request \<Rightarrow> 'b \<Rightarrow> bytes \<times> 'b" where
  "handleTrim bk req b =
     (case bk_Trim bk (sint (rq_Offset req)) (int (unat (rq_Length req))) b of
        (False, b') \<Rightarrow> (WriteSimpleReply (rq_Handle req) nbdEIO, b')
      | (True, b') \<Rightarrow> (WriteSimpleReply (rq_Handle req) nbdEOK, b'))"

text \<open>One round of the request loop: the loop returns (with an error or not), or goes on with the rest of the input.\<close>

datatype 'b served = Return "conn_err option" bytes 'b | Continue bytes 'b bytes

definition serveRequest :: "Server \<Rightarrow> 'b Backend \<Rightarrow> 'b \<Rightarrow> bytes \<Rightarrow> 'b served" where
  "serveRequest s bk b bs =
     (case ReadRequest bs of
        Inl e \<Rightarrow> Return (Some (ConnRead e)) [] b
      | Inr (req, r) \<Rightarrow>
          let ec = validateRequest s req; reject = Return (Some InvalidRequest) (WriteSimpleReply (rq_Handle req) ec) b
          in if rq_Magic req \<noteq> requestMagic then Return (Some BadMagic) [] b
             else if rq_Type req = nbdCmdRead then
               (if ec \<noteq> nbdEOK then reject else let (out, b') = handleRead bk req b in Continue out b' r)
             else if rq_Type req = nbdCmdWrite then
               (if ec \<noteq> nbdEOK then reject
                else case ReadFull (unat (rq_Length req)) r of
                       Inl e \<Rightarrow> Return (Some (ConnRead e)) [] b
                     | Inr (data, r') \<Rightarrow> let (out, b') = handleWrite bk req data b in Continue out b' r')
             else if rq_Type req = nbdCmdDisc then Return None [] b
             else if rq_Type req = nbdCmdFlush then let (out, b') = handleFlush bk req b in Continue out b' r
             else if rq_Type req = nbdCmdTrim then
               (if ec \<noteq> nbdEOK then reject else let (out, b') = handleTrim bk req b in Continue out b' r)
             else Continue (WriteSimpleReply (rq_Handle req) nbdENotSup) b r)"

lemma ReadRequest_length: "ReadRequest bs = Inr (req, r) \<Longrightarrow> length bs = 28 + length r"
  by (auto simp: ReadRequest_def rbind_def RequestSize_def dest!: ReadFull_split split: sum.splits prod.splits)

lemma serveRequest_consumes: "serveRequest s bk b bs = Continue out b' r \<Longrightarrow> length r < length bs"
  by (auto simp: serveRequest_def Let_def dest!: ReadRequest_length ReadFull_split split: sum.splits if_splits prod.splits)

function transmission :: "Server \<Rightarrow> 'b Backend \<Rightarrow> 'b \<Rightarrow> bytes \<Rightarrow> conn_err option \<times> bytes \<times> 'b" where
  "transmission s bk b bs =
     (case serveRequest s bk b bs of
        Return e out b' \<Rightarrow> (e, out, b')
      | Continue out b' r \<Rightarrow> let (e, out', b'') = transmission s bk b' r in (e, out @ out', b''))"
  by pat_completeness auto

termination
  by (relation "measure (\<lambda>(s, bk, b, bs). length bs)") (auto dest: serveRequest_consumes)

declare transmission.simps [simp del] haggle.simps [simp del]

text \<open>
  A whole connection: \<open>early\<close> is what the negotiation reads or buffers, \<open>late\<close> what arrives after it. The
  transmission phase reads from the connection with a buffer of its own.
\<close>

definition handleConn :: "Server \<Rightarrow> 'b Backend \<Rightarrow> 'b \<Rightarrow> bytes \<Rightarrow> bytes \<Rightarrow> bytes \<times> 'b" where
  "handleConn s bk b early late =
     (case srv_handshake s early of
        (Inl e, out) \<Rightarrow> (out, b)
      | (Inr _, out) \<Rightarrow> let (e, out', b') = transmission s bk b late in (out @ out', b'))"

section \<open>The client\<close>

record Client =
  cl_size :: u64
  cl_flags :: u16
  cl_handle :: u64

datatype client_err = ClRead read_err | ClBadMagic | ClNewstyle | ClUnexpectedOpt | ClServerError u32 | ClHandleMismatch

definition sendOption :: "u32 \<Rightarrow> bytes \<Rightarrow> bytes" where
  "sendOption opt data = PutUint64 ihaveoptMagic @ PutUint32 opt @ PutUint32 (word_of_nat (length data)) @ data"

definition clientHello :: bytes where
  "clientHello = PutUint32 (nbdFlagCFixedNewstyle OR nbdFlagCNoZeroes) @ sendOption nbdOptGo []"

definition cl_read :: "(bytes \<Rightarrow> read_err + 'a \<times> bytes) \<Rightarrow> bytes \<Rightarrow> client_err + 'a \<times> bytes" where
  "cl_read rd bs = (case rd bs of Inl e \<Rightarrow> Inl (ClRead e) | Inr x \<Rightarrow> Inr x)"

definition readOptReply :: "bytes \<Rightarrow> client_err + (u32 \<times> u32 \<times> bytes) \<times> bytes" where
  "readOptReply bs =
     rbind (cl_read readU64 bs) (\<lambda>(magic, r).
     if magic \<noteq> optReplyMagic then Inl ClBadMagic
     else rbind (cl_read readU32 r) (\<lambda>(opt, r). rbind (cl_read readU32 r) (\<lambda>(replyType, r). rbind (cl_read readU32 r) (\<lambda>(len, r).
          rbind (cl_read (ReadFull (unat len)) r) (\<lambda>(data, r). Inr ((opt, replyType, data), r))))))"

lemma readOptReply_length: "readOptReply bs = Inr (x, r) \<Longrightarrow> length r < length bs"
  by (auto simp: readOptReply_def cl_read_def rbind_def dest!: readU_length ReadFull_split split: sum.splits prod.splits if_splits)

function optReplies :: "bytes \<Rightarrow> Client \<Rightarrow> client_err + Client \<times> bytes" where
  "optReplies bs c =
     (case readOptReply bs of
        Inl e \<Rightarrow> Inl e
      | Inr ((opt, replyType, data), r) \<Rightarrow>
          if opt \<noteq> nbdOptGo then Inl ClUnexpectedOpt
          else if replyType AND 0x80000000 \<noteq> 0 then Inl (ClServerError replyType)
          else if replyType = nbdRepAck then Inr (c, r)
          else optReplies r
            (if replyType = nbdRepInfo \<and> length data \<ge> 12 \<and> Uint16 (slice_of data 0 2) = nbdInfoExport
             then c\<lparr> cl_size := Uint64 (slice_of data 2 10), cl_flags := Uint16 (slice_of data 10 12) \<rparr> else c))"
  by pat_completeness auto

termination
  by (relation "measure (\<lambda>(bs, c). length bs)") (auto dest: readOptReply_length)

declare optReplies.simps [simp del]

definition cl_handshake :: "bytes \<Rightarrow> client_err + Client \<times> bytes" where
  "cl_handshake bs =
     rbind (cl_read readU64 bs) (\<lambda>(magic, r).
     if magic \<noteq> nbdMagic then Inl ClBadMagic
     else rbind (cl_read readU64 r) (\<lambda>(optMagic, r).
          if optMagic \<noteq> ihaveoptMagic then Inl ClNewstyle
          else rbind (cl_read readU16 r) (\<lambda>(serverFlags, r).
               if serverFlags AND nbdFlagFixedNewstyle = 0 then Inl ClNewstyle
               else optReplies r \<lparr> cl_size = 0, cl_flags = 0, cl_handle = 0 \<rparr>)))"

definition SupportsFlush :: "Client \<Rightarrow> bool" where "SupportsFlush c = (cl_flags c AND nbdFlagSendFlush \<noteq> 0)"
definition SupportsTrim :: "Client \<Rightarrow> bool" where "SupportsTrim c = (cl_flags c AND nbdFlagSendTrim \<noteq> 0)"

definition readReply :: "bytes \<Rightarrow> client_err + SimpleReply \<times> bytes" where
  "readReply bs =
     rbind (cl_read (ReadFull 16) bs) (\<lambda>(h, r).
       let reply = \<lparr> sr_Magic = Uint32 (slice_of h 0 4), sr_Error = Uint32 (slice_of h 4 8), sr_Handle = Uint64 (slice_of h 8 16) \<rparr>
       in if sr_Magic reply \<noteq> simpleReplyMagic then Inl ClBadMagic else Inr (reply, r))"

text \<open>
  A call of the client: the request and its payload go to the connection, whose answer is read back.
  \<open>conn\<close> is the peer: what it answers to the bytes it is sent.
\<close>

type_synonym 's conn = "bytes \<Rightarrow> 's \<Rightarrow> bytes \<times> 's"

definition cl_call :: "'s conn \<Rightarrow> u16 \<Rightarrow> bytes \<Rightarrow> u64 \<Rightarrow> u32 \<Rightarrow> Client \<times> 's \<Rightarrow> (client_err + bytes) \<times> Client \<times> 's" where
  "cl_call conn typ payload off len cs =
     (let (c, s) = cs; h = cl_handle c + 1; c' = c\<lparr> cl_handle := h \<rparr>;
          req = \<lparr> rq_Magic = requestMagic, rq_Flags = 0, rq_Type = typ, rq_Handle = h, rq_Offset = off, rq_Length = len \<rparr>;
          (resp, s') = conn (requestBytes req @ payload) s
      in (case readReply resp of
            Inl e \<Rightarrow> Inl e
          | Inr (reply, r) \<Rightarrow>
              if sr_Handle reply \<noteq> h then Inl ClHandleMismatch
              else if sr_Error reply \<noteq> nbdEOK then Inl (ClServerError (sr_Error reply)) else Inr r, c', s'))"

definition Client_Read :: "'s conn \<Rightarrow> nat \<Rightarrow> u64 \<Rightarrow> Client \<times> 's \<Rightarrow> (client_err + bytes) \<times> Client \<times> 's" where
  "Client_Read conn n off cs =
     (let (res, cs') = cl_call conn nbdCmdRead [] off (word_of_nat n) cs
      in (rbind res (\<lambda>r. rbind (cl_read (ReadFull n) r) (\<lambda>(p, _). Inr p)), cs'))"

definition Client_Write :: "'s conn \<Rightarrow> bytes \<Rightarrow> u64 \<Rightarrow> Client \<times> 's \<Rightarrow> (client_err + bytes) \<times> Client \<times> 's" where
  "Client_Write conn p off cs = (let (res, cs') = cl_call conn nbdCmdWrite p off (word_of_nat (length p)) cs in (rbind res (\<lambda>_. Inr []), cs'))"

definition Client_Trim :: "'s conn \<Rightarrow> u64 \<Rightarrow> u64 \<Rightarrow> Client \<times> 's \<Rightarrow> (client_err + bytes) \<times> Client \<times> 's" where
  "Client_Trim conn off len cs = (let (res, cs') = cl_call conn nbdCmdTrim [] off (ucast len) cs in (rbind res (\<lambda>_. Inr []), cs'))"

definition Client_Flush :: "'s conn \<Rightarrow> Client \<times> 's \<Rightarrow> (client_err + bytes) \<times> Client \<times> 's" where
  "Client_Flush conn cs = (let (res, cs') = cl_call conn nbdCmdFlush [] 0 0 cs in (rbind res (\<lambda>_. Inr []), cs'))"

text \<open>The server as the peer of a client that waits for each answer; a connection that is closed answers nothing.\<close>

definition srv_conn :: "Server \<Rightarrow> 'b Backend \<Rightarrow> (bool \<times> 'b) conn" where
  "srv_conn s bk sent st =
     (if \<not> fst st then ([], st)
      else case transmission s bk (snd st) sent of (e, out, b') \<Rightarrow> (out, e = Some (ConnRead EOF_err), b'))"

section \<open>Messages are stream codecs\<close>

lemma length_requestBytes [simp]: "length (requestBytes r) = RequestSize"
  by (simp add: requestBytes_def RequestSize_def)

lemma ReadRequest_requestBytes: "ReadRequest (requestBytes r @ rest) = Inr (r, rest)"
proof -
  have "ReadFull RequestSize (requestBytes r @ rest) = Inr (requestBytes r, rest)" by (rule ReadFull_append) simp
  then show ?thesis by (simp add: ReadRequest_def) (simp add: requestBytes_def slice_of_def)
qed

interpretation requests: stream_codec requestBytes ReadRequest "\<lambda>_. True"
  by unfold_locales (rule ReadRequest_requestBytes)

lemma readReply_WriteSimpleReply:
  "readReply (WriteSimpleReply h e @ rest) = Inr (\<lparr> sr_Magic = simpleReplyMagic, sr_Error = e, sr_Handle = h \<rparr>, rest)"
proof -
  have "ReadFull 16 (WriteSimpleReply h e @ rest) = Inr (WriteSimpleReply h e, rest)"
    by (rule ReadFull_append) (simp add: WriteSimpleReply_def replyBytes_def)
  then show ?thesis by (simp add: readReply_def cl_read_def Let_def) (simp add: WriteSimpleReply_def replyBytes_def slice_of_def)
qed

section \<open>What an accepted request is\<close>

lemma sint_u64_small: 
  fixes w :: u64
  assumes "unat w < 2 ^ 63"
  shows "sint w = int (unat w)"
proof -
  have "int (unat w) < int (2 ^ 63)" using assms by (simp only: of_nat_less_iff)
  then have "int (unat w) < 2 ^ 63" by simp
  moreover have "- (2 ^ 63) \<le> int (unat w)" by (rule order_trans [of _ 0]) simp_all
  ultimately have "signed_take_bit 63 (int (unat w)) = int (unat w)" by (intro signed_take_bit_int_eq_self)
  then show ?thesis by (simp add: sint_uint)
qed

definition in_export :: "Server \<Rightarrow> nat \<Rightarrow> nat \<Rightarrow> bool" where
  "in_export s off n = (n \<le> unat maxRequestLen \<and> off + n \<le> unat (srv_exportSize s) \<and> off + n < 2 ^ 63)"

lemma validateRequest_iff:
  "validateRequest s req = nbdEOK \<longleftrightarrow> in_export s (unat (rq_Offset req)) (unat (rq_Length req))"
proof -
  let ?o = "rq_Offset req" and ?n = "rq_Length req" and ?z = "srv_exportSize s"
  have small: "unat ?n < 2 ^ 32" using unat_less_2p [of ?n] by simp
  then have u: "unat (ucast ?n :: u64) = unat ?n" by (simp add: unsigned_ucast_eq take_bit_nat_eq_self)
  have s1: "?o \<le> ?z \<Longrightarrow> unat (?z - ?o) = unat ?z - unat ?o" by (rule unat_sub)
  have le: "(?o \<le> ?z \<and> (ucast ?n :: u64) \<le> ?z - ?o) = (unat ?o + unat ?n \<le> unat ?z)"
    using s1 u by (auto simp: word_le_nat_alt)
  have m: "unat (2 ^ 63 - 1 :: u64) = 2 ^ 63 - 1" by simp
  have e: "unat (?o + ucast ?n) = unat ?o + unat ?n" if "unat ?o + unat ?n \<le> unat ?z"
  proof -
    have "unat ?o + unat (ucast ?n :: u64) < 2 ^ 64" using that u unat_less_2p [of ?z] by simp
    then show ?thesis using u by (simp add: unat_word_ariths)
  qed
  have "validateRequest s req = nbdEOK \<longleftrightarrow>
      ?n \<le> maxRequestLen \<and> (?o \<le> ?z \<and> (ucast ?n :: u64) \<le> ?z - ?o) \<and> ?o \<le> 2 ^ 63 - 1 \<and> ?o + ucast ?n \<le> 2 ^ 63 - 1"
    by (auto simp: validateRequest_def Let_def nbd_errs)
  also have "\<dots> \<longleftrightarrow> in_export s (unat ?o) (unat ?n)"
    unfolding le using e by (auto simp: in_export_def word_le_nat_alt m)
  finally show ?thesis .
qed

lemma in_export_sint: "in_export s (unat (off :: u64)) n \<Longrightarrow> sint off = int (unat off)"
  using sint_u64_small [of off] by (simp add: in_export_def)

section \<open>The contract of a backend\<close>

text \<open>
  A backend stores a byte for every address. What the server promises holds for every backend that
  reads what is stored, writes and trims only where it is told to, and has done so when it reports success.
\<close>

locale block_backend =
  fixes bk :: "'b Backend" and content :: "'b \<Rightarrow> nat \<Rightarrow> byte"
  assumes read_law: "bk_ReadAt bk n (int off) b = ((ok, d), b') \<Longrightarrow>
      content b' = content b \<and> (ok \<longrightarrow> d @ replicate (n - length d) 0 = map (content b) [off..<off + n])"
    and write_law: "bk_WriteAt bk p (int off) b = (ok, b') \<Longrightarrow>
      (\<forall>i. i < off \<or> off + length p \<le> i \<longrightarrow> content b' i = content b i) \<and> (ok \<longrightarrow> (\<forall>i < length p. content b' (off + i) = p ! i))"
    and trim_law: "bk_Trim bk (int off) (int n) b = (ok, b') \<Longrightarrow>
      (\<forall>i. i < off \<or> off + n \<le> i \<longrightarrow> content b' i = content b i) \<and> (ok \<longrightarrow> (\<forall>i. off \<le> i \<and> i < off + n \<longrightarrow> content b' i = 0))"
    and sync_law: "bk_Sync bk b = (ok, b') \<Longrightarrow> content b' = content b"
begin

lemma handleRead_content: "in_export s (unat (rq_Offset req)) (unat (rq_Length req)) \<Longrightarrow> handleRead bk req b = (out, b') \<Longrightarrow> content b' = content b"
  using read_law [of "unat (rq_Length req)" "unat (rq_Offset req)" b] in_export_sint [of s "rq_Offset req"]
  by (auto simp: handleRead_def Let_def split: prod.splits bool.splits)

lemma handleWrite_content:
  "\<lbrakk>in_export s (unat (rq_Offset req)) (unat (rq_Length req)); length data = unat (rq_Length req); handleWrite bk req data b = (out, b')\<rbrakk>
    \<Longrightarrow> \<forall>i. i < unat (rq_Offset req) \<or> unat (rq_Offset req) + unat (rq_Length req) \<le> i \<longrightarrow> content b' i = content b i"
  using write_law [of data "unat (rq_Offset req)" b] in_export_sint [of s "rq_Offset req"]
  by (fastforce simp: handleWrite_def split: prod.splits bool.splits if_splits dest: sync_law)

lemma handleTrim_content:
  "\<lbrakk>in_export s (unat (rq_Offset req)) (unat (rq_Length req)); handleTrim bk req b = (out, b')\<rbrakk>
    \<Longrightarrow> \<forall>i. i < unat (rq_Offset req) \<or> unat (rq_Offset req) + unat (rq_Length req) \<le> i \<longrightarrow> content b' i = content b i"
  using trim_law [of "unat (rq_Offset req)" "unat (rq_Length req)" b] in_export_sint [of s "rq_Offset req"]
  by (auto simp: handleTrim_def split: prod.splits bool.splits)

lemma serveRequest_confined:
  assumes "serveRequest s bk b bs = Return e out b' \<or> serveRequest s bk b bs = Continue out b' r" "unat (srv_exportSize s) \<le> i"
  shows "content b' i = content b i"
proof (cases "ReadRequest bs")
  case (Inl e')
  with assms(1) show ?thesis by (auto simp: serveRequest_def)
next
  case (Inr x)
  obtain req r0 where rr: "ReadRequest bs = Inr (req, r0)" using Inr by (cases x) auto
  have out: "\<not> i < unat (rq_Offset req) \<Longrightarrow> unat (rq_Offset req) + unat (rq_Length req) \<le> i" if "validateRequest s req = nbdEOK"
    using that assms(2) unfolding validateRequest_iff in_export_def by linarith
  have 1: "content b'' i = content b i" if "validateRequest s req = nbdEOK" "handleRead bk req b = (o', b'')" for o' b''
    using handleRead_content that unfolding validateRequest_iff by metis
  have 2: "content b'' i = content b i"
    if "validateRequest s req = nbdEOK" "ReadFull (unat (rq_Length req)) r0 = Inr (data, r')" "handleWrite bk req data b = (o', b'')" for data r' o' b''
    using handleWrite_content [of s req data b o' b''] ReadFull_split [OF that(2)] that(1,3) out [OF that(1)] unfolding validateRequest_iff by blast
  have 3: "content b'' i = content b i" if "validateRequest s req = nbdEOK" "handleTrim bk req b = (o', b'')" for o' b''
    using handleTrim_content [of s req b o' b''] that out [OF that(1)] unfolding validateRequest_iff by blast
  have 4: "content b'' i = content b i" if "handleFlush bk req b = (o', b'')" for o' b''
    using that by (auto simp: handleFlush_def split: prod.splits bool.splits dest: sync_law)
  show ?thesis using assms(1) unfolding serveRequest_def rr
    by (auto simp: Let_def split: if_splits prod.splits sum.splits dest: 1 2 3 4)
qed

lemma transmission_confined:
  assumes "unat (srv_exportSize s) \<le> i"
  shows "content (snd (snd (transmission s bk b bs))) i = content b i"
proof (induction bs arbitrary: b rule: measure_induct_rule [where f = length])
  case (less bs)
  show ?case
  proof (cases "serveRequest s bk b bs")
    case (Return e out b')
    then show ?thesis using serveRequest_confined [OF _ assms, of b bs e out b'] by (simp add: transmission.simps [of s bk b bs])
  next
    case (Continue out b' r)
    from less [OF serveRequest_consumes [OF Continue], of b'] serveRequest_confined [OF _ assms, of b bs _ out b' r] Continue
    show ?thesis by (simp add: transmission.simps [of s bk b bs] Let_def case_prod_unfold)
  qed
qed

text \<open>A request the server refuses leaves the backend alone and ends the connection.\<close>

lemma invalid_request:
  assumes "rq_Type req \<in> {nbdCmdRead, nbdCmdWrite, nbdCmdTrim}" "rq_Magic req = requestMagic" "\<not> in_export s (unat (rq_Offset req)) (unat (rq_Length req))"
  shows "transmission s bk b (requestBytes req @ rest) = (Some InvalidRequest, WriteSimpleReply (rq_Handle req) (validateRequest s req), b)"
  using assms validateRequest_iff [of s req]
  by (subst transmission.simps) (auto simp: serveRequest_def ReadRequest_requestBytes Let_def nbd_cmds)

end

section \<open>A block device\<close>

text \<open>The specification: a byte per address, and what each call of the client returns and changes.\<close>

datatype dev_op = DRead nat nat | DWrite bytes nat | DTrim nat nat | DFlush

fun dev_step :: "dev_op \<Rightarrow> (nat \<Rightarrow> byte) \<Rightarrow> bytes \<times> (nat \<Rightarrow> byte)" where
  "dev_step (DRead n off) m = (map m [off..<off + n], m)"
| "dev_step (DWrite p off) m = ([], \<lambda>i. if off \<le> i \<and> i < off + length p then p ! (i - off) else m i)"
| "dev_step (DTrim off n) m = ([], \<lambda>i. if off \<le> i \<and> i < off + n then 0 else m i)"
| "dev_step DFlush m = ([], m)"

fun dev_run :: "dev_op list \<Rightarrow> (nat \<Rightarrow> byte) \<Rightarrow> bytes list \<times> (nat \<Rightarrow> byte)" where
  "dev_run [] m = ([], m)"
| "dev_run (op # ops) m = (let (r, m1) = dev_step op m; (rs, m2) = dev_run ops m1 in (r # rs, m2))"

fun valid_op :: "Server \<Rightarrow> dev_op \<Rightarrow> bool" where
  "valid_op s (DRead n off) = in_export s off n"
| "valid_op s (DWrite p off) = in_export s off (length p)"
| "valid_op s (DTrim off n) = (0 < n \<and> in_export s off n)"
| "valid_op s DFlush = True"

fun client_op :: "'s conn \<Rightarrow> dev_op \<Rightarrow> Client \<times> 's \<Rightarrow> (client_err + bytes) \<times> Client \<times> 's" where
  "client_op conn (DRead n off) cs = Client_Read conn n (word_of_nat off) cs"
| "client_op conn (DWrite p off) cs = Client_Write conn p (word_of_nat off) cs"
| "client_op conn (DTrim off n) cs = Client_Trim conn (word_of_nat off) (word_of_nat n) cs"
| "client_op conn DFlush cs = Client_Flush conn cs"

fun client_run :: "'s conn \<Rightarrow> dev_op list \<Rightarrow> Client \<times> 's \<Rightarrow> (client_err + bytes) list \<times> Client \<times> 's" where
  "client_run conn [] cs = ([], cs)"
| "client_run conn (op # ops) cs = (let (r, cs1) = client_op conn op cs; (rs, cs2) = client_run conn ops cs1 in (r # rs, cs2))"

lemma in_export_words:
  assumes "in_export s off n"
  shows "unat (word_of_nat off :: u64) = off" "unat (word_of_nat n :: u32) = n" "unat (ucast (word_of_nat n :: u64) :: u32) = n"
proof -
  have "off < 2 ^ 64" "n < 2 ^ 32" using assms by (auto simp: in_export_def maxRequestLen_def)
  then show "unat (word_of_nat off :: u64) = off" and n: "unat (word_of_nat n :: u32) = n" by (simp_all add: unat_of_nat)
  have "n < 2 ^ 64" using \<open>n < 2 ^ 32\<close> by simp
  then show "unat (ucast (word_of_nat n :: u64) :: u32) = n" using \<open>n < 2 ^ 32\<close>
    by (simp add: unsigned_ucast_eq unat_of_nat take_bit_nat_eq_self)
qed

lemma transmission_one:
  assumes "serveRequest s bk b bs = Continue out b' []"
  shows "transmission s bk b bs = (Some (ConnRead EOF_err), out, b')"
proof -
  have "ReadRequest [] = Inl EOF_err" by (simp add: ReadRequest_def RequestSize_def)
  then have "transmission s bk b' [] = (Some (ConnRead EOF_err), [], b')" by (subst transmission.simps) (simp add: serveRequest_def)
  then show ?thesis using assms by (subst transmission.simps) simp
qed

text \<open>A call whose request is carried out: its answer reaches the client.\<close>

lemma cl_call_served:
  assumes "serveRequest s bk b (requestBytes \<lparr> rq_Magic = requestMagic, rq_Flags = 0, rq_Type = typ, rq_Handle = cl_handle c + 1, rq_Offset = off, rq_Length = len \<rparr> @ payload)
      = Continue (WriteSimpleReply (cl_handle c + 1) nbdEOK @ d) b' []"
  shows "cl_call (srv_conn s bk) typ payload off len (c, True, b) = (Inr d, c\<lparr> cl_handle := cl_handle c + 1 \<rparr>, True, b')"
  unfolding cl_call_def Let_def srv_conn_def prod.case fst_conv snd_conv transmission_one [OF assms]
  by (simp add: readReply_WriteSimpleReply)

text \<open>A backend whose calls succeed: then every accepted request is carried out.\<close>

locale healthy_backend = block_backend +
  fixes healthy :: "'b \<Rightarrow> bool"
  assumes read_ok: "healthy b \<Longrightarrow> \<exists>d b'. bk_ReadAt bk n (int off) b = ((True, d), b') \<and> healthy b'"
    and write_ok: "healthy b \<Longrightarrow> \<exists>b'. bk_WriteAt bk p (int off) b = (True, b') \<and> healthy b'"
    and trim_ok: "\<lbrakk>healthy b; 0 < n\<rbrakk> \<Longrightarrow> \<exists>b'. bk_Trim bk (int off) (int n) b = (True, b') \<and> healthy b'"
    and sync_ok: "healthy b \<Longrightarrow> \<exists>b'. bk_Sync bk b = (True, b') \<and> healthy b'"
begin

lemma read_served:
  assumes "healthy b" "in_export s off n"
  shows "\<exists>b'. Client_Read (srv_conn s bk) n (word_of_nat off) (c, True, b) = (Inr (map (content b) [off..<off + n]), c\<lparr> cl_handle := cl_handle c + 1 \<rparr>, True, b') \<and>
    healthy b' \<and> content b' = content b"
proof -
  let ?req = "\<lparr> rq_Magic = requestMagic, rq_Flags = 0, rq_Type = nbdCmdRead, rq_Handle = cl_handle c + 1, rq_Offset = word_of_nat off, rq_Length = word_of_nat n \<rparr>"
  note w = in_export_words [OF assms(2)]
  have v: "validateRequest s ?req = nbdEOK" using assms(2) by (simp add: validateRequest_iff w)
  have o: "sint (word_of_nat off :: u64) = int off" using in_export_sint [of s "word_of_nat off" n] assms(2) w by simp
  from read_ok [OF assms(1)] obtain d b' where r: "bk_ReadAt bk n (int off) b = ((True, d), b')" "healthy b'" by blast
  note l = read_law [OF r(1)]
  have "serveRequest s bk b (requestBytes ?req @ []) = Continue (WriteSimpleReply (cl_handle c + 1) nbdEOK @ map (content b) [off..<off + n]) b' []"
    using v r l unfolding serveRequest_def ReadRequest_requestBytes by (simp add: Let_def handleRead_def w o)
  from cl_call_served [OF this] show ?thesis
    using r(2) l by (intro exI [of _ b']) (simp add: Client_Read_def cl_read_def)
qed

lemma write_served:
  assumes "healthy b" "in_export s off (length p)"
  shows "\<exists>b'. Client_Write (srv_conn s bk) p (word_of_nat off) (c, True, b) = (Inr [], c\<lparr> cl_handle := cl_handle c + 1 \<rparr>, True, b') \<and>
    healthy b' \<and> content b' = (\<lambda>i. if off \<le> i \<and> i < off + length p then p ! (i - off) else content b i)"
proof -
  let ?req = "\<lparr> rq_Magic = requestMagic, rq_Flags = 0, rq_Type = nbdCmdWrite, rq_Handle = cl_handle c + 1, rq_Offset = word_of_nat off, rq_Length = word_of_nat (length p) \<rparr>"
  note w = in_export_words [OF assms(2)]
  have v: "validateRequest s ?req = nbdEOK" using assms(2) by (simp add: validateRequest_iff w)
  have o: "sint (word_of_nat off :: u64) = int off" using in_export_sint [of s "word_of_nat off" "length p"] assms(2) w by simp
  from write_ok [OF assms(1)] obtain b' where r: "bk_WriteAt bk p (int off) b = (True, b')" "healthy b'" by blast
  note l = write_law [OF r(1)]
  have "serveRequest s bk b (requestBytes ?req @ p) = Continue (WriteSimpleReply (cl_handle c + 1) nbdEOK @ []) b' []"
    using v r l unfolding serveRequest_def ReadRequest_requestBytes by (simp add: Let_def handleWrite_def w o nbd_cmds)
  note call = cl_call_served [OF this]
  have "content b' i = (if off \<le> i \<and> i < off + length p then p ! (i - off) else content b i)" for i
    using l [THEN conjunct1] l [THEN conjunct2, THEN mp, OF TrueI, rule_format, of "i - off"] by auto
  with call r(2) show ?thesis by (intro exI [of _ b']) (simp add: Client_Write_def fun_eq_iff)
qed

lemma trim_served:
  assumes "healthy b" "in_export s off n" "0 < n"
  shows "\<exists>b'. Client_Trim (srv_conn s bk) (word_of_nat off) (word_of_nat n) (c, True, b) = (Inr [], c\<lparr> cl_handle := cl_handle c + 1 \<rparr>, True, b') \<and>
    healthy b' \<and> content b' = (\<lambda>i. if off \<le> i \<and> i < off + n then 0 else content b i)"
proof -
  let ?req = "\<lparr> rq_Magic = requestMagic, rq_Flags = 0, rq_Type = nbdCmdTrim, rq_Handle = cl_handle c + 1, rq_Offset = word_of_nat off, rq_Length = ucast (word_of_nat n :: u64) \<rparr>"
  note w = in_export_words [OF assms(2)]
  have v: "validateRequest s ?req = nbdEOK" using assms(2) by (simp add: validateRequest_iff w)
  have o: "sint (word_of_nat off :: u64) = int off" using in_export_sint [of s "word_of_nat off" n] assms(2) w by simp
  from trim_ok [OF assms(1,3)] obtain b' where r: "bk_Trim bk (int off) (int n) b = (True, b')" "healthy b'" by blast
  note l = trim_law [OF r(1)]
  have "serveRequest s bk b (requestBytes ?req @ []) = Continue (WriteSimpleReply (cl_handle c + 1) nbdEOK @ []) b' []"
    using v r l unfolding serveRequest_def ReadRequest_requestBytes by (simp add: Let_def handleTrim_def w o nbd_cmds)
  note call = cl_call_served [OF this]
  have "content b' i = (if off \<le> i \<and> i < off + n then 0 else content b i)" for i
    using l by auto
  with call r(2) show ?thesis by (intro exI [of _ b']) (simp add: Client_Trim_def fun_eq_iff)
qed

lemma flush_served:
  assumes "healthy b"
  shows "\<exists>b'. Client_Flush (srv_conn s bk) (c, True, b) = (Inr [], c\<lparr> cl_handle := cl_handle c + 1 \<rparr>, True, b') \<and> healthy b' \<and> content b' = content b"
proof -
  let ?req = "\<lparr> rq_Magic = requestMagic, rq_Flags = 0, rq_Type = nbdCmdFlush, rq_Handle = cl_handle c + 1, rq_Offset = 0, rq_Length = 0 \<rparr>"
  from sync_ok [OF assms] obtain b' where r: "bk_Sync bk b = (True, b')" "healthy b'" by blast
  have "serveRequest s bk b (requestBytes ?req @ []) = Continue (WriteSimpleReply (cl_handle c + 1) nbdEOK @ []) b' []"
    using r unfolding serveRequest_def ReadRequest_requestBytes by (simp add: Let_def handleFlush_def nbd_cmds)
  from cl_call_served [OF this] r(2) sync_law [OF r(1)] show ?thesis by (intro exI [of _ b']) (simp add: Client_Flush_def)
qed

lemma client_op_refines:
  assumes "healthy b" "valid_op s op"
  shows "\<exists>b'. client_op (srv_conn s bk) op (c, True, b) = (Inr (fst (dev_step op (content b))), c\<lparr> cl_handle := cl_handle c + 1 \<rparr>, True, b') \<and>
    healthy b' \<and> content b' = snd (dev_step op (content b))"
  using assms by (cases op) (auto simp: read_served write_served trim_served flush_served)

lemma client_run_refines:
  assumes "healthy b" "\<forall>op \<in> set ops. valid_op s op"
  shows "\<exists>c' b'. client_run (srv_conn s bk) ops (c, True, b) = (map Inr (fst (dev_run ops (content b))), c', True, b') \<and>
    healthy b' \<and> content b' = snd (dev_run ops (content b))"
  using assms
proof (induction ops arbitrary: b c)
  case (Cons op ops)
  from client_op_refines [of b s op c] Cons.prems obtain b1 where
    1: "client_op (srv_conn s bk) op (c, True, b) = (Inr (fst (dev_step op (content b))), c\<lparr> cl_handle := cl_handle c + 1 \<rparr>, True, b1)"
    "healthy b1" "content b1 = snd (dev_step op (content b))" by auto
  from Cons.IH [OF 1(2), of "c\<lparr> cl_handle := cl_handle c + 1 \<rparr>"] Cons.prems(2) obtain c' b' where
    2: "client_run (srv_conn s bk) ops (c\<lparr> cl_handle := cl_handle c + 1 \<rparr>, True, b1) = (map Inr (fst (dev_run ops (content b1))), c', True, b')"
    "healthy b'" "content b' = snd (dev_run ops (content b1))" by auto
  show ?case using 1 2 by (simp add: Let_def case_prod_unfold)
qed simp

end

section \<open>The sparse file is such a backend\<close>

text \<open>What lies behind the end of the file reads as zero.\<close>

definition byte_at :: "bytes \<Rightarrow> nat \<Rightarrow> byte" where
  "byte_at d i = (if i < length d then d ! i else 0)"

definition sf_content :: "SparseFile \<Rightarrow> nat \<Rightarrow> byte" where
  "sf_content s = byte_at (sf_data s)"

lemma sf_next_data: "sf_next s = (f, s') \<Longrightarrow> sf_data s' = sf_data s"
  by (auto simp: sf_next_def split: list.splits)

lemma pwrite_content: "byte_at (pwrite off p d) i = (if off \<le> i \<and> i < off + length p then p ! (i - off) else byte_at d i)"
proof (cases "p = []")
  case True
  then show ?thesis by (auto simp: pwrite_def)
next
  case False
  define x where "x = take off (d @ replicate (off - length d) 0)"
  have x: "length x = off" "\<forall>k < off. x ! k = byte_at d k" by (auto simp: x_def byte_at_def nth_append)
  have w: "pwrite off p d = x @ p @ drop (off + length p) d" using False by (simp add: pwrite_def x_def)
  show ?thesis unfolding w using x by (auto simp: byte_at_def nth_append)
qed

lemma punch_content: "byte_at (punch off n d) i = (if off \<le> i \<and> i < off + n then 0 else byte_at d i)"
  by (auto simp: punch_def byte_at_def)

lemma read_content: "take n (drop off d) @ replicate (n - length (take n (drop off d))) 0 = map (byte_at d) [off..<off + n]"
  by (rule nth_equalityI) (auto simp: nth_append byte_at_def)

interpretation sparse: healthy_backend sparseBackend sf_content "\<lambda>s. sf_faults s = []"
proof
  show "sf_content b' = sf_content b \<and> (ok \<longrightarrow> d @ replicate (n - length d) 0 = map (sf_content b) [off..<off + n])"
    if "bk_ReadAt sparseBackend n (int off) b = ((ok, d), b')" for n off b ok d b'
    using that read_content [of n off "sf_data b"]
    by (auto simp: sparseBackend_def sf_ReadAt_def sf_content_def dest!: sf_next_data split: prod.splits option.splits)
  show "(\<forall>i. i < off \<or> off + length p \<le> i \<longrightarrow> sf_content b' i = sf_content b i) \<and> (ok \<longrightarrow> (\<forall>i < length p. sf_content b' (off + i) = p ! i))"
    if "bk_WriteAt sparseBackend p (int off) b = (ok, b')" for p off b ok b'
    using that by (auto simp: sparseBackend_def sf_WriteAt_def sf_content_def pwrite_content dest!: sf_next_data split: prod.splits option.splits)
  show "(\<forall>i. i < off \<or> off + n \<le> i \<longrightarrow> sf_content b' i = sf_content b i) \<and> (ok \<longrightarrow> (\<forall>i. off \<le> i \<and> i < off + n \<longrightarrow> sf_content b' i = 0))"
    if "bk_Trim sparseBackend (int off) (int n) b = (ok, b')" for off n b ok b'
    using that by (auto simp: sparseBackend_def sf_Trim_def sf_content_def punch_content dest!: sf_next_data split: prod.splits option.splits if_splits)
  show "sf_content b' = sf_content b" if "bk_Sync sparseBackend b = (ok, b')" for b ok b'
    using that by (auto simp: sparseBackend_def sf_Sync_def sf_content_def dest!: sf_next_data split: prod.splits option.splits)
qed (auto simp: sparseBackend_def sf_ReadAt_def sf_WriteAt_def sf_Trim_def sf_Sync_def sf_next_def)

section \<open>Negotiation\<close>

lemma readOptHeader_send: "readOptHeader (PutUint64 ihaveoptMagic @ PutUint32 code @ PutUint32 len @ rest) = Inr ((code, len), rest)"
  by (simp add: readOptHeader_def)

lemma readOptReply_send: "length data < 2 ^ 32 \<Longrightarrow> readOptReply (sendOptReply opt typ data @ rest) = Inr ((opt, typ, data), rest)"
  by (simp add: readOptReply_def sendOptReply_def cl_read_def unat_of_nat)

lemma srv_handshake_hello:
  "srv_handshake s (clientHello @ rest) = (Inr rest, greeting @ sendOptReply nbdOptGo nbdRepInfo (exportInfo s) @ sendOptReply nbdOptGo nbdRepAck [])"
proof -
  have "haggle s (nbdFlagCFixedNewstyle OR nbdFlagCNoZeroes) (sendOption nbdOptGo [] @ rest) =
      (Inr rest, sendOptReply nbdOptGo nbdRepInfo (exportInfo s) @ sendOptReply nbdOptGo nbdRepAck [])"
    by (subst haggle.simps) (simp add: sendOption_def readOptHeader_send handleOption_def maxOptionLen_def ReadFull_def, simp add: nbd_opts)
  then show ?thesis by (simp add: srv_handshake_def clientHello_def)
qed

lemma optReplies_export:
  "optReplies (sendOptReply nbdOptGo nbdRepInfo (exportInfo s) @ sendOptReply nbdOptGo nbdRepAck [] @ rest) c =
     Inr (c\<lparr> cl_size := srv_exportSize s, cl_flags := txFlags \<rparr>, rest)"
proof -
  have l: "length (exportInfo s) = 12" by (simp add: exportInfo_def)
  have f: "Uint16 (slice_of (exportInfo s) 0 2) = nbdInfoExport" "Uint64 (slice_of (exportInfo s) 2 10) = srv_exportSize s" "Uint16 (slice_of (exportInfo s) 10 12) = txFlags"
    by (simp_all add: exportInfo_def slice_of_def)
  have b: "nbdRepInfo AND 0x80000000 = 0" "nbdRepInfo \<noteq> nbdRepAck" by (simp_all add: nbdRepInfo_def nbdRepAck_def)
  have a: "optReplies (sendOptReply nbdOptGo nbdRepAck [] @ rest) d = Inr (d, rest)" for d
    by (subst optReplies.simps) (simp add: readOptReply_send, simp add: nbdRepAck_def)
  show ?thesis
    using b by (subst optReplies.simps) (simp add: readOptReply_send l f a)
qed

text \<open>
  An option that is too long is answered but its data is not skipped: the data is then taken for the
  next option, and the negotiation fails unless it looks like one.
\<close>

lemma oversized_option_not_drained:
  assumes "len > maxOptionLen" "f AND nbdFlagCFixedNewstyle \<noteq> 0" "readOptHeader payload = Inl e"
  shows "haggle s f (PutUint64 ihaveoptMagic @ PutUint32 code @ PutUint32 len @ payload) = (Inl e, sendOptReply code nbdRepErrTooBig [])"
proof -
  have "haggle s f payload = (Inl e, [])" using assms(3) by (subst haggle.simps) simp
  then show ?thesis using assms(1,2) by (subst haggle.simps) (simp add: readOptHeader_send)
qed

text \<open>Bytes that are in the buffer of the negotiation when it ends are lost.\<close>

lemma pipelined_requests_lost: "handleConn s bk b (clientHello @ pipelined) late = handleConn s bk b clientHello late"
  using srv_handshake_hello [of s pipelined] srv_handshake_hello [of s "[]"] by (simp add: handleConn_def)

section \<open>Properties\<close>

text \<open>
  C6: The client, the wire protocol, the server and the sparse file together are a block device: on a
  healthy file, every sequence of reads, writes, trims and flushes within the advertised size
  returns what a plain array of bytes would return and leaves it with the same contents.
\<close>

theorem nbd_is_block_device:
  assumes "sf_faults f = []" "\<forall>op \<in> set ops. valid_op s op"
  shows "\<exists>c' f'. client_run (srv_conn s sparseBackend) ops (c, True, f) = (map Inr (fst (dev_run ops (sf_content f))), c', True, f') \<and>
    sf_content f' = snd (dev_run ops (sf_content f))"
  using sparse.client_run_refines [OF assms, of c] by blast

theorem nbd_is_block_device_witness:
  "\<exists>c' f'. client_run (srv_conn (NewServer 0 []) sparseBackend) [DWrite [1, 2] 3, DRead 3 2] (\<lparr> cl_size = 0, cl_flags = 0, cl_handle = 0 \<rparr>, True, \<lparr> sf_data = [7], sf_faults = [] \<rparr>)
     = ([Inr [], Inr [0, 1, 2]], c', True, f')"
proof -
  have v: "\<forall>op \<in> set [DWrite [1, 2] 3, DRead 3 2]. valid_op (NewServer 0 []) op"
    by (simp add: in_export_def NewServer_def DefaultExportSize_def maxRequestLen_def)
  have d: "fst (dev_run [DWrite [1, 2] 3, DRead 3 2] (sf_content \<lparr> sf_data = [7], sf_faults = [] \<rparr>)) = [[], [0, 1, 2]]"
    by (simp add: sf_content_def byte_at_def upt_rec)
  from nbd_is_block_device [of "\<lparr> sf_data = [7], sf_faults = [] \<rparr>", OF _ v, of "\<lparr> cl_size = 0, cl_flags = 0, cl_handle = 0 \<rparr>"]
  show ?thesis unfolding d SparseFile.select_convs list.map by blast
qed

text \<open>
  C18: Whatever bytes arrive on a connection and whatever system calls fail, the server changes no byte
  outside the advertised export, and a read, write or trim that is not within it is refused
  with an error, leaves the file alone and ends the connection.
\<close>

theorem nbd_confined:
  "(\<forall>i \<ge> unat (srv_exportSize s). sf_content (snd (handleConn s sparseBackend f early late)) i = sf_content f i) \<and>
   (rq_Type req \<in> {nbdCmdRead, nbdCmdWrite, nbdCmdTrim} \<and> rq_Magic req = requestMagic \<and>
      \<not> in_export s (unat (rq_Offset req)) (unat (rq_Length req)) \<longrightarrow>
    transmission s sparseBackend f (requestBytes req @ rest) = (Some InvalidRequest, WriteSimpleReply (rq_Handle req) (validateRequest s req), f) \<and>
    validateRequest s req \<noteq> nbdEOK)"
  using sparse.transmission_confined [of s _ f late] sparse.invalid_request [of req s f rest] validateRequest_iff [of s req]
  by (auto simp: handleConn_def Let_def case_prod_unfold split: sum.split)

theorem nbd_confined_witness:
  "transmission (NewServer 8 []) sparseBackend \<lparr> sf_data = [7], sf_faults = [] \<rparr>
     (requestBytes \<lparr> rq_Magic = requestMagic, rq_Flags = 0, rq_Type = nbdCmdWrite, rq_Handle = 9, rq_Offset = - 1, rq_Length = 4 \<rparr> @ [1, 2, 3, 4]) =
   (Some InvalidRequest, WriteSimpleReply 9 nbdEInval, \<lparr> sf_data = [7], sf_faults = [] \<rparr>)"
proof -
  let ?r = "\<lparr> rq_Magic = requestMagic, rq_Flags = 0, rq_Type = nbdCmdWrite, rq_Handle = 9, rq_Offset = - 1, rq_Length = 4 \<rparr>"
  have v: "validateRequest (NewServer 8 []) ?r = nbdEInval" by (simp add: validateRequest_def NewServer_def maxRequestLen_def Let_def)
  then have n: "\<not> in_export (NewServer 8 []) (unat (rq_Offset ?r)) (unat (rq_Length ?r))"
    using validateRequest_iff [of "NewServer 8 []" ?r] by (simp add: nbd_errs)
  from nbd_confined [of "NewServer 8 []" "\<lparr> sf_data = [7], sf_faults = [] \<rparr>" "[]" "[]" ?r "[1, 2, 3, 4]"] v n show ?thesis by simp
qed


text \<open>
  The negotiation of client and server succeeds: the server accepts what the client sends and enters
  the transmission phase, and from the server's answer the client learns the export size and that
  flush and trim are available, with nothing left unread.
\<close>

theorem nbd_handshake_agrees:
  "\<exists>out c. srv_handshake s clientHello = (Inr [], out) \<and> cl_handshake out = Inr (c, []) \<and> cl_size c = srv_exportSize s \<and>
     SupportsFlush c \<and> SupportsTrim c"
proof -
  let ?out = "greeting @ sendOptReply nbdOptGo nbdRepInfo (exportInfo s) @ sendOptReply nbdOptGo nbdRepAck []"
  have g: "(nbdFlagFixedNewstyle OR nbdFlagNoZeroes) AND nbdFlagFixedNewstyle \<noteq> 0" by (simp add: nbdFlagFixedNewstyle_def nbdFlagNoZeroes_def)
  have "cl_handshake ?out = Inr (\<lparr> cl_size = srv_exportSize s, cl_flags = txFlags, cl_handle = 0 \<rparr>, [])"
    using g optReplies_export [of s "[]"] by (simp add: cl_handshake_def greeting_def cl_read_def)
  moreover have "SupportsFlush \<lparr> cl_size = srv_exportSize s, cl_flags = txFlags, cl_handle = 0 \<rparr>" "SupportsTrim \<lparr> cl_size = srv_exportSize s, cl_flags = txFlags, cl_handle = 0 \<rparr>"
    by (simp_all add: SupportsFlush_def SupportsTrim_def txFlags_def nbdFlagHasFlags_def nbdFlagSendFlush_def nbdFlagSendTrim_def)
  ultimately show ?thesis using srv_handshake_hello [of s "[]"] by (intro exI conjI) simp_all
qed

end
