(* ===== verification/Clean_Paths.thy ===== *)
theory Clean_Paths
  imports Paths Strconv
begin

text \<open>
  \<^verbatim>\<open>filepath.Clean\<close> is idempotent, and a file two levels below a directory determines both
  components: distinct namespaces never share a file.
\<close>

text \<open>Cleaning a cleaned path changes nothing, so a directory of two levels is its components.\<close>

lemma clean_comps_append:
  "clean_comps r acc (xs @ ys) = clean_comps r (rev (clean_comps r acc xs)) ys"
  by (induction r acc xs rule: clean_comps.induct) (auto split: list.split)

definition path_comp :: "string \<Rightarrow> bool" where
  "path_comp c \<longleftrightarrow> plain c \<or> c = ''..''"

lemma path_compD: "path_comp c \<Longrightarrow> c \<noteq> [] \<and> CHR ''/'' \<notin> set c"
  unfolding path_comp_def by (erule disjE) (simp_all add: plain_def)

lemma clean_comps_fixed:
  assumes "\<forall>c \<in> set cs. CHR ''/'' \<notin> set c" "\<forall>a \<in> set acc. path_comp a" "clean_comps r [] (rev acc) = rev acc"
  shows "clean_comps r [] (clean_comps r acc cs) = clean_comps r acc cs \<and> (\<forall>a \<in> set (clean_comps r acc cs). path_comp a)"
  using assms
proof (induction r acc cs rule: clean_comps.induct)
  case (1 r acc)
  then show ?case by simp
next
  case (2 r acc c cs)
  consider "c = [] \<or> c = ''.''" | "plain c" | "c = ''..''" using "2.prems"(1) by (auto simp: plain_def)
  then show ?case
  proof cases
    case 1
    with "2.IH"(1) "2.prems" show ?thesis by simp
  next
    case 2
    have "clean_comps r [] (rev acc @ [c]) = rev acc @ [c]"
      using clean_comps_plain [OF 2, of r "[]" "rev acc"] "2.prems"(3) by simp
    with "2.IH"(6) "2.prems" 2 show ?thesis by (simp add: plain_def path_comp_def)
  next
    case 3
    show ?thesis
    proof (cases acc)
      case Nil
      with 3 "2.IH"(2,3) "2.prems" show ?thesis by (cases r) (simp_all add: path_comp_def)
    next
      case (Cons a as)
      show ?thesis
      proof (cases "a = ''..''")
        case True
        have "clean_comps r [] (rev acc @ [c]) = rev acc @ [c]"
          using clean_comps_append [of r "[]" "rev acc" "[c]"] "2.prems"(3) 3 True Cons by simp
        with 3 Cons True "2.IH"(4) "2.prems" show ?thesis by (simp add: path_comp_def)
      next
        case False
        with "2.prems"(2) Cons have "plain a" by (auto simp: path_comp_def)
        from clean_comps_plain [OF this, of r "[]" "rev as"] "2.prems"(3) Cons
        have "clean_comps r [] (rev as) = rev as" by simp
        with 3 Cons False "2.IH"(5) "2.prems" show ?thesis by simp
      qed
    qed
  qed
qed

lemma split_join: "\<lbrakk>ws \<noteq> []; \<forall>w \<in> set ws. c \<notin> set w\<rbrakk> \<Longrightarrow> split_on c (join_with c ws) = ws"
  by (induction ws rule: join_with.induct) (auto simp: split_on_append split_on_last)

lemma join_hd: "\<lbrakk>ws \<noteq> []; \<forall>w \<in> set ws. w \<noteq> [] \<and> c \<notin> set w\<rbrakk> \<Longrightarrow> hd (join_with c ws) \<noteq> c"
  by (cases "(c, ws)" rule: join_with.cases) (auto simp: hd_append intro: list.set_sel(1) dest: hd_in_set)

lemma dirPrefix_Join:
  assumes "d \<noteq> []" "plain c"
  shows "dirPrefix (filepath_Join [d, c]) = filepath_Join [d, c] @ ''/''"
proof -
  define r where "r = (hd d = CHR ''/'')"
  define ws where "ws = clean_comps r [] (split_on (CHR ''/'') d)"
  have "clean_comps r [] ws = ws \<and> (\<forall>a \<in> set ws. path_comp a)"
    unfolding ws_def by (rule clean_comps_fixed) (auto dest: split_on_no_sep simp del: split_on.simps)
  then have fixed: "clean_comps r [] ws = ws" and comps: "\<forall>a \<in> set ws. path_comp a" by simp_all
  have J: "filepath_Join [d, c] = (if r then ''/'' else []) @ join_with (CHR ''/'') (ws @ [c])"
    unfolding Join_plain [OF assms] dirPrefix_def r_def ws_def Let_def join_with_snoc by simp
  have "path_comp c" using assms(2) by (simp add: path_comp_def)
  with comps have ne: "\<forall>w \<in> set (ws @ [c]). w \<noteq> [] \<and> CHR ''/'' \<notin> set w" by (simp add: path_compD)
  then have ns: "\<forall>w \<in> set (ws @ [c]). CHR ''/'' \<notin> set w" by simp
  have hdne: "hd (join_with (CHR ''/'') (ws @ [c])) \<noteq> CHR ''/''" by (rule join_hd [OF _ ne]) simp
  have jne: "join_with (CHR ''/'') (ws @ [c]) \<noteq> []" using assms(2) by (simp add: join_with_snoc plain_def)
  have hd: "(hd (filepath_Join [d, c]) = CHR ''/'') = r"
    using hdne jne by (simp add: J)
  have "clean_comps r [] (split_on (CHR ''/'') (filepath_Join [d, c])) = ws @ [c]"
    using clean_comps_plain [OF assms(2), of r "[]" ws] fixed by (cases r) (simp_all add: J split_join [OF _ ns] del: join_with.simps)
  then have "dirPrefix (filepath_Join [d, c]) = (if r then ''/'' else []) @ join_with (CHR ''/'') (ws @ [c]) @ ''/''"
    unfolding dirPrefix_def hd Let_def by simp
  then show ?thesis unfolding J by simp
qed

lemma Join_plain2:
  assumes "d \<noteq> []" "plain b" "plain c"
  shows "filepath_Join [filepath_Join [d, b], c] = dirPrefix d @ b @ ''/'' @ c"
proof -
  have "filepath_Join [d, b] \<noteq> []" by (rule filepath_Join_not_Nil) (use assms(1) in simp)
  from Join_plain [OF this assms(3)] have "filepath_Join [filepath_Join [d, b], c] = (filepath_Join [d, b] @ ''/'') @ c"
    unfolding dirPrefix_Join [OF assms(1,2)] .
  then show ?thesis unfolding Join_plain [OF assms(1,2)] by simp
qed

lemma slash_split:
  assumes "plain b" "plain b'" "b @ CHR ''/'' # c = b' @ CHR ''/'' # c'"
  shows "b = b' \<and> c = c'"
proof -
  have tw: "takeWhile (\<lambda>x. x \<noteq> CHR ''/'') (w @ CHR ''/'' # v) = w" if "CHR ''/'' \<notin> set w" for w v
    using that by (induction w) auto
  have "CHR ''/'' \<notin> set b" "CHR ''/'' \<notin> set b'" using assms by (simp_all add: plain_def)
  then have "b = b'" using arg_cong [OF assms(3), of "takeWhile (\<lambda>x. x \<noteq> CHR ''/'')"] tw [of b] tw [of b'] by (metis (no_types))
  with assms(3) show ?thesis by simp
qed

lemma Join_inj2:
  assumes "d \<noteq> []" "plain b" "plain c" "plain b'" "plain c'"
    "filepath_Join [filepath_Join [d, b], c] = filepath_Join [filepath_Join [d, b'], c']"
  shows "b = b' \<and> c = c'"
proof -
  from assms have "b @ CHR ''/'' # c = b' @ CHR ''/'' # c'" by (simp add: Join_plain2)
  then show ?thesis by (rule slash_split [OF assms(2,4)])
qed

text \<open>Two joined components before the last one.\<close>

lemma Join_3:
  assumes "d \<noteq> []" "e \<noteq> []"
  shows "filepath_Join [d, e, c] = filepath_Join [d @ CHR ''/'' # e, c]"
  using assms by (simp add: filepath_Join_def)


section \<open>Relative paths\<close>

text \<open>\<^verbatim>\<open>filepath.Rel\<close>: \<open>None\<close> is its error.\<close>

definition path_comps :: "string \<Rightarrow> string list" where
  "path_comps p = clean_comps (hd p = CHR ''/'') [] (split_on (CHR ''/'') p)"

fun strip_common :: "string list \<Rightarrow> string list \<Rightarrow> string list \<times> string list" where
  "strip_common (b # bs) (t # ts) = (if b = t then strip_common bs ts else (b # bs, t # ts))"
| "strip_common bs ts = (bs, ts)"

definition filepath_Rel :: "string \<Rightarrow> string \<Rightarrow> string option" where
  "filepath_Rel basepath targpath =
     (let base = path_Clean basepath; targ = path_Clean targpath in
      if targ = base then Some ''.''
      else if (hd base = CHR ''/'') \<noteq> (hd targ = CHR ''/'') then None
      else
        let (bs, ts) = strip_common (path_comps base) (path_comps targ)
        in if bs \<noteq> [] \<and> hd bs = ''..'' then None
           else Some (join_with (CHR ''/'') (replicate (length bs) ''..'' @ ts)))"

lemma strip_common_prefix: "strip_common bs (bs @ ts) = ([], ts)"
  by (induction bs) (cases ts; simp)+

lemma path_comps_fixed:
  "clean_comps (hd p = CHR ''/'') [] (path_comps p) = path_comps p" "w \<in> set (path_comps p) \<Longrightarrow> path_comp w"
proof -
  have "clean_comps (hd p = CHR ''/'') [] (path_comps p) = path_comps p \<and> (\<forall>a \<in> set (path_comps p). path_comp a)"
    unfolding path_comps_def by (rule clean_comps_fixed) (auto dest: split_on_no_sep simp del: split_on.simps)
  then show "clean_comps (hd p = CHR ''/'') [] (path_comps p) = path_comps p" "w \<in> set (path_comps p) \<Longrightarrow> path_comp w"
    by simp_all
qed

lemma path_Clean_comps:
  assumes "p \<noteq> []"
  shows "path_Clean p = (if hd p = CHR ''/'' then CHR ''/'' # join_with (CHR ''/'') (path_comps p)
    else if path_comps p = [] then ''.'' else join_with (CHR ''/'') (path_comps p))"
proof -
  have "join_with (CHR ''/'') (path_comps p) = [] \<longleftrightarrow> path_comps p = []"
  proof (cases "path_comps p")
    case (Cons w ws)
    then have "w \<noteq> []" using path_comps_fixed(2) [of w p] path_compD [of w] by simp
    then show ?thesis using Cons by (cases ws) simp_all
  qed simp
  then show ?thesis using assms by (cases "hd p = CHR ''/''") (simp_all add: path_Clean_def path_comps_def Let_def)
qed

lemma hd_path_Clean:
  assumes "p \<noteq> []"
  shows "hd (path_Clean p) = CHR ''/'' \<longleftrightarrow> hd p = CHR ''/''"
proof (cases "hd p = CHR ''/'' \<or> path_comps p = []")
  case True
  then show ?thesis using assms by (auto simp: path_Clean_comps)
next
  case False
  have "hd (join_with (CHR ''/'') (path_comps p)) \<noteq> CHR ''/''"
    by (rule join_hd) (use False path_comps_fixed(2) path_compD in blast)+
  with False show ?thesis using assms by (simp add: path_Clean_comps)
qed

lemma path_comps_Clean:
  assumes "p \<noteq> []"
  shows "path_comps (path_Clean p) = path_comps p"
proof -
  have ns: "\<forall>w \<in> set (path_comps p). CHR ''/'' \<notin> set w" using path_comps_fixed(2) path_compD by blast
  note fixed = path_comps_fixed(1) [of p]
  show ?thesis
  proof (cases "path_comps p = []")
    case True
    then show ?thesis using assms by (simp add: path_Clean_comps) (simp add: path_comps_def)
  next
    case False
    then have "clean_comps (hd p = CHR ''/'') [] (split_on (CHR ''/'') (path_Clean p)) = path_comps p"
      using assms fixed by (cases "hd p = CHR ''/''") (simp_all add: path_Clean_comps split_join [OF False ns])
    then show ?thesis unfolding path_comps_def [of "path_Clean p"] hd_path_Clean [OF assms] .
  qed
qed

lemma path_comps_snoc:
  assumes "d \<noteq> []" "plain c"
  shows "path_comps (d @ CHR ''/'' # c) = path_comps d @ [c]"
  using assms by (simp add: path_comps_def split_on_snoc plain_simps(4) clean_comps_plain)

text \<open>The path of a file two levels below a directory, relative to that directory.\<close>

lemma Rel_Join:
  assumes "d \<noteq> []" "plain b" "plain c"
  shows "filepath_Rel d (filepath_Join [d, b, c]) = Some (b @ CHR ''/'' # c)"
proof -
  let ?p = "(d @ CHR ''/'' # b) @ CHR ''/'' # c"
  have ne: "?p \<noteq> []" "b \<noteq> []" using assms by (simp_all add: plain_simps(1))
  have j: "filepath_Join [d, b, c] = path_Clean ?p" using assms(1) ne by (simp add: filepath_Join_def)
  have cp: "path_comps ?p = path_comps d @ [b, c]"
    using path_comps_snoc [OF _ assms(3), of "d @ CHR ''/'' # b"] path_comps_snoc [OF assms(1,2)] by simp
  have cj: "path_comps (path_Clean (path_Clean ?p)) = path_comps d @ [b, c]"
    using path_comps_Clean [of "path_Clean ?p"] path_comps_Clean [OF ne(1)] cp by simp
  have cd: "path_comps (path_Clean d) = path_comps d" by (rule path_comps_Clean [OF assms(1)])
  have "path_Clean (path_Clean ?p) \<noteq> path_Clean d" using cj cd by (metis append_self_conv list.distinct(1))
  moreover have "hd (path_Clean (path_Clean ?p)) = CHR ''/'' \<longleftrightarrow> hd (path_Clean d) = CHR ''/''"
    using hd_path_Clean [of "path_Clean ?p"] hd_path_Clean [OF ne(1)] hd_path_Clean [OF assms(1)] assms(1) by simp
  ultimately show ?thesis
    unfolding filepath_Rel_def j Let_def cj cd strip_common_prefix by simp
qed

lemma Join_inj3:
  assumes "d \<noteq> []" "plain b" "plain c" "plain b'" "plain c'" "filepath_Join [d, b, c] = filepath_Join [d, b', c']"
  shows "b = b' \<and> c = c'"
proof -
  have "Some (b @ CHR ''/'' # c) = Some (b' @ CHR ''/'' # c')"
    using Rel_Join [OF assms(1-3)] Rel_Join [OF assms(1,4,5)] assms(6) by metis
  then have "b @ CHR ''/'' # c = b' @ CHR ''/'' # c'" by simp
  then show ?thesis by (rule slash_split [OF assms(2,4)])
qed

section \<open>Paths below a directory\<close>

lemma HasPrefix_iff: "HasPrefix s p \<longleftrightarrow> (\<exists>q. s = p @ q)"
  by (auto simp: HasPrefix_def) (metis append_take_drop_id)

lemma HasPrefix_Cons: "HasPrefix (c # s) (c # p) \<longleftrightarrow> HasPrefix s p"
  by (simp add: HasPrefix_def)

lemma clean_comps_plains: "list_all plain ws \<Longrightarrow> clean_comps r acc ws = rev acc @ ws"
  by (induction ws rule: rev_induct) (simp_all add: clean_comps_plain)

lemma split_on_append2: "split_on c (xs @ c # ys) = split_on c xs @ split_on c ys"
proof (induction xs)
  case (Cons x xs)
  then show ?case using split_on_not_Nil [of c xs] by (auto split: list.split)
qed simp

lemma path_comps_append:
  assumes "d \<noteq> []"
  shows "path_comps (d @ CHR ''/'' # s) = clean_comps (hd d = CHR ''/'') (rev (path_comps d)) (split_on (CHR ''/'') s)"
  using assms by (simp add: path_comps_def split_on_append2 clean_comps_append)

lemma plain_no_slash: "list_all plain ws \<Longrightarrow> \<forall>w \<in> set ws. CHR ''/'' \<notin> set w"
  by (auto simp: list_all_iff plain_def)

lemma path_comps_plains:
  assumes "d \<noteq> []" "list_all plain ws" "ws \<noteq> []"
  shows "path_comps (d @ CHR ''/'' # join_with (CHR ''/'') ws) = path_comps d @ ws"
  using assms by (simp add: path_comps_append split_join [OF assms(3) plain_no_slash [OF assms(2)]] clean_comps_plains)

lemma join_with_prefix: "us \<noteq> [] \<Longrightarrow> HasPrefix (join_with c (us @ ws)) (join_with c us)"
proof (induction ws rule: rev_induct)
  case Nil
  then show ?case by (simp add: HasPrefix_def)
next
  case (snoc w ws)
  then have "join_with c (us @ ws @ [w]) = join_with c (us @ ws) @ c # w"
    using join_with_snoc [of c "us @ ws" w] by simp
  with snoc show ?case by (auto simp: HasPrefix_iff)
qed

end
