(* ===== verification/Policy.thy ===== *)
theory Policy
  imports Frame_Store Ref_Store Clean_Paths
begin

text \<open>
  The grant policy, \<^verbatim>\<open>cmd/thundersnapd/policy.go\<close>: which capability a connection gets and in which
  namespace its frames and refs live. The HuJSON and JSON layers and the decoding of a
  capability map are parameters. A Go map is an association list with distinct keys; the
  order of the list is the order of one \<^verbatim>\<open>range\<close> over it.
\<close>

section \<open>Data\<close>

definition ThundersnapCapName :: string where "ThundersnapCapName = ''tailscale.com/cap/thundersnap''"
definition defaultNamespace :: string where "defaultNamespace = ''shared''"

record ThundersnapCap =
  cap_Role :: string
  cap_Isolation :: string
  cap_MaxFrames :: int
  cap_Ephemeral :: bool

definition DefaultCap :: ThundersnapCap where
  "DefaultCap = \<lparr> cap_Role = ''developer'', cap_Isolation = ''container'', cap_MaxFrames = 5, cap_Ephemeral = False \<rparr>"

record PolicyGrant =
  pg_Src :: "string list"
  pg_Dst :: "string list"
  pg_App :: "(string \<times> ThundersnapCap list) list"

record PolicyFile =
  pf_Grants :: "PolicyGrant list"
  pf_Namespaces :: "(string \<times> string) list"

text \<open>The part of a \<^verbatim>\<open>WhoIsResponse\<close> the code reads; \<open>None\<close> is a nil pointer or map.\<close>

record 'm WhoIs =
  who_Login :: "string option"
  who_Tags :: "string list option"
  who_CapMap :: "'m option"

datatype policy_error = PolicyRead | PolicyHujson | PolicyUnmarshal | EmptyPrincipal | BadNamespace string ns_error
and ns_error = NsEmpty | NsInvalid

section \<open>Operations\<close>

definition validateNamespace :: "string \<Rightarrow> ns_error option" where
  "validateNamespace namespace =
     (if namespace = [] then Some NsEmpty
      else if namespace = ''.'' \<or> namespace = ''..'' \<or> (\<exists>c \<in> set namespace. c \<in> {CHR ''/'', CHR 0x5C, CHR 0x00})
      then Some NsInvalid else None)"

fun checkNamespaces :: "(string \<times> string) list \<Rightarrow> policy_error option" where
  "checkNamespaces [] = None"
| "checkNamespaces ((princ, namespace) # ns) =
     (if princ = [] then Some EmptyPrincipal
      else case validateNamespace namespace of Some e \<Rightarrow> Some (BadNamespace princ e)
           | None \<Rightarrow> checkNamespaces ns)"

definition LoadPolicyFile ::
  "(string \<Rightarrow> bytes option) \<Rightarrow> (bytes \<Rightarrow> bytes option) \<Rightarrow> (bytes \<Rightarrow> PolicyFile option) \<Rightarrow> string \<Rightarrow> policy_error + PolicyFile" where
  "LoadPolicyFile readFile standardize unmarshal path =
     (case readFile path of None \<Rightarrow> Inl PolicyRead
      | Some data \<Rightarrow>
     (case standardize data of None \<Rightarrow> Inl PolicyHujson
      | Some standardized \<Rightarrow>
     (case unmarshal standardized of None \<Rightarrow> Inl PolicyUnmarshal
      | Some policy \<Rightarrow>
     (case checkNamespaces (pf_Namespaces policy) of Some e \<Rightarrow> Inl e | None \<Rightarrow> Inr policy))))"

definition NamespaceForPrincipal :: "PolicyFile option \<Rightarrow> string \<Rightarrow> string" where
  "NamespaceForPrincipal p princ =
     (case p of None \<Rightarrow> defaultNamespace
      | Some pf \<Rightarrow>
          (case map_of (pf_Namespaces pf) princ of None \<Rightarrow> defaultNamespace
           | Some namespace \<Rightarrow> if namespace \<noteq> [] then namespace else defaultNamespace))"

fun matchesSrc :: "string list \<Rightarrow> string \<Rightarrow> string list \<Rightarrow> bool" where
  "matchesSrc [] loginName tags = False"
| "matchesSrc (pattern # patterns) loginName tags =
     (if pattern = loginName then True
      else if pattern = ''autogroup:member'' \<and> loginName \<noteq> [] \<and> \<not> HasPrefix loginName ''tag:'' then True
      else if pattern \<in> set tags then True
      else matchesSrc patterns loginName tags)"

fun matchLoop :: "PolicyGrant list \<Rightarrow> string \<Rightarrow> string list \<Rightarrow> ThundersnapCap option" where
  "matchLoop [] loginName tags = None"
| "matchLoop (grant # grants) loginName tags =
     (if matchesSrc (pg_Src grant) loginName tags
      then case map_of (pg_App grant) ThundersnapCapName of
             Some (c # cs) \<Rightarrow> Some c
           | _ \<Rightarrow> matchLoop grants loginName tags
      else matchLoop grants loginName tags)"

definition MatchGrant :: "PolicyFile \<Rightarrow> string \<Rightarrow> string list \<Rightarrow> ThundersnapCap option" where
  "MatchGrant p loginName tags = matchLoop (pf_Grants p) loginName tags"

text \<open>\<open>unmarshalCap\<close> is \<^verbatim>\<open>tailcfg.UnmarshalCapJSON\<close>: \<open>None\<close> is its error.\<close>

definition GetCapFromWhoIs ::
  "('m \<Rightarrow> string \<Rightarrow> ThundersnapCap list option) \<Rightarrow> 'm WhoIs option \<Rightarrow> unit + ThundersnapCap option" where
  "GetCapFromWhoIs unmarshalCap who =
     (case who of None \<Rightarrow> Inr None
      | Some w \<Rightarrow>
     (case who_CapMap w of None \<Rightarrow> Inr None
      | Some m \<Rightarrow>
     (case unmarshalCap m ThundersnapCapName of None \<Rightarrow> Inl ()
      | Some [] \<Rightarrow> Inr None
      | Some (c # cs) \<Rightarrow> Inr (Some c))))"

definition fillDefaults :: "ThundersnapCap \<Rightarrow> ThundersnapCap" where
  "fillDefaults c =
     (let c1 = (if cap_Role c = [] then c\<lparr> cap_Role := cap_Role DefaultCap \<rparr> else c);
          c2 = (if cap_Isolation c1 = [] then c1\<lparr> cap_Isolation := cap_Isolation DefaultCap \<rparr> else c1)
      in if cap_MaxFrames c2 = 0 then c2\<lparr> cap_MaxFrames := cap_MaxFrames DefaultCap \<rparr> else c2)"

definition policyCap :: "'m WhoIs \<Rightarrow> PolicyFile \<Rightarrow> ThundersnapCap option" where
  "policyCap w policy =
     MatchGrant policy (case who_Login w of None \<Rightarrow> [] | Some l \<Rightarrow> l) (case who_Tags w of None \<Rightarrow> [] | Some ts \<Rightarrow> ts)"

definition ResolveCap ::
  "('m \<Rightarrow> string \<Rightarrow> ThundersnapCap list option) \<Rightarrow> 'm WhoIs option \<Rightarrow> PolicyFile option \<Rightarrow> ThundersnapCap" where
  "ResolveCap unmarshalCap who policy =
     (case (if who \<noteq> None then GetCapFromWhoIs unmarshalCap who else Inr None) of
        Inr (Some c) \<Rightarrow> fillDefaults c
      | _ \<Rightarrow>
          (case (policy, who) of
             (Some p, Some w) \<Rightarrow>
               (case policyCap w p of Some c \<Rightarrow> fillDefaults c | None \<Rightarrow> DefaultCap)
           | _ \<Rightarrow> DefaultCap))"

section \<open>Specification\<close>

text \<open>
  What the documentation of the policy promises: the grants that apply to a connection, in
  order of priority, and the first of them decides.
\<close>

definition identities :: "'m WhoIs \<Rightarrow> string set" where
  "identities w =
     {case who_Login w of None \<Rightarrow> [] | Some l \<Rightarrow> l}
       \<union> set (case who_Tags w of None \<Rightarrow> [] | Some ts \<Rightarrow> ts)
       \<union> (case who_Login w of Some l \<Rightarrow> if l \<noteq> [] \<and> \<not> HasPrefix l ''tag:'' then {''autogroup:member''} else {} | None \<Rightarrow> {})"

definition grantCaps :: "PolicyGrant \<Rightarrow> ThundersnapCap list" where
  "grantCaps g = (case map_of (pg_App g) ThundersnapCapName of None \<Rightarrow> [] | Some cs \<Rightarrow> cs)"

definition applicable ::
  "('m \<Rightarrow> string \<Rightarrow> ThundersnapCap list option) \<Rightarrow> 'm WhoIs option \<Rightarrow> PolicyFile option \<Rightarrow> ThundersnapCap list" where
  "applicable unmarshalCap who policy =
     (case who of None \<Rightarrow> []
      | Some w \<Rightarrow>
          (case Option.bind (who_CapMap w) (\<lambda>m. unmarshalCap m ThundersnapCapName) of None \<Rightarrow> [] | Some cs \<Rightarrow> cs) @
          (case policy of None \<Rightarrow> []
           | Some p \<Rightarrow> concat (map grantCaps (filter (\<lambda>g. set (pg_Src g) \<inter> identities w \<noteq> {}) (pf_Grants p)))))"

definition capComplete :: "ThundersnapCap \<Rightarrow> bool" where
  "capComplete c \<longleftrightarrow> cap_Role c \<noteq> [] \<and> cap_Isolation c \<noteq> [] \<and> cap_MaxFrames c \<noteq> 0"

lemma matchesSrc_iff:
  "matchesSrc ps (case who_Login w of None \<Rightarrow> [] | Some l \<Rightarrow> l) (case who_Tags w of None \<Rightarrow> [] | Some ts \<Rightarrow> ts)
     \<longleftrightarrow> set ps \<inter> identities w \<noteq> {}"
  by (induction ps) (auto simp: identities_def split: option.splits)

lemma policyCap_first:
  "policyCap w p =
     (case concat (map grantCaps (filter (\<lambda>g. set (pg_Src g) \<inter> identities w \<noteq> {}) (pf_Grants p))) of
        [] \<Rightarrow> None | c # cs \<Rightarrow> Some c)"
proof -
  have "matchLoop gs (case who_Login w of None \<Rightarrow> [] | Some l \<Rightarrow> l) (case who_Tags w of None \<Rightarrow> [] | Some ts \<Rightarrow> ts) =
     (case concat (map grantCaps (filter (\<lambda>g. set (pg_Src g) \<inter> identities w \<noteq> {}) gs)) of
        [] \<Rightarrow> None | c # cs \<Rightarrow> Some c)" for gs
  proof (induction gs)
    case (Cons g gs)
    then show ?case
    proof (cases "set (pg_Src g) \<inter> identities w \<noteq> {}")
      case True
      with Cons show ?thesis
        by (cases "grantCaps g") (simp_all add: matchesSrc_iff grantCaps_def split: option.splits list.split)
    qed (simp add: matchesSrc_iff)
  qed simp
  then show ?thesis by (simp add: policyCap_def MatchGrant_def)
qed

lemma ResolveCap_first:
  "ResolveCap u who policy = (case applicable u who policy of [] \<Rightarrow> DefaultCap | c # cs \<Rightarrow> fillDefaults c)"
proof (cases who)
  case None
  then show ?thesis by (simp add: ResolveCap_def applicable_def split: option.split)
next
  case (Some w)
  have policy: "(case (policy, who) of (Some p, Some w) \<Rightarrow> (case policyCap w p of Some c \<Rightarrow> fillDefaults c | None \<Rightarrow> DefaultCap) | _ \<Rightarrow> DefaultCap) =
      (case (case policy of None \<Rightarrow> [] | Some p \<Rightarrow> concat (map grantCaps (filter (\<lambda>g. set (pg_Src g) \<inter> identities w \<noteq> {}) (pf_Grants p)))) of
         [] \<Rightarrow> DefaultCap | c # cs \<Rightarrow> fillDefaults c)"
    by (simp only: Some policyCap_first) (simp split: option.split list.split del: concat_eq_Nil_conv Nil_eq_concat_conv)
  show ?thesis
  proof (cases "Option.bind (who_CapMap w) (\<lambda>m. u m ThundersnapCapName)")
    case None
    then have "GetCapFromWhoIs u who = Inr None \<or> GetCapFromWhoIs u who = Inl ()"
      using Some by (cases "who_CapMap w") (simp_all add: GetCapFromWhoIs_def)
    with None Some policy show ?thesis by (elim disjE) (simp_all add: ResolveCap_def applicable_def)
  next
    case (Some cs)
    then obtain m where "who_CapMap w = Some m" "u m ThundersnapCapName = Some cs" by (auto simp: bind_eq_Some_conv)
    with \<open>who = Some w\<close> policy show ?thesis
      by (cases cs) (simp_all add: ResolveCap_def applicable_def GetCapFromWhoIs_def)
  qed
qed

lemma fillDefaults_complete: "capComplete (fillDefaults c)"
  by (simp add: capComplete_def fillDefaults_def DefaultCap_def Let_def)

lemma fillDefaults_keeps:
  "capComplete c \<Longrightarrow> fillDefaults c = c"
  "cap_Ephemeral (fillDefaults c) = cap_Ephemeral c"
  "cap_MaxFrames c \<noteq> 0 \<Longrightarrow> cap_MaxFrames (fillDefaults c) = cap_MaxFrames c"
  by (simp_all add: capComplete_def fillDefaults_def Let_def)

section \<open>Namespaces are directories of their own\<close>

lemma validateNamespace_plain: "validateNamespace n = None \<Longrightarrow> plain n"
  by (auto simp: validateNamespace_def plain_def split: if_splits)

lemma checkNamespaces_all: "checkNamespaces ns = None \<Longrightarrow> (k, n) \<in> set ns \<Longrightarrow> k \<noteq> [] \<and> validateNamespace n = None"
  by (induction ns rule: checkNamespaces.induct) (auto split: if_splits option.splits)

lemma LoadPolicyFile_checked:
  "LoadPolicyFile rd st um path = Inr p \<Longrightarrow> checkNamespaces (pf_Namespaces p) = None"
  by (auto simp: LoadPolicyFile_def split: option.splits)

lemma namespace_plain:
  assumes "LoadPolicyFile rd st um path = Inr p"
  shows "plain (NamespaceForPrincipal (Some p) u)"
proof (cases "map_of (pf_Namespaces p) u")
  case None
  then show ?thesis by (simp add: NamespaceForPrincipal_def defaultNamespace_def plain_def)
next
  case (Some n)
  from checkNamespaces_all [OF LoadPolicyFile_checked [OF assms] map_of_SomeD [OF this]]
  have "plain n" by (auto intro: validateNamespace_plain)
  with Some show ?thesis by (simp add: NamespaceForPrincipal_def plain_def)
qed

lemma namespace_files:
  assumes "plain n" "sd \<noteq> []"
  shows "metaPath (NewNamespaceFrameStore sd n) u = filepath_Join [filepath_Join [sd @ ''/fs'', n], u @ ''.jsonc'']"
    "framePath (NewNamespaceFrameStore sd n) u = filepath_Join [filepath_Join [sd @ ''/fs'', n], u]"
    "refPath (NewNamespaceRefStore sd n) r = filepath_Join [filepath_Join [sd @ ''/refs'', n], r @ ''.jsonc'']"
  using assms by (simp_all add: metaPath_def framePath_def fsDir_def refPath_def refsDir_def NewNamespaceFrameStore_def
      NewNamespaceRefStore_def plain_simps(1) Join_3)

text \<open>
  C25: The capability of a connection is decided by the first grant that applies, first of the
  capability map of the tailnet, then of the local policy file, and by the default when there is none;
  it always has a role, an isolation and a frame limit. In a policy that has been loaded, every
  principal has a namespace that is one plain directory name, and principals with different
  namespaces share no frame directory, no frame sidecar and no ref file.
\<close>

theorem policy_resolution:
  assumes "LoadPolicyFile readFile standardize unmarshal path = Inr p" "sd \<noteq> []"
    "is_uuid f" "is_uuid f'" "valid_ref r" "valid_ref r'"
  shows "ResolveCap unmarshalCap who (Some p) =
      (case applicable unmarshalCap who (Some p) of [] \<Rightarrow> DefaultCap | c # _ \<Rightarrow> fillDefaults c)
    \<and> capComplete (ResolveCap unmarshalCap who (Some p))
    \<and> plain (NamespaceForPrincipal (Some p) u)
    \<and> (NamespaceForPrincipal (Some p) u \<noteq> NamespaceForPrincipal (Some p) v \<longrightarrow>
        (let fu = NewNamespaceFrameStore sd (NamespaceForPrincipal (Some p) u);
             fv = NewNamespaceFrameStore sd (NamespaceForPrincipal (Some p) v);
             ru = NewNamespaceRefStore sd (NamespaceForPrincipal (Some p) u);
             rv = NewNamespaceRefStore sd (NamespaceForPrincipal (Some p) v)
         in framePath fu f \<noteq> framePath fv f' \<and> metaPath fu f \<noteq> metaPath fv f'
            \<and> framePath fu f \<noteq> metaPath fv f' \<and> refPath ru r \<noteq> refPath rv r'))"
proof (intro conjI impI)
  show "capComplete (ResolveCap unmarshalCap who (Some p))"
    unfolding ResolveCap_first by (simp add: fillDefaults_complete split: list.split) (simp add: capComplete_def DefaultCap_def)
  show pu: "plain (NamespaceForPrincipal (Some p) u)" by (rule namespace_plain [OF assms(1)])
  have pv: "plain (NamespaceForPrincipal (Some p) v)" by (rule namespace_plain [OF assms(1)])
  assume ne: "NamespaceForPrincipal (Some p) u \<noteq> NamespaceForPrincipal (Some p) v"
  have nj: "filepath_Join [filepath_Join [d, NamespaceForPrincipal (Some p) u], c] \<noteq>
      filepath_Join [filepath_Join [d, NamespaceForPrincipal (Some p) v], c']" if "d \<noteq> []" "plain c" "plain c'" for d c c'
    using Join_inj2 [OF that(1) pu that(2) pv that(3)] ne by blast
  show "let fu = NewNamespaceFrameStore sd (NamespaceForPrincipal (Some p) u);
             fv = NewNamespaceFrameStore sd (NamespaceForPrincipal (Some p) v);
             ru = NewNamespaceRefStore sd (NamespaceForPrincipal (Some p) u);
             rv = NewNamespaceRefStore sd (NamespaceForPrincipal (Some p) v)
         in framePath fu f \<noteq> framePath fv f' \<and> metaPath fu f \<noteq> metaPath fv f'
            \<and> framePath fu f \<noteq> metaPath fv f' \<and> refPath ru r \<noteq> refPath rv r'"
    unfolding Let_def namespace_files [OF pu assms(2)] namespace_files [OF pv assms(2)]
    by (intro conjI nj is_uuid_plain valid_ref_plain assms) simp_all
qed (rule ResolveCap_first)

definition ex_policy :: PolicyFile where
  "ex_policy = \<lparr> pf_Grants = [\<lparr> pg_Src = [''autogroup:member''], pg_Dst = [], pg_App = [(ThundersnapCapName,
      [\<lparr> cap_Role = ''admin'', cap_Isolation = [], cap_MaxFrames = -1, cap_Ephemeral = False \<rparr>])] \<rparr>],
     pf_Namespaces = [(''alice'', ''team'')] \<rparr>"

lemma ex_policy_loads: "LoadPolicyFile (\<lambda>_. Some []) Some (\<lambda>_. Some ex_policy) ''policy'' = Inr ex_policy"
  by (simp add: LoadPolicyFile_def ex_policy_def validateNamespace_def)

theorem policy_resolution_witness:
  "ResolveCap (\<lambda>(_::unit) _. None) (Some \<lparr> who_Login = Some ''alice'', who_Tags = None, who_CapMap = None \<rparr>) (Some ex_policy)
     = \<lparr> cap_Role = ''admin'', cap_Isolation = ''container'', cap_MaxFrames = -1, cap_Ephemeral = False \<rparr>
   \<and> refPath (NewNamespaceRefStore ''/data'' ''team'') ''web'' \<noteq> refPath (NewNamespaceRefStore ''/data'' ''shared'') ''web''"
proof -
  have v: "valid_ref ''web''" "is_uuid ex_id" by (code_simp | simp)+
  have n: "NamespaceForPrincipal (Some ex_policy) ''alice'' = ''team''" "NamespaceForPrincipal (Some ex_policy) ''bob'' = ''shared''"
    by (simp_all add: NamespaceForPrincipal_def ex_policy_def defaultNamespace_def)
  note * = policy_resolution [OF ex_policy_loads _ v(2) v(2) v(1) v(1), of "''/data''" "\<lambda>(_::unit) _. None"
      "Some \<lparr> who_Login = Some ''alice'', who_Tags = None, who_CapMap = None \<rparr>" "''alice''" "''bob''"]
  have a: "applicable (\<lambda>(_::unit) _. None) (Some \<lparr> who_Login = Some ''alice'', who_Tags = None, who_CapMap = None \<rparr>) (Some ex_policy) =
      [\<lparr> cap_Role = ''admin'', cap_Isolation = [], cap_MaxFrames = -1, cap_Ephemeral = False \<rparr>]"
    by (simp add: applicable_def identities_def ex_policy_def grantCaps_def HasPrefix_def)
  show ?thesis
    using * by (simp add: n a Let_def fillDefaults_def DefaultCap_def)
qed

end
