(* ===== verification/Autorun.thy ===== *)
theory Autorun
  imports Ref_Store
begin

text \<open>
  The autorun manager, \<^verbatim>\<open>cmd/thundersnapd/autorun.go\<close>: at most one supervised process per ref. A process is a
  pointer (a number) and its supervisor goroutine is active, cancelled or has exited;
  waiting for \<^verbatim>\<open>proc.done\<close> ends in the exited state. The session a supervisor runs in the container
  (\<^verbatim>\<open>runOnce\<close>) is represented by its outcome.
\<close>

section \<open>State\<close>

type_synonym autorunKey = "string \<times> string"

record autorunProcess =
  ap_key :: autorunKey
  ap_frameUUID :: string
  ap_argv :: "string list"
  ap_ptr :: nat

datatype supervisor = Active | Cancelled | Exited

record autorunManager =
  am_processes :: "autorunKey \<rightharpoonup> autorunProcess"
  am_supervisors :: "nat \<rightharpoonup> supervisor"
  am_procs :: "nat \<rightharpoonup> autorunProcess"
  am_next :: nat

definition emptyManager :: autorunManager where
  "emptyManager = \<lparr> am_processes = Map.empty, am_supervisors = Map.empty, am_procs = Map.empty, am_next = 0 \<rparr>"

section \<open>Operations\<close>

definition argsEqual :: "string list \<Rightarrow> string list \<Rightarrow> bool" where
  "argsEqual a b = (length a = length b \<and> list_all (\<lambda>i. a ! i = b ! i) [0..<length a])"

definition proc_stop :: "autorunProcess \<Rightarrow> autorunManager \<Rightarrow> autorunManager" where
  "proc_stop p m =
     (if am_supervisors m (ap_ptr p) = Some Exited then m
      else m\<lparr> am_supervisors := (am_supervisors m)(ap_ptr p \<mapsto> Cancelled) \<rparr>)"

definition proc_wait :: "autorunProcess \<Rightarrow> autorunManager \<Rightarrow> autorunManager" where
  "proc_wait p m = m\<lparr> am_supervisors := (am_supervisors m)(ap_ptr p \<mapsto> Exited) \<rparr>"

definition delProcess :: "autorunKey \<Rightarrow> autorunManager \<Rightarrow> autorunManager" where
  "delProcess key m = m\<lparr> am_processes := (am_processes m)(key := None) \<rparr>"

definition newProcess :: "autorunKey \<Rightarrow> string \<Rightarrow> string list \<Rightarrow> autorunManager \<Rightarrow> autorunManager" where
  "newProcess key frameUUID argv m =
     (let p = \<lparr> ap_key = key, ap_frameUUID = frameUUID, ap_argv = argv, ap_ptr = am_next m \<rparr>
      in m\<lparr> am_processes := (am_processes m)(key \<mapsto> p),
            am_supervisors := (am_supervisors m)(am_next m \<mapsto> Active),
            am_procs := (am_procs m)(am_next m \<mapsto> p),
            am_next := am_next m + 1 \<rparr>)"

definition startProcess :: "string \<Rightarrow> string \<Rightarrow> string \<Rightarrow> string list \<Rightarrow> autorunManager \<Rightarrow> autorunManager" where
  "startProcess user refName frameUUID argv m =
     (if argv = [] then m
      else
        (case am_processes m (user, refName) of
           Some existing \<Rightarrow>
             if ap_frameUUID existing = frameUUID \<and> argsEqual (ap_argv existing) argv then m
             else newProcess (user, refName) frameUUID argv (delProcess (user, refName) (proc_stop existing m))
         | None \<Rightarrow> newProcess (user, refName) frameUUID argv m))"

definition stopProcess :: "string \<Rightarrow> string \<Rightarrow> autorunManager \<Rightarrow> autorunManager" where
  "stopProcess user refName m =
     (case am_processes m (user, refName) of
        None \<Rightarrow> m
      | Some p \<Rightarrow> proc_wait p (proc_stop p (delProcess (user, refName) m)))"

definition restartProcess :: "string \<Rightarrow> string \<Rightarrow> string \<Rightarrow> string list \<Rightarrow> autorunManager \<Rightarrow> autorunManager" where
  "restartProcess user refName newUUID argv m =
     (if argv = [] then m else startProcess user refName newUUID argv (stopProcess user refName m))"

fun scanRefs :: "(string \<Rightarrow> store_error + Ref) \<Rightarrow> string \<Rightarrow> string list \<Rightarrow> autorunManager \<Rightarrow> autorunManager" where
  "scanRefs get user [] m = m"
| "scanRefs get user (name # names) m =
     (case get name of
        Inl e \<Rightarrow> scanRefs get user names m
      | Inr r \<Rightarrow>
          scanRefs get user names
            (if rf_Autorun r \<noteq> [] then startProcess user name (rf_UUID r) (rf_Autorun r) m else m))"

definition scanUserRefs ::
  "Ref json \<Rightarrow> store_io \<Rightarrow> string \<Rightarrow> (string \<Rightarrow> dir_listing) \<Rightarrow> fmap \<Rightarrow> string \<Rightarrow> autorunManager \<Rightarrow> autorunManager" where
  "scanUserRefs js io dataDir listing fs user m =
     (let store = NewNamespaceRefStore dataDir user
      in case ref_List (listing (refsDir store)) of
           Inl e \<Rightarrow> m
         | Inr names \<Rightarrow> scanRefs (\<lambda>name. ref_Get js io store name fs) user names m)"

definition scanAndStartAll ::
  "Ref json \<Rightarrow> store_io \<Rightarrow> string \<Rightarrow> (string \<Rightarrow> dir_listing) \<Rightarrow> fmap \<Rightarrow> autorunManager \<Rightarrow> autorunManager" where
  "scanAndStartAll js io dataDir listing fs m =
     (case listing (filepath_Join [dataDir, ''refs'']) of
        Listing userDirs \<Rightarrow>
          fold (\<lambda>(user, isDir) m. if isDir then scanUserRefs js io dataDir listing fs user m else m) userDirs m
      | _ \<Rightarrow> m)"

definition initAutorunManager ::
  "Ref json \<Rightarrow> store_io \<Rightarrow> string \<Rightarrow> (string \<Rightarrow> dir_listing) \<Rightarrow> fmap \<Rightarrow> autorunManager" where
  "initAutorunManager js io dataDir listing fs = scanAndStartAll js io dataDir listing fs emptyManager"

text \<open>The supervisor of a cancelled process exits when it next looks at its context.\<close>

definition supervisorExits :: "nat \<Rightarrow> autorunManager \<Rightarrow> autorunManager" where
  "supervisorExits ptr m =
     (if am_supervisors m ptr = Some Cancelled then m\<lparr> am_supervisors := (am_supervisors m)(ptr \<mapsto> Exited) \<rparr> else m)"

definition shutdownAutorunManager :: "autorunManager \<Rightarrow> autorunManager" where
  "shutdownAutorunManager m =
     m\<lparr> am_supervisors := (\<lambda>ptr. map_option (\<lambda>_. Exited) (am_supervisors m ptr)) \<rparr>"

section \<open>The restart loop\<close>

text \<open>
  One attempt of \<^verbatim>\<open>supervise\<close>: whether the context was cancelled before it, whether \<^verbatim>\<open>runOnce\<close> failed, and
  whether the context was cancelled by then or during the delay after a success. Durations are
  nanoseconds; \<open>supervise\<close> gives the delays of the attempts that were made.
\<close>

record attempt =
  at_cancelled :: bool
  at_err :: bool
  at_cancelledAfter :: bool

definition initialBackoff :: int where "initialBackoff = 100 * 1000000"
definition maxBackoff :: int where "maxBackoff = 30 * 1000000000"

definition nextBackoff :: "int \<Rightarrow> int" where
  "nextBackoff backoff = (if backoff * 2 > maxBackoff then maxBackoff else backoff * 2)"

fun superviseLoop :: "attempt list \<Rightarrow> int \<Rightarrow> int list" where
  "superviseLoop [] backoff = []"
| "superviseLoop (a # as) backoff =
     (if at_cancelled a then []
      else if at_cancelledAfter a then [backoff]
      else backoff # superviseLoop as (nextBackoff backoff))"

definition supervise :: "attempt list \<Rightarrow> int list" where
  "supervise as = superviseLoop as initialBackoff"

lemma superviseLoop_nth:
  "i < length (superviseLoop as b) \<Longrightarrow> superviseLoop as b ! i = (nextBackoff ^^ i) b"
proof (induction as b arbitrary: i rule: superviseLoop.induct)
  case (2 a as b)
  then show ?case by (cases i) (auto simp: funpow_swap1 split: if_splits)
qed simp

lemma nextBackoff_pow: "(nextBackoff ^^ i) initialBackoff = min maxBackoff (initialBackoff * 2 ^ i)"
proof (induction i)
  case (Suc i)
  have "(0::int) < 2 ^ i" by simp
  with Suc show ?case by (simp add: nextBackoff_def maxBackoff_def initialBackoff_def min_def)
qed (simp add: maxBackoff_def initialBackoff_def)

text \<open>The delay before attempt \<open>i\<close> doubles up to half a minute, far from the 63 bits of a duration.\<close>

lemma supervise_backoff:
  "i < length (supervise as) \<Longrightarrow> supervise as ! i = min maxBackoff (initialBackoff * 2 ^ i)"
  by (simp add: supervise_def superviseLoop_nth nextBackoff_pow)

section \<open>One active supervisor per ref\<close>

text \<open>Every process in the table is supervised, and every active supervisor is in the table.\<close>

definition am_inv :: "autorunManager \<Rightarrow> bool" where
  "am_inv m \<longleftrightarrow>
     (\<forall>key p. am_processes m key = Some p \<longrightarrow> ap_key p = key \<and> am_procs m (ap_ptr p) = Some p \<and> am_supervisors m (ap_ptr p) = Some Active)
   \<and> (\<forall>ptr. am_supervisors m ptr = Some Active \<longrightarrow> (\<exists>p. am_procs m ptr = Some p \<and> am_processes m (ap_key p) = Some p))
   \<and> (\<forall>ptr p. am_procs m ptr = Some p \<longrightarrow> ap_ptr p = ptr \<and> ptr < am_next m)
   \<and> (\<forall>ptr. am_supervisors m ptr \<noteq> None \<longrightarrow> ptr < am_next m)"

lemma am_inv_empty [simp]: "am_inv emptyManager"
  by (simp add: am_inv_def emptyManager_def)

lemma argsEqual_iff: "argsEqual a b \<longleftrightarrow> a = b"
  by (auto simp: argsEqual_def list_all_iff intro: nth_equalityI)

lemma am_invD:
  assumes "am_inv m"
  shows "am_processes m key = Some p \<Longrightarrow> ap_key p = key \<and> am_procs m (ap_ptr p) = Some p \<and> am_supervisors m (ap_ptr p) = Some Active"
    "am_supervisors m ptr = Some Active \<Longrightarrow> \<exists>p. am_procs m ptr = Some p \<and> am_processes m (ap_key p) = Some p"
    "am_procs m ptr = Some p \<Longrightarrow> ap_ptr p = ptr \<and> ptr < am_next m"
    "am_supervisors m ptr \<noteq> None \<Longrightarrow> ptr < am_next m"
  using assms unfolding am_inv_def by blast+

lemma newProcess_inv:
  assumes "am_inv m" "am_processes m key = None"
  shows "am_inv (newProcess key u argv m)"
proof -
  note D = am_invD [OF assms(1)]
  define p0 where "p0 = \<lparr> ap_key = key, ap_frameUUID = u, ap_argv = argv, ap_ptr = am_next m \<rparr>"
  have fresh: "am_procs m (am_next m) = None" using D(3) by (cases "am_procs m (am_next m)") auto
  have old: "ap_ptr p \<noteq> am_next m" if "am_processes m k = Some p" for k p
    using D(1) [OF that] fresh by auto
  let ?m = "newProcess key u argv m"
  have f: "am_processes ?m = (am_processes m)(key \<mapsto> p0)" "am_supervisors ?m = (am_supervisors m)(am_next m \<mapsto> Active)"
    "am_procs ?m = (am_procs m)(am_next m \<mapsto> p0)" "am_next ?m = Suc (am_next m)"
    by (simp_all add: newProcess_def Let_def p0_def)
  have p0: "ap_key p0 = key" "ap_ptr p0 = am_next m" by (simp_all add: p0_def)
  have 1: "ap_key p = k \<and> am_procs ?m (ap_ptr p) = Some p \<and> am_supervisors ?m (ap_ptr p) = Some Active"
    if "am_processes ?m k = Some p" for k p
  proof (cases "k = key")
    case True
    with that have "p = p0" by (simp add: f)
    with True show ?thesis by (simp add: f p0)
  next
    case False
    with that have k: "am_processes m k = Some p" by (simp add: f)
    with D(1) [OF k] old [OF k] show ?thesis by (simp add: f)
  qed
  have 2: "\<exists>p. am_procs ?m ptr = Some p \<and> am_processes ?m (ap_key p) = Some p" if "am_supervisors ?m ptr = Some Active" for ptr
    using that D(2) [of ptr] assms(2) by (cases "ptr = am_next m") (auto simp: f p0)
  have 3: "ap_ptr p = ptr \<and> ptr < am_next ?m" if "am_procs ?m ptr = Some p" for ptr p
    using that D(3) [of ptr p] p0(2) by (cases "ptr = am_next m") (simp_all add: f less_SucI)
  have 4: "ptr < am_next ?m" if "am_supervisors ?m ptr \<noteq> None" for ptr
    using that D(4) [of ptr] by (cases "ptr = am_next m") (auto simp: f)
  show ?thesis unfolding am_inv_def using 1 2 3 4 by blast
qed

definition removeProcess :: "supervisor \<Rightarrow> autorunProcess \<Rightarrow> autorunManager \<Rightarrow> autorunManager" where
  "removeProcess s p m = m\<lparr> am_processes := (am_processes m)(ap_key p := None), am_supervisors := (am_supervisors m)(ap_ptr p \<mapsto> s) \<rparr>"

lemma removeProcess_inv:
  assumes "am_inv m" "am_processes m key = Some p" "s \<noteq> Active"
  shows "am_inv (removeProcess s p m) \<and> am_processes (removeProcess s p m) key = None"
proof -
  note D = am_invD [OF assms(1)]
  let ?m = "removeProcess s p m"
  from D(1) [OF assms(2)] have p: "ap_key p = key" "am_procs m (ap_ptr p) = Some p" by simp_all
  have f: "am_processes ?m = (am_processes m)(key := None)" "am_supervisors ?m = (am_supervisors m)(ap_ptr p \<mapsto> s)"
    "am_procs ?m = am_procs m" "am_next ?m = am_next m"
    by (simp_all add: removeProcess_def p)
  have 1: "ap_key q = k \<and> am_procs ?m (ap_ptr q) = Some q \<and> am_supervisors ?m (ap_ptr q) = Some Active"
    if "am_processes ?m k = Some q" for k q
  proof -
    from that have k: "k \<noteq> key" "am_processes m k = Some q" by (auto simp: f split: if_splits)
    have "ap_ptr q \<noteq> ap_ptr p"
    proof
      assume eq: "ap_ptr q = ap_ptr p"
      from D(1) [OF k(2)] have "am_procs m (ap_ptr q) = Some q" "ap_key q = k" by blast+
      then have "q = p" using p(2) unfolding eq by (metis option.inject)
      then show False using \<open>ap_key q = k\<close> p(1) k(1) by metis
    qed
    with D(1) [OF k(2)] show ?thesis by (simp add: f)
  qed
  have 2: "\<exists>q. am_procs ?m ptr = Some q \<and> am_processes ?m (ap_key q) = Some q" if "am_supervisors ?m ptr = Some Active" for ptr
  proof -
    from that assms(3) have ne: "ptr \<noteq> ap_ptr p" "am_supervisors m ptr = Some Active" by (cases "ptr = ap_ptr p"; simp add: f)+
    from D(2) [OF ne(2)] obtain q where q: "am_procs m ptr = Some q" "am_processes m (ap_key q) = Some q" by blast
    have "ap_key q \<noteq> key"
    proof
      assume "ap_key q = key"
      with q(2) assms(2) have "q = p" by simp
      with D(3) [OF q(1)] ne(1) show False by simp
    qed
    with q show ?thesis by (simp add: f)
  qed
  have 3: "ap_ptr q = ptr \<and> ptr < am_next ?m" if "am_procs ?m ptr = Some q" for ptr q using that D(3) by (simp add: f)
  have 4: "ptr < am_next ?m" if "am_supervisors ?m ptr \<noteq> None" for ptr
    using that D(4) [of ptr] D(3) [OF p(2)] by (cases "ptr = ap_ptr p") (auto simp: f)
  have "am_inv ?m" unfolding am_inv_def using 1 2 3 4 by blast
  then show ?thesis by (simp add: f)
qed

lemma startProcess_cases:
  assumes "am_inv m" "argv \<noteq> []"
  shows "startProcess user refName u argv m = m \<and> (\<exists>p. am_processes m (user, refName) = Some p \<and> ap_frameUUID p = u \<and> ap_argv p = argv)
    \<or> (\<exists>m'. am_inv m' \<and> am_processes m' = (am_processes m)((user, refName) := None) \<and>
        startProcess user refName u argv m = newProcess (user, refName) u argv m')"
proof (cases "am_processes m (user, refName)")
  case None
  then have "(am_processes m)((user, refName) := None) = am_processes m" by (auto simp: fun_eq_iff)
  with None assms show ?thesis by (auto simp: startProcess_def)
next
  case (Some p)
  then have a: "am_supervisors m (ap_ptr p) = Some Active" "ap_key p = (user, refName)" using assms(1) by (auto simp: am_inv_def)
  have r: "delProcess (user, refName) (proc_stop p m) = removeProcess Cancelled p m"
    using a by (simp add: delProcess_def proc_stop_def removeProcess_def)
  show ?thesis
  proof (cases "ap_frameUUID p = u \<and> ap_argv p = argv")
    case True
    with Some assms(2) show ?thesis by (simp add: startProcess_def argsEqual_iff)
  next
    case False
    then have "startProcess user refName u argv m = newProcess (user, refName) u argv (removeProcess Cancelled p m)"
      using Some assms(2) by (auto simp: startProcess_def argsEqual_iff r)
    with removeProcess_inv [OF assms(1) Some, of Cancelled] a(2) show ?thesis
      by (intro disjI2 exI [of _ "removeProcess Cancelled p m"]) (simp add: removeProcess_def)
  qed
qed

text \<open>Starting leaves exactly the requested process for the ref and touches no other.\<close>

lemma startProcess_spec:
  assumes "am_inv m" "argv \<noteq> []"
  shows "am_inv (startProcess user refName u argv m)"
    "\<exists>p. am_processes (startProcess user refName u argv m) = (am_processes m)((user, refName) \<mapsto> p) \<and> ap_frameUUID p = u \<and> ap_argv p = argv"
proof -
  from startProcess_cases [OF assms, of user refName u]
  show "am_inv (startProcess user refName u argv m)"
  proof (elim disjE conjE exE)
    fix m' assume "am_inv m'" "am_processes m' = (am_processes m)((user, refName) := None)"
      "startProcess user refName u argv m = newProcess (user, refName) u argv m'"
    then show ?thesis using newProcess_inv [of m' "(user, refName)" u argv] by simp
  qed (simp add: assms(1))
  from startProcess_cases [OF assms, of user refName u]
  show "\<exists>p. am_processes (startProcess user refName u argv m) = (am_processes m)((user, refName) \<mapsto> p) \<and> ap_frameUUID p = u \<and> ap_argv p = argv"
  proof (elim disjE conjE exE)
    fix p assume "startProcess user refName u argv m = m" "am_processes m (user, refName) = Some p" "ap_frameUUID p = u" "ap_argv p = argv"
    then show ?thesis by (intro exI [of _ p]) (simp add: fun_upd_idem)
  next
    fix m' assume "am_processes m' = (am_processes m)((user, refName) := None)"
      "startProcess user refName u argv m = newProcess (user, refName) u argv m'"
    then show ?thesis
      by (intro exI [of _ "\<lparr> ap_key = (user, refName), ap_frameUUID = u, ap_argv = argv, ap_ptr = am_next m' \<rparr>"]) (simp add: newProcess_def Let_def)
  qed
qed

lemma stopProcess_spec:
  assumes "am_inv m"
  shows "am_inv (stopProcess user refName m) \<and>
    am_processes (stopProcess user refName m) = (am_processes m)((user, refName) := None)"
proof (cases "am_processes m (user, refName)")
  case None
  then have "(am_processes m)((user, refName) := None) = am_processes m" by (auto simp: fun_eq_iff)
  with None assms show ?thesis by (simp add: stopProcess_def)
next
  case (Some p)
  then have a: "am_supervisors m (ap_ptr p) = Some Active" "ap_key p = (user, refName)" using assms by (auto simp: am_inv_def)
  have "stopProcess user refName m = removeProcess Exited p m"
    using a Some by (simp add: stopProcess_def delProcess_def proc_stop_def proc_wait_def removeProcess_def)
  with removeProcess_inv [OF assms Some, of Exited] a(2) show ?thesis by (simp add: removeProcess_def)
qed

lemma restartProcess_spec:
  assumes "am_inv m" "argv \<noteq> []"
  shows "am_inv (restartProcess user refName u argv m)"
    "\<exists>p. am_processes (restartProcess user refName u argv m) = (am_processes m)((user, refName) \<mapsto> p) \<and> ap_frameUUID p = u \<and> ap_argv p = argv"
  using startProcess_spec [OF conjunct1 [OF stopProcess_spec [OF assms(1), of user refName]] assms(2), of user refName u]
    stopProcess_spec [OF assms(1), of user refName] assms(2)
  by (simp_all add: restartProcess_def)

text \<open>A ref has at most one active supervisor.\<close>

lemma one_supervisor:
  assumes "am_inv m" "am_procs m i = Some p" "am_procs m j = Some q" "ap_key p = ap_key q"
    "am_supervisors m i = Some Active" "am_supervisors m j = Some Active"
  shows "i = j"
  using assms unfolding am_inv_def by (metis option.inject)

end
