(* ===== verification/Control_Handlers.thy ===== *)
theory Control_Handlers
  imports Policy Ref_Id Autorun
begin

text \<open>
  The ref and frame requests of the control socket, \<^verbatim>\<open>cmd/thundersnapd/refs_handlers.go\<close> and
  \<^verbatim>\<open>cmd/thundersnapd/frames_handlers.go\<close>, on the state they share: the ref and frame files, the
  identity subvolumes of the frames and the autorun manager. Requests are handled one after
  the other; every call may fail. The UUID parser and the JSON layer are parameters; a response
  is its HTTP status, with the data of the read-only requests.
\<close>

section \<open>State and requests\<close>

record config =
  cf_fsDir :: string
  cf_dataDir :: string
  cf_parse :: "string \<Rightarrow> string option"
  cf_refJson :: "Ref json"
  cf_frameJson :: "Frame json"

record daemon =
  dm_files :: fmap
  dm_ids :: idfs
  dm_idDirs :: "string set"
  dm_autorun :: "autorunManager option"

text \<open>The outcome of the calls of one request.\<close>

record calls =
  ca_get :: store_io
  ca_op :: store_io
  ca_ids :: outcomes
  ca_list :: dir_listing

record RefRequest =
  rr_Name :: string
  rr_UUID :: string
  rr_Force :: bool

record AutorunRequest =
  ar_RefName :: string
  ar_Argv :: "string list"

record 'b request =
  rq_Method :: string
  rq_Body :: "'b option"

definition requireMethod :: "'b request \<Rightarrow> string \<Rightarrow> bool" where
  "requireMethod r method = (rq_Method r = method)"

section \<open>Frames and namespaces\<close>

definition namespaceFromRootFS :: "config \<Rightarrow> string \<Rightarrow> string option" where
  "namespaceFromRootFS cf rootFS =
     (let rootFSRel = (case filepath_Rel (cf_fsDir cf) rootFS of None \<Rightarrow> [] | Some r \<Rightarrow> r);
          parts = split_on (CHR ''/'') rootFSRel
      in if length parts < 2 then None else Some (parts ! 0))"

definition frameUUIDFromRootFS :: "config \<Rightarrow> string \<Rightarrow> string option" where
  "frameUUIDFromRootFS cf rootFS =
     (let rootFSRel = (case filepath_Rel (cf_fsDir cf) rootFS of None \<Rightarrow> [] | Some r \<Rightarrow> r);
          parts = split_on (CHR ''/'') rootFSRel
      in if length parts < 2 then None else cf_parse cf (parts ! 1))"

definition framePathForNamespaceUUID :: "config \<Rightarrow> string \<Rightarrow> string \<Rightarrow> string" where
  "framePathForNamespaceUUID cf namespace uuid =
     (if cf_fsDir cf = [] then [] else filepath_Join [cf_fsDir cf, namespace, uuid])"

definition namespaceRefStore :: "config \<Rightarrow> string \<Rightarrow> RefStore" where
  "namespaceRefStore cf namespace = NewNamespaceRefStore (cf_dataDir cf) namespace"

definition namespaceFrameStore :: "config \<Rightarrow> string \<Rightarrow> FrameStore" where
  "namespaceFrameStore cf namespace = NewNamespaceFrameStore (cf_dataDir cf) namespace"

definition defaultRefName :: string where "defaultRefName = ''default''"

datatype resolve_error = ResolveStore store_error | NoSuchFrame

text \<open>\<open>fresh\<close> is the UUID \<^verbatim>\<open>frameid.MustNew\<close> would mint, \<open>listing\<close> the entries of the frame directory.\<close>

definition resolveFrameForNamespace ::
  "config \<Rightarrow> store_io \<Rightarrow> (string \<times> bool) list option \<Rightarrow> string \<Rightarrow> string \<Rightarrow> string \<Rightarrow> fmap \<Rightarrow> resolve_error + string \<times> string \<times> bool" where
  "resolveFrameForNamespace cf io listing fresh namespace name fs =
     (let byRef =
        (let isDefault = (name = [] \<or> name = namespace);
             lookup = (if isDefault then defaultRefName else name)
         in case ref_Get (cf_refJson cf) io (namespaceRefStore cf namespace) lookup fs of
              Inr r \<Rightarrow> Inr (rf_UUID r, framePathForNamespaceUUID cf namespace (rf_UUID r), True)
            | Inl e \<Rightarrow>
                if e \<noteq> ErrNotFound then Inl (ResolveStore e)
                else if isDefault then
                  (case frame_List (cf_parse cf) listing of
                     [u] \<Rightarrow> Inr (u, framePathForNamespaceUUID cf namespace u, False)
                   | _ \<Rightarrow> Inr (fresh, framePathForNamespaceUUID cf namespace fresh, False))
                else Inl NoSuchFrame)
      in case cf_parse cf name of
           Some u \<Rightarrow>
             if frame_Exists (namespaceFrameStore cf namespace) u fs
             then Inr (u, framePathForNamespaceUUID cf namespace u, False)
             else byRef
         | None \<Rightarrow> byRef)"

fun refsPointingTo :: "(string \<Rightarrow> store_error + Ref) \<Rightarrow> string \<Rightarrow> string list \<Rightarrow> string list" where
  "refsPointingTo get uuid [] = []"
| "refsPointingTo get uuid (name # names) =
     (case get name of
        Inl e \<Rightarrow> refsPointingTo get uuid names
      | Inr r \<Rightarrow> (if rf_UUID r = uuid then [name] else []) @ refsPointingTo get uuid names)"

definition frameDescriptor :: "config \<Rightarrow> store_io \<Rightarrow> dir_listing \<Rightarrow> string \<Rightarrow> string \<Rightarrow> fmap \<Rightarrow> string" where
  "frameDescriptor cf io listing namespace uuid fs =
     (case ref_List listing of
        Inl e \<Rightarrow> uuid
      | Inr names \<Rightarrow>
          let matching = refsPointingTo (\<lambda>n. ref_Get (cf_refJson cf) io (namespaceRefStore cf namespace) n fs) uuid names
          in if matching = [] then uuid else join_with (CHR '','') matching)"

section \<open>Ref requests\<close>

definition ensureIdentity :: "config \<Rightarrow> outcomes \<Rightarrow> string \<Rightarrow> string \<Rightarrow> string \<Rightarrow> daemon \<Rightarrow> daemon" where
  "ensureIdentity cf ok user uuid name d =
     (let fp = framePathForNamespaceUUID cf user uuid
      in if fp \<noteq> [] then d\<lparr> dm_ids := snd (id_Ensure ok fp name (dm_ids d)) \<rparr> else d)"

definition handleRefCreate :: "config \<Rightarrow> calls \<Rightarrow> string \<Rightarrow> RefRequest request \<Rightarrow> daemon \<Rightarrow> nat \<times> daemon" where
  "handleRefCreate cf ca rootFS r d =
     (if \<not> requireMethod r ''POST'' then (405, d)
      else
     (case namespaceFromRootFS cf rootFS of None \<Rightarrow> (500, d)
      | Some user \<Rightarrow>
     (case rq_Body r of None \<Rightarrow> (400, d)
      | Some req \<Rightarrow>
          if rr_Name req = [] \<or> rr_UUID req = [] then (400, d)
          else if ValidateName (rr_Name req) \<noteq> None then (400, d)
          else
     (case cf_parse cf (rr_UUID req) of None \<Rightarrow> (400, d)
      | Some uuid \<Rightarrow>
     (case ref_Create (cf_refJson cf) (ca_op ca) (namespaceRefStore cf user) (rr_Name req) uuid (dm_files d) of
        (Some e, fs') \<Rightarrow> (if e = ErrExists then 409 else 500, d\<lparr> dm_files := fs' \<rparr>)
      | (None, fs') \<Rightarrow>
          (200, ensureIdentity cf (ca_ids ca) user uuid (rr_Name req) (d\<lparr> dm_files := fs' \<rparr>)))))))"

definition moveIdentity :: "config \<Rightarrow> outcomes \<Rightarrow> string \<Rightarrow> string \<Rightarrow> string \<Rightarrow> string \<Rightarrow> daemon \<Rightarrow> daemon" where
  "moveIdentity cf ok user oldUUID uuid name d =
     (let srcFrame = framePathForNamespaceUUID cf user oldUUID; dstFrame = framePathForNamespaceUUID cf user uuid
      in if oldUUID \<noteq> uuid \<and> srcFrame \<noteq> [] \<and> dstFrame \<noteq> []
         then d\<lparr> dm_ids := snd (id_Move ok srcFrame dstFrame name (dm_ids d)) \<rparr> else d)"

definition handleRefMove :: "config \<Rightarrow> calls \<Rightarrow> string \<Rightarrow> RefRequest request \<Rightarrow> daemon \<Rightarrow> nat \<times> daemon" where
  "handleRefMove cf ca rootFS r d =
     (if \<not> requireMethod r ''POST'' then (405, d)
      else
     (case namespaceFromRootFS cf rootFS of None \<Rightarrow> (500, d)
      | Some user \<Rightarrow>
     (case rq_Body r of None \<Rightarrow> (400, d)
      | Some req \<Rightarrow>
          if rr_Name req = [] \<or> rr_UUID req = [] then (400, d)
          else
     (case cf_parse cf (rr_UUID req) of None \<Rightarrow> (400, d)
      | Some uuid \<Rightarrow>
     (case ref_Get (cf_refJson cf) (ca_get ca) (namespaceRefStore cf user) (rr_Name req) (dm_files d) of
        Inl e \<Rightarrow> (if e = ErrNotFound then 404 else 500, d)
      | Inr currentRef \<Rightarrow>
     (case ref_Move (cf_refJson cf) (ca_op ca) (namespaceRefStore cf user) (rr_Name req) uuid (dm_files d) of
        (Some e, fs') \<Rightarrow> (500, d\<lparr> dm_files := fs' \<rparr>)
      | (None, fs') \<Rightarrow>
          let oldUUID = rf_UUID currentRef;
              d1 = moveIdentity cf (ca_ids ca) user oldUUID uuid (rr_Name req) (d\<lparr> dm_files := fs' \<rparr>)
          in (200,
              case dm_autorun d1 of None \<Rightarrow> d1
              | Some m \<Rightarrow>
                  if rf_Autorun currentRef \<noteq> [] \<and> oldUUID \<noteq> uuid
                  then d1\<lparr> dm_autorun := Some (restartProcess user (rr_Name req) uuid (rf_Autorun currentRef) m) \<rparr> else d1)))))))"

definition scrubIdentity :: "config \<Rightarrow> calls \<Rightarrow> string \<Rightarrow> string \<Rightarrow> store_error + Ref \<Rightarrow> daemon \<Rightarrow> daemon" where
  "scrubIdentity cf ca user name got d =
     (let d1 = d\<lparr> dm_idDirs := snd (RemoveIDDir (ca_op ca) (namespaceRefStore cf user) name (dm_idDirs d)) \<rparr>
      in case got of Inl e \<Rightarrow> d1
         | Inr ref \<Rightarrow>
             let fp = framePathForNamespaceUUID cf user (rf_UUID ref)
             in if fp \<noteq> [] then d1\<lparr> dm_ids := snd (id_Remove (ca_ids ca) fp name (dm_ids d1)) \<rparr> else d1)"

definition handleRefDelete :: "config \<Rightarrow> calls \<Rightarrow> string \<Rightarrow> RefRequest request \<Rightarrow> daemon \<Rightarrow> nat \<times> daemon" where
  "handleRefDelete cf ca rootFS r d =
     (if \<not> requireMethod r ''POST'' then (405, d)
      else
     (case namespaceFromRootFS cf rootFS of None \<Rightarrow> (500, d)
      | Some user \<Rightarrow>
     (case rq_Body r of None \<Rightarrow> (400, d)
      | Some req \<Rightarrow>
          if rr_Name req = [] then (400, d)
          else
     (case (if rr_Force req then Inr False else IDDirExists (rr_Name req) (ca_list ca)) of
        Inl e \<Rightarrow> (500, d)
      | Inr hasID \<Rightarrow>
          if hasID then (409, d)
          else
     (let got = ref_Get (cf_refJson cf) (ca_get ca) (namespaceRefStore cf user) (rr_Name req) (dm_files d)
      in case ref_Delete (ca_op ca) (namespaceRefStore cf user) (rr_Name req) (dm_files d) of
        (Some e, fs') \<Rightarrow> (if e = ErrNotFound then 404 else 500, d\<lparr> dm_files := fs' \<rparr>)
      | (None, fs') \<Rightarrow>
          let d1 = d\<lparr> dm_files := fs' \<rparr>;
              d2 = d1\<lparr> dm_autorun := map_option (stopProcess user (rr_Name req)) (dm_autorun d1) \<rparr>
          in (200, if rr_Force req then scrubIdentity cf ca user (rr_Name req) got d2 else d2))))))"

definition handleAutorun :: "config \<Rightarrow> calls \<Rightarrow> string \<Rightarrow> AutorunRequest request \<Rightarrow> daemon \<Rightarrow> nat \<times> daemon" where
  "handleAutorun cf ca rootFS r d =
     (if \<not> requireMethod r ''POST'' then (405, d)
      else
     (case namespaceFromRootFS cf rootFS of None \<Rightarrow> (500, d)
      | Some user \<Rightarrow>
     (case rq_Body r of None \<Rightarrow> (400, d)
      | Some req \<Rightarrow>
          if ar_RefName req = [] then (400, d)
          else
     (case ref_Get (cf_refJson cf) (ca_get ca) (namespaceRefStore cf user) (ar_RefName req) (dm_files d) of
        Inl e \<Rightarrow> (if e = ErrNotFound then 404 else 500, d)
      | Inr ref \<Rightarrow>
     (case ref_SetAutorun (cf_refJson cf) (ca_op ca) (namespaceRefStore cf user) (ar_RefName req) (ar_Argv req) (dm_files d) of
        (Some e, fs') \<Rightarrow> (500, d\<lparr> dm_files := fs' \<rparr>)
      | (None, fs') \<Rightarrow>
          (200, d\<lparr> dm_files := fs',
                   dm_autorun := map_option (\<lambda>m. if ar_Argv req \<noteq> [] then startProcess user (ar_RefName req) (rf_UUID ref) (ar_Argv req) m
                                                 else stopProcess user (ar_RefName req) m) (dm_autorun d) \<rparr>))))))"

section \<open>Identity subvolumes\<close>

text \<open>Every \<^verbatim>\<open>/id\<close> and every entry of it is a subvolume, as the daemon creates them.\<close>

definition ids_ok :: "idfs \<Rightarrow> bool" where
  "ids_ok fs \<longleftrightarrow> (\<forall>fp d. fs fp = Some d \<longrightarrow> id_subvol d \<and> (\<forall>name n. id_entries d name = Some n \<longrightarrow> nd_subvol n))"

lemma ids_okD: "ids_ok fs \<Longrightarrow> pred_option id_subvol (fs fp)" "\<lbrakk>ids_ok fs; entry fs fp name = Some n\<rbrakk> \<Longrightarrow> nd_subvol n"
  by (cases "fs fp"; simp add: ids_ok_def) (cases "fs fp"; simp add: ids_ok_def entry_def; blast)

lemma ids_ok_set_entry: "\<lbrakk>ids_ok fs; pred_option nd_subvol n\<rbrakk> \<Longrightarrow> ids_ok (set_entry fp name n fs)"
  by (cases "fs fp") (auto simp: ids_ok_def set_entry_def split: if_splits)

lemma ids_ok_upd: "\<lbrakk>ids_ok fs; id_subvol d; \<forall>name n. id_entries d name = Some n \<longrightarrow> nd_subvol n\<rbrakk> \<Longrightarrow> ids_ok (fs(fp \<mapsto> d))"
  by (simp add: ids_ok_def)

lemma configureIDDir_ids_ok:
  assumes "ids_ok fs" "fs fp = Some d"
  shows "\<exists>d'. configureIDDir (\<lambda>_ _. True) fp fs = (None, fs(fp \<mapsto> d')) \<and> ids_ok (fs(fp \<mapsto> d')) \<and> id_entries d' = id_entries d"
proof -
  have "ids_ok (fs(fp \<mapsto> d\<lparr> id_uid := 0, id_gid := 0, id_mode := 493 \<rparr>))"
    by (rule ids_ok_upd [OF assms(1)]) (use assms in \<open>auto simp: ids_ok_def\<close>)
  then show ?thesis using assms(2)
    by (intro exI [of _ "d\<lparr> id_uid := 0, id_gid := 0, id_mode := 493 \<rparr>"]) (simp add: configureIDDir_def Let_def)
qed

lemma ensureIDSubvol_succeeds:
  assumes "ids_ok fs"
  shows "\<exists>fs'. ensureIDSubvol (\<lambda>_ _. True) fp fs = (None, fs') \<and> ids_ok fs' \<and> fs' fp \<noteq> None \<and>
    (\<forall>fp' name. entry fs' fp' name = entry fs fp' name)"
proof (cases "fs fp")
  case None
  have "ids_ok (fs(fp \<mapsto> freshDir))" by (rule ids_ok_upd [OF assms]) (simp_all add: freshDir_def)
  from configureIDDir_ids_ok [OF this, of fp freshDir] obtain d' where
    d: "configureIDDir (\<lambda>_ _. True) fp (fs(fp \<mapsto> freshDir)) = (None, fs(fp \<mapsto> d'))" "ids_ok (fs(fp \<mapsto> d'))" "id_entries d' = id_entries freshDir"
    by auto
  then show ?thesis using None by (simp add: ensureIDSubvol_def entry_def freshDir_def)
next
  case (Some d)
  then have "id_subvol d" using assms by (auto simp: ids_ok_def)
  with configureIDDir_ids_ok [OF assms Some] Some show ?thesis
    by (elim exE conjE) (simp add: ensureIDSubvol_def entry_def)
qed

lemma configureRefDir_succeeds:
  assumes "ids_ok fs" "entry fs fp name = Some n"
  shows "\<exists>fs'. configureRefDir (\<lambda>_ _. True) fp name fs = (None, fs') \<and> ids_ok fs'"
  using assms ids_okD(2) [OF assms]
  by (simp add: configureRefDir_def Let_def ids_ok_set_entry)

lemma id_Ensure_succeeds:
  assumes "ids_ok fs" "plain name"
  shows "\<exists>fs'. id_Ensure (\<lambda>_ _. True) fp name fs = (None, fs') \<and> ids_ok fs'"
proof -
  from ensureIDSubvol_succeeds [OF assms(1), of fp] obtain fs1 where
    1: "ensureIDSubvol (\<lambda>_ _. True) fp fs = (None, fs1)" "ids_ok fs1" "fs1 fp \<noteq> None" by blast
  have v: "validateRefName name = None" using assms(2) by (simp add: validateRefName_plain)
  show ?thesis
  proof (cases "entry fs1 fp name")
    case (Some n)
    with configureRefDir_succeeds [OF 1(2) Some] ids_okD(2) [OF 1(2) Some] 1 v show ?thesis
      by (simp add: id_Ensure_def andThen_def isSubvol_def)
  next
    case None
    let ?fs2 = "set_entry fp name (Some freshNode) fs1"
    have 2: "ids_ok ?fs2" "entry ?fs2 fp name = Some freshNode"
      using 1 by (simp_all add: ids_ok_set_entry freshNode_def entry_set_entry)
    from configureRefDir_succeeds [OF this] None 1 v show ?thesis
      by (simp add: id_Ensure_def andThen_def isSubvol_def removeIfPlainDir_def createSubvol_def)
  qed
qed

lemma id_Move_succeeds:
  assumes "ids_ok fs" "plain name" "sfp \<noteq> dfp" "entry fs sfp name = Some n"
  shows "\<exists>fs'. id_Move (\<lambda>_ _. True) sfp dfp name fs = (None, fs') \<and> ids_ok fs'"
proof -
  from ensureIDSubvol_succeeds [OF assms(1), of dfp] obtain fs1 where
    1: "ensureIDSubvol (\<lambda>_ _. True) dfp fs = (None, fs1)" "ids_ok fs1" "fs1 dfp \<noteq> None" "entry fs1 sfp name = Some n"
    using assms(4) by auto
  have v: "validateRefName name = None" using assms(2) by (simp add: validateRefName_plain)
  have n: "nd_subvol n" by (rule ids_okD(2) [OF 1(2,4)])
  obtain fs2 where 2: "clearDst (\<lambda>_ _. True) dfp name fs1 = (None, fs2)" "ids_ok fs2" "fs2 dfp \<noteq> None" "entry fs2 sfp name = Some n"
  proof (cases "entry fs1 dfp name")
    case None
    with 1 that [of fs1] show ?thesis by (simp add: clearDst_def isSubvol_def removeIfPlainDir_def)
  next
    case (Some k)
    with 1 ids_okD(2) [OF 1(2) Some] assms(3) that [of "set_entry dfp name None fs1"] show ?thesis
      by (simp add: clearDst_def isSubvol_def ids_ok_set_entry entry_set_None)
  qed
  let ?fs3 = "set_entry dfp name (Some n) (set_entry sfp name None fs2)"
  have 3: "ids_ok ?fs3" "entry ?fs3 dfp name = Some n"
    using 2 n by (simp_all add: ids_ok_set_entry entry_set_entry)
  from configureRefDir_succeeds [OF this] 1 2 v n show ?thesis
    by (simp add: id_Move_def andThen_def isSubvol_def renameEntry_def)
qed

lemma id_Remove_succeeds:
  assumes "ids_ok fs" "plain name"
  shows "id_Remove (\<lambda>_ _. True) fp name fs = (None, set_entry fp name None fs) \<and> ids_ok (set_entry fp name None fs)"
  using assms by (simp add: id_Remove_def validateRefName_plain [THEN iffD2] ids_ok_set_entry)

section \<open>The refs of all namespaces\<close>

abbreviation ref_file :: "config \<Rightarrow> string \<times> string \<Rightarrow> string" where
  "ref_file cf k \<equiv> refPath (namespaceRefStore cf (fst k)) (snd k)"

definition ref_key :: "string \<times> string \<Rightarrow> bool" where
  "ref_key k \<longleftrightarrow> plain (fst k) \<and> valid_ref (snd k)"

interpretation nrs: key_files "ref_file cf" ref_key for cf
proof
  fix k k' assume v: "ref_key k" "ref_key k'" and eq: "ref_file cf k = ref_file cf k'"
  note p = v [unfolded ref_key_def]
  have d: "\<exists>d. d \<noteq> [] \<and> (\<forall>n. plain n \<longrightarrow> refsDir (namespaceRefStore cf n) = filepath_Join [d, n])"
  proof (cases "cf_dataDir cf = []")
    case True
    then show ?thesis
      by (intro exI [of _ "''refs''"]) (simp add: namespaceRefStore_def NewNamespaceRefStore_def refsDir_def filepath_Join_def plain_simps(1))
  next
    case False
    then show ?thesis
      by (intro exI [of _ "cf_dataDir cf @ ''/refs''"]) (simp add: namespaceRefStore_def NewNamespaceRefStore_def refsDir_def plain_simps(1) Join_3)
  qed
  then obtain d where d: "d \<noteq> []" "\<And>n. plain n \<Longrightarrow> refsDir (namespaceRefStore cf n) = filepath_Join [d, n]" by blast
  from eq p have "filepath_Join [filepath_Join [d, fst k], snd k @ ''.jsonc''] = filepath_Join [filepath_Join [d, fst k'], snd k' @ ''.jsonc'']"
    by (simp add: refPath_def d(2))
  from Join_inj2 [OF d(1) _ valid_ref_plain(1) _ valid_ref_plain(1) this] p show "k = k'" by (simp add: prod_eq_iff)
qed

abbreviation ref_files :: "config \<Rightarrow> fmap \<Rightarrow> string \<times> string \<rightharpoonup> Ref option" where
  "ref_files cf \<equiv> store_view (ref_file cf) ref_key (j_Unmarshal (cf_refJson cf))"

definition refs_of :: "config \<Rightarrow> fmap \<Rightarrow> string \<times> string \<rightharpoonup> Ref" where
  "refs_of cf fs k = Option.bind (ref_files cf fs k) (\<lambda>x. x)"

lemma refs_of_put:
  "\<lbrakk>json_law (cf_refJson cf); ref_key k\<rbrakk> \<Longrightarrow> refs_of cf (fs(ref_file cf k \<mapsto> j_Marshal (cf_refJson cf) r)) = (refs_of cf fs)(k \<mapsto> r)"
  by (rule ext) (simp add: refs_of_def nrs.view_put json_law_def)

lemma refs_of_del: "ref_key k \<Longrightarrow> refs_of cf (fs(ref_file cf k := None)) = (refs_of cf fs)(k := None)"
  by (rule ext) (simp add: refs_of_def nrs.view_del)

lemma refs_of_Get:
  assumes "ref_Get (cf_refJson cf) io (namespaceRefStore cf user) name fs = Inr r" "plain user"
  shows "refs_of cf fs (user, name) = Some r \<and> ref_key (user, name)"
  using assms by (auto simp: ref_Get_def refs_of_def store_view_def ref_key_def valid_ref_def split: option.splits if_splits)

section \<open>What a request does\<close>

lemma files_same [simp]: "d\<lparr> dm_files := dm_files d \<rparr> = d"
  by simp

lemma ref_ops_error:
  "ref_Create js io s name u fs = (Some e, fs') \<Longrightarrow> fs' = fs"
  "ref_Move js io s name u fs = (Some e, fs') \<Longrightarrow> fs' = fs"
  "ref_Delete io s name fs = (Some e, fs') \<Longrightarrow> fs' = fs"
  "ref_SetAutorun js io s name argv fs = (Some e, fs') \<Longrightarrow> fs' = fs"
  using ref_op_error [of js s io "OpCreate name u" fs e fs'] ref_op_error [of js s io "OpMove name u" fs e fs']
    ref_op_error [of js s io "OpDelete name" fs e fs'] ref_op_error [of js s io "OpSetAutorun name argv" fs e fs'] by simp_all

definition newRef :: "string \<Rightarrow> int \<Rightarrow> Ref" where
  "newRef uuid now = \<lparr> rf_UUID = uuid, rf_Autorun = [], rf_Reflog = [\<lparr> re_UUID = uuid, re_Time = now \<rparr>] \<rparr>"

definition movedRef :: "string \<Rightarrow> int \<Rightarrow> Ref \<Rightarrow> Ref" where
  "movedRef uuid now r = r\<lparr> rf_Reflog := \<lparr> re_UUID = uuid, re_Time = now \<rparr> # rf_Reflog r, rf_UUID := uuid \<rparr>"

lemma ref_ops_success:
  "ref_Create js io s name u fs = (None, fs') \<Longrightarrow>
     valid_ref name \<and> fs (refPath s name) = None \<and> fs' = fs(refPath s name \<mapsto> j_Marshal js (newRef u (io_now io)))"
  "ref_Move js io s name u fs = (None, fs') \<Longrightarrow>
     \<exists>r. ref_Get js io s name fs = Inr r \<and> fs' = fs(refPath s name \<mapsto> j_Marshal js (movedRef u (io_now io) r))"
  "ref_Delete io s name fs = (None, fs') \<Longrightarrow> valid_ref name \<and> fs (refPath s name) \<noteq> None \<and> fs' = fs(refPath s name := None)"
  "ref_SetAutorun js io s name argv fs = (None, fs') \<Longrightarrow>
     \<exists>r. ref_Get js io s name fs = Inr r \<and> fs' = fs(refPath s name \<mapsto> j_Marshal js (r\<lparr> rf_Autorun := argv \<rparr>))"
  by (auto simp: ref_Create_def ref_Move_def ref_Delete_def ref_SetAutorun_def newRef_def movedRef_def valid_ref_def
    dest!: ref_write_success split: option.splits sum.splits if_splits)

lemma ref_Get_agree: "\<lbrakk>ref_Get js io s name fs = Inr r; ref_Get js io' s name fs = Inr r'\<rbrakk> \<Longrightarrow> r = r'"
  by (auto simp: ref_Get_def split: option.splits if_splits)

lemma handleRefCreate_cases:
  assumes "handleRefCreate cf ca rootFS r d = (st, d')"
  obtains "st \<noteq> 200" "d' = d"
  | user name uuid s0 where "st = 200" "namespaceFromRootFS cf rootFS = Some user" "cf_parse cf s0 = Some uuid" "valid_ref name"
      "dm_files d (refPath (namespaceRefStore cf user) name) = None"
      "rq_Body r = Some \<lparr> rr_Name = name, rr_UUID = s0, rr_Force = rr_Force (the (rq_Body r)) \<rparr>"
      "d' = ensureIdentity cf (ca_ids ca) user uuid name (d\<lparr> dm_files := (dm_files d)(refPath (namespaceRefStore cf user) name
        \<mapsto> j_Marshal (cf_refJson cf) (newRef uuid (io_now (ca_op ca)))) \<rparr>)"
proof -
  show ?thesis
  proof (cases "st = 200")
    case False
    then have "d' = d" using assms by (auto simp: handleRefCreate_def dest!: ref_ops_error split: if_splits option.splits prod.splits)
    with False that(1) show ?thesis by blast
  next
    case True
    with assms obtain user req uuid fs' where 1: "namespaceFromRootFS cf rootFS = Some user" "rq_Body r = Some req" "cf_parse cf (rr_UUID req) = Some uuid"
      "ref_Create (cf_refJson cf) (ca_op ca) (namespaceRefStore cf user) (rr_Name req) uuid (dm_files d) = (None, fs')"
      "d' = ensureIdentity cf (ca_ids ca) user uuid (rr_Name req) (d\<lparr> dm_files := fs' \<rparr>)"
      by (auto simp: handleRefCreate_def split: if_splits option.splits prod.splits)
    from ref_ops_success(1) [OF 1(4)] 1 True show ?thesis
      by (intro that(2) [of user "rr_UUID req" uuid "rr_Name req"]) simp_all
  qed
qed

lemma handleRefMove_cases:
  assumes "handleRefMove cf ca rootFS rq d = (st, d')"
  obtains "st \<noteq> 200" "d' = d"
  | user name uuid s0 r d1 where "st = 200" "namespaceFromRootFS cf rootFS = Some user" "cf_parse cf s0 = Some uuid"
      "ref_Get (cf_refJson cf) (ca_get ca) (namespaceRefStore cf user) name (dm_files d) = Inr r"
      "rq_Body rq = Some \<lparr> rr_Name = name, rr_UUID = s0, rr_Force = rr_Force (the (rq_Body rq)) \<rparr>"
      "d1 = moveIdentity cf (ca_ids ca) user (rf_UUID r) uuid name (d\<lparr> dm_files := (dm_files d)(refPath (namespaceRefStore cf user) name
        \<mapsto> j_Marshal (cf_refJson cf) (movedRef uuid (io_now (ca_op ca)) r)) \<rparr>)"
      "d' = (case dm_autorun d1 of None \<Rightarrow> d1
             | Some m \<Rightarrow> if rf_Autorun r \<noteq> [] \<and> rf_UUID r \<noteq> uuid then d1\<lparr> dm_autorun := Some (restartProcess user name uuid (rf_Autorun r) m) \<rparr> else d1)"
proof (cases "st = 200")
  case False
  then have "d' = d"
    using assms by (auto simp: handleRefMove_def Let_def dest!: ref_ops_error split: if_splits option.splits sum.splits prod.splits)
  with False that(1) show ?thesis by blast
next
  case True
  note h = assms [unfolded handleRefMove_def True]
  obtain user where u: "namespaceFromRootFS cf rootFS = Some user" using h by (cases "namespaceFromRootFS cf rootFS") (simp_all split: if_splits)
  obtain req where b: "rq_Body rq = Some req" using h u by (cases "rq_Body rq") (simp_all split: if_splits)
  obtain uuid where p: "cf_parse cf (rr_UUID req) = Some uuid" using h u b by (cases "cf_parse cf (rr_UUID req)") (simp_all split: if_splits)
  obtain r where g: "ref_Get (cf_refJson cf) (ca_get ca) (namespaceRefStore cf user) (rr_Name req) (dm_files d) = Inr r"
    using h u b p by (cases "ref_Get (cf_refJson cf) (ca_get ca) (namespaceRefStore cf user) (rr_Name req) (dm_files d)") (simp_all split: if_splits)
  obtain e fs' where m: "ref_Move (cf_refJson cf) (ca_op ca) (namespaceRefStore cf user) (rr_Name req) uuid (dm_files d) = (e, fs')" by fastforce
  have e: "e = None" using h u b p g m by (cases e) (simp_all split: if_splits)
  let ?d1 = "moveIdentity cf (ca_ids ca) user (rf_UUID r) uuid (rr_Name req) (d\<lparr> dm_files := fs' \<rparr>)"
  have d': "d' = (case dm_autorun ?d1 of None \<Rightarrow> ?d1
             | Some m \<Rightarrow> if rf_Autorun r \<noteq> [] \<and> rf_UUID r \<noteq> uuid then ?d1\<lparr> dm_autorun := Some (restartProcess user (rr_Name req) uuid (rf_Autorun r) m) \<rparr> else ?d1)"
    using h u b p g m unfolding e by (simp add: Let_def split: if_splits)
  note 1 = u b p g m [unfolded e] d'
  from ref_ops_success(2) [OF 1(5)] 1(4) have fs': "fs' = (dm_files d)(refPath (namespaceRefStore cf user) (rr_Name req)
      \<mapsto> j_Marshal (cf_refJson cf) (movedRef uuid (io_now (ca_op ca)) r))" by (auto dest: ref_Get_agree)
  show ?thesis by (rule that(2) [OF True u p g _ refl d' [unfolded fs']]) (simp add: b)
qed

lemma handleRefDelete_cases:
  assumes "handleRefDelete cf ca rootFS rq d = (st, d')"
  obtains "st \<noteq> 200" "d' = d"
  | user req d2 where "st = 200" "namespaceFromRootFS cf rootFS = Some user" "rq_Body rq = Some req" "valid_ref (rr_Name req)"
      "dm_files d (refPath (namespaceRefStore cf user) (rr_Name req)) \<noteq> None"
      "d2 = d\<lparr> dm_files := (dm_files d)(refPath (namespaceRefStore cf user) (rr_Name req) := None),
             dm_autorun := map_option (stopProcess user (rr_Name req)) (dm_autorun d) \<rparr>"
      "d' = (if rr_Force req then scrubIdentity cf ca user (rr_Name req)
               (ref_Get (cf_refJson cf) (ca_get ca) (namespaceRefStore cf user) (rr_Name req) (dm_files d)) d2 else d2)"
proof (cases "st = 200")
  case False
  then have "d' = d"
    using assms by (auto simp: handleRefDelete_def Let_def dest!: ref_ops_error split: if_splits option.splits sum.splits prod.splits)
  with False that(1) show ?thesis by blast
next
  case True
  with assms obtain user req fs' where 1: "namespaceFromRootFS cf rootFS = Some user" "rq_Body rq = Some req"
    "ref_Delete (ca_op ca) (namespaceRefStore cf user) (rr_Name req) (dm_files d) = (None, fs')"
    "d' = (if rr_Force req then scrubIdentity cf ca user (rr_Name req)
               (ref_Get (cf_refJson cf) (ca_get ca) (namespaceRefStore cf user) (rr_Name req) (dm_files d))
               (d\<lparr> dm_files := fs', dm_autorun := map_option (stopProcess user (rr_Name req)) (dm_autorun d) \<rparr>)
            else d\<lparr> dm_files := fs', dm_autorun := map_option (stopProcess user (rr_Name req)) (dm_autorun d) \<rparr>)"
    unfolding handleRefDelete_def Let_def by (simp split: if_splits option.splits sum.splits prod.splits)
  from ref_ops_success(3) [OF 1(3)] 1 True show ?thesis by (intro that(2) [of user req]) simp_all
qed

lemma handleAutorun_cases:
  assumes "handleAutorun cf ca rootFS rq d = (st, d')"
  obtains "st \<noteq> 200" "d' = d"
  | user name argv r where "st = 200" "namespaceFromRootFS cf rootFS = Some user" "rq_Body rq = Some \<lparr> ar_RefName = name, ar_Argv = argv \<rparr>"
      "ref_Get (cf_refJson cf) (ca_get ca) (namespaceRefStore cf user) name (dm_files d) = Inr r"
      "d' = d\<lparr> dm_files := (dm_files d)(refPath (namespaceRefStore cf user) name \<mapsto> j_Marshal (cf_refJson cf) (r\<lparr> rf_Autorun := argv \<rparr>)),
             dm_autorun := map_option (\<lambda>m. if argv \<noteq> [] then startProcess user name (rf_UUID r) argv m else stopProcess user name m) (dm_autorun d) \<rparr>"
proof (cases "st = 200")
  case False
  then have "d' = d"
    using assms by (auto simp: handleAutorun_def dest!: ref_ops_error split: if_splits option.splits sum.splits prod.splits)
  with False that(1) show ?thesis by blast
next
  case True
  note h = assms [unfolded handleAutorun_def True]
  obtain user where u: "namespaceFromRootFS cf rootFS = Some user" using h by (cases "namespaceFromRootFS cf rootFS") (simp_all split: if_splits)
  obtain req where b: "rq_Body rq = Some req" using h u by (cases "rq_Body rq") (simp_all split: if_splits)
  obtain r where g: "ref_Get (cf_refJson cf) (ca_get ca) (namespaceRefStore cf user) (ar_RefName req) (dm_files d) = Inr r"
    using h u b by (cases "ref_Get (cf_refJson cf) (ca_get ca) (namespaceRefStore cf user) (ar_RefName req) (dm_files d)") (simp_all split: if_splits)
  obtain e fs' where m: "ref_SetAutorun (cf_refJson cf) (ca_op ca) (namespaceRefStore cf user) (ar_RefName req) (ar_Argv req) (dm_files d) = (e, fs')" by fastforce
  have e: "e = None" using h u b g m by (cases e) (simp_all split: if_splits)
  have d': "d' = d\<lparr> dm_files := fs', dm_autorun := map_option (\<lambda>m. if ar_Argv req \<noteq> [] then startProcess user (ar_RefName req) (rf_UUID r) (ar_Argv req) m
                                                 else stopProcess user (ar_RefName req) m) (dm_autorun d) \<rparr>"
    using h u b g m unfolding e by (simp split: if_splits)
  note 1 = u b g m [unfolded e] d'
  from ref_ops_success(4) [OF 1(4)] 1(3) have "fs' = (dm_files d)(refPath (namespaceRefStore cf user) (ar_RefName req)
      \<mapsto> j_Marshal (cf_refJson cf) (r\<lparr> rf_Autorun := ar_Argv req \<rparr>))" by (auto dest: ref_Get_agree)
  with 1 True show ?thesis by (intro that(2) [of user "ar_RefName req" "ar_Argv req" r]) simp_all
qed

section \<open>Sequences of requests\<close>

datatype ctl =
    CtlCreate calls string "RefRequest request"
  | CtlMove calls string "RefRequest request"
  | CtlDelete calls string "RefRequest request"
  | CtlAutorun calls string "AutorunRequest request"

fun ctl_step :: "config \<Rightarrow> ctl \<Rightarrow> daemon \<Rightarrow> nat \<times> daemon" where
  "ctl_step cf (CtlCreate ca rootFS r) d = handleRefCreate cf ca rootFS r d"
| "ctl_step cf (CtlMove ca rootFS r) d = handleRefMove cf ca rootFS r d"
| "ctl_step cf (CtlDelete ca rootFS r) d = handleRefDelete cf ca rootFS r d"
| "ctl_step cf (CtlAutorun ca rootFS r) d = handleAutorun cf ca rootFS r d"

primrec ctl_root :: "ctl \<Rightarrow> string" where
  "ctl_root (CtlCreate ca rootFS r) = rootFS"
| "ctl_root (CtlMove ca rootFS r) = rootFS"
| "ctl_root (CtlDelete ca rootFS r) = rootFS"
| "ctl_root (CtlAutorun ca rootFS r) = rootFS"

primrec ctl_calls :: "ctl \<Rightarrow> calls" where
  "ctl_calls (CtlCreate ca rootFS r) = ca"
| "ctl_calls (CtlMove ca rootFS r) = ca"
| "ctl_calls (CtlDelete ca rootFS r) = ca"
| "ctl_calls (CtlAutorun ca rootFS r) = ca"

definition ctl_run :: "config \<Rightarrow> ctl list \<Rightarrow> daemon \<Rightarrow> daemon" where
  "ctl_run cf ops d = fold (\<lambda>op d. snd (ctl_step cf op d)) ops d"

text \<open>The root of a control server is the path of its frame.\<close>

definition frame_root :: "config \<Rightarrow> string \<Rightarrow> bool" where
  "frame_root cf rootFS \<longleftrightarrow> cf_fsDir cf \<noteq> [] \<and> (\<exists>n u. plain n \<and> plain u \<and> rootFS = filepath_Join [cf_fsDir cf, n, u])"

lemma rootFS_parts:
  assumes "cf_fsDir cf \<noteq> []" "plain n" "plain u"
  shows "namespaceFromRootFS cf (filepath_Join [cf_fsDir cf, n, u]) = Some n"
    "frameUUIDFromRootFS cf (filepath_Join [cf_fsDir cf, n, u]) = cf_parse cf u"
proof -
  have "split_on (CHR ''/'') (n @ CHR ''/'' # u) = [n, u]"
    using assms by (simp add: split_on_append split_on_last plain_simps(4))
  then show "namespaceFromRootFS cf (filepath_Join [cf_fsDir cf, n, u]) = Some n"
    "frameUUIDFromRootFS cf (filepath_Join [cf_fsDir cf, n, u]) = cf_parse cf u"
    by (simp_all add: namespaceFromRootFS_def frameUUIDFromRootFS_def Rel_Join [OF assms])
qed

lemma frame_root_plain: "\<lbrakk>frame_root cf rootFS; namespaceFromRootFS cf rootFS = Some user\<rbrakk> \<Longrightarrow> plain user"
  by (auto simp: frame_root_def rootFS_parts)

lemma identity_frame [simp]:
  "dm_files (ensureIdentity cf ok user uuid name d) = dm_files d" "dm_autorun (ensureIdentity cf ok user uuid name d) = dm_autorun d"
  "dm_files (moveIdentity cf ok user old uuid name d) = dm_files d" "dm_autorun (moveIdentity cf ok user old uuid name d) = dm_autorun d"
  "dm_files (scrubIdentity cf ca user name got d) = dm_files d" "dm_autorun (scrubIdentity cf ca user name got d) = dm_autorun d"
  by (simp_all add: ensureIdentity_def moveIdentity_def scrubIdentity_def Let_def split: sum.split)

section \<open>Autorun processes follow the refs\<close>

definition wantedProc :: "Ref option \<Rightarrow> (string \<times> string list) option" where
  "wantedProc r = (case r of None \<Rightarrow> None | Some r \<Rightarrow> if rf_Autorun r = [] then None else Some (rf_UUID r, rf_Autorun r))"

definition running :: "autorunManager \<Rightarrow> autorunKey \<rightharpoonup> string \<times> string list" where
  "running m k = map_option (\<lambda>p. (ap_frameUUID p, ap_argv p)) (am_processes m k)"

definition autorun_ok :: "config \<Rightarrow> daemon \<Rightarrow> bool" where
  "autorun_ok cf d \<longleftrightarrow>
     (case dm_autorun d of None \<Rightarrow> True
      | Some m \<Rightarrow> am_inv m \<and> (\<forall>k. plain (fst k) \<longrightarrow> running m k = wantedProc (refs_of cf (dm_files d) k)))"

lemma running_upd:
  "am_processes m' = (am_processes m)(k := p) \<Longrightarrow> running m' = (running m)(k := map_option (\<lambda>p. (ap_frameUUID p, ap_argv p)) p)"
  by (rule ext) (simp add: running_def)

lemma running_start:
  assumes "am_inv m" "argv \<noteq> []"
  shows "am_inv (startProcess user name u argv m) \<and> running (startProcess user name u argv m) = (running m)((user, name) \<mapsto> (u, argv))"
    "am_inv (restartProcess user name u argv m) \<and> running (restartProcess user name u argv m) = (running m)((user, name) \<mapsto> (u, argv))"
  using startProcess_spec [OF assms, of user name u] restartProcess_spec [OF assms, of user name u]
  by (auto dest!: running_upd)

lemma running_stop:
  "am_inv m \<Longrightarrow> am_inv (stopProcess user name m) \<and> running (stopProcess user name m) = (running m)((user, name) := None)"
  using stopProcess_spec [of m user name] running_upd [of "stopProcess user name m" m "(user, name)" None] by simp

lemma autorun_ok_step:
  assumes "autorun_ok cf d" "refs_of cf (dm_files d') = (refs_of cf (dm_files d))(k := x)"
    "dm_autorun d = None \<Longrightarrow> dm_autorun d' = None"
    "\<And>m. \<lbrakk>dm_autorun d = Some m; am_inv m; plain (fst k) \<longrightarrow> running m k = wantedProc (refs_of cf (dm_files d) k)\<rbrakk> \<Longrightarrow>
       \<exists>m'. dm_autorun d' = Some m' \<and> am_inv m' \<and> (running m' = (running m)(k := wantedProc x))"
  shows "autorun_ok cf d'"
proof (cases "dm_autorun d")
  case None
  with assms(3) show ?thesis by (simp add: autorun_ok_def)
next
  case (Some m)
  with assms(1) have m: "am_inv m" "\<And>k. plain (fst k) \<Longrightarrow> running m k = wantedProc (refs_of cf (dm_files d) k)"
    by (simp_all add: autorun_ok_def del: split_paired_All)
  from assms(4) [OF Some m(1)] m(2) obtain m' where "dm_autorun d' = Some m'" "am_inv m'" "running m' = (running m)(k := wantedProc x)" by blast
  then show ?thesis using m(2) by (simp add: autorun_ok_def assms(2) del: split_paired_All)
qed

lemma autorun_create:
  assumes "json_law (cf_refJson cf)" "frame_root cf rootFS" "autorun_ok cf d" "handleRefCreate cf ca rootFS rq d = (st, d')"
  shows "autorun_ok cf d'"
proof -
  from assms(4) show ?thesis
  proof (cases rule: handleRefCreate_cases)
    case (2 user name uuid s0)
    have k: "ref_key (user, name)" using frame_root_plain [OF assms(2) 2(2)] 2(4) by (simp add: ref_key_def)
    have f: "refs_of cf (dm_files d') = (refs_of cf (dm_files d))((user, name) := Some (newRef uuid (io_now (ca_op ca))))"
      using refs_of_put [OF assms(1) k] 2(7) by simp
    have n: "refs_of cf (dm_files d) (user, name) = None" using 2(5) by (simp add: refs_of_def store_view_def)
    show ?thesis
    proof (rule autorun_ok_step [OF assms(3) f])
      fix m assume "dm_autorun d = Some m" "am_inv m" "plain (fst (user, name)) \<longrightarrow> running m (user, name) = wantedProc (refs_of cf (dm_files d) (user, name))"
      then show "\<exists>m'. dm_autorun d' = Some m' \<and> am_inv m' \<and> running m' = (running m)((user, name) := wantedProc (Some (newRef uuid (io_now (ca_op ca)))))"
        using 2(7) n k by (simp add: wantedProc_def newRef_def fun_upd_idem ref_key_def)
    qed (simp add: 2(7))
  qed (use assms in simp)
qed

lemma autorun_move:
  assumes "json_law (cf_refJson cf)" "frame_root cf rootFS" "autorun_ok cf d" "handleRefMove cf ca rootFS rq d = (st, d')"
  shows "autorun_ok cf d'"
proof -
  from assms(4) show ?thesis
  proof (cases rule: handleRefMove_cases)
    case (2 user name uuid s0 r d1)
    note k = refs_of_Get [OF 2(4) frame_root_plain [OF assms(2) 2(2)]]
    let ?x = "movedRef uuid (io_now (ca_op ca)) r"
    have a: "dm_autorun d1 = dm_autorun d" "dm_files d' = dm_files d1" using 2(6,7) by (simp_all split: option.split)
    have f: "refs_of cf (dm_files d') = (refs_of cf (dm_files d))((user, name) := Some ?x)"
      using refs_of_put [OF assms(1) conjunct2 [OF k]] a(2) 2(6) by simp
    have w: "wantedProc (Some ?x) = (if rf_Autorun r = [] then None else Some (uuid, rf_Autorun r))" by (simp add: wantedProc_def movedRef_def)
    show ?thesis
    proof (rule autorun_ok_step [OF assms(3) f])
      fix m assume m: "dm_autorun d = Some m" "am_inv m" "plain (fst (user, name)) \<longrightarrow> running m (user, name) = wantedProc (refs_of cf (dm_files d) (user, name))"
      have o: "running m (user, name) = (if rf_Autorun r = [] then None else Some (rf_UUID r, rf_Autorun r))"
        using m(3) k by (simp add: ref_key_def wantedProc_def)
      show "\<exists>m'. dm_autorun d' = Some m' \<and> am_inv m' \<and> running m' = (running m)((user, name) := wantedProc (Some ?x))"
      proof (cases "rf_Autorun r \<noteq> [] \<and> rf_UUID r \<noteq> uuid")
        case True
        then show ?thesis unfolding w using running_start(2) [OF m(2), of "rf_Autorun r" user name uuid] a m(1) 2(7) by simp
      next
        case False
        then have "(running m)((user, name) := wantedProc (Some ?x)) = running m" unfolding w using o by (auto simp: fun_upd_idem)
        with False m a 2(7) show ?thesis by auto
      qed
    qed (use a 2(7) in simp)
  qed (use assms in simp)
qed

lemma autorun_delete:
  assumes "json_law (cf_refJson cf)" "frame_root cf rootFS" "autorun_ok cf d" "handleRefDelete cf ca rootFS rq d = (st, d')"
  shows "autorun_ok cf d'"
proof -
  from assms(4) show ?thesis
  proof (cases rule: handleRefDelete_cases)
    case (2 user req d2)
    have k: "ref_key (user, rr_Name req)" using frame_root_plain [OF assms(2) 2(2)] 2(4) by (simp add: ref_key_def)
    have f: "refs_of cf (dm_files d') = (refs_of cf (dm_files d))((user, rr_Name req) := None)"
      using refs_of_del [OF k] 2(6,7) by simp
    have a: "dm_autorun d' = map_option (stopProcess user (rr_Name req)) (dm_autorun d)" using 2(6,7) by simp
    show ?thesis
      by (rule autorun_ok_step [OF assms(3) f]) (use a running_stop in \<open>simp_all add: wantedProc_def\<close>)
  qed (use assms in simp)
qed

lemma autorun_set:
  assumes "json_law (cf_refJson cf)" "frame_root cf rootFS" "autorun_ok cf d" "handleAutorun cf ca rootFS rq d = (st, d')"
  shows "autorun_ok cf d'"
proof -
  from assms(4) show ?thesis
  proof (cases rule: handleAutorun_cases)
    case (2 user name argv r)
    note k = refs_of_Get [OF 2(4) frame_root_plain [OF assms(2) 2(2)]]
    have f: "refs_of cf (dm_files d') = (refs_of cf (dm_files d))((user, name) := Some (r\<lparr> rf_Autorun := argv \<rparr>))"
      using refs_of_put [OF assms(1) conjunct2 [OF k]] 2(5) by simp
    show ?thesis
      by (rule autorun_ok_step [OF assms(3) f])
        (use 2(5) running_stop running_start(1) in \<open>auto simp: wantedProc_def\<close>)
  qed (use assms in simp)
qed

lemma autorun_step:
  assumes "json_law (cf_refJson cf)" "frame_root cf (ctl_root op)" "autorun_ok cf d" "ctl_step cf op d = (st, d')"
  shows "autorun_ok cf d'"
  using assms(2,4) autorun_create [OF assms(1) _ assms(3)] autorun_move [OF assms(1) _ assms(3)]
    autorun_delete [OF assms(1) _ assms(3)] autorun_set [OF assms(1) _ assms(3)]
  by (cases op) simp_all

end
