(* ===== verification/Control_Props.thy ===== *)
theory Control_Props
  imports Control_Handlers
begin

text \<open>
  Properties of the control requests across components: a ref's identity follows it from frame
  to frame, and the supervised processes are those the refs ask for.
\<close>

section \<open>The private state of a ref\<close>

definition ref_frame :: "config \<Rightarrow> string \<times> string \<Rightarrow> Ref \<Rightarrow> string" where
  "ref_frame cf k r = framePathForNamespaceUUID cf (fst k) (rf_UUID r)"

definition secret :: "config \<Rightarrow> daemon \<Rightarrow> string \<times> string \<rightharpoonup> bytes" where
  "secret cf d k = Option.bind (refs_of cf (dm_files d) k) (\<lambda>r. identity (dm_ids d) (ref_frame cf k r) (snd k))"

definition id_inv :: "config \<Rightarrow> daemon \<Rightarrow> bool" where
  "id_inv cf d \<longleftrightarrow> ids_ok (dm_ids d) \<and>
     (\<forall>k r. refs_of cf (dm_files d) k = Some r \<longrightarrow> is_uuid (rf_UUID r) \<and> entry (dm_ids d) (ref_frame cf k r) (snd k) \<noteq> None)"

text \<open>The laws of the parameters.\<close>

definition config_ok :: "config \<Rightarrow> bool" where
  "config_ok cf \<longleftrightarrow> json_law (cf_refJson cf) \<and> cf_fsDir cf \<noteq> [] \<and> (\<forall>s u. cf_parse cf s = Some u \<longrightarrow> is_uuid u)"

lemma id_invD:
  assumes "id_inv cf d"
  shows "ids_ok (dm_ids d)" "refs_of cf (dm_files d) k = Some r \<Longrightarrow> is_uuid (rf_UUID r)"
    "refs_of cf (dm_files d) k = Some r \<Longrightarrow> entry (dm_ids d) (ref_frame cf k r) (snd k) \<noteq> None"
  using assms unfolding id_inv_def by blast+

lemma refs_of_key: "refs_of cf fs k = Some r \<Longrightarrow> ref_key k"
  by (simp add: refs_of_def store_view_def split: if_splits)

lemma frame_path_inj:
  assumes "cf_fsDir cf \<noteq> []" "plain n" "plain n'" "is_uuid u" "is_uuid u'"
  shows "framePathForNamespaceUUID cf n u = framePathForNamespaceUUID cf n' u' \<longleftrightarrow> n = n' \<and> u = u'"
  using assms Join_inj3 [OF assms(1,2) is_uuid_plain(2) [OF assms(4)] assms(3) is_uuid_plain(2) [OF assms(5)]]
  by (auto simp: framePathForNamespaceUUID_def)

lemma frame_path_not_Nil: "cf_fsDir cf \<noteq> [] \<Longrightarrow> framePathForNamespaceUUID cf n u \<noteq> []"
  by (auto simp: framePathForNamespaceUUID_def intro!: filepath_Join_not_Nil)

text \<open>A change of the refs at one key and of the identities that no other ref uses.\<close>

lemma secret_step:
  assumes "refs_of cf (dm_files d') = (refs_of cf (dm_files d))(k := x)"
    "\<And>k' r. \<lbrakk>k' \<noteq> k; refs_of cf (dm_files d) k' = Some r\<rbrakk> \<Longrightarrow> entry (dm_ids d') (ref_frame cf k' r) (snd k') = entry (dm_ids d) (ref_frame cf k' r) (snd k')"
  shows "secret cf d' = (secret cf d)(k := Option.bind x (\<lambda>r. identity (dm_ids d') (ref_frame cf k r) (snd k)))"
proof (rule ext)
  fix k'
  show "secret cf d' k' = ((secret cf d)(k := Option.bind x (\<lambda>r. identity (dm_ids d') (ref_frame cf k r) (snd k)))) k'"
  proof (cases "k' = k")
    case False
    then show ?thesis using assms(2) [OF False]
      by (cases "refs_of cf (dm_files d) k'") (simp_all add: secret_def assms(1) identity_def)
  qed (simp add: secret_def assms(1))
qed

lemma id_inv_step:
  assumes "id_inv cf d" "refs_of cf (dm_files d') = (refs_of cf (dm_files d))(k := x)" "ids_ok (dm_ids d')"
    "\<And>k' r. \<lbrakk>k' \<noteq> k; refs_of cf (dm_files d) k' = Some r\<rbrakk> \<Longrightarrow> entry (dm_ids d') (ref_frame cf k' r) (snd k') = entry (dm_ids d) (ref_frame cf k' r) (snd k')"
    "\<And>r. x = Some r \<Longrightarrow> is_uuid (rf_UUID r) \<and> entry (dm_ids d') (ref_frame cf k r) (snd k) \<noteq> None"
  shows "id_inv cf d'"
  unfolding id_inv_def assms(2)
proof (intro conjI allI impI)
  fix k' r assume r: "((refs_of cf (dm_files d))(k := x)) k' = Some r"
  show "is_uuid (rf_UUID r)" "entry (dm_ids d') (ref_frame cf k' r) (snd k') \<noteq> None"
    using r assms(4) [of k' r] assms(5) [of r] id_invD(2,3) [OF assms(1), of k' r] by (cases "k' = k"; simp)+
qed (rule assms(3))

text \<open>Other refs are in other frames, or in the same frame under another name.\<close>

lemma other_entry:
  assumes "config_ok cf" "id_inv cf d" "plain user" "is_uuid u" "k' \<noteq> (user, name)" "refs_of cf (dm_files d) k' = Some r"
  shows "(ref_frame cf k' r, snd k') \<noteq> (framePathForNamespaceUUID cf user u, name)"
proof
  assume "(ref_frame cf k' r, snd k') = (framePathForNamespaceUUID cf user u, name)"
  then have e: "framePathForNamespaceUUID cf (fst k') (rf_UUID r) = framePathForNamespaceUUID cf user u" "snd k' = name"
    by (simp_all add: ref_frame_def)
  have "cf_fsDir cf \<noteq> []" "plain (fst k')" using assms(1) refs_of_key [OF assms(6)] by (simp_all add: config_ok_def ref_key_def)
  from frame_path_inj [OF this assms(3) id_invD(2) [OF assms(2,6)] assms(4)] e have "fst k' = user" by blast
  with e(2) assms(5) show False by (simp add: prod_eq_iff)
qed

section \<open>One lemma per request\<close>

lemma identity_create:
  assumes "config_ok cf" "frame_root cf rootFS" "ca_ids ca = (\<lambda>_ _. True)" "id_inv cf d"
    "handleRefCreate cf ca rootFS rq d = (200, d')"
  shows "id_inv cf d' \<and> (\<exists>user name s0 u. namespaceFromRootFS cf rootFS = Some user \<and> rr_Name (the (rq_Body rq)) = name
    \<and> rr_UUID (the (rq_Body rq)) = s0 \<and> cf_parse cf s0 = Some u
    \<and> secret cf d' = (secret cf d)((user, name) \<mapsto>
        (case identity (dm_ids d) (framePathForNamespaceUUID cf user u) name of None \<Rightarrow> [] | Some c \<Rightarrow> c)))"
  using assms(5)
proof (cases rule: handleRefCreate_cases)
  case (2 user name u s0)
  have pl: "plain user" "plain name" using frame_root_plain [OF assms(2) 2(2)] valid_ref_plain(2) [OF 2(4)] by simp_all
  have u: "is_uuid u" using assms(1) 2(3) by (auto simp: config_ok_def)
  have k: "ref_key (user, name)" using pl 2(4) by (simp add: ref_key_def)
  define fp where "fp = framePathForNamespaceUUID cf user u"
  have fp: "fp \<noteq> []" using assms(1) by (simp add: fp_def config_ok_def frame_path_not_Nil)
  from id_Ensure_succeeds [OF id_invD(1) [OF assms(4)] pl(2), of fp] obtain ids where
    i: "id_Ensure (\<lambda>_ _. True) fp name (dm_ids d) = (None, ids)" "ids_ok ids" by blast
  from Ensure_ok [OF i(1) ids_okD(1) [OF id_invD(1) [OF assms(4)]]] obtain n where n: "entry ids fp name = Some n" "private_node n"
    "nd_content n = (case identity (dm_ids d) fp name of None \<Rightarrow> [] | Some c \<Rightarrow> c)"
    "\<And>fp' name'. (fp', name') \<noteq> (fp, name) \<Longrightarrow> entry ids fp' name' = entry (dm_ids d) fp' name'" by blast
  let ?r = "newRef u (io_now (ca_op ca))"
  have d': "dm_ids d' = ids" "refs_of cf (dm_files d') = (refs_of cf (dm_files d))((user, name) := Some ?r)"
    using 2(7) fp i(1) refs_of_put [OF _ k] assms(1,3) by (simp_all add: ensureIdentity_def fp_def [symmetric] config_ok_def)
  have rf: "ref_frame cf (user, name) ?r = fp" by (simp add: ref_frame_def newRef_def fp_def)
  have other: "entry (dm_ids d') (ref_frame cf k' r) (snd k') = entry (dm_ids d) (ref_frame cf k' r) (snd k')"
    if "k' \<noteq> (user, name)" "refs_of cf (dm_files d) k' = Some r" for k' r
    using n(4) other_entry [OF assms(1,4) pl(1) u that] unfolding d'(1) fp_def by blast
  have "id_inv cf d'"
    by (rule id_inv_step [OF assms(4) d'(2) _ other]) (use i(2) d'(1) n(1) rf u in \<open>auto simp: newRef_def\<close>)
  moreover have c: "identity ids fp name = Some (nd_content n)" using n(1,2) by (simp add: identity_def private_node_def)
  have "secret cf d' = (secret cf d)((user, name) \<mapsto> (case identity (dm_ids d) fp name of None \<Rightarrow> [] | Some c \<Rightarrow> c))"
    by (subst secret_step [OF d'(2)], erule (1) other) (simp only: d'(1) rf c n(3) bind.bind_lunit snd_conv)
  moreover have "rr_Name (the (rq_Body rq)) = name" "rr_UUID (the (rq_Body rq)) = s0"
    using arg_cong [OF 2(6), of "\<lambda>b. rr_Name (the b)"] arg_cong [OF 2(6), of "\<lambda>b. rr_UUID (the b)"] by simp_all
  ultimately show ?thesis using 2(2,3) unfolding fp_def by blast
qed simp

lemma secret_same:
  assumes "refs_of cf (dm_files d') = (refs_of cf (dm_files d))(k \<mapsto> r')" "refs_of cf (dm_files d) k = Some r" "rf_UUID r' = rf_UUID r"
    "dm_ids d' = dm_ids d" "id_inv cf d"
  shows "id_inv cf d' \<and> secret cf d' = secret cf d"
proof -
  have rf: "ref_frame cf k r' = ref_frame cf k r" using assms(3) by (simp add: ref_frame_def)
  have "id_inv cf d'"
    by (rule id_inv_step [OF assms(5,1)]) (use assms id_invD [OF assms(5)] rf in auto)
  moreover have "secret cf d' = (secret cf d)(k := Option.bind (Some r') (\<lambda>r. identity (dm_ids d') (ref_frame cf k r) (snd k)))"
    by (rule secret_step [OF assms(1)]) (simp add: assms(4))
  ultimately show ?thesis using assms(2,4) by (simp add: rf fun_upd_idem secret_def)
qed

lemma identity_move:
  assumes "config_ok cf" "frame_root cf rootFS" "ca_ids ca = (\<lambda>_ _. True)" "id_inv cf d"
    "handleRefMove cf ca rootFS rq d = (200, d')"
  shows "id_inv cf d' \<and> secret cf d' = secret cf d"
  using assms(5)
proof (cases rule: handleRefMove_cases)
  case (2 user name u s0 r d1)
  have pl: "plain user" by (rule frame_root_plain [OF assms(2) 2(2)])
  note k = refs_of_Get [OF 2(4) pl]
  have pn: "plain name" using k valid_ref_plain(2) by (simp add: ref_key_def)
  have u: "is_uuid u" using assms(1) 2(3) by (auto simp: config_ok_def)
  let ?r = "movedRef u (io_now (ca_op ca)) r"
  have f: "dm_ids d' = dm_ids d1" "refs_of cf (dm_files d') = (refs_of cf (dm_files d))((user, name) := Some ?r)"
    using 2(6,7) refs_of_put [OF _ conjunct2 [OF k]] assms(1) by (simp_all add: config_ok_def split: option.split)
  show ?thesis
  proof (cases "rf_UUID r = u")
    case True
    then have "dm_ids d' = dm_ids d" using f(1) 2(6) by (simp add: moveIdentity_def Let_def)
    then show ?thesis using secret_same [OF f(2) conjunct1 [OF k] _ _ assms(4)] True by (simp add: movedRef_def)
  next
    case False
    define sfp where "sfp = framePathForNamespaceUUID cf user (rf_UUID r)"
    define dfp where "dfp = framePathForNamespaceUUID cf user u"
    have ne: "sfp \<noteq> []" "dfp \<noteq> []" using assms(1) by (simp_all add: sfp_def dfp_def config_ok_def frame_path_not_Nil)
    have ru: "is_uuid (rf_UUID r)" using id_invD(2) [OF assms(4) conjunct1 [OF k]] .
    have sd: "sfp \<noteq> dfp" using frame_path_inj [OF _ pl pl ru u] assms(1) False by (simp add: sfp_def dfp_def config_ok_def)
    obtain n0 where n0: "entry (dm_ids d) sfp name = Some n0" using id_invD(3) [OF assms(4) conjunct1 [OF k]] by (auto simp: ref_frame_def sfp_def)
    then have c: "identity (dm_ids d) sfp name = Some (nd_content n0)" using ids_okD(2) [OF id_invD(1) [OF assms(4)] n0] by (simp add: identity_def)
    from id_Move_succeeds [OF id_invD(1) [OF assms(4)] pn sd n0] obtain ids where
      i: "id_Move (\<lambda>_ _. True) sfp dfp name (dm_ids d) = (None, ids)" "ids_ok ids" by blast
    have ids: "dm_ids d' = ids" using f(1) 2(6) False ne i(1) assms(3) by (simp add: moveIdentity_def Let_def sfp_def [symmetric] dfp_def [symmetric])
    from Move_ok [OF i(1) sd c ids_okD(1) [OF id_invD(1) [OF assms(4)]]] obtain n where n: "entry ids dfp name = Some n" "private_node n" "nd_content n = nd_content n0"
      "\<And>fp' name'. name' \<noteq> name \<or> (fp' \<noteq> sfp \<and> fp' \<noteq> dfp) \<Longrightarrow> entry ids fp' name' = entry (dm_ids d) fp' name'" by blast
    have other: "entry (dm_ids d') (ref_frame cf k' q) (snd k') = entry (dm_ids d) (ref_frame cf k' q) (snd k')"
      if "k' \<noteq> (user, name)" "refs_of cf (dm_files d) k' = Some q" for k' q
      using n(4) [of "snd k'" "ref_frame cf k' q"] other_entry [OF assms(1,4) pl u that] other_entry [OF assms(1,4) pl ru that]
      unfolding ids dfp_def sfp_def by blast
    have rf: "ref_frame cf (user, name) ?r = dfp" by (simp add: ref_frame_def movedRef_def dfp_def)
    have "id_inv cf d'"
      by (rule id_inv_step [OF assms(4) f(2) _ other]) (use i(2) ids n(1) rf u in \<open>auto simp: movedRef_def\<close>)
    moreover have "identity ids dfp name = Some (nd_content n0)" using n by (simp add: identity_def private_node_def)
    moreover have "secret cf d (user, name) = Some (nd_content n0)" using k c by (simp add: secret_def ref_frame_def sfp_def)
    moreover have "secret cf d' = (secret cf d)((user, name) := identity ids dfp name)"
      by (subst secret_step [OF f(2)], erule (1) other) (simp only: ids rf bind.bind_lunit snd_conv)
    ultimately show ?thesis by (simp only: fun_upd_idem simp_thms)
  qed
qed simp

lemma identity_delete:
  assumes "config_ok cf" "frame_root cf rootFS" "ca_ids ca = (\<lambda>_ _. True)" "id_inv cf d"
    "handleRefDelete cf ca rootFS rq d = (200, d')"
  shows "id_inv cf d' \<and> (\<exists>user name. namespaceFromRootFS cf rootFS = Some user \<and> rr_Name (the (rq_Body rq)) = name
    \<and> secret cf d' = (secret cf d)((user, name) := None)
    \<and> (\<forall>r. rr_Force (the (rq_Body rq)) \<and> ref_Get (cf_refJson cf) (ca_get ca) (namespaceRefStore cf user) name (dm_files d) = Inr r \<longrightarrow>
        identity (dm_ids d') (ref_frame cf (user, name) r) name = None))"
  using assms(5)
proof (cases rule: handleRefDelete_cases)
  case (2 user req d2)
  let ?name = "rr_Name req"
  have pl: "plain user" "plain ?name" using frame_root_plain [OF assms(2) 2(2)] valid_ref_plain(2) [OF 2(4)] by simp_all
  have k: "ref_key (user, ?name)" using pl 2(4) by (simp add: ref_key_def)
  have f: "refs_of cf (dm_files d') = (refs_of cf (dm_files d))((user, ?name) := None)" using refs_of_del [OF k] 2(6,7) by simp
  let ?got = "ref_Get (cf_refJson cf) (ca_get ca) (namespaceRefStore cf user) ?name (dm_files d)"
  have ids: "dm_ids d' = dm_ids d \<and> (\<forall>r. \<not> (rr_Force req \<and> ?got = Inr r)) \<or>
    (\<exists>r. ?got = Inr r \<and> dm_ids d' = set_entry (ref_frame cf (user, ?name) r) ?name None (dm_ids d))"
  proof (cases "rr_Force req \<and> (\<exists>r. ?got = Inr r)")
    case True
    then obtain r where r: "?got = Inr r" by blast
    then have "scrubIdentity cf ca user ?name ?got d2 = d2\<lparr> dm_idDirs := snd (RemoveIDDir (ca_op ca) (namespaceRefStore cf user) ?name (dm_idDirs d2)),
        dm_ids := snd (id_Remove (\<lambda>_ _. True) (ref_frame cf (user, ?name) r) ?name (dm_ids d2)) \<rparr>"
      using assms(1,3) by (simp add: scrubIdentity_def Let_def ref_frame_def frame_path_not_Nil config_ok_def)
    then show ?thesis
      using True r 2(6,7) id_Remove_succeeds [OF id_invD(1) [OF assms(4)] pl(2), of "ref_frame cf (user, ?name) r"] by simp
  next
    case False
    then show ?thesis using 2(6,7) by (auto simp: scrubIdentity_def Let_def split: sum.splits)
  qed
  have rr: "is_uuid (rf_UUID r)" if "?got = Inr r" for r using id_invD(2) [OF assms(4)] refs_of_Get [OF that pl(1)] by blast
  have other: "entry (dm_ids d') (ref_frame cf k' q) (snd k') = entry (dm_ids d) (ref_frame cf k' q) (snd k')"
    if "k' \<noteq> (user, ?name)" "refs_of cf (dm_files d) k' = Some q" for k' q
    using ids other_entry [OF assms(1,4) pl(1) rr that]
    by (auto simp: entry_set_None ref_frame_def)
  have iok: "ids_ok (dm_ids d')" using ids id_invD(1) [OF assms(4)] by (auto simp: ids_ok_set_entry)
  have "id_inv cf d'" by (rule id_inv_step [OF assms(4) f iok other]) auto
  moreover have "secret cf d' = (secret cf d)((user, ?name) := None)"
    by (subst secret_step [OF f], erule (1) other) simp
  moreover have "\<forall>r. rr_Force req \<and> ?got = Inr r \<longrightarrow> identity (dm_ids d') (ref_frame cf (user, ?name) r) ?name = None"
    using ids by (auto simp: identity_def entry_set_None)
  ultimately show ?thesis using 2(2,3) by auto
qed simp

lemma identity_autorun:
  assumes "config_ok cf" "frame_root cf rootFS" "id_inv cf d" "handleAutorun cf ca rootFS rq d = (200, d')"
  shows "id_inv cf d' \<and> secret cf d' = secret cf d"
  using assms(4)
proof (cases rule: handleAutorun_cases)
  case (2 user name argv r)
  note k = refs_of_Get [OF 2(4) frame_root_plain [OF assms(2) 2(2)]]
  have "refs_of cf (dm_files d') = (refs_of cf (dm_files d))((user, name) := Some (r\<lparr> rf_Autorun := argv \<rparr>))"
    using refs_of_put [OF _ conjunct2 [OF k]] 2(5) assms(1) by (simp add: config_ok_def)
  from secret_same [OF this conjunct1 [OF k] _ _ assms(3)] 2(5) show ?thesis by simp
qed simp

section \<open>Starting the manager\<close>

text \<open>A directory listing that shows every ref file.\<close>

definition listing_ok :: "config \<Rightarrow> (string \<Rightarrow> dir_listing) \<Rightarrow> fmap \<Rightarrow> bool" where
  "listing_ok cf listing fs \<longleftrightarrow>
     (\<forall>k. ref_key k \<and> fs (ref_file cf k) \<noteq> None \<longrightarrow>
        (\<exists>us es. listing (filepath_Join [cf_dataDir cf, ''refs'']) = Listing us \<and> (fst k, True) \<in> set us \<and>
           listing (refsDir (namespaceRefStore cf (fst k))) = Listing es \<and> (snd k @ ''.jsonc'', False) \<in> set es))"

definition scanned :: "(string \<Rightarrow> store_error + Ref) \<Rightarrow> string \<Rightarrow> (string \<times> string list) option" where
  "scanned get name = (case get name of Inl e \<Rightarrow> None | Inr r \<Rightarrow> wantedProc (Some r))"

lemma scanRefs_running:
  assumes "am_inv m"
  shows "am_inv (scanRefs get user names m) \<and> (\<forall>k. running (scanRefs get user names m) k =
    (if fst k = user \<and> snd k \<in> set names \<and> scanned get (snd k) \<noteq> None then scanned get (snd k) else running m k))"
  using assms
proof (induction names arbitrary: m)
  case (Cons name names)
  show ?case
  proof (cases "get name")
    case (Inl e)
    then have "scanned get name = None" by (simp add: scanned_def)
    with Inl Cons.IH [OF Cons.prems] show ?thesis by (auto simp del: split_paired_All)
  next
    case (Inr r)
    define m' where "m' = (if rf_Autorun r \<noteq> [] then startProcess user name (rf_UUID r) (rf_Autorun r) m else m)"
    have m': "am_inv m' \<and> running m' = (if scanned get name \<noteq> None then (running m)((user, name) := scanned get name) else running m)"
      using running_start(1) [OF Cons.prems, of "rf_Autorun r" user name "rf_UUID r"] Cons.prems Inr
      by (simp add: m'_def scanned_def wantedProc_def)
    have "scanRefs get user (name # names) m = scanRefs get user names m'" using Inr by (simp add: m'_def)
    with Cons.IH [of m'] m' show ?thesis by (auto simp: prod_eq_iff simp del: split_paired_All scanRefs.simps)
  qed
qed simp

abbreviation get_ref :: "config \<Rightarrow> store_io \<Rightarrow> fmap \<Rightarrow> string \<Rightarrow> string \<Rightarrow> store_error + Ref" where
  "get_ref cf io fs user name \<equiv> ref_Get (cf_refJson cf) io (namespaceRefStore cf user) name fs"

definition listed_refs :: "config \<Rightarrow> (string \<Rightarrow> dir_listing) \<Rightarrow> string \<Rightarrow> string list" where
  "listed_refs cf listing user = (case ref_List (listing (refsDir (namespaceRefStore cf user))) of Inl e \<Rightarrow> [] | Inr names \<Rightarrow> names)"

lemma scanUserRefs_alt:
  "scanUserRefs (cf_refJson cf) io (cf_dataDir cf) listing fs user m = scanRefs (get_ref cf io fs user) user (listed_refs cf listing user) m"
  by (simp add: scanUserRefs_def listed_refs_def Let_def namespaceRefStore_def split: sum.split)

lemma scan_running:
  assumes "am_inv m"
  shows "am_inv (fold (\<lambda>(user, isDir) m. if isDir then scanUserRefs (cf_refJson cf) io (cf_dataDir cf) listing fs user m else m) us m) \<and>
    (\<forall>k. running (fold (\<lambda>(user, isDir) m. if isDir then scanUserRefs (cf_refJson cf) io (cf_dataDir cf) listing fs user m else m) us m) k =
      (if (fst k, True) \<in> set us \<and> snd k \<in> set (listed_refs cf listing (fst k)) \<and> scanned (get_ref cf io fs (fst k)) (snd k) \<noteq> None
       then scanned (get_ref cf io fs (fst k)) (snd k) else running m k))"
  using assms
proof (induction us arbitrary: m)
  case (Cons x us)
  obtain user isDir where x: "x = (user, isDir)" by (cases x)
  show ?case
  proof (cases isDir)
    case False
    with Cons.IH [OF Cons.prems] show ?thesis by (auto simp: x simp del: split_paired_All)
  next
    case True
    note u = scanRefs_running [OF Cons.prems, of "get_ref cf io fs user" user "listed_refs cf listing user"]
    from Cons.IH [OF conjunct1 [OF u]] u True show ?thesis by (auto simp: x scanUserRefs_alt simp del: split_paired_All)
  qed
qed simp

lemma listed_file:
  assumes "listing (refsDir (namespaceRefStore cf user)) = Listing es" "(name @ ''.jsonc'', False) \<in> set es"
  shows "name \<in> set (listed_refs cf listing user)"
proof -
  have "filepath_Ext (name @ ''.jsonc'') = ''.jsonc''" using filepath_Ext_append [of "''jsonc''" name] by simp
  with assms show ?thesis by (force simp: listed_refs_def ref_List_def image_iff)
qed

lemma init_autorun_ok:
  assumes "io_read io" "listing_ok cf listing (dm_files d)"
    "dm_autorun d = Some (initAutorunManager (cf_refJson cf) io (cf_dataDir cf) listing (dm_files d))"
  shows "autorun_ok cf d"
proof -
  let ?m = "initAutorunManager (cf_refJson cf) io (cf_dataDir cf) listing (dm_files d)"
  define us where "us = (case listing (filepath_Join [cf_dataDir cf, ''refs'']) of Listing us \<Rightarrow> us | _ \<Rightarrow> [])"
  have m: "?m = fold (\<lambda>(user, isDir) m. if isDir then scanUserRefs (cf_refJson cf) io (cf_dataDir cf) listing (dm_files d) user m else m) us emptyManager"
    by (simp add: initAutorunManager_def scanAndStartAll_def us_def split: dir_listing.split)
  note r = scan_running [OF am_inv_empty, of cf io listing "dm_files d" us, folded m]
  have "running ?m k = wantedProc (refs_of cf (dm_files d) k)" if "plain (fst k)" for k
  proof (cases "refs_of cf (dm_files d) k")
    case (Some ref)
    then have k: "ref_key k" "dm_files d (ref_file cf k) \<noteq> None"
      by (cases "dm_files d (ref_file cf k)"; simp add: refs_of_def store_view_def split: if_splits)+
    with assms(2) obtain us' es where l: "listing (filepath_Join [cf_dataDir cf, ''refs'']) = Listing us'" "(fst k, True) \<in> set us'"
      "listing (refsDir (namespaceRefStore cf (fst k))) = Listing es" "(snd k @ ''.jsonc'', False) \<in> set es"
      unfolding listing_ok_def by blast
    have "get_ref cf io (dm_files d) (fst k) (snd k) = Inr ref"
      using Some k(1) assms(1) by (auto simp: ref_Get_def refs_of_def store_view_def ref_key_def valid_ref_def bind_eq_Some_conv split: if_splits)
    then have "scanned (get_ref cf io (dm_files d) (fst k)) (snd k) = wantedProc (Some ref)" by (simp add: scanned_def)
    with r l listed_file [of listing cf "fst k" es "snd k", OF l(3,4)] Some show ?thesis
      by (cases "wantedProc (Some ref)") (simp_all add: us_def running_def emptyManager_def del: split_paired_All)
  next
    case None
    then have "scanned (get_ref cf io (dm_files d) (fst k)) (snd k) = None"
      using refs_of_Get [OF _ that, of cf io "snd k" "dm_files d"] by (cases "get_ref cf io (dm_files d) (fst k) (snd k)") (auto simp: scanned_def)
    with r None show ?thesis by (simp add: running_def emptyManager_def wantedProc_def del: split_paired_All)
  qed
  with r assms(3) show ?thesis by (simp add: autorun_ok_def del: split_paired_All)
qed

section \<open>Example requests\<close>

definition ex_config :: config where
  "ex_config = \<lparr> cf_fsDir = ''/d/fs'', cf_dataDir = ''/d'', cf_parse = (\<lambda>s. if is_uuid s then Some s else None),
     cf_refJson = js_ref, cf_frameJson = js_frame \<rparr>"

definition ex_calls :: calls where
  "ex_calls = \<lparr> ca_get = io_fine, ca_op = io_fine, ca_ids = (\<lambda>_ _. True), ca_list = NoDir \<rparr>"

definition ex_root :: string where
  "ex_root = filepath_Join [''/d/fs'', ''team'', ex_id]"

definition ex_create :: "RefRequest request" where
  "ex_create = \<lparr> rq_Method = ''POST'', rq_Body = Some \<lparr> rr_Name = ''web'', rr_UUID = ex_id, rr_Force = False \<rparr> \<rparr>"

definition ex_autorun :: "AutorunRequest request" where
  "ex_autorun = \<lparr> rq_Method = ''POST'', rq_Body = Some \<lparr> ar_RefName = ''web'', ar_Argv = [''srv''] \<rparr> \<rparr>"

definition ex_daemon :: daemon where
  "ex_daemon = \<lparr> dm_files = Map.empty, dm_ids = Map.empty, dm_idDirs = {},
     dm_autorun = Some (initAutorunManager js_ref io_fine ''/d'' (\<lambda>_. NoDir) Map.empty) \<rparr>"

lemma ex_frame_root: "frame_root ex_config ex_root"
  unfolding frame_root_def ex_root_def
  by (intro conjI exI [of _ "''team''"] exI [of _ ex_id] is_uuid_plain(2) [OF ex_id_uuid]) (simp_all add: ex_config_def plain_def)

lemma ex_namespace: "namespaceFromRootFS ex_config ex_root = Some ''team''"
  using rootFS_parts(1) [of ex_config "''team''" ex_id] is_uuid_plain(2) [OF ex_id_uuid]
  by (simp add: ex_config_def ex_root_def plain_def)

lemma ex_create_ok: "\<exists>d'. ctl_step ex_config (CtlCreate ex_calls ex_root ex_create) ex_daemon = (200, d') \<and> dm_autorun d' = dm_autorun ex_daemon"
proof -
  have v: "ValidateName ''web'' = None" by code_simp
  have "cf_parse ex_config ex_id = Some ex_id" "ex_id \<noteq> []" by (simp add: ex_config_def ex_id_uuid) (simp add: ex_id_def)
  with v show ?thesis
    by (simp add: handleRefCreate_def ex_namespace requireMethod_def ex_create_def ref_Create_def ex_calls_def io_fine_def ref_write_def
      replace_file_def ex_daemon_def)
qed

section \<open>Properties\<close>

lemma run_autorun_ok:
  assumes "json_law (cf_refJson cf)" "\<forall>op \<in> set ops. frame_root cf (ctl_root op)" "autorun_ok cf d"
  shows "autorun_ok cf (ctl_run cf ops d)"
  using assms(2,3)
proof (induction ops arbitrary: d)
  case (Cons op ops)
  obtain st d' where s: "ctl_step cf op d = (st, d')" by fastforce
  from autorun_step [OF assms(1) _ Cons.prems(2) s] Cons.prems(1) have "autorun_ok cf d'" by simp
  with Cons.IH [of d'] Cons.prems(1) s show ?case by (simp add: ctl_run_def)
qed (simp add: ctl_run_def)

text \<open>
  C13: The supervised processes are always the ones the refs ask for: started from the refs on disk and
  after any sequence of create, move, delete and autorun requests, whichever of their calls fail, a ref
  with an autorun command has one process, running that command in the frame the ref points at, a ref
  without one has none, and no ref has two active supervisors.
\<close>

theorem autorun_matches_refs:
  assumes "json_law (cf_refJson cf)" "\<forall>op \<in> set ops. frame_root cf (ctl_root op)"
    "io_read io" "listing_ok cf listing (dm_files d)"
    "dm_autorun d = Some (initAutorunManager (cf_refJson cf) io (cf_dataDir cf) listing (dm_files d))"
    "dm_autorun (ctl_run cf ops d) = Some m" "plain user"
  shows "running m (user, name) = wantedProc (refs_of cf (dm_files (ctl_run cf ops d)) (user, name))
    \<and> (\<forall>i j p q. am_procs m i = Some p \<and> am_procs m j = Some q \<and> ap_key p = ap_key q
          \<and> am_supervisors m i = Some Active \<and> am_supervisors m j = Some Active \<longrightarrow> i = j)"
proof -
  have "autorun_ok cf (ctl_run cf ops d)" by (rule run_autorun_ok [OF assms(1,2) init_autorun_ok [OF assms(3-5)]])
  then have m: "am_inv m" "running m (user, name) = wantedProc (refs_of cf (dm_files (ctl_run cf ops d)) (user, name))"
    using assms(6,7) by (simp_all add: autorun_ok_def)
  then show ?thesis using one_supervisor [OF m(1)] by blast
qed

theorem autorun_matches_refs_witness:
  "\<exists>m. dm_autorun (ctl_run ex_config [CtlCreate ex_calls ex_root ex_create] ex_daemon) = Some m
     \<and> running m (''team'', ''web'') = wantedProc (refs_of ex_config (dm_files (ctl_run ex_config [CtlCreate ex_calls ex_root ex_create] ex_daemon)) (''team'', ''web''))"
proof -
  from ex_create_ok obtain m where m: "dm_autorun (ctl_run ex_config [CtlCreate ex_calls ex_root ex_create] ex_daemon) = Some m"
    by (auto simp: ctl_run_def ex_daemon_def simp del: ctl_step.simps)
  have "running m (''team'', ''web'') = wantedProc (refs_of ex_config (dm_files (ctl_run ex_config [CtlCreate ex_calls ex_root ex_create] ex_daemon)) (''team'', ''web''))"
    by (rule conjunct1 [OF autorun_matches_refs [OF _ _ _ _ _ m, where io = io_fine and listing = "\<lambda>_. NoDir"]])
      (simp_all add: ex_config_def js_ref_law ex_frame_root [unfolded ex_config_def] io_fine_def listing_ok_def ex_daemon_def plain_def)
  with m show ?thesis by blast
qed



text \<open>
  Without force, the check for an identity looks at the directory in the data dir, which no request
  fills, and not at the subvolume in the frame: the ref is deleted and its private state stays.
\<close>

lemma unforced_delete_leaves_identity:
  assumes "handleRefDelete cf ca rootFS rq d = (200, d')" "\<not> rr_Force (the (rq_Body rq))"
  shows "dm_ids d' = dm_ids d"
  using assms(1)
proof (cases rule: handleRefDelete_cases)
  case (2 user req d2)
  with assms(2) show ?thesis by simp
qed simp

end
