(* ===== verification/Frame_Handlers.thy ===== *)
theory Frame_Handlers
  imports Control_Props
begin

text \<open>
  The frame requests of the control socket: \<^verbatim>\<open>cmd/thundersnapd/frames_handlers.go\<close>, the listing requests of
  \<^verbatim>\<open>refs_handlers.go\<close>, and deletion of frames and frame specs of \<^verbatim>\<open>cmd/thundersnapd/main.go\<close>.
\<close>

section \<open>Frame specs\<close>

definition spec_part :: "string list \<Rightarrow> nat \<Rightarrow> string" where
  "spec_part parts i = (if length parts \<ge> i + 1 then (if parts ! i = ''nil'' then [] else parts ! i) else [])"

definition parseFrameSpec :: "string \<Rightarrow> string \<times> string \<times> string" where
  "parseFrameSpec spec =
     (let parts = split_on (CHR '':'') spec in (spec_part parts 0, spec_part parts 1, spec_part parts 2))"

definition isFrameSpec :: "string \<Rightarrow> bool" where
  "isFrameSpec spec = (CHR '':'' \<in> set spec)"

definition hasBlankRootfs :: "string \<Rightarrow> bool \<times> bool" where
  "hasBlankRootfs spec =
     (if \<not> isFrameSpec spec then (False, False)
      else
        let parts = split_on (CHR '':'') spec in
        if parts = [] then (False, False)
        else if parts ! 0 = ''nil'' then (True, True)
        else if parts ! 0 = [] then (True, False)
        else (False, False))"

text \<open>A triplet of snap IDs is read back, with an empty component for \<^verbatim>\<open>nil\<close>.\<close>

lemma parseFrameSpec_triplet:
  assumes "CHR '':'' \<notin> set r" "CHR '':'' \<notin> set h" "CHR '':'' \<notin> set w"
  shows "parseFrameSpec (join_with (CHR '':'') [r, h, w]) =
    (if r = ''nil'' then [] else r, if h = ''nil'' then [] else h, if w = ''nil'' then [] else w)"
  using assms by (simp add: parseFrameSpec_def spec_part_def split_on_append split_on_last Let_def)

lemma hasBlankRootfs_iff:
  "fst (hasBlankRootfs spec) \<longleftrightarrow> isFrameSpec spec \<and> fst (parseFrameSpec spec) = []"
  using split_on_not_Nil [of "CHR '':''" spec]
  by (cases "split_on (CHR '':'') spec") (simp_all add: hasBlankRootfs_def parseFrameSpec_def spec_part_def Let_def)

section \<open>Reading requests\<close>

record LogEntry =
  le_Snap :: string
  le_Time :: int
  le_Message :: string

definition frameOfRequest :: "config \<Rightarrow> string \<Rightarrow> string \<Rightarrow> nat + string" where
  "frameOfRequest cf rootFS uuidStr =
     (if uuidStr = [] then (case frameUUIDFromRootFS cf rootFS of None \<Rightarrow> Inl 500 | Some u \<Rightarrow> Inr u)
      else (case cf_parse cf uuidStr of None \<Rightarrow> Inl 400 | Some u \<Rightarrow> Inr u))"

definition handleLog :: "config \<Rightarrow> store_io \<Rightarrow> string \<Rightarrow> string request \<Rightarrow> fmap \<Rightarrow> nat + string \<times> LogEntry list" where
  "handleLog cf io rootFS r fs =
     (if \<not> requireMethod r ''GET'' then Inl 405
      else
     (case namespaceFromRootFS cf rootFS of None \<Rightarrow> Inl 500
      | Some user \<Rightarrow>
     (let q = (case rq_Body r of None \<Rightarrow> [] | Some q \<Rightarrow> q) in
      case frameOfRequest cf rootFS q of Inl c \<Rightarrow> Inl c
      | Inr uuid \<Rightarrow>
     (case frame_Get (cf_frameJson cf) io (namespaceFrameStore cf user) uuid fs of
        Inl e \<Rightarrow> Inl (if e = ErrNotFound then 404 else 500)
      | Inr frame \<Rightarrow>
          Inr (if q = [] then uuid else q,
               map (\<lambda>h. \<lparr> le_Snap = hi_Snap h, le_Time = hi_Time h, le_Message = hi_Message h \<rparr>) (fr_History frame))))))"

record FrameResponse =
  fp_UUID :: string
  fp_Rootfs :: string
  fp_Home :: string
  fp_Work :: string

definition handleFrame :: "config \<Rightarrow> store_io \<Rightarrow> string \<Rightarrow> string request \<Rightarrow> fmap \<Rightarrow> nat + FrameResponse" where
  "handleFrame cf io rootFS r fs =
     (if \<not> requireMethod r ''GET'' then Inl 405
      else
     (case namespaceFromRootFS cf rootFS of None \<Rightarrow> Inl 500
      | Some user \<Rightarrow>
     (case frameUUIDFromRootFS cf rootFS of None \<Rightarrow> Inl 500
      | Some uuid \<Rightarrow>
     (case frame_Get (cf_frameJson cf) io (namespaceFrameStore cf user) uuid fs of
        Inl e \<Rightarrow> if e = ErrNotFound then Inr \<lparr> fp_UUID = uuid, fp_Rootfs = [], fp_Home = [], fp_Work = [] \<rparr> else Inl 500
      | Inr f \<Rightarrow> Inr \<lparr> fp_UUID = uuid, fp_Rootfs = fr_Rootfs f, fp_Home = fr_Home f, fp_Work = fr_Work f \<rparr>))))"

record ResolveFrameResponse =
  rs_UUID :: string
  rs_Exists :: bool
  rs_IsRef :: bool
  rs_RefName :: string
  rs_Rootfs :: string
  rs_Home :: string
  rs_Work :: string

definition withFrame :: "store_error + Frame \<Rightarrow> ResolveFrameResponse \<Rightarrow> ResolveFrameResponse" where
  "withFrame got resp =
     (case got of Inl e \<Rightarrow> resp
      | Inr f \<Rightarrow> resp\<lparr> rs_Rootfs := fr_Rootfs f, rs_Home := fr_Home f, rs_Work := fr_Work f \<rparr>)"

definition handleResolveFrame :: "config \<Rightarrow> store_io \<Rightarrow> string \<Rightarrow> string request \<Rightarrow> fmap \<Rightarrow> nat + ResolveFrameResponse" where
  "handleResolveFrame cf io rootFS r fs =
     (if \<not> requireMethod r ''POST'' then Inl 405
      else
     (case rq_Body r of None \<Rightarrow> Inl 400
      | Some spec \<Rightarrow>
          if spec = [] then Inl 400
          else
     (case namespaceFromRootFS cf rootFS of None \<Rightarrow> Inl 500
      | Some user \<Rightarrow>
     (let resp = \<lparr> rs_UUID = [], rs_Exists = False, rs_IsRef = False, rs_RefName = [], rs_Rootfs = [], rs_Home = [], rs_Work = [] \<rparr>;
          frameStore = namespaceFrameStore cf user
      in case cf_parse cf spec of
        Some uuid \<Rightarrow>
          if frame_Exists frameStore uuid fs
          then Inr (withFrame (frame_Get (cf_frameJson cf) io frameStore uuid fs) (resp\<lparr> rs_UUID := uuid, rs_Exists := True \<rparr>))
          else Inr (resp\<lparr> rs_UUID := uuid \<rparr>)
      | None \<Rightarrow>
     (case ref_Get (cf_refJson cf) io (namespaceRefStore cf user) spec fs of
        Inr ref \<Rightarrow>
          Inr (withFrame (frame_Get (cf_frameJson cf) io frameStore (rf_UUID ref) fs)
            (resp\<lparr> rs_UUID := rf_UUID ref, rs_Exists := frame_Exists frameStore (rf_UUID ref) fs, rs_IsRef := True, rs_RefName := spec \<rparr>))
      | Inl e \<Rightarrow> if e \<noteq> ErrNotFound then Inl 500 else Inr resp)))))"

text \<open>
  A triplet is not a ref name, so the lookup fails with an invalid name rather than with
  \<^verbatim>\<open>ErrRefNotFound\<close> and the branch for triplets is not reached.
\<close>

lemma resolve_triplet_refused:
  assumes "isFrameSpec spec" "cf_parse cf spec = None" "namespaceFromRootFS cf rootFS = Some user"
  shows "handleResolveFrame cf io rootFS \<lparr> rq_Method = ''POST'', rq_Body = Some spec \<rparr> fs = Inl 500"
proof -
  have "\<not> valid_ref spec"
  proof
    assume "valid_ref spec"
    from valid_ref_refChar [OF this] assms(1) have "refChar (CHR '':'')" by (auto simp: isFrameSpec_def list_all_iff)
    then show False by (simp add: refChar_def is_letter_def is_digit_def)
  qed
  then have "ValidateName spec = Some ErrInvalidName" by (simp add: valid_ref_def ValidateName_def split: if_splits)
  moreover have "spec \<noteq> []" using assms(1) by (auto simp: isFrameSpec_def)
  ultimately show ?thesis using assms by (simp add: handleResolveFrame_def requireMethod_def ref_Get_def Let_def)
qed

record RefListEntry =
  rl_Name :: string
  rl_UUID :: string
  rl_Autorun :: "string list"

fun refEntries :: "(string \<Rightarrow> store_error + Ref) \<Rightarrow> string list \<Rightarrow> RefListEntry list" where
  "refEntries get [] = []"
| "refEntries get (name # names) =
     (case get name of
        Inl e \<Rightarrow> refEntries get names
      | Inr r \<Rightarrow> \<lparr> rl_Name = name, rl_UUID = rf_UUID r, rl_Autorun = rf_Autorun r \<rparr> # refEntries get names)"

definition handleListRefs :: "config \<Rightarrow> calls \<Rightarrow> string \<Rightarrow> string request \<Rightarrow> fmap \<Rightarrow> nat + RefListEntry list" where
  "handleListRefs cf ca rootFS r fs =
     (if \<not> requireMethod r ''GET'' then Inl 405
      else
     (case namespaceFromRootFS cf rootFS of None \<Rightarrow> Inl 500
      | Some user \<Rightarrow>
     (case ref_List (ca_list ca) of Inl e \<Rightarrow> Inl 500
      | Inr names \<Rightarrow> Inr (refEntries (\<lambda>n. ref_Get (cf_refJson cf) (ca_get ca) (namespaceRefStore cf user) n fs) names))))"

definition reflogName :: "config \<Rightarrow> calls \<Rightarrow> string \<Rightarrow> string \<Rightarrow> string \<Rightarrow> fmap \<Rightarrow> nat + string" where
  "reflogName cf ca user rootFS name fs =
     (if name \<noteq> [] then Inr name
      else
     (case frameUUIDFromRootFS cf rootFS of None \<Rightarrow> Inl 500
      | Some frameUUID \<Rightarrow>
     (case ref_List (ca_list ca) of Inl e \<Rightarrow> Inl 500
      | Inr names \<Rightarrow>
          (case refsPointingTo (\<lambda>n. ref_Get (cf_refJson cf) (ca_get ca) (namespaceRefStore cf user) n fs) frameUUID names of
             [n] \<Rightarrow> Inr n | _ \<Rightarrow> Inl 400))))"

definition handleReflog :: "config \<Rightarrow> calls \<Rightarrow> string \<Rightarrow> string request \<Rightarrow> fmap \<Rightarrow> nat + string \<times> ReflogEntry list" where
  "handleReflog cf ca rootFS r fs =
     (if \<not> requireMethod r ''GET'' then Inl 405
      else
     (case namespaceFromRootFS cf rootFS of None \<Rightarrow> Inl 500
      | Some user \<Rightarrow>
     (case reflogName cf ca user rootFS (case rq_Body r of None \<Rightarrow> [] | Some n \<Rightarrow> n) fs of Inl c \<Rightarrow> Inl c
      | Inr name \<Rightarrow>
     (case ref_Get (cf_refJson cf) (ca_op ca) (namespaceRefStore cf user) name fs of
        Inl e \<Rightarrow> Inl (if e = ErrNotFound then 404 else 500)
      | Inr ref \<Rightarrow> Inr (name, rf_Reflog ref)))))"

section \<open>History requests\<close>

record CloneHistoryRequest =
  ch_SourceUUID :: string
  ch_TargetUUID :: string

definition handleCloneHistory :: "config \<Rightarrow> calls \<Rightarrow> string \<Rightarrow> CloneHistoryRequest request \<Rightarrow> fmap \<Rightarrow> nat \<times> fmap" where
  "handleCloneHistory cf ca rootFS r fs =
     (if \<not> requireMethod r ''POST'' then (405, fs)
      else
     (case rq_Body r of None \<Rightarrow> (400, fs)
      | Some req \<Rightarrow>
          if ch_SourceUUID req = [] \<or> ch_TargetUUID req = [] then (400, fs)
          else
     (case cf_parse cf (ch_SourceUUID req) of None \<Rightarrow> (400, fs)
      | Some sourceUUID \<Rightarrow>
     (case cf_parse cf (ch_TargetUUID req) of None \<Rightarrow> (400, fs)
      | Some targetUUID \<Rightarrow>
     (case namespaceFromRootFS cf rootFS of None \<Rightarrow> (500, fs)
      | Some user \<Rightarrow>
     (case frame_Get (cf_frameJson cf) (ca_get ca) (namespaceFrameStore cf user) sourceUUID fs of
        Inl e \<Rightarrow> (if e = ErrNotFound then 404 else 500, fs)
      | Inr sourceFrame \<Rightarrow>
     (case frame_Get (cf_frameJson cf) (ca_get ca) (namespaceFrameStore cf user) targetUUID fs of
        Inl e \<Rightarrow> (if e = ErrNotFound then 404 else 500, fs)
      | Inr targetFrame \<Rightarrow>
     (case frame_Update (cf_frameJson cf) (ca_op ca) (namespaceFrameStore cf user) targetUUID
             (targetFrame\<lparr> fr_History := fr_History sourceFrame \<rparr>) fs of
        (Some e, fs') \<Rightarrow> (500, fs')
      | (None, fs') \<Rightarrow> (200, fs')))))))))"

record PruneHistoryRequest =
  ph_UUID :: string
  ph_Snaps :: "string list"

definition pruneFrame :: "string list \<Rightarrow> Frame \<Rightarrow> Frame" where
  "pruneFrame snaps f = f\<lparr> fr_History := filter (\<lambda>h. hi_Snap h \<notin> set snaps) (fr_History f) \<rparr>"

definition prunedCount :: "string list \<Rightarrow> Frame \<Rightarrow> nat" where
  "prunedCount snaps f = length (filter (\<lambda>h. hi_Snap h \<in> set snaps) (fr_History f))"

definition handlePruneHistory :: "config \<Rightarrow> calls \<Rightarrow> string \<Rightarrow> PruneHistoryRequest request \<Rightarrow> fmap \<Rightarrow> (nat + nat) \<times> fmap" where
  "handlePruneHistory cf ca rootFS r fs =
     (if \<not> requireMethod r ''POST'' then (Inl 405, fs)
      else
     (case rq_Body r of None \<Rightarrow> (Inl 400, fs)
      | Some req \<Rightarrow>
          if ph_UUID req = [] then (Inl 400, fs)
          else
     (case cf_parse cf (ph_UUID req) of None \<Rightarrow> (Inl 400, fs)
      | Some uuid \<Rightarrow>
     (case namespaceFromRootFS cf rootFS of None \<Rightarrow> (Inl 500, fs)
      | Some user \<Rightarrow>
     (case frame_Get (cf_frameJson cf) (ca_get ca) (namespaceFrameStore cf user) uuid fs of
        Inl e \<Rightarrow> (Inl (if e = ErrNotFound then 404 else 500), fs)
      | Inr f \<Rightarrow>
     (case frame_Update (cf_frameJson cf) (ca_op ca) (namespaceFrameStore cf user) uuid (pruneFrame (ph_Snaps req) f) fs of
        (Some e, fs') \<Rightarrow> (Inl 500, fs')
      | (None, fs') \<Rightarrow> (Inr (prunedCount (ph_Snaps req) f), fs')))))))"

lemma pruned_plus_kept: "prunedCount snaps f + length (fr_History (pruneFrame snaps f)) = length (fr_History f)"
  by (simp add: prunedCount_def pruneFrame_def sum_length_filter_compl)

text \<open>
  Both requests read the sidecar, change it and write it without the per-frame lock: an update
  made in between is undone.
\<close>

lemma prune_undoes_taint:
  assumes "json_law (cf_frameJson cf)" "is_uuid u" "io_write io = None" "io_read io"
    "frame_view (cf_frameJson cf) s fs u = Some (Some f)" "t \<notin> set (fr_Taints f)"
    "AddTaint (cf_frameJson cf) io s u t fs = (None, fs1)"
    "frame_Update (cf_frameJson cf) io s u (pruneFrame snaps f) fs1 = (None, fs2)"
  shows "frame_view (cf_frameJson cf) s fs2 u = Some (Some (pruneFrame snaps f)) \<and> t \<notin> set (fr_Taints (pruneFrame snaps f))"
proof -
  from assms(8,3) have "fs2 = fs1(metaPath s u \<mapsto> j_Marshal (cf_frameJson cf) (pruneFrame snaps f))"
    by (simp add: frame_Update_def frame_write_def replace_file_def split: if_splits)
  then show ?thesis
    using assms(1,6) by (simp add: ft.view_put [OF assms(2)] json_law_def) (simp add: pruneFrame_def)
qed

section \<open>Deleting a frame\<close>

text \<open>
  The subvolumes of the frames besides their identity subvolume, which is part of the daemon's
  state; \<open>ok\<close> says whether \<^verbatim>\<open>btrfs subvolume delete\<close> of a path succeeds.
\<close>

record frames_disk =
  fs_daemon :: daemon
  fs_subvols :: "string set"

record DeleteFrameRequest =
  df_UUID :: string
  df_FrameName :: string

definition deleteSubvolIfAny :: "(string \<Rightarrow> bool) \<Rightarrow> string \<Rightarrow> frames_disk \<Rightarrow> frames_disk" where
  "deleteSubvolIfAny ok p s =
     (if p \<in> fs_subvols s \<and> ok p then s\<lparr> fs_subvols := fs_subvols s - {p} \<rparr> else s)"

definition deleteIdSubvol :: "(string \<Rightarrow> bool) \<Rightarrow> string \<Rightarrow> frames_disk \<Rightarrow> frames_disk" where
  "deleteIdSubvol ok fp s =
     (case dm_ids (fs_daemon s) fp of
        Some n \<Rightarrow>
          if id_subvol n \<and> ok (IDDir fp) then s\<lparr> fs_daemon := (fs_daemon s)\<lparr> dm_ids := (dm_ids (fs_daemon s))(fp := None) \<rparr> \<rparr> else s
      | None \<Rightarrow> s)"

definition deleteTarget :: "config \<Rightarrow> calls \<Rightarrow> string \<Rightarrow> DeleteFrameRequest \<Rightarrow> fmap \<Rightarrow> nat + string \<times> string list" where
  "deleteTarget cf ca user req fs =
     (if df_UUID req \<noteq> [] then
        (case cf_parse cf (df_UUID req) of None \<Rightarrow> Inl 400
         | Some frameID \<Rightarrow>
             Inr (frameID,
               case ref_List (ca_list ca) of Inl e \<Rightarrow> []
               | Inr names \<Rightarrow> refsPointingTo (\<lambda>n. ref_Get (cf_refJson cf) (ca_get ca) (namespaceRefStore cf user) n fs) frameID names))
      else
        (case ref_Get (cf_refJson cf) (ca_get ca) (namespaceRefStore cf user) (df_FrameName req) fs of
           Inl e \<Rightarrow> Inl (if e = ErrNotFound then 404 else 500)
         | Inr ref \<Rightarrow> Inr (rf_UUID ref, [df_FrameName req])))"

definition removeFrame :: "config \<Rightarrow> calls \<Rightarrow> (string \<Rightarrow> bool) \<Rightarrow> string \<Rightarrow> string \<Rightarrow> frames_disk \<Rightarrow> nat \<times> frames_disk" where
  "removeFrame cf ca ok user frameID s =
     (let fp = framePathForNamespaceUUID cf user frameID;
          s1 = deleteSubvolIfAny ok (filepath_Join [fp, ''home'']) s;
          s2 = deleteSubvolIfAny ok (filepath_Join [fp, ''work'']) s1;
          s3 = deleteIdSubvol ok fp s2
      in if \<not> (ok fp \<and> fp \<in> fs_subvols s3) then (500, s3)
         else
           let d = fs_daemon s3
           in (200, s3\<lparr> fs_subvols := fs_subvols s3 - {fp},
                fs_daemon := d\<lparr> dm_files := snd (frame_Delete (ca_op ca) (namespaceFrameStore cf user) frameID (dm_files d)) \<rparr> \<rparr>))"

definition handleDeleteFrame ::
  "config \<Rightarrow> calls \<Rightarrow> (string \<Rightarrow> bool) \<Rightarrow> string \<Rightarrow> DeleteFrameRequest request \<Rightarrow> frames_disk \<Rightarrow> nat \<times> frames_disk" where
  "handleDeleteFrame cf ca ok rootFS r s =
     (if \<not> requireMethod r ''POST'' then (405, s)
      else
     (case rq_Body r of None \<Rightarrow> (400, s)
      | Some req \<Rightarrow>
          if df_UUID req = [] \<and> df_FrameName req = [] then (400, s)
          else
     (case namespaceFromRootFS cf rootFS of None \<Rightarrow> (500, s)
      | Some user \<Rightarrow>
     (case deleteTarget cf ca user req (dm_files (fs_daemon s)) of Inl c \<Rightarrow> (c, s)
      | Inr (frameID, refNames) \<Rightarrow>
          if framePathForNamespaceUUID cf user frameID = rootFS then (400, s)
          else if length refNames > 0 then (409, s)
          else removeFrame cf ca ok user frameID s))))"

text \<open>A frame is used by a ref of its namespace.\<close>

definition frame_in_use :: "config \<Rightarrow> fmap \<Rightarrow> string \<Rightarrow> string \<Rightarrow> bool" where
  "frame_in_use cf fs user u \<longleftrightarrow> (\<exists>name r. refs_of cf fs (user, name) = Some r \<and> rf_UUID r = u)"

lemma refsPointingTo_iff:
  "n \<in> set (refsPointingTo get u names) \<longleftrightarrow> n \<in> set names \<and> (\<exists>r. get n = Inr r \<and> rf_UUID r = u)"
  by (induction names) (auto split: sum.splits)

lemma not_in_use:
  assumes "io_read io" "plain user" "listing_ok cf listing fs" "ref_List (listing (refsDir (namespaceRefStore cf user))) = Inr names"
    "refsPointingTo (\<lambda>n. ref_Get (cf_refJson cf) io (namespaceRefStore cf user) n fs) u names = []"
  shows "\<not> frame_in_use cf fs user u"
proof
  assume "frame_in_use cf fs user u"
  then obtain name r where r: "refs_of cf fs (user, name) = Some r" "rf_UUID r = u" by (auto simp: frame_in_use_def)
  have k: "ref_key (user, name)" by (rule refs_of_key [OF r(1)])
  have f: "fs (ref_file cf (user, name)) \<noteq> None"
    using r(1) by (cases "fs (ref_file cf (user, name))") (simp_all add: refs_of_def store_view_def split: if_splits)
  from assms(3) k f obtain es where l: "listing (refsDir (namespaceRefStore cf user)) = Listing es" "(name @ ''.jsonc'', False) \<in> set es"
    unfolding listing_ok_def by (metis fst_conv snd_conv)
  have "name \<in> set names" using listed_file [of listing cf user es name, OF l] assms(4) by (simp add: listed_refs_def)
  moreover have "ref_Get (cf_refJson cf) io (namespaceRefStore cf user) name fs = Inr r"
    using r(1) k assms(1) by (auto simp: ref_Get_def refs_of_def store_view_def ref_key_def valid_ref_def bind_eq_Some_conv split: if_splits)
  ultimately have "name \<in> set (refsPointingTo (\<lambda>n. ref_Get (cf_refJson cf) io (namespaceRefStore cf user) n fs) u names)"
    using r(2) by (auto simp: refsPointingTo_iff)
  with assms(5) show False by simp
qed

text \<open>Sidecars and refs are in different directories.\<close>

lemma dirPrefix_snoc:
  assumes "d \<noteq> []" "plain b"
  shows "dirPrefix (d @ CHR ''/'' # b) = dirPrefix d @ b @ ''/''"
proof -
  have "dirPrefix p = (if hd p = CHR ''/'' then ''/'' else []) @ (if path_comps p = [] then [] else join_with (CHR ''/'') (path_comps p) @ ''/'')" for p
    by (simp add: dirPrefix_def path_comps_def Let_def)
  then show ?thesis using assms by (simp add: path_comps_snoc join_with_snoc)
qed

lemma Join_below:
  assumes "plain b" "plain n" "plain c"
  shows "filepath_Join [filepath_Join [dd, b, n], c] = (if dd = [] then [] else dirPrefix dd) @ b @ CHR ''/'' # n @ CHR ''/'' # c"
proof (cases "dd = []")
  case True
  have b: "b \<noteq> []" "dirPrefix b = b @ ''/''" using dirPrefix_Join [of "''.''" b] Join_plain [of "''.''" b] assms(1)
    by (simp_all add: plain_simps(1) dirPrefix_def [of "''.''"] Let_def)
  have "filepath_Join [dd, b, n] = filepath_Join [b, n]" using True b(1) by (simp add: filepath_Join_def)
  then show ?thesis using True Join_plain2 [OF b(1) assms(2,3)] b(2) by simp
next
  case False
  then show ?thesis
    using Join_plain2 [of "dd @ CHR ''/'' # b" n c] dirPrefix_snoc [OF False assms(1)] assms
    by (simp add: Join_3 plain_simps(1))
qed

lemma sidecar_not_ref:
  assumes "plain user" "is_uuid u" "ref_key k"
  shows "ref_file cf k \<noteq> metaPath (namespaceFrameStore cf user) u"
proof -
  have p: "plain ''fs''" "plain ''refs''" "plain (fst k)" "valid_ref (snd k)" using assms(3) by (simp_all add: plain_def ref_key_def)
  have m: "metaPath (namespaceFrameStore cf user) u = (if cf_dataDir cf = [] then [] else dirPrefix (cf_dataDir cf)) @ ''fs'' @ CHR ''/'' # user @ CHR ''/'' # u @ ''.jsonc''"
    using Join_below [OF p(1) assms(1) is_uuid_plain(1) [OF assms(2)], of "cf_dataDir cf"] plain_simps(1) [OF assms(1)]
    by (simp add: metaPath_def fsDir_def namespaceFrameStore_def NewNamespaceFrameStore_def split del: if_split)
  have f: "ref_file cf k = (if cf_dataDir cf = [] then [] else dirPrefix (cf_dataDir cf)) @ ''refs'' @ CHR ''/'' # fst k @ CHR ''/'' # snd k @ ''.jsonc''"
    using Join_below [OF p(2,3) valid_ref_plain(1) [OF p(4)], of "cf_dataDir cf"] plain_simps(1) [OF p(3)]
    by (simp add: refPath_def refsDir_def namespaceRefStore_def NewNamespaceRefStore_def split del: if_split)
  show ?thesis unfolding m f by simp
qed

lemma refs_of_sidecar:
  assumes "plain user" "is_uuid u"
  shows "refs_of cf (fs(metaPath (namespaceFrameStore cf user) u := x)) = refs_of cf fs"
proof -
  have "\<forall>k. ref_key k \<longrightarrow> metaPath (namespaceFrameStore cf user) u \<noteq> ref_file cf k" using sidecar_not_ref [OF assms] by metis
  then have "ref_files cf (fs(metaPath (namespaceFrameStore cf user) u := x)) = ref_files cf fs" by (rule nrs.view_frame)
  then show ?thesis by (intro ext) (simp only: refs_of_def)
qed

text \<open>What deletion does to the state.\<close>

lemma deleteSubvol_frame [simp]:
  "fs_daemon (deleteSubvolIfAny ok p s) = fs_daemon s" "fs_subvols (deleteIdSubvol ok fp s) = fs_subvols s"
  by (simp_all add: deleteSubvolIfAny_def deleteIdSubvol_def split: option.split)

lemma deleteIdSubvol_cases:
  "deleteIdSubvol ok fp s = s \<or> deleteIdSubvol ok fp s = s\<lparr> fs_daemon := (fs_daemon s)\<lparr> dm_ids := (dm_ids (fs_daemon s))(fp := None) \<rparr> \<rparr>"
  by (simp add: deleteIdSubvol_def split: option.split)

lemma frame_Delete_files: "snd (frame_Delete io st u fs) = fs \<or> snd (frame_Delete io st u fs) = fs(metaPath st u := None)"
  by (simp add: frame_Delete_def)

lemma removeFrame_effect:
  assumes "removeFrame cf ca ok user u s = (st, s')"
  shows "dm_files (fs_daemon s') \<in> {dm_files (fs_daemon s), (dm_files (fs_daemon s))(metaPath (namespaceFrameStore cf user) u := None)}"
    "dm_ids (fs_daemon s') \<in> {dm_ids (fs_daemon s), (dm_ids (fs_daemon s))(framePathForNamespaceUUID cf user u := None)}"
    "fs_subvols s - fs_subvols s' \<subseteq> (let fp = framePathForNamespaceUUID cf user u in {fp, filepath_Join [fp, ''home''], filepath_Join [fp, ''work'']})"
    "dm_autorun (fs_daemon s') = dm_autorun (fs_daemon s)"
proof -
  define fp where "fp = framePathForNamespaceUUID cf user u"
  define s2 where "s2 = deleteSubvolIfAny ok (filepath_Join [fp, ''work'']) (deleteSubvolIfAny ok (filepath_Join [fp, ''home'']) s)"
  define s3 where "s3 = deleteIdSubvol ok fp s2"
  have d2: "fs_daemon s2 = fs_daemon s" by (simp add: s2_def)
  have v3: "fs_subvols s - fs_subvols s3 \<subseteq> {filepath_Join [fp, ''home''], filepath_Join [fp, ''work'']}"
    by (auto simp: s3_def s2_def deleteSubvolIfAny_def)
  have d3: "fs_daemon s3 = fs_daemon s \<or> fs_daemon s3 = (fs_daemon s)\<lparr> dm_ids := (dm_ids (fs_daemon s))(fp := None) \<rparr>"
    using deleteIdSubvol_cases [of ok fp s2] d2 by (auto simp: s3_def)
  have r: "s' = s3 \<or> s' = s3\<lparr> fs_subvols := fs_subvols s3 - {fp}, fs_daemon := (fs_daemon s3)\<lparr> dm_files :=
      snd (frame_Delete (ca_op ca) (namespaceFrameStore cf user) u (dm_files (fs_daemon s3))) \<rparr> \<rparr>"
    using assms unfolding removeFrame_def Let_def fp_def [symmetric] s2_def [symmetric] s3_def [symmetric] by (auto split: if_splits)
  show "dm_files (fs_daemon s') \<in> {dm_files (fs_daemon s), (dm_files (fs_daemon s))(metaPath (namespaceFrameStore cf user) u := None)}"
    using r d3 frame_Delete_files [of "ca_op ca" "namespaceFrameStore cf user" u "dm_files (fs_daemon s)"] by (elim disjE) auto
  show "dm_ids (fs_daemon s') \<in> {dm_ids (fs_daemon s), (dm_ids (fs_daemon s))(framePathForNamespaceUUID cf user u := None)}"
    using r d3 unfolding fp_def [symmetric] by (elim disjE) auto
  show "fs_subvols s - fs_subvols s' \<subseteq> (let fp = framePathForNamespaceUUID cf user u in {fp, filepath_Join [fp, ''home''], filepath_Join [fp, ''work'']})"
    using r v3 unfolding Let_def fp_def [symmetric] by (elim disjE) auto
  show "dm_autorun (fs_daemon s') = dm_autorun (fs_daemon s)" using r d3 by (elim disjE) auto
qed

lemma handleDeleteFrame_cases:
  assumes "handleDeleteFrame cf ca ok rootFS rq s = (st, s')"
  obtains "s' = s"
  | user u s0 where "namespaceFromRootFS cf rootFS = Some user" "cf_parse cf s0 = Some u" "framePathForNamespaceUUID cf user u \<noteq> rootFS"
      "(case ref_List (ca_list ca) of Inl e \<Rightarrow> []
        | Inr names \<Rightarrow> refsPointingTo (\<lambda>n. ref_Get (cf_refJson cf) (ca_get ca) (namespaceRefStore cf user) n (dm_files (fs_daemon s))) u names) = []"
      "removeFrame cf ca ok user u s = (st, s')"
proof (cases "s' = s")
  case True
  then show ?thesis by (rule that(1))
next
  case False
  note h = assms [unfolded handleDeleteFrame_def]
  obtain req where b: "rq_Body rq = Some req" using h False by (cases "rq_Body rq") (simp_all split: if_splits)
  obtain user where u: "namespaceFromRootFS cf rootFS = Some user" using h False b by (cases "namespaceFromRootFS cf rootFS") (simp_all split: if_splits)
  obtain fid refNames where t: "deleteTarget cf ca user req (dm_files (fs_daemon s)) = Inr (fid, refNames)"
    using h False b u by (cases "deleteTarget cf ca user req (dm_files (fs_daemon s))") (auto split: if_splits)
  have r: "framePathForNamespaceUUID cf user fid \<noteq> rootFS" "refNames = []" "removeFrame cf ca ok user fid s = (st, s')"
    using h False b u t by (simp_all split: if_splits)
  from t r(2) have "cf_parse cf (df_UUID req) = Some fid" "(case ref_List (ca_list ca) of Inl e \<Rightarrow> []
        | Inr names \<Rightarrow> refsPointingTo (\<lambda>n. ref_Get (cf_refJson cf) (ca_get ca) (namespaceRefStore cf user) n (dm_files (fs_daemon s))) fid names) = []"
    by (auto simp: deleteTarget_def split: if_splits option.splits sum.splits)
  with u r show ?thesis by (intro that(2))
qed

section \<open>Properties\<close>


definition ex_frames :: frames_disk where
  "ex_frames = \<lparr> fs_daemon = ex_daemon, fs_subvols = {filepath_Join [''/d/fs'', ''team'', nilUUID]} \<rparr>"


text \<open>When the refs cannot be listed the check is skipped, and a frame that refs point at is deleted.\<close>

lemma delete_frame_ignores_unlisted_refs:
  assumes "namespaceFromRootFS cf rootFS = Some user" "cf_parse cf s0 = Some u" "s0 \<noteq> []" "framePathForNamespaceUUID cf user u \<noteq> rootFS"
    "ca_list ca = DirFails"
  shows "handleDeleteFrame cf ca ok rootFS \<lparr> rq_Method = ''POST'', rq_Body = Some \<lparr> df_UUID = s0, df_FrameName = [] \<rparr> \<rparr> s
    = removeFrame cf ca ok user u s"
  using assms by (simp add: handleDeleteFrame_def requireMethod_def deleteTarget_def ref_List_def)

end
