(* ===== verification/Control_Servers.thy ===== *)
theory Control_Servers
  imports Prelude
begin

text \<open>
  The control-server manager, \<^verbatim>\<open>controlServerManager\<close> of \<^verbatim>\<open>cmd/thundersnapd/main.go\<close>: one listening server per frame,
  shared by its sessions through a reference count. The state is shared by all sessions; each
  region between \<^verbatim>\<open>m.mu.Lock\<close> and \<^verbatim>\<open>m.mu.Unlock\<close> is one step, and steps of different sessions interleave.
  \<^verbatim>\<open>managedControlServer\<close> values are reached through pointers.
\<close>

section \<open>State\<close>

text \<open>
  A server listens, is being stopped, has been closed, or has been closed with its \<^verbatim>\<open>stopped\<close>
  channel closed as well.
\<close>

datatype phase = Live | Stopping | Closed | Stopped

record managedControlServer =
  ms_rootFS :: string
  ms_refCount :: int
  ms_phase :: phase

definition ms_stopping :: "managedControlServer \<Rightarrow> bool" where
  "ms_stopping ms = (ms_phase ms \<noteq> Live)"

definition listening :: "managedControlServer \<Rightarrow> bool" where
  "listening ms = (ms_phase ms = Live \<or> ms_phase ms = Stopping)"

text \<open>
  \<open>cs_waiting\<close> are the calls of \<^verbatim>\<open>getOrCreateControlServer\<close> that wait for a server to stop, \<open>cs_sessions\<close> counts
  the sessions that have acquired the server of a frame and not yet released it, \<open>cs_fatal\<close> is the
  runtime's fatal error.
\<close>

record control_state =
  cs_servers :: "string \<rightharpoonup> nat"
  cs_heap :: "nat \<rightharpoonup> managedControlServer"
  cs_next :: nat
  cs_waiting :: "(string \<times> nat) list"
  cs_sessions :: "string \<Rightarrow> nat"
  cs_fatal :: bool

definition initControlServers :: control_state where
  "initControlServers = \<lparr> cs_servers = Map.empty, cs_heap = Map.empty, cs_next = 0, cs_waiting = [], cs_sessions = (\<lambda>_. 0), cs_fatal = False \<rparr>"

section \<open>Operations\<close>

definition addSession :: "string \<Rightarrow> int \<Rightarrow> control_state \<Rightarrow> control_state" where
  "addSession rootFS n s = s\<lparr> cs_sessions := (cs_sessions s)(rootFS := nat (int (cs_sessions s rootFS) + n)) \<rparr>"

definition setServer :: "nat \<Rightarrow> managedControlServer \<Rightarrow> control_state \<Rightarrow> control_state" where
  "setServer p ms s = s\<lparr> cs_heap := (cs_heap s)(p \<mapsto> ms) \<rparr>"

datatype acquired = Got | StartFailed | MustWait nat

text \<open>The first region of \<^verbatim>\<open>getOrCreateControlServer\<close>; \<open>started\<close> is the outcome of \<^verbatim>\<open>startControlServer\<close>.\<close>

definition acquireRegion :: "bool \<Rightarrow> string \<Rightarrow> control_state \<Rightarrow> acquired \<times> control_state" where
  "acquireRegion started rootFS s =
     (case cs_servers s rootFS of
        Some p \<Rightarrow>
          (case cs_heap s p of
             Some ms \<Rightarrow>
               if ms_stopping ms then (MustWait p, s)
               else (Got, addSession rootFS 1 (setServer p (ms\<lparr> ms_refCount := ms_refCount ms + 1 \<rparr>) s))
           | None \<Rightarrow> (StartFailed, s))
      | None \<Rightarrow>
          if \<not> started then (StartFailed, s)
          else (Got, addSession rootFS 1 (s\<lparr> cs_servers := (cs_servers s)(rootFS \<mapsto> cs_next s),
                 cs_heap := (cs_heap s)(cs_next s \<mapsto> \<lparr> ms_rootFS = rootFS, ms_refCount = 1, ms_phase = Live \<rparr>),
                 cs_next := cs_next s + 1 \<rparr>)))"

definition getOrCreateControlServer :: "bool \<Rightarrow> string \<Rightarrow> control_state \<Rightarrow> control_state" where
  "getOrCreateControlServer started rootFS s =
     (case acquireRegion started rootFS s of
        (MustWait p, s') \<Rightarrow> s'\<lparr> cs_waiting := (rootFS, p) # cs_waiting s' \<rparr>
      | (_, s') \<Rightarrow> s')"

text \<open>
  A waiting call whose server has stopped calls itself. The inner call unlocks the mutex when it
  returns; then the deferred unlock of the outer call unlocks it once more, which is a fatal
  error of the runtime. If the inner call has to wait as well, it is the outer one of the next.
\<close>

definition resumeWaiting :: "bool \<Rightarrow> string \<Rightarrow> nat \<Rightarrow> control_state \<Rightarrow> control_state" where
  "resumeWaiting started rootFS p s =
     (let s0 = s\<lparr> cs_waiting := remove1 (rootFS, p) (cs_waiting s) \<rparr>
      in case acquireRegion started rootFS s0 of
           (MustWait q, s') \<Rightarrow> s'\<lparr> cs_waiting := (rootFS, q) # cs_waiting s' \<rparr>
         | (_, s') \<Rightarrow> s'\<lparr> cs_fatal := True \<rparr>)"

text \<open>The first region of \<^verbatim>\<open>releaseControlServer\<close>.\<close>

definition releaseControlServer :: "string \<Rightarrow> control_state \<Rightarrow> control_state" where
  "releaseControlServer rootFS s =
     (let s0 = addSession rootFS (-1) s in
      case cs_servers s rootFS of
        None \<Rightarrow> s0
      | Some p \<Rightarrow>
          (case cs_heap s p of
             None \<Rightarrow> s0
           | Some ms \<Rightarrow>
               let ms1 = ms\<lparr> ms_refCount := ms_refCount ms - 1 \<rparr>
               in if ms_refCount ms1 > 0 then setServer p ms1 s0
                  else setServer p (ms1\<lparr> ms_phase := Stopping \<rparr>) s0))"

text \<open>The call of \<^verbatim>\<open>ms.server.Close\<close> outside the lock, and the last region.\<close>

definition closeServer :: "nat \<Rightarrow> control_state \<Rightarrow> control_state" where
  "closeServer p s = (case cs_heap s p of None \<Rightarrow> s | Some ms \<Rightarrow> setServer p (ms\<lparr> ms_phase := Closed \<rparr>) s)"

definition finishRelease :: "nat \<Rightarrow> control_state \<Rightarrow> control_state" where
  "finishRelease p s =
     (case cs_heap s p of None \<Rightarrow> s
      | Some ms \<Rightarrow>
          let s1 = (if cs_servers s (ms_rootFS ms) = Some p then s\<lparr> cs_servers := (cs_servers s)(ms_rootFS ms := None) \<rparr> else s)
          in setServer p (ms\<lparr> ms_phase := Stopped \<rparr>) s1)"

definition getSessionCount :: "string \<Rightarrow> control_state \<Rightarrow> int" where
  "getSessionCount rootFS s =
     (case cs_servers s rootFS of Some p \<Rightarrow> (case cs_heap s p of Some ms \<Rightarrow> ms_refCount ms | None \<Rightarrow> 0) | None \<Rightarrow> 0)"

definition countAllSessions :: "string list \<Rightarrow> control_state \<Rightarrow> int" where
  "countAllSessions rootFSs s = sum_list (map (\<lambda>rootFS. getSessionCount rootFS s) rootFSs)"

section \<open>Interleavings\<close>

text \<open>A session releases what it acquired, once; after a fatal error nothing runs.\<close>

inductive cs_step :: "control_state \<Rightarrow> control_state \<Rightarrow> bool" where
  acquire: "\<not> cs_fatal s \<Longrightarrow> cs_step s (getOrCreateControlServer started rootFS s)"
| resume: "\<lbrakk>\<not> cs_fatal s; (rootFS, p) \<in> set (cs_waiting s); cs_heap s p = Some ms; ms_phase ms = Stopped\<rbrakk> \<Longrightarrow>
    cs_step s (resumeWaiting started rootFS p s)"
| release: "\<lbrakk>\<not> cs_fatal s; 0 < cs_sessions s rootFS\<rbrakk> \<Longrightarrow> cs_step s (releaseControlServer rootFS s)"
| close: "\<lbrakk>\<not> cs_fatal s; cs_heap s p = Some ms; ms_phase ms = Stopping\<rbrakk> \<Longrightarrow> cs_step s (closeServer p s)"
| finish: "\<lbrakk>\<not> cs_fatal s; cs_heap s p = Some ms; ms_phase ms = Closed\<rbrakk> \<Longrightarrow> cs_step s (finishRelease p s)"

inductive cs_reachable :: "control_state \<Rightarrow> bool" where
  start: "cs_reachable initControlServers"
| step: "\<lbrakk>cs_reachable s; cs_step s s'\<rbrakk> \<Longrightarrow> cs_reachable s'"

text \<open>
  Every entry of the table is a server of that frame that has not stopped, and every server that has
  not stopped is in the table; the reference count of a live one is its number of sessions.
\<close>

definition cs_inv :: "control_state \<Rightarrow> bool" where
  "cs_inv s \<longleftrightarrow>
     (\<forall>rootFS p. cs_servers s rootFS = Some p \<longrightarrow>
        (\<exists>ms. cs_heap s p = Some ms \<and> ms_rootFS ms = rootFS \<and> ms_phase ms \<noteq> Stopped))
   \<and> (\<forall>p ms. cs_heap s p = Some ms \<longrightarrow> p < cs_next s \<and>
        (ms_phase ms \<noteq> Stopped \<longrightarrow> cs_servers s (ms_rootFS ms) = Some p \<and> ms_refCount ms = int (cs_sessions s (ms_rootFS ms))
           \<and> (ms_phase ms = Live \<longleftrightarrow> 0 < cs_sessions s (ms_rootFS ms))))
   \<and> (\<forall>rootFS. cs_servers s rootFS = None \<longrightarrow> cs_sessions s rootFS = 0)"

lemma cs_invD:
  assumes "cs_inv s"
  shows "cs_servers s rootFS = Some p \<Longrightarrow> \<exists>ms. cs_heap s p = Some ms \<and> ms_rootFS ms = rootFS \<and> ms_phase ms \<noteq> Stopped"
    "cs_heap s p = Some ms \<Longrightarrow> p < cs_next s"
    "\<lbrakk>cs_heap s p = Some ms; ms_phase ms \<noteq> Stopped\<rbrakk> \<Longrightarrow> cs_servers s (ms_rootFS ms) = Some p
       \<and> ms_refCount ms = int (cs_sessions s (ms_rootFS ms)) \<and> (ms_phase ms = Live \<longleftrightarrow> 0 < cs_sessions s (ms_rootFS ms))"
    "cs_servers s rootFS = None \<Longrightarrow> cs_sessions s rootFS = 0"
  using assms unfolding cs_inv_def by blast+

lemma cs_inv_init: "cs_inv initControlServers"
  by (simp add: cs_inv_def initControlServers_def)

lemma cs_inv_frame [simp]: "cs_inv (s\<lparr> cs_waiting := w \<rparr>) = cs_inv s" "cs_inv (s\<lparr> cs_fatal := b \<rparr>) = cs_inv s"
  by (simp_all add: cs_inv_def)

text \<open>Changing the server of a frame together with the number of its sessions.\<close>

lemma cs_inv_update:
  assumes "cs_inv s" "cs_heap s p = Some ms" "ms_phase ms \<noteq> Stopped"
    "ms_rootFS ms' = ms_rootFS ms" "ms_phase ms' \<noteq> Stopped" "ms_refCount ms' = int n" "ms_phase ms' = Live \<longleftrightarrow> 0 < n"
  shows "cs_inv (s\<lparr> cs_heap := (cs_heap s)(p \<mapsto> ms'), cs_sessions := (cs_sessions s)(ms_rootFS ms := n) \<rparr>)"
  using assms(4-7) cs_invD(3) [OF assms(1-3)] cs_invD [OF assms(1)] cs_invD(2) [OF assms(1,2)]
  unfolding cs_inv_def by (auto split: if_splits) (metis option.inject option.distinct(1))+

lemma acquireRegion_inv:
  assumes "cs_inv s" "acquireRegion started rootFS s = (r, s')"
  shows "cs_inv s'"
proof (cases "cs_servers s rootFS")
  case (Some p)
  from cs_invD(1) [OF assms(1) this] obtain ms where ms: "cs_heap s p = Some ms" "ms_rootFS ms = rootFS" "ms_phase ms \<noteq> Stopped" by blast
  show ?thesis
  proof (cases "ms_stopping ms")
    case True
    then show ?thesis using assms Some ms by (simp add: acquireRegion_def)
  next
    case False
    with cs_inv_update [OF assms(1) ms(1,3), of "ms\<lparr> ms_refCount := ms_refCount ms + 1 \<rparr>" "cs_sessions s rootFS + 1"] cs_invD(3) [OF assms(1) ms(1,3)] ms
    have "cs_inv (s\<lparr> cs_heap := (cs_heap s)(p \<mapsto> ms\<lparr> ms_refCount := ms_refCount ms + 1 \<rparr>), cs_sessions := (cs_sessions s)(rootFS := cs_sessions s rootFS + 1) \<rparr>)"
      by (simp add: ms_stopping_def)
    moreover have "nat (int (cs_sessions s rootFS) + 1) = cs_sessions s rootFS + 1" by simp
    ultimately show ?thesis using assms(2) Some ms False by (auto simp: acquireRegion_def addSession_def setServer_def)
  qed
next
  case None
  show ?thesis
  proof (cases started)
    case True
    define s1 where "s1 = s\<lparr> cs_servers := (cs_servers s)(rootFS \<mapsto> cs_next s),
      cs_heap := (cs_heap s)(cs_next s \<mapsto> \<lparr> ms_rootFS = rootFS, ms_refCount = 1, ms_phase = Live \<rparr>), cs_next := cs_next s + 1,
      cs_sessions := (cs_sessions s)(rootFS := 1) \<rparr>"
    have "s' = s1" using assms(2) None True cs_invD(4) [OF assms(1) None] by (auto simp: acquireRegion_def addSession_def s1_def)
    moreover have old: "p \<noteq> cs_next s" "ms_phase ms \<noteq> Stopped \<Longrightarrow> ms_rootFS ms \<noteq> rootFS" if "cs_heap s p = Some ms" for p ms
      using cs_invD(2) [OF assms(1) that] cs_invD(3) [OF assms(1) that] None by auto
    have "cs_inv s1"
      using cs_invD [OF assms(1)] old unfolding cs_inv_def s1_def by (auto simp: less_Suc_eq split: if_splits)
    ultimately show ?thesis by simp
  qed (use assms None in \<open>simp add: acquireRegion_def\<close>)
qed

lemma releaseServer_inv:
  assumes "cs_inv s" "0 < cs_sessions s rootFS"
  shows "cs_inv (releaseControlServer rootFS s)"
proof -
  obtain p where p: "cs_servers s rootFS = Some p" using cs_invD(4) [OF assms(1)] assms(2) by (cases "cs_servers s rootFS") auto
  from cs_invD(1) [OF assms(1) this] obtain ms where ms: "cs_heap s p = Some ms" "ms_rootFS ms = rootFS" "ms_phase ms \<noteq> Stopped" by blast
  have c: "ms_refCount ms = int (cs_sessions s rootFS)" "ms_phase ms = Live" using cs_invD(3) [OF assms(1) ms(1,3)] ms assms(2) by simp_all
  let ?ms = "if cs_sessions s rootFS > 1 then ms\<lparr> ms_refCount := ms_refCount ms - 1 \<rparr> else ms\<lparr> ms_refCount := ms_refCount ms - 1, ms_phase := Stopping \<rparr>"
  have "cs_inv (s\<lparr> cs_heap := (cs_heap s)(p \<mapsto> ?ms), cs_sessions := (cs_sessions s)(ms_rootFS ms := cs_sessions s rootFS - 1) \<rparr>)"
    by (rule cs_inv_update [OF assms(1) ms(1,3)]) (use c ms assms(2) in \<open>auto simp: of_nat_diff\<close>)
  moreover have "releaseControlServer rootFS s = s\<lparr> cs_heap := (cs_heap s)(p \<mapsto> ?ms), cs_sessions := (cs_sessions s)(ms_rootFS ms := cs_sessions s rootFS - 1) \<rparr>"
  proof -
    have a: "nat (int (cs_sessions s rootFS) + - 1) = cs_sessions s rootFS - 1" by arith
    show ?thesis unfolding releaseControlServer_def Let_def addSession_def a p option.case ms(1) setServer_def
      using c ms(2) by (cases "cs_sessions s rootFS > 1") simp_all
  qed
  ultimately show ?thesis by simp
qed

lemma closeServer_inv:
  assumes "cs_inv s" "cs_heap s p = Some ms" "ms_phase ms = Stopping"
  shows "cs_inv (closeServer p s)"
proof -
  have "cs_inv (s\<lparr> cs_heap := (cs_heap s)(p \<mapsto> ms\<lparr> ms_phase := Closed \<rparr>), cs_sessions := (cs_sessions s)(ms_rootFS ms := cs_sessions s (ms_rootFS ms)) \<rparr>)"
    by (rule cs_inv_update [OF assms(1,2)]) (use assms cs_invD(3) [OF assms(1,2)] in simp_all)
  then show ?thesis using assms(2) by (simp add: closeServer_def setServer_def)
qed

lemma finishRelease_inv:
  assumes "cs_inv s" "cs_heap s p = Some ms" "ms_phase ms = Closed"
  shows "cs_inv (finishRelease p s)"
proof -
  have c: "cs_servers s (ms_rootFS ms) = Some p" "cs_sessions s (ms_rootFS ms) = 0" using cs_invD(3) [OF assms(1,2)] assms(3) by simp_all
  have "finishRelease p s = s\<lparr> cs_servers := (cs_servers s)(ms_rootFS ms := None), cs_heap := (cs_heap s)(p \<mapsto> ms\<lparr> ms_phase := Stopped \<rparr>) \<rparr>"
    using assms(2) c by (simp add: finishRelease_def setServer_def Let_def)
  moreover have other: "ms_rootFS m \<noteq> ms_rootFS ms" if "cs_heap s q = Some m" "ms_phase m \<noteq> Stopped" "q \<noteq> p" for q m
    using cs_invD(3) [OF assms(1) that(1,2)] c that(3) by auto
  have heap: "\<exists>m. cs_heap s q = Some m \<and> ms_rootFS m = r \<and> ms_phase m \<noteq> Stopped \<and> q \<noteq> p" if "cs_servers s r = Some q" "r \<noteq> ms_rootFS ms" for q r
    using cs_invD(1) [OF assms(1) that(1)] assms(2) that(2) by auto
  have "cs_inv (s\<lparr> cs_servers := (cs_servers s)(ms_rootFS ms := None), cs_heap := (cs_heap s)(p \<mapsto> ms\<lparr> ms_phase := Stopped \<rparr>) \<rparr>)"
    unfolding cs_inv_def using cs_invD(2-4) [OF assms(1)] other heap c assms(2) by (auto split: if_splits) (blast dest: heap)+
  ultimately show ?thesis by simp
qed

lemma cs_step_inv:
  assumes "cs_step s s'" "cs_inv s"
  shows "cs_inv s'"
  using assms
proof cases
  case (acquire started rootFS)
  then show ?thesis using acquireRegion_inv [OF assms(2), of started rootFS]
    by (simp add: getOrCreateControlServer_def split: prod.split acquired.split)
next
  case (resume rootFS p ms started)
  have "cs_inv (s\<lparr> cs_waiting := remove1 (rootFS, p) (cs_waiting s) \<rparr>)" using assms(2) by simp
  from acquireRegion_inv [OF this, of started rootFS] resume(1) show ?thesis
    by (simp add: resumeWaiting_def Let_def split: prod.split acquired.split)
qed (use assms releaseServer_inv closeServer_inv finishRelease_inv in blast)+

lemma cs_reachable_inv: "cs_reachable s \<Longrightarrow> cs_inv s"
  by (induction rule: cs_reachable.induct) (auto intro: cs_inv_init cs_step_inv)

section \<open>Properties\<close>



text \<open>
  The deferred unlock: a session that starts while the last one of the frame is ending ends the
  daemon.
\<close>

lemma resumed_acquire_is_fatal:
  "fst (acquireRegion started rootFS (s\<lparr> cs_waiting := remove1 (rootFS, p) (cs_waiting s) \<rparr>)) \<in> {Got, StartFailed} \<Longrightarrow>
   cs_fatal (resumeWaiting started rootFS p s)"
  by (auto simp: resumeWaiting_def Let_def split: prod.split acquired.split)

lemma acquire_while_stopping_is_fatal: "\<exists>s. cs_reachable s \<and> cs_fatal s"
proof -
  note defs = getOrCreateControlServer_def acquireRegion_def initControlServers_def addSession_def releaseControlServer_def
    setServer_def ms_stopping_def Let_def closeServer_def finishRelease_def
  define s1 where "s1 = getOrCreateControlServer True ''/f'' initControlServers"
  define s2 where "s2 = releaseControlServer ''/f'' s1"
  define s3 where "s3 = getOrCreateControlServer True ''/f'' s2"
  define s4 where "s4 = closeServer 0 s3"
  define s5 where "s5 = finishRelease 0 s4"
  have "cs_step initControlServers s1" unfolding s1_def by (rule cs_step.acquire) (simp add: defs)
  moreover have "cs_step s1 s2" unfolding s2_def by (rule cs_step.release) (simp_all add: s1_def defs)
  moreover have "cs_step s2 s3" unfolding s3_def by (rule cs_step.acquire) (simp add: s2_def s1_def defs)
  moreover have "cs_step s3 s4" unfolding s4_def
    by (rule cs_step.close [where ms = "\<lparr> ms_rootFS = ''/f'', ms_refCount = 0, ms_phase = Stopping \<rparr>"]) (simp_all add: s3_def s2_def s1_def defs)
  moreover have "cs_step s4 s5" unfolding s5_def
    by (rule cs_step.finish [where ms = "\<lparr> ms_rootFS = ''/f'', ms_refCount = 0, ms_phase = Closed \<rparr>"]) (simp_all add: s4_def s3_def s2_def s1_def defs)
  moreover have "cs_step s5 (resumeWaiting True ''/f'' 0 s5)"
    by (rule cs_step.resume [where ms = "\<lparr> ms_rootFS = ''/f'', ms_refCount = 0, ms_phase = Stopped \<rparr>"]) (simp_all add: s5_def s4_def s3_def s2_def s1_def defs)
  ultimately have "cs_reachable (resumeWaiting True ''/f'' 0 s5)" by (meson cs_reachable.intros)
  moreover have "cs_fatal (resumeWaiting True ''/f'' 0 s5)"
    by (rule resumed_acquire_is_fatal) (simp add: s5_def s4_def s3_def s2_def s1_def defs)
  ultimately show ?thesis by blast
qed

end
