(* ===== verification/Portmap.thy ===== *)
theory Portmap
  imports Streams
begin

text \<open>
  The portmapper, \<^verbatim>\<open>cmd/thundersnapd/portmap.go\<close>. Offsets are \<^verbatim>\<open>uint32\<close> and wrap; a slice expression out of range
  panics (\<open>Inl ()\<close>), which ends the daemon as no handler recovers. A message is answered with the packets
  that are sent for it, in order.
\<close>

unbundle bit_operations_syntax

section \<open>Constants\<close>

definition portmapProg :: u32 where "portmapProg = 100000"
definition mountProg :: u32 where "mountProg = 100005"
definition nfsProg :: u32 where "nfsProg = 100003"
definition nlmProg :: u32 where "nlmProg = 100021"
definition nfsAclProg :: u32 where "nfsAclProg = 100227"
definition pmapProcNull :: u32 where "pmapProcNull = 0"
definition pmapProcGetport :: u32 where "pmapProcGetport = 3"
definition nlmNull :: u32 where "nlmNull = 0"
definition nlmFreeAll :: u32 where "nlmFreeAll = 23"
definition nlmSync :: "u32 list" where "nlmSync = [1, 2, 3, 4, 5, 20, 21, 22]"
definition nlmAsync :: "u32 list" where "nlmAsync = [6, 7, 8, 9, 10]"
definition nlm4Granted :: u32 where "nlm4Granted = 0"

record portmapServer =
  pm_nfsPort :: u32
  pm_mountPort :: u32

definition startPortmapper :: "int \<Rightarrow> portmapServer" where
  "startPortmapper nfsPort = \<lparr> pm_nfsPort = word_of_int nfsPort, pm_mountPort = word_of_int nfsPort \<rparr>"

section \<open>Replies\<close>

type_synonym 'a may_panic = "unit + 'a"

definition go_slice :: "bytes \<Rightarrow> u32 \<Rightarrow> u32 \<Rightarrow> bytes may_panic" where
  "go_slice b lo hi = (if lo \<le> hi \<and> unat hi \<le> length b then Inr (slice_of b (unat lo) (unat hi)) else Inl ())"

definition len32 :: "bytes \<Rightarrow> u32" where "len32 b = word_of_nat (length b)"

definition acceptedHeader :: "u32 \<Rightarrow> u32 \<Rightarrow> bytes" where
  "acceptedHeader xid stat =
     PutUint32 xid @ PutUint32 1 @ PutUint32 0 @ PutUint32 0 @ PutUint32 0 @ PutUint32 stat"

definition makeNull :: "u32 \<Rightarrow> bytes" where "makeNull xid = acceptedHeader xid 0"
definition makeProgUnavail :: "u32 \<Rightarrow> bytes" where "makeProgUnavail xid = acceptedHeader xid 1"

definition makeReject :: "u32 \<Rightarrow> bytes" where
  "makeReject xid = PutUint32 xid @ PutUint32 1 @ PutUint32 1 @ PutUint32 1 @ PutUint32 1"

definition padding :: "nat \<Rightarrow> nat" where "padding n = (4 - n mod 4) mod 4"

definition xdrOpaque :: "bytes \<Rightarrow> bytes" where
  "xdrOpaque b = PutUint32 (len32 b) @ b @ replicate (padding (length b)) 0"

definition align4 :: "u32 \<Rightarrow> u32 \<Rightarrow> u32" where
  "align4 offset len = (if len mod 4 \<noteq> 0 then offset + (4 - len mod 4) else offset)"

text \<open>The code that skips the credentials and the verifier; \<open>None\<close> when the body is too short.\<close>

definition skipAuth :: "bytes \<Rightarrow> u32 option may_panic" where
  "skipAuth body =
     (if length body < 8 then Inr None
      else
        let credLen = Uint32 (slice_of body 4 8);
            offset = align4 (8 + credLen) credLen
        in if len32 body < offset + 8 then Inr None
           else rbind (go_slice body (offset + 4) (offset + 8)) (\<lambda>v.
             let verfLen = Uint32 v in Inr (Some (align4 (offset + (8 + verfLen)) verfLen))))"

definition getPort :: "portmapServer \<Rightarrow> u32 \<Rightarrow> u32 \<Rightarrow> u32" where
  "getPort p reqProg reqProto =
     (let isTCP = (reqProto = 6 \<or> reqProto \<noteq> 17) in
      if reqProg = nfsProg then (if isTCP then pm_nfsPort p else 0)
      else if reqProg = mountProg then (if isTCP then pm_mountPort p else 0)
      else if reqProg = nlmProg then 111
      else 0)"

definition makeGetportResponse :: "portmapServer \<Rightarrow> u32 \<Rightarrow> bytes \<Rightarrow> bytes may_panic" where
  "makeGetportResponse p xid body =
     rbind (skipAuth body) (\<lambda>r.
       case r of None \<Rightarrow> Inr (makeReject xid)
       | Some offset \<Rightarrow>
           if len32 body < offset + 16 then Inr (makeReject xid)
           else
             rbind (go_slice body offset (offset + 4)) (\<lambda>reqProg.
             rbind (go_slice body (offset + 4) (offset + 8)) (\<lambda>reqVers.
             rbind (go_slice body (offset + 8) (offset + 12)) (\<lambda>reqProto.
               Inr (acceptedHeader xid 0 @ PutUint32 (getPort p (Uint32 reqProg) (Uint32 reqProto)))))))"

definition universalAddr :: "u32 \<Rightarrow> string" where
  "universalAddr port = ''0.0.0.0.'' @ dec_str (unat (port div 256)) @ ''.'' @ dec_str (unat (port mod 256))"

definition getAddr :: "portmapServer \<Rightarrow> u32 \<Rightarrow> string \<Rightarrow> string" where
  "getAddr p reqProg netid =
     (let isTCP = (netid = ''tcp'' \<or> netid = ''tcp6''); isUDP = (netid = ''udp'' \<or> netid = ''udp6'') in
      if reqProg = nfsProg then (if isTCP then universalAddr (pm_nfsPort p) else [])
      else if reqProg = mountProg then (if isTCP then universalAddr (pm_mountPort p) else [])
      else if reqProg = nlmProg then (if isTCP \<or> isUDP then universalAddr 111 else [])
      else [])"

definition makeGetaddrResponse :: "portmapServer \<Rightarrow> u32 \<Rightarrow> bytes \<Rightarrow> bytes may_panic" where
  "makeGetaddrResponse p xid body =
     rbind (skipAuth body) (\<lambda>r.
       case r of None \<Rightarrow> Inr (makeReject xid)
       | Some offset \<Rightarrow>
           if len32 body < offset + 8 then Inr (makeReject xid)
           else
             rbind (go_slice body offset (offset + 4)) (\<lambda>reqProg.
             rbind (go_slice body (offset + 4) (offset + 8)) (\<lambda>reqVers.
               let offset1 = offset + 8 in
               if len32 body < offset1 + 4 then Inr (makeReject xid)
               else
                 rbind (go_slice body offset1 (offset1 + 4)) (\<lambda>n.
                   let netidLen = Uint32 n; offset2 = offset1 + 4 in
                   if len32 body < offset2 + netidLen then Inr (makeReject xid)
                   else
                     rbind (go_slice body offset2 (offset2 + netidLen)) (\<lambda>netid.
                       Inr (acceptedHeader xid 0 @ xdrOpaque (str_bytes (getAddr p (Uint32 reqProg) (bytes_str netid)))))))))"

section \<open>The lock manager\<close>

definition extractCookie :: "bytes \<Rightarrow> bytes option may_panic" where
  "extractCookie body =
     rbind (skipAuth body) (\<lambda>r.
       case r of None \<Rightarrow> Inr None
       | Some offset \<Rightarrow>
           if len32 body < offset + 4 then Inr None
           else
             rbind (go_slice body offset (offset + 4)) (\<lambda>n.
               let cookieLen = Uint32 n; offset1 = offset + 4 in
               if len32 body < offset1 + cookieLen then Inr None
               else rbind (go_slice body offset1 (offset1 + cookieLen)) (\<lambda>c. Inr (Some c))))"

definition makeNLMCallback :: "u32 \<Rightarrow> u32 \<Rightarrow> bytes \<Rightarrow> bytes" where
  "makeNLMCallback vers proc cookie =
     PutUint32 0x12345678 @ PutUint32 0 @ PutUint32 2 @ PutUint32 nlmProg @ PutUint32 vers @ PutUint32 proc
       @ PutUint32 0 @ PutUint32 0 @ PutUint32 0 @ PutUint32 0 @ xdrOpaque cookie @ PutUint32 nlm4Granted"

definition makeNLMRes :: "u32 \<Rightarrow> bytes \<Rightarrow> bytes may_panic" where
  "makeNLMRes xid body =
     rbind (extractCookie body) (\<lambda>c.
       case c of None \<Rightarrow> Inr (makeNull xid)
       | Some cookie \<Rightarrow> Inr (acceptedHeader xid 0 @ xdrOpaque cookie @ PutUint32 nlm4Granted))"

definition handleNLM :: "bool \<Rightarrow> u32 \<Rightarrow> u32 \<Rightarrow> u32 \<Rightarrow> bytes \<Rightarrow> bytes list may_panic" where
  "handleNLM udp xid vers proc body =
     (if proc = nlmNull then Inr [makeNull xid]
      else if proc \<in> set nlmSync then rbind (makeNLMRes xid body) (\<lambda>r. Inr [r])
      else if proc \<in> set nlmAsync then
        rbind (extractCookie body) (\<lambda>c.
          Inr ((if udp then [makeNLMCallback vers (proc + 5) (case c of None \<Rightarrow> [] | Some k \<Rightarrow> k)] else []) @ [makeNull xid]))
      else if proc = nlmFreeAll then Inr [makeNull xid]
      else Inr [makeNull xid])"

section \<open>Messages and connections\<close>

definition handleRPCMessage :: "portmapServer \<Rightarrow> bool \<Rightarrow> bytes \<Rightarrow> bytes list may_panic" where
  "handleRPCMessage p udp msg =
     (if length msg < 24 then Inr []
      else
        let xid = Uint32 (slice_of msg 0 4); msgType = Uint32 (slice_of msg 4 8);
            prog = Uint32 (slice_of msg 12 16); vers = Uint32 (slice_of msg 16 20); proc = Uint32 (slice_of msg 20 24);
            body = drop 24 msg
        in if msgType \<noteq> 0 then Inr []
           else if prog = nlmProg then handleNLM udp xid vers proc body
           else if prog \<noteq> portmapProg then Inr [makeReject xid]
           else if proc = pmapProcNull then Inr [makeNull xid]
           else if proc = pmapProcGetport then
             rbind (if vers \<ge> 3 then makeGetaddrResponse p xid body else makeGetportResponse p xid body) (\<lambda>r. Inr [r])
           else Inr [makeReject xid])"

definition handleUDPPacket :: "portmapServer \<Rightarrow> bytes \<Rightarrow> bytes list may_panic" where
  "handleUDPPacket p msg = handleRPCMessage p True msg"

definition sendTCPFragment :: "bytes \<Rightarrow> bytes" where
  "sendTCPFragment data = PutUint32 (len32 data OR 0x80000000) @ data"

text \<open>Everything a TCP client sends before it closes, and what is written to it.\<close>

function handleTCPConn :: "portmapServer \<Rightarrow> bytes \<Rightarrow> bytes may_panic" where
  "handleTCPConn p input =
     (case ReadFull 4 input of
        Inl e \<Rightarrow> Inr []
      | Inr (fragHeader, rest) \<Rightarrow>
          (case ReadFull (unat (Uint32 fragHeader AND 0x7FFFFFFF)) rest of
             Inl e \<Rightarrow> Inr []
           | Inr (msg, rest') \<Rightarrow>
               rbind (handleRPCMessage p False msg) (\<lambda>resp.
               rbind (handleTCPConn p rest') (\<lambda>out. Inr (concat (map sendTCPFragment resp) @ out)))))"
  by pat_completeness auto
termination
  by (relation "measure (\<lambda>(p, input). length input)") (auto dest!: ReadFull_split)

section \<open>Well-formed calls\<close>

definition rpcBody :: "u32 \<Rightarrow> bytes \<Rightarrow> u32 \<Rightarrow> bytes \<Rightarrow> bytes \<Rightarrow> bytes" where
  "rpcBody credFlavor cred verfFlavor verf args =
     PutUint32 credFlavor @ xdrOpaque cred @ PutUint32 verfFlavor @ xdrOpaque verf @ args"

definition rpcCall :: "u32 \<Rightarrow> u32 \<Rightarrow> u32 \<Rightarrow> u32 \<Rightarrow> bytes \<Rightarrow> bytes" where
  "rpcCall xid prog vers proc body =
     PutUint32 xid @ PutUint32 0 @ PutUint32 2 @ PutUint32 prog @ PutUint32 vers @ PutUint32 proc @ body"

lemma length_xdrOpaque: "length (xdrOpaque b) = 4 + length b + padding (length b)"
  by (simp add: xdrOpaque_def)

lemma unat_nat32: "n < 2 ^ 32 \<Longrightarrow> unat (word_of_nat n :: u32) = n"
  by (simp add: unat_of_nat take_bit_eq_mod)

lemma align4_nat:
  assumes "n < 2 ^ 32"
  shows "align4 (word_of_nat a) (word_of_nat n) = word_of_nat (a + padding n)"
proof -
  have m: "(word_of_nat n :: u32) mod 4 = word_of_nat (n mod 4)"
    by (rule word_unat_eq_iff [THEN iffD2]) (use assms in \<open>simp add: unat_mod_distrib unat_nat32\<close>)
  have "n mod 4 = 0 \<or> n mod 4 = 1 \<or> n mod 4 = 2 \<or> n mod 4 = 3" by presburger
  then show ?thesis unfolding align4_def m padding_def by (elim disjE) simp_all
qed

lemma go_slice_mid:
  assumes "b = x @ y @ z" "lo = word_of_nat (length x)" "hi = word_of_nat (length x + length y)" "length x + length y < 2 ^ 32"
  shows "go_slice b lo hi = Inr y"
proof -
  have "unat lo = length x" "unat hi = length x + length y" using assms by (simp_all only: unat_nat32)
  moreover from this have "lo \<le> hi" by (simp add: word_le_nat_alt)
  ultimately show ?thesis by (simp add: go_slice_def assms(1) slice_mid)
qed

lemma len32_ge: "length b < 2 ^ 32 \<Longrightarrow> n < 2 ^ 32 \<Longrightarrow> len32 b < word_of_nat n \<longleftrightarrow> length b < n"
  by (simp only: len32_def word_less_nat_alt unat_nat32)

lemma skipAuth_rpcBody:
  assumes "length (rpcBody cf cred vf verf args) < 2 ^ 31"
  shows "skipAuth (rpcBody cf cred vf verf args) =
    Inr (Some (word_of_nat (16 + length cred + padding (length cred) + length verf + padding (length verf))))"
proof -
  define b where "b = rpcBody cf cred vf verf args"
  define o1 where "o1 = 8 + length cred + padding (length cred)"
  have lb: "length b = o1 + 8 + length verf + padding (length verf) + length args"
    by (simp add: b_def rpcBody_def length_xdrOpaque o1_def)
  have bd: "length b < 2 ^ 31" using assms by (simp add: b_def)
  have c: "slice_of b 4 8 = PutUint32 (len32 cred)"
    using slice_mid [of "PutUint32 cf" "PutUint32 (len32 cred)" "cred @ replicate (padding (length cred)) 0 @ PutUint32 vf @ xdrOpaque verf @ args"]
    by (simp add: b_def rpcBody_def xdrOpaque_def)
  have a1: "align4 (8 + len32 cred) (len32 cred) = word_of_nat o1"
    using align4_nat [of "length cred" "8 + length cred"] bd lb by (simp add: len32_def o1_def)
  have v: "go_slice b (word_of_nat o1 + 4) (word_of_nat o1 + 8) = Inr (PutUint32 (len32 verf))"
    by (rule go_slice_mid [of _ "PutUint32 cf @ xdrOpaque cred @ PutUint32 vf" _ "verf @ replicate (padding (length verf)) 0 @ args"])
      (use bd lb in \<open>simp_all add: b_def rpcBody_def length_xdrOpaque o1_def xdrOpaque_def\<close>)
  have a2: "align4 (word_of_nat o1 + (8 + len32 verf)) (len32 verf) = word_of_nat (o1 + 8 + length verf + padding (length verf))"
    using align4_nat [of "length verf" "o1 + 8 + length verf"] bd lb by (simp add: len32_def add.assoc)
  have l: "\<not> len32 b < word_of_nat o1 + 8" using len32_ge [of b "o1 + 8"] bd lb by simp
  have "skipAuth b = Inr (Some (word_of_nat (o1 + 8 + length verf + padding (length verf))))"
    using lb by (simp add: skipAuth_def c a1 v a2 l Let_def)
  then show ?thesis by (simp add: b_def o1_def algebra_simps)
qed

lemma rpcBody_slice:
  assumes "length (rpcBody cf cred vf verf args) < 2 ^ 31" "args = x @ y @ z"
    "k = 16 + length cred + padding (length cred) + length verf + padding (length verf)"
    "lo = word_of_nat (k + length x)" "hi = word_of_nat (k + length x + length y)"
  shows "go_slice (rpcBody cf cred vf verf args) lo hi = Inr y"
  by (rule go_slice_mid [of _ "PutUint32 cf @ xdrOpaque cred @ PutUint32 vf @ xdrOpaque verf @ x" _ z])
    (use assms in \<open>simp_all add: rpcBody_def length_xdrOpaque algebra_simps\<close>)

lemma rpcBody_long:
  assumes "length (rpcBody cf cred vf verf args) < 2 ^ 31" "n \<le> length args"
  shows "\<not> len32 (rpcBody cf cred vf verf args) < word_of_nat (16 + length cred + padding (length cred) + length verf + padding (length verf) + n)"
  using len32_ge [of "rpcBody cf cred vf verf args" "16 + length cred + padding (length cred) + length verf + padding (length verf) + n"] assms
  by (simp add: rpcBody_def length_xdrOpaque)

lemma getport_reply:
  assumes "length (rpcBody cf cred vf verf args) < 2 ^ 31" "args = PutUint32 rp @ PutUint32 rv @ PutUint32 proto @ PutUint32 port @ rest"
  shows "makeGetportResponse p xid (rpcBody cf cred vf verf args) = Inr (acceptedHeader xid 0 @ PutUint32 (getPort p rp proto))"
proof -
  define k where "k = 16 + length cred + padding (length cred) + length verf + padding (length verf)"
  note sl = rpcBody_slice [OF assms(1) _ k_def]
  have "go_slice (rpcBody cf cred vf verf args) (word_of_nat k) (word_of_nat k + 4) = Inr (PutUint32 rp)"
    by (rule sl [of "[]" _ "PutUint32 rv @ PutUint32 proto @ PutUint32 port @ rest"]) (simp_all add: assms(2))
  moreover have "go_slice (rpcBody cf cred vf verf args) (word_of_nat k + 4) (word_of_nat k + 8) = Inr (PutUint32 rv)"
    by (rule sl [of "PutUint32 rp" _ "PutUint32 proto @ PutUint32 port @ rest"]) (simp_all add: assms(2))
  moreover have "go_slice (rpcBody cf cred vf verf args) (word_of_nat k + 8) (word_of_nat k + 12) = Inr (PutUint32 proto)"
    by (rule sl [of "PutUint32 rp @ PutUint32 rv" _ "PutUint32 port @ rest"]) (simp_all add: assms(2))
  moreover have "\<not> len32 (rpcBody cf cred vf verf args) < word_of_nat k + 16"
    using rpcBody_long [OF assms(1), of 16] by (simp add: k_def assms(2) algebra_simps)
  ultimately show ?thesis by (simp add: makeGetportResponse_def skipAuth_rpcBody [OF assms(1), folded k_def])
qed

lemma getaddr_reply:
  assumes "length (rpcBody cf cred vf verf args) < 2 ^ 31" "args = PutUint32 rp @ PutUint32 rv @ xdrOpaque (str_bytes netid) @ rest"
  shows "makeGetaddrResponse p xid (rpcBody cf cred vf verf args) = Inr (acceptedHeader xid 0 @ xdrOpaque (str_bytes (getAddr p rp netid)))"
proof -
  define k where "k = 16 + length cred + padding (length cred) + length verf + padding (length verf)"
  note sl = rpcBody_slice [OF assms(1) _ k_def]
  have n: "12 + length netid \<le> length args" by (simp add: assms(2) length_xdrOpaque)
  have nb: "length netid < 2 ^ 31" using assms(1) n by (simp add: rpcBody_def)
  have "go_slice (rpcBody cf cred vf verf args) (word_of_nat k) (word_of_nat k + 4) = Inr (PutUint32 rp)"
    by (rule sl [of "[]" _ "PutUint32 rv @ xdrOpaque (str_bytes netid) @ rest"]) (simp_all add: assms(2))
  moreover have "go_slice (rpcBody cf cred vf verf args) (word_of_nat k + 4) (word_of_nat k + 8) = Inr (PutUint32 rv)"
    by (rule sl [of "PutUint32 rp" _ "xdrOpaque (str_bytes netid) @ rest"]) (simp_all add: assms(2))
  moreover have "go_slice (rpcBody cf cred vf verf args) (word_of_nat k + 8) (word_of_nat k + 8 + 4) = Inr (PutUint32 (len32 (str_bytes netid)))"
    by (rule sl [of "PutUint32 rp @ PutUint32 rv" _ "str_bytes netid @ replicate (padding (length netid)) 0 @ rest"]) (simp_all add: assms(2) xdrOpaque_def add.assoc)
  moreover have "go_slice (rpcBody cf cred vf verf args) (word_of_nat k + 8 + 4) (word_of_nat k + 8 + 4 + len32 (str_bytes netid)) = Inr (str_bytes netid)"
    by (rule sl [of "PutUint32 rp @ PutUint32 rv @ PutUint32 (len32 (str_bytes netid))" _ "replicate (padding (length netid)) 0 @ rest"])
      (simp_all add: assms(2) xdrOpaque_def len32_def add.assoc)
  moreover have "\<not> len32 (rpcBody cf cred vf verf args) < word_of_nat k + 8" "\<not> len32 (rpcBody cf cred vf verf args) < word_of_nat k + 8 + 4"
    "\<not> len32 (rpcBody cf cred vf verf args) < word_of_nat k + 8 + 4 + len32 (str_bytes netid)"
    using rpcBody_long [OF assms(1), of 8] rpcBody_long [OF assms(1), of 12] rpcBody_long [OF assms(1), of "12 + length netid"] n
    by (simp_all add: k_def len32_def algebra_simps)
  ultimately show ?thesis by (simp add: makeGetaddrResponse_def skipAuth_rpcBody [OF assms(1), folded k_def] Let_def)
qed

lemma cookie_reply:
  assumes "length (rpcBody cf cred vf verf args) < 2 ^ 31" "args = xdrOpaque cookie @ rest"
  shows "extractCookie (rpcBody cf cred vf verf args) = Inr (Some cookie)"
proof -
  define k where "k = 16 + length cred + padding (length cred) + length verf + padding (length verf)"
  note sl = rpcBody_slice [OF assms(1) _ k_def]
  have n: "4 + length cookie \<le> length args" by (simp add: assms(2) length_xdrOpaque)
  have "go_slice (rpcBody cf cred vf verf args) (word_of_nat k) (word_of_nat k + 4) = Inr (PutUint32 (len32 cookie))"
    by (rule sl [of "[]" _ "cookie @ replicate (padding (length cookie)) 0 @ rest"]) (simp_all add: assms(2) xdrOpaque_def)
  moreover have "go_slice (rpcBody cf cred vf verf args) (word_of_nat k + 4) (word_of_nat k + 4 + len32 cookie) = Inr cookie"
    by (rule sl [of "PutUint32 (len32 cookie)" _ "replicate (padding (length cookie)) 0 @ rest"])
      (simp_all add: assms(2) xdrOpaque_def len32_def add.assoc)
  moreover have "\<not> len32 (rpcBody cf cred vf verf args) < word_of_nat k + 4" "\<not> len32 (rpcBody cf cred vf verf args) < word_of_nat k + 4 + len32 cookie"
    using rpcBody_long [OF assms(1), of 4] rpcBody_long [OF assms(1), of "4 + length cookie"] n
    by (simp_all add: k_def len32_def algebra_simps)
  ultimately show ?thesis by (simp add: extractCookie_def skipAuth_rpcBody [OF assms(1), folded k_def] Let_def)
qed

lemma rpcCall_parts:
  "length (rpcCall xid prog vers proc body) = 24 + length body" "drop 24 (rpcCall xid prog vers proc body) = body"
  "slice_of (rpcCall xid prog vers proc body) 0 4 = PutUint32 xid" "slice_of (rpcCall xid prog vers proc body) 4 8 = PutUint32 0"
  "slice_of (rpcCall xid prog vers proc body) 12 16 = PutUint32 prog" "slice_of (rpcCall xid prog vers proc body) 16 20 = PutUint32 vers"
  "slice_of (rpcCall xid prog vers proc body) 20 24 = PutUint32 proc"
  by (simp_all add: rpcCall_def slice_of_def)

section \<open>Connections\<close>

lemma fragment_mask: "w < 2 ^ 31 \<Longrightarrow> (w OR 0x80000000) AND 0x7FFFFFFF = (w :: u32)"
proof -
  assume w: "w < 2 ^ 31"
  have m: "(0x7FFFFFFF :: u32) = mask 31" by (simp add: mask_eq_exp_minus_1)
  have "(0x80000000 :: u32) AND mask 31 = 0" by (simp add: mask_eq_exp_minus_1)
  moreover have "w AND mask 31 = w" by (rule less_mask_eq [OF w])
  ultimately show ?thesis unfolding m bit.conj_disj_distrib2 by simp
qed

lemma fragment_length:
  assumes "length d < 2 ^ 31"
  shows "unat ((len32 d OR 0x80000000) AND 0x7FFFFFFF) = length d"
proof -
  have "unat (len32 d) = length d" using assms by (simp add: len32_def unat_nat32)
  then have "len32 d < 2 ^ 31" using assms by (simp add: word_less_nat_alt)
  then show ?thesis using \<open>unat (len32 d) = length d\<close> by (simp only: fragment_mask)
qed

declare handleTCPConn.simps [simp del]

lemma tcp_message:
  assumes "length msg < 2 ^ 31" "handleRPCMessage p False msg = Inr resp"
  shows "handleTCPConn p (sendTCPFragment msg @ rest) =
    rbind (handleTCPConn p rest) (\<lambda>out. Inr (concat (map sendTCPFragment resp) @ out))"
  by (subst handleTCPConn.simps) (simp add: sendTCPFragment_def fragment_length [OF assms(1)] assms(2))

section \<open>Properties\<close>

text \<open>The calls an NFS client makes, with the credentials and the verifier they carry, and the answers they ask for.\<close>

datatype pm_proc = Getport u32 u32 u32 u32 | Getaddr u32 u32 u32 string | NlmSync u32 u32 bytes

record pm_call =
  pc_xid :: u32
  pc_credFlavor :: u32
  pc_cred :: bytes
  pc_verfFlavor :: u32
  pc_verf :: bytes
  pc_proc :: pm_proc

definition pm_body :: "pm_call \<Rightarrow> bytes \<Rightarrow> bytes" where
  "pm_body c args = rpcBody (pc_credFlavor c) (pc_cred c) (pc_verfFlavor c) (pc_verf c) args"

definition pm_message :: "pm_call \<Rightarrow> bytes" where
  "pm_message c =
     (case pc_proc c of
        Getport vers prog v proto \<Rightarrow>
          rpcCall (pc_xid c) portmapProg vers pmapProcGetport (pm_body c (PutUint32 prog @ PutUint32 v @ PutUint32 proto @ PutUint32 0))
      | Getaddr vers prog v netid \<Rightarrow>
          rpcCall (pc_xid c) portmapProg vers pmapProcGetport
            (pm_body c (PutUint32 prog @ PutUint32 v @ xdrOpaque (str_bytes netid) @ xdrOpaque [] @ xdrOpaque []))
      | NlmSync vers proc cookie \<Rightarrow> rpcCall (pc_xid c) nlmProg vers proc (pm_body c (xdrOpaque cookie)))"

definition pm_answer :: "portmapServer \<Rightarrow> pm_call \<Rightarrow> bytes" where
  "pm_answer p c =
     acceptedHeader (pc_xid c) 0 @
     (case pc_proc c of
        Getport vers prog v proto \<Rightarrow> PutUint32 (getPort p prog proto)
      | Getaddr vers prog v netid \<Rightarrow> xdrOpaque (str_bytes (getAddr p prog netid))
      | NlmSync vers proc cookie \<Rightarrow> xdrOpaque cookie @ PutUint32 nlm4Granted)"

definition pm_wf :: "pm_call \<Rightarrow> bool" where
  "pm_wf c \<longleftrightarrow> length (pm_message c) < 2 ^ 31 \<and>
     (case pc_proc c of
        Getport vers prog v proto \<Rightarrow> vers < 3
      | Getaddr vers prog v netid \<Rightarrow> vers \<ge> 3
      | NlmSync vers proc cookie \<Rightarrow> proc \<in> set nlmSync)"

lemma pm_message_answered:
  assumes "pm_wf c"
  shows "handleRPCMessage p udp (pm_message c) = Inr [pm_answer p c]"
proof (cases "pc_proc c")
  case (Getport vers prog v proto)
  let ?args = "PutUint32 prog @ PutUint32 v @ PutUint32 proto @ PutUint32 0"
  have l: "length (pm_body c ?args) < 2 ^ 31" and v: "\<not> 3 \<le> vers"
    using assms Getport by (simp_all add: pm_wf_def pm_message_def rpcCall_parts(1) not_le)
  from getport_reply [OF l [unfolded pm_body_def], of prog v proto 0 "[]" p "pc_xid c"] v Getport show ?thesis
    by (simp add: handleRPCMessage_def pm_message_def rpcCall_parts pm_answer_def pm_body_def portmapProg_def nlmProg_def pmapProcNull_def pmapProcGetport_def)
next
  case (Getaddr vers prog v netid)
  let ?args = "PutUint32 prog @ PutUint32 v @ xdrOpaque (str_bytes netid) @ xdrOpaque [] @ xdrOpaque []"
  have l: "length (pm_body c ?args) < 2 ^ 31" and v: "3 \<le> vers"
    using assms Getaddr by (simp_all add: pm_wf_def pm_message_def rpcCall_parts(1))
  from getaddr_reply [OF l [unfolded pm_body_def], of prog v netid "xdrOpaque [] @ xdrOpaque []" p "pc_xid c"] v Getaddr show ?thesis
    by (simp add: handleRPCMessage_def pm_message_def rpcCall_parts pm_answer_def pm_body_def portmapProg_def nlmProg_def pmapProcNull_def pmapProcGetport_def)
next
  case (NlmSync vers proc cookie)
  have l: "length (pm_body c (xdrOpaque cookie)) < 2 ^ 31" and v: "proc \<in> set nlmSync"
    using assms NlmSync by (simp_all add: pm_wf_def pm_message_def rpcCall_parts(1))
  have "proc \<noteq> nlmNull" using v by (auto simp: nlmSync_def nlmNull_def)
  with cookie_reply [OF l [unfolded pm_body_def], of cookie "[]"] v NlmSync show ?thesis
    by (simp add: handleRPCMessage_def pm_message_def rpcCall_parts pm_answer_def pm_body_def handleNLM_def makeNLMRes_def)
qed


definition ex_call :: pm_call where
  "ex_call = \<lparr> pc_xid = 7, pc_credFlavor = 1, pc_cred = [1, 2, 3], pc_verfFlavor = 0, pc_verf = [], pc_proc = Getport 2 nfsProg 3 6 \<rparr>"


text \<open>
  The sums of offsets and lengths wrap, so a length close to \<open>2 ^ 32\<close> passes the checks and the slice after
  them panics: a message of 32 bytes ends the daemon.
\<close>

lemma long_credentials_panic:
  "handleRPCMessage p udp (rpcCall xid portmapProg 2 3 (PutUint32 0 @ PutUint32 0xFFFFFFF0)) = Inl ()"
proof -
  have "slice_of (PutUint32 0 @ PutUint32 0xFFFFFFF0) 4 8 = PutUint32 0xFFFFFFF0"
    using slice_mid [of "PutUint32 0" "PutUint32 0xFFFFFFF0" "[]"] by simp
  then have "skipAuth (PutUint32 0 @ PutUint32 0xFFFFFFF0) = Inl ()"
    by (simp add: skipAuth_def Let_def align4_def len32_def go_slice_def)
  then show ?thesis
    by (simp add: handleRPCMessage_def rpcCall_parts makeGetportResponse_def portmapProg_def nlmProg_def pmapProcNull_def pmapProcGetport_def)
qed

end
