(* ===== verification/File_Server.thy ===== *)
theory File_Server
  imports Download Clean_Paths
begin

text \<open>
  The file server for snapshots, \<^verbatim>\<open>bupdateFileServer\<close> of \<^verbatim>\<open>cmd/thundersnapd/main.go\<close>, and the download code as its
  client: together they carry a file from one daemon to another. A request is the path of its URL
  after \<^verbatim>\<open>http.StripPrefix\<close> and its \<^verbatim>\<open>Range\<close> header.
\<close>

section \<open>Ranges\<close>

datatype range_error = RangePrefix | RangeMultiple | RangeFormat | RangeEmpty | RangeSuffix | RangeStart | RangeEnd | RangeOutside | RangeOrder

definition rangeBounds :: "string \<Rightarrow> string \<Rightarrow> int \<Rightarrow> range_error + int \<times> int" where
  "rangeBounds startStr endStr fileSize =
     (if startStr = [] then
        (if endStr = [] then Inl RangeEmpty
         else case Atoi endStr of None \<Rightarrow> Inl RangeSuffix
              | Some suffixLen \<Rightarrow>
                  let start = fileSize - suffixLen in Inr (if start < 0 then 0 else start, fileSize - 1))
      else
        (case Atoi startStr of None \<Rightarrow> Inl RangeStart
         | Some start \<Rightarrow>
             if endStr = [] then Inr (start, fileSize - 1)
             else case Atoi endStr of None \<Rightarrow> Inl RangeEnd | Some e \<Rightarrow> Inr (start, e)))"

definition parseRangeHeader :: "string \<Rightarrow> int \<Rightarrow> range_error + int \<times> int" where
  "parseRangeHeader header fileSize =
     (if \<not> HasPrefix header ''bytes='' then Inl RangePrefix
      else
        let rangeSpec = TrimPrefix header ''bytes='';
            ranges = split_on (CHR '','') rangeSpec
        in if length ranges \<noteq> 1 then Inl RangeMultiple
           else
             let parts = split_on (CHR ''-'') (TrimSpace (ranges ! 0))
             in if length parts \<noteq> 2 then Inl RangeFormat
                else
                  rbind (rangeBounds (TrimSpace (parts ! 0)) (TrimSpace (parts ! 1)) fileSize) (\<lambda>(start, e).
                    if start < 0 \<or> start \<ge> fileSize then Inl RangeOutside
                    else
                      let e' = (if e \<ge> fileSize then fileSize - 1 else e)
                      in if start > e' then Inl RangeOrder else Inr (start, e')))"

text \<open>A range that is accepted lies inside the file.\<close>

lemma parseRangeHeader_bounds:
  "parseRangeHeader header fileSize = Inr (a, b) \<Longrightarrow> 0 \<le> a \<and> a \<le> b \<and> b < fileSize"
  by (auto simp: parseRangeHeader_def Let_def rbind_eq_Inr split: if_splits)

section \<open>Requests\<close>

definition serveContent :: "bytes \<Rightarrow> string \<Rightarrow> nat \<times> bytes" where
  "serveContent content rangeHeader =
     (if rangeHeader = [] then (200, content)
      else case parseRangeHeader rangeHeader (int (length content)) of
             Inl e \<Rightarrow> (416, [])
           | Inr (start, e) \<Rightarrow> (206, slice_of content (nat start) (nat (e + 1))))"

text \<open>
  \<open>tree p\<close> is what \<^verbatim>\<open>Lstat\<close> finds at \<open>p\<close>: the operating system follows symbolic links in the directories of \<open>p\<close>, the
  server only looks at the last component. \<open>fails\<close> says for which paths \<^verbatim>\<open>Lstat\<close>, \<^verbatim>\<open>Readlink\<close> or \<^verbatim>\<open>Open\<close> fail.\<close>

definition ServeHTTP :: "string \<Rightarrow> (string \<Rightarrow> bool) \<Rightarrow> dtree \<Rightarrow> string \<Rightarrow> string \<Rightarrow> nat \<times> bytes" where
  "ServeHTTP root fails tree urlPath rangeHeader =
     (let cleanPath = path_Clean urlPath in
      if HasPrefix cleanPath ''..'' then (400, [])
      else
        let fullPath = filepath_Join [root, cleanPath] in
        if \<not> HasPrefix fullPath root then (400, [])
        else case tree fullPath of
               None \<Rightarrow> (404, [])
             | Some n \<Rightarrow>
                 if fails fullPath then (500, [])
                 else (case n of
                         NDir \<Rightarrow> (403, [])
                       | NSymlink target \<Rightarrow> serveContent (str_bytes target) rangeHeader
                       | NFile content \<Rightarrow> serveContent content rangeHeader))"

section \<open>The server as a peer\<close>

text \<open>
  What \<^verbatim>\<open>net/http\<close> makes of a URL below \<open>base\<close>: a fragment is cut off, then a query, and escapes are decoded. Paths that
  the request multiplexer would redirect because they are not clean are left out by the theorems.
\<close>

definition hex_val :: "char \<Rightarrow> nat option" where
  "hex_val c =
     (let n = of_char c in
      if 48 \<le> n \<and> n \<le> 57 then Some (n - 48)
      else if 97 \<le> n \<and> n \<le> 102 then Some (n - 87)
      else if 65 \<le> n \<and> n \<le> 70 then Some (n - 55) else None)"

fun unescape :: "string \<Rightarrow> string option" where
  "unescape [] = Some []"
| "unescape (c # cs) =
     (if c = CHR ''%'' then
        (case cs of h1 # h2 # rest \<Rightarrow>
           (case (hex_val h1, hex_val h2) of
              (Some a, Some b) \<Rightarrow> map_option (Cons (char_of (16 * a + b))) (unescape rest)
            | _ \<Rightarrow> None)
         | _ \<Rightarrow> None)
      else map_option (Cons c) (unescape cs))"

definition urlPath :: "string \<Rightarrow> string \<Rightarrow> string option" where
  "urlPath base url =
     (if HasPrefix url base
      then unescape (takeWhile (\<lambda>c. c \<noteq> CHR ''?'') (takeWhile (\<lambda>c. c \<noteq> CHR ''#'') (drop (length base) url)))
      else None)"

definition int_str :: "int \<Rightarrow> string" where
  "int_str i = (if i < 0 then CHR ''-'' # dec_str (nat (- i)) else dec_str (nat i))"

definition rangeHeader :: "(int \<times> int) option \<Rightarrow> string" where
  "rangeHeader r = (case r of None \<Rightarrow> [] | Some (a, b) \<Rightarrow> ''bytes='' @ int_str a @ ''-'' @ int_str b)"

definition server_peer :: "string \<Rightarrow> string \<Rightarrow> (string \<Rightarrow> bool) \<Rightarrow> dtree \<Rightarrow> peer" where
  "server_peer base root fails tree n url r =
     (case urlPath base url of
        None \<Rightarrow> ConnFail
      | Some path \<Rightarrow>
          if HasPrefix path ''/bupdate/''
          then let (st, body) = ServeHTTP root fails tree (drop (length ''/bupdate'') path) (rangeHeader r) in Resp st body True
          else Resp 404 [] True)"

section \<open>Serving a range\<close>

lemma digit_code: "c \<in> set (dec_str n) \<Longrightarrow> 48 \<le> (of_char c :: nat) \<and> of_char c \<le> (57 :: nat)"
  by (drule dec_str_digits) auto

lemma digits_clean:
  "CHR '','' \<notin> set (dec_str n)" "CHR ''-'' \<notin> set (dec_str n)" "CHR ''+'' \<notin> set (dec_str n)"
  using digit_code [of "CHR '',''" n] digit_code [of "CHR ''-''" n] digit_code [of "CHR ''+''" n] by auto

lemma digits_not_space: "c \<in> set (dec_str n) \<Longrightarrow> \<not> is_space c"
  by (drule digit_code) (auto simp: is_space_def)

lemma TrimSpace_id: "(\<forall>c \<in> set s. \<not> is_space c) \<Longrightarrow> TrimSpace s = s"
  by (simp add: TrimSpace_def) (metis dropWhile_eq_self_iff hd_in_set rev_is_Nil_conv rev_rev_ident set_rev)

lemma Atoi_dec_str: "n < 2 ^ 63 \<Longrightarrow> Atoi (dec_str n) = Some (int n)"
proof -
  assume n: "n < 2 ^ 63"
  obtain c cs where d: "dec_str n = c # cs" using dec_str_not_Nil [of n] by (cases "dec_str n") auto
  have "c \<noteq> CHR ''-''" "c \<noteq> CHR ''+''" using digits_clean [of n] d by auto
  then show ?thesis using n digits_val_dec_str [of n] d by (simp add: Atoi_def Let_def del: digits_val.simps)
qed

lemma parseRange_ok:
  assumes "a \<le> b" "b < len" "len < 2 ^ 63"
  shows "parseRangeHeader (rangeHeader (Some (int a, int b))) (int len) = Inr (int a, int b)"
proof -
  let ?s = "dec_str a @ ''-'' @ dec_str b"
  have h: "rangeHeader (Some (int a, int b)) = ''bytes='' @ ?s" by (simp add: rangeHeader_def int_str_def)
  have c: "split_on (CHR '','') ?s = [?s]" by (rule split_on_last) (use digits_clean(1) in simp)
  have sp: "\<forall>c \<in> set ?s. \<not> is_space c" using digits_not_space by (auto simp: is_space_def)
  have t: "TrimSpace ?s = ?s" "TrimSpace (dec_str a) = dec_str a" "TrimSpace (dec_str b) = dec_str b"
    by (rule TrimSpace_id, use sp in simp)+
  have d: "split_on (CHR ''-'') ?s = [dec_str a, dec_str b]"
    using digits_clean(2) by (simp add: split_on_append split_on_last)
  have rb: "rangeBounds (dec_str a) (dec_str b) (int len) = Inr (int a, int b)"
    using assms by (simp add: rangeBounds_def Atoi_dec_str)
  have parts: "[?s] ! 0 = ?s" "[dec_str a, dec_str b] ! 0 = dec_str a" "[dec_str a, dec_str b] ! 1 = dec_str b" by simp_all
  show ?thesis
    unfolding parseRangeHeader_def h TrimPrefix_append HasPrefix_append Let_def c parts t d rb
    using assms by (simp add: HasPrefix_def)
qed

lemma serveContent_range:
  assumes "a \<le> b" "b < length content" "length content < 2 ^ 63"
  shows "serveContent content (rangeHeader (Some (int a, int b))) = (206, slice_of content a (Suc b))"
  unfolding serveContent_def parseRange_ok [OF assms] by (simp add: rangeHeader_def nat_add_distrib)

section \<open>Finding the file\<close>

text \<open>The path of a request below a clean root is the file's path below it, and passes the server's two checks.\<close>

lemma request_path:
  assumes "root \<noteq> []" "path_Clean root = root" "path_comps root \<noteq> []" "plain sid" "list_all plain ws" "ws \<noteq> []"
  defines "req \<equiv> CHR ''/'' # sid @ CHR ''/'' # join_with (CHR ''/'') ws"
    and "full \<equiv> filepath_Join [root, sid, join_with (CHR ''/'') ws]"
  shows "path_Clean req = req" "\<not> HasPrefix (path_Clean req) ''..''"
    "filepath_Join [root, path_Clean req] = full" "HasPrefix full root"
proof -
  let ?j = "join_with (CHR ''/'')"
  have all: "list_all plain (sid # ws)" using assms(4,5) by simp
  have ne: "sid \<noteq> []" using assms(4) by (simp add: plain_def)
  have req: "req = CHR ''/'' # ?j (sid # ws)" using assms(6) by (cases ws) (simp_all add: req_def)
  have "path_comps req = sid # ws"
    unfolding req path_comps_def using split_join [OF _ plain_no_slash [OF all]] clean_comps_plains [OF all] by simp
  then show c: "path_Clean req = req" unfolding req by (subst path_Clean_comps) simp_all
  show "\<not> HasPrefix (path_Clean req) ''..''" unfolding c unfolding req by (simp add: HasPrefix_def)
  have cs: "path_comps (root @ CHR ''/'' # req) = path_comps root @ sid # ws"
    unfolding req path_comps_append [OF assms(1)]
    using split_join [OF _ plain_no_slash [OF all]] clean_comps_plains [OF all] by simp
  have f: "full = path_Clean (root @ CHR ''/'' # ?j (sid # ws))"
    unfolding full_def using assms(1,6) ne by (cases ws) (simp_all add: filepath_Join_def)
  have cf: "path_comps (root @ CHR ''/'' # ?j (sid # ws)) = path_comps root @ sid # ws"
    by (rule path_comps_plains [OF assms(1) all]) simp
  show "filepath_Join [root, path_Clean req] = full"
    unfolding c f using assms(1) cs cf by (simp add: filepath_Join_def path_Clean_comps req)
  show "HasPrefix full root"
  proof (cases "hd root = CHR ''/''")
    case True
    have "root = CHR ''/'' # ?j (path_comps root)" using path_Clean_comps [OF assms(1)] assms(2) True by simp
    moreover have "full = CHR ''/'' # ?j (path_comps root @ sid # ws)" unfolding f using assms(1) cf True by (simp add: path_Clean_comps)
    ultimately show ?thesis using join_with_prefix [OF assms(3), of "CHR ''/''" "sid # ws"] by (metis HasPrefix_Cons)
  next
    case False
    have "root = ?j (path_comps root)" using path_Clean_comps [OF assms(1)] assms(2,3) False by simp
    moreover have "full = ?j (path_comps root @ sid # ws)" unfolding f using assms(1) cf False by (simp add: path_Clean_comps)
    ultimately show ?thesis using join_with_prefix [OF assms(3), of "CHR ''/''" "sid # ws"] by metis
  qed
qed

definition url_safe :: "string \<Rightarrow> bool" where
  "url_safe s \<longleftrightarrow> CHR ''?'' \<notin> set s \<and> CHR ''#'' \<notin> set s \<and> CHR ''%'' \<notin> set s"

lemma unescape_plain: "CHR ''%'' \<notin> set s \<Longrightarrow> unescape s = Some s"
  by (induction s) auto

lemma urlPath_safe: "url_safe s \<Longrightarrow> urlPath base (base @ s) = Some s"
proof -
  assume s: "url_safe s"
  then have "takeWhile (\<lambda>c. c \<noteq> CHR ''#'') s = s" "takeWhile (\<lambda>c. c \<noteq> CHR ''?'') s = s"
    by (auto simp: url_safe_def takeWhile_eq_all_conv)
  with s show ?thesis by (simp add: urlPath_def url_safe_def unescape_plain del: takeWhile_eq_all_conv)
qed

text \<open>A file name is sent as it is, so a question mark in it ends the path: the server is asked for another file.\<close>

lemma question_mark_cuts_name:
  assumes "url_safe s" "CHR ''#'' \<notin> set t"
  shows "urlPath base (base @ s @ ''?'' @ t) = Some s"
proof -
  have h: "takeWhile (\<lambda>c. c \<noteq> CHR ''#'') (s @ ''?'' @ t) = s @ ''?'' @ t"
    using assms by (auto simp: url_safe_def takeWhile_eq_all_conv)
  have q: "takeWhile (\<lambda>c. c \<noteq> CHR ''?'') (s @ ''?'' @ t) = s"
    using assms(1) by (simp add: url_safe_def takeWhile_append takeWhile_eq_all_conv)
  show ?thesis unfolding urlPath_def using h q assms(1) by (simp add: url_safe_def unescape_plain del: takeWhile_eq_all_conv)
qed

lemma server_serves:
  assumes "root \<noteq> []" "path_Clean root = root" "path_comps root \<noteq> []" "plain sid" "list_all plain ws" "ws \<noteq> []"
    and "url_safe (sid @ CHR ''/'' # join_with (CHR ''/'') ws)"
    and "tree (filepath_Join [root, sid, join_with (CHR ''/'') ws]) = Some (NFile content)" "length content < 2 ^ 63"
  shows "serves (server_peer base root (\<lambda>p. False) tree) (base @ ''/bupdate/'' @ sid @ ''/'' @ join_with (CHR ''/'') ws) content"
  unfolding serves_def
proof (intro allI impI, elim conjE)
  fix n a b
  assume ab: "a \<le> b" "b < length content"
  let ?req = "CHR ''/'' # sid @ CHR ''/'' # join_with (CHR ''/'') ws"
  have "url_safe (''/bupdate'' @ ?req)" using assms(7) by (simp add: url_safe_def)
  then have u: "urlPath base (base @ ''/bupdate'' @ ?req) = Some (''/bupdate'' @ ?req)" by (rule urlPath_safe)
  have "ServeHTTP root (\<lambda>p. False) tree ?req (rangeHeader (Some (int a, int b))) = (206, slice_of content a (Suc b))"
    unfolding ServeHTTP_def Let_def request_path(3) [OF assms(1-6)]
    using request_path(2,4) [OF assms(1-6)] assms(8) serveContent_range [OF ab assms(9)] by simp
  with u show "server_peer base root (\<lambda>p. False) tree n (base @ ''/bupdate/'' @ sid @ ''/'' @ join_with (CHR ''/'') ws) (Some (int a, int b))
      = Resp 206 (slice_of content a (Suc b)) True"
    by (simp add: server_peer_def HasPrefix_def)
qed

section \<open>A download from the server\<close>

lemma described_digests:
  assumes "list_all2 (describes tsc) (e_ChunkRefs entry) bs" "e_ChunkCount entry \<noteq> 0"
  shows "GetFileChunkSHAs entry tsc = map BlobSHA256 bs"
proof -
  have "map (\<lambda>i. if unat i < length (r_Entries tsc) then c_sha (r_Entries tsc ! unat i) else replicate 32 0) refs = map BlobSHA256 bs"
    if "list_all2 (describes tsc) refs bs" for refs
    using that by induction (simp_all add: describes_def)
  from this [OF assms(1)] show ?thesis using assms by (auto simp: GetFileChunkSHAs_def)
qed


definition one_file :: dtree where
  "one_file = [''/snaps/s/a'' \<mapsto> NFile [7, 8]]"


end
