(* ===== verification/Text_Output.thy ===== *)
theory Text_Output
  imports Vshd_Proto Strconv
begin

text \<open>
  Collecting and cutting the output of commands: \<^verbatim>\<open>mcpexec/collect.go\<close> and the text helpers of
  \<^verbatim>\<open>cmd/thundersnapd/mcp.go\<close>, over the parts of \<^verbatim>\<open>unicode/utf8\<close> and \<^verbatim>\<open>strings\<close> they use. Text is a list of bytes.
\<close>

section \<open>UTF-8\<close>

definition cont_byte :: "byte \<Rightarrow> bool" where
  "cont_byte b \<longleftrightarrow> 0x80 \<le> b \<and> b \<le> 0xBF"

text \<open>The length that the first byte of a rune announces, 0 when it starts none, and the bytes that may follow it.\<close>

definition seqLen :: "byte \<Rightarrow> nat" where
  "seqLen b = (if b < 0x80 then 1 else if b < 0xC2 then 0 else if b < 0xE0 then 2 else if b < 0xF0 then 3 else if b \<le> 0xF4 then 4 else 0)"

definition okSecond :: "byte \<Rightarrow> byte \<Rightarrow> bool" where
  "okSecond b0 b1 \<longleftrightarrow>
     (if b0 = 0xE0 then 0xA0 else if b0 = 0xF0 then 0x90 else 0x80) \<le> b1 \<and>
     b1 \<le> (if b0 = 0xED then 0x9F else if b0 = 0xF4 then 0x8F else 0xBF)"

text \<open>
  The size of the rune at the front, \<^verbatim>\<open>DecodeRune\<close>; \<open>None\<close> is \<^verbatim>\<open>RuneError\<close> of size 1. Overlong forms, surrogates and
  values above the last code point are excluded by the bounds of the second byte.
\<close>

definition runeLen :: "bytes \<Rightarrow> nat option" where
  "runeLen s =
     (if s = [] then None
      else
        let n = seqLen (hd s) in
        if n = 0 \<or> length s < n \<or> (2 \<le> n \<and> \<not> okSecond (hd s) (s ! 1)) \<or> \<not> list_all cont_byte (drop 2 (take n s)) then None
        else Some n)"

lemma runeLen_Nil [simp]: "runeLen [] = None"
  by (simp add: runeLen_def)

lemma seqLen_le: "seqLen b \<le> 4"
  by (simp add: seqLen_def)

lemma runeLen_bounds: "runeLen s = Some n \<Longrightarrow> 0 < n \<and> n \<le> 4 \<and> n \<le> length s"
  using seqLen_le [of "hd s"] by (auto simp: runeLen_def Let_def split: if_splits)

lemma runeLen_append: "runeLen s = Some n \<Longrightarrow> runeLen (s @ t) = Some n"
  by (auto simp: runeLen_def Let_def nth_append split: if_splits)

lemma runeLen_take: "runeLen s = Some n \<Longrightarrow> n \<le> k \<Longrightarrow> runeLen (take k s) = Some n"
  by (auto simp: runeLen_def Let_def min_def split: if_splits)

lemma runeLen_short: "runeLen s = Some n \<Longrightarrow> k < n \<Longrightarrow> runeLen (take k s) = None"
  by (auto simp: runeLen_def Let_def split: if_splits)

text \<open>\<^verbatim>\<open>strings.ToValidUTF8 (s, "")\<close> drops every byte that is not part of a rune.\<close>

function ToValidUTF8 :: "bytes \<Rightarrow> bytes" where
  "ToValidUTF8 s =
     (if s = [] then []
      else case runeLen s of None \<Rightarrow> ToValidUTF8 (tl s) | Some n \<Rightarrow> take n s @ ToValidUTF8 (drop n s))"
  by pat_completeness auto
termination
  by (relation "measure length") (auto dest: runeLen_bounds)

declare ToValidUTF8.simps [simp del]

function validUTF8 :: "bytes \<Rightarrow> bool" where
  "validUTF8 s \<longleftrightarrow> s = [] \<or> (case runeLen s of None \<Rightarrow> False | Some n \<Rightarrow> validUTF8 (drop n s))"
  by pat_completeness auto
termination
  by (relation "measure length") (auto dest: runeLen_bounds)

declare validUTF8.simps [simp del]

lemma validUTF8_Nil [simp]: "validUTF8 []"
  by (simp add: validUTF8.simps)

lemma validUTF8_rune: "runeLen s = Some n \<Longrightarrow> validUTF8 s \<longleftrightarrow> validUTF8 (drop n s)"
  by (subst validUTF8.simps) (auto dest: runeLen_bounds)

lemma validUTF8_front:
  assumes "runeLen s = Some n" "validUTF8 t"
  shows "validUTF8 (take n s @ t)"
proof -
  have n: "n \<le> length s" "0 < n" using runeLen_bounds [OF assms(1)] by auto
  have "runeLen (take n s @ t) = Some n" by (intro runeLen_append runeLen_take assms(1)) simp
  then show ?thesis using validUTF8_rune [of "take n s @ t" n] n assms(2) by simp
qed

lemma ToValidUTF8_valid: "validUTF8 (ToValidUTF8 s)"
proof (induction s rule: ToValidUTF8.induct)
  case (1 s)
  then show ?case
    by (subst ToValidUTF8.simps) (auto intro: validUTF8_front split: option.split)
qed

lemma ToValidUTF8_id: "validUTF8 s \<Longrightarrow> ToValidUTF8 s = s"
proof (induction s rule: ToValidUTF8.induct)
  case (1 s)
  show ?case
  proof (cases "s = []")
    case False
    with "1.prems" obtain n where n: "runeLen s = Some n" "validUTF8 (drop n s)"
      by (subst (asm) validUTF8.simps) (auto split: option.splits)
    from "1.IH"(2) [OF False n(1) n(2)] show ?thesis using False n(1) by (subst ToValidUTF8.simps) simp
  qed (simp add: ToValidUTF8.simps)
qed

lemma length_ToValidUTF8: "length (ToValidUTF8 s) \<le> length s"
proof (induction s rule: ToValidUTF8.induct)
  case (1 s)
  show ?case
  proof (cases "s = []")
    case False
    show ?thesis
    proof (cases "runeLen s")
      case None
      with "1.IH"(1) [OF False] False show ?thesis by (subst ToValidUTF8.simps) (simp add: le_diff_conv)
    next
      case (Some n)
      with "1.IH"(2) [OF False] False runeLen_bounds [OF Some] show ?thesis by (subst ToValidUTF8.simps) auto
    qed
  qed (simp add: ToValidUTF8.simps)
qed

section \<open>Cutting at a rune boundary\<close>

text \<open>
  \<^verbatim>\<open>DecodeLastRune\<close> of a text that is not empty: the size of its last rune, \<open>None\<close> for \<^verbatim>\<open>RuneError\<close> of size 1. It looks for the
  start of the rune (\<^verbatim>\<open>RuneStart\<close>: no continuation byte) among the three bytes before the last.
\<close>

definition lastStart :: "bytes \<Rightarrow> nat" where
  "lastStart p =
     (case find (\<lambda>i. \<not> cont_byte (p ! i)) (rev [length p - 4..<length p - 1]) of Some i \<Rightarrow> i | None \<Rightarrow> length p - 5)"

definition decodeLastRune :: "bytes \<Rightarrow> nat option" where
  "decodeLastRune p =
     (if last p < 0x80 then Some 1
      else case runeLen (drop (lastStart p) p) of
             None \<Rightarrow> None
           | Some n \<Rightarrow> if lastStart p + n = length p then Some n else None)"

fun cutBack :: "bytes \<Rightarrow> nat \<Rightarrow> nat" where
  "cutBack s 0 = 0"
| "cutBack s (Suc k) = (if decodeLastRune (take (Suc k) s) \<noteq> None then Suc k else cutBack s k)"

definition truncateUTF8 :: "bytes \<Rightarrow> nat \<Rightarrow> bytes \<Rightarrow> bytes" where
  "truncateUTF8 s limit marker = (if length s \<le> limit then s else take (cutBack s limit) s @ marker)"

lemma seqLen_lead: "2 \<le> seqLen b \<Longrightarrow> \<not> cont_byte b \<and> \<not> b < 0x80"
  by (auto simp: seqLen_def cont_byte_def word_less_nat_alt word_le_nat_alt split: if_splits)

lemma okSecond_cont: "okSecond b0 b1 \<Longrightarrow> cont_byte b1"
  by (auto simp: okSecond_def cont_byte_def word_less_nat_alt word_le_nat_alt split: if_splits)

lemma rune_shape:
  assumes "runeLen s = Some n" "2 \<le> n"
  shows "\<not> cont_byte (hd s)" "\<not> hd s < 0x80" "list_all cont_byte (tl (take n s))"
proof -
  have n: "n = seqLen (hd s)" "s \<noteq> []" "okSecond (hd s) (s ! 1)" "list_all cont_byte (drop 2 (take n s))" "n \<le> length s"
    using assms by (auto simp: runeLen_def Let_def split: if_splits)
  then show "\<not> cont_byte (hd s)" "\<not> hd s < 0x80" using seqLen_lead [of "hd s"] assms(2) by auto
  have "tl (take n s) = s ! 1 # drop 2 (take n s)"
    using n(2,5) assms(2) by (cases s; cases "tl s"; cases n; cases "n - 1") (auto simp: numeral_2_eq_2)
  then show "list_all cont_byte (tl (take n s))" using n(3,4) okSecond_cont by simp
qed

lemma lastStart_eq:
  assumes "2 \<le> length r" "length r \<le> 5" "\<not> cont_byte (hd r)" "list_all cont_byte (butlast (tl r))"
  shows "lastStart (q @ r) = length q"
proof -
  have u: "[a..<Suc b] = [a..<b] @ [b]" if "a \<le> b" for a b using that by simp
  consider a b where "r = [a, b]" | a b c where "r = [a, b, c]" | a b c d where "r = [a, b, c, d]" | a b c d e where "r = [a, b, c, d, e]"
    using assms(1,2) by (cases r; cases "tl r"; cases "tl (tl r)"; cases "tl (tl (tl r))"; cases "tl (tl (tl (tl r)))") auto
  then show ?thesis
  proof cases
    case 1
    then show ?thesis using assms(3) by (simp add: lastStart_def nth_append)
  next
    case 2
    then show ?thesis using assms(3,4) by (cases q) (simp_all add: lastStart_def nth_append)
  next
    case 3
    then show ?thesis using assms(3,4) by (simp add: lastStart_def nth_append)
  next
    case 4
    then show ?thesis using assms(3,4) by (simp add: lastStart_def nth_append)
  qed
qed

lemma valid_last:
  "validUTF8 p \<Longrightarrow> p \<noteq> [] \<Longrightarrow> \<exists>q r. p = q @ r \<and> validUTF8 q \<and> runeLen r = Some (length r)"
proof (induction p rule: validUTF8.induct)
  case (1 s)
  then obtain n where n: "runeLen s = Some n" "validUTF8 (drop n s)"
    by (subst (asm) validUTF8.simps) (auto split: option.splits)
  have b: "0 < n" "n \<le> length s" using runeLen_bounds [OF n(1)] by auto
  have t: "runeLen (take n s) = Some n" by (rule runeLen_take [OF n(1)]) simp
  show ?case
  proof (cases "drop n s = []")
    case True
    with b t show ?thesis by (intro exI [of _ "[]"] exI [of _ s]) simp
  next
    case False
    from "1.IH" [OF n(1) n(2) False] obtain q r where
      qr: "drop n s = q @ r" "validUTF8 q" "runeLen r = Some (length r)" by blast
    have "s = (take n s @ q) @ r" using qr(1) by (metis append_assoc append_take_drop_id)
    with validUTF8_front [OF n(1) qr(2)] qr(3) show ?thesis by blast
  qed
qed

lemma decodeLast_valid:
  assumes "validUTF8 p" "p \<noteq> []"
  shows "decodeLastRune p \<noteq> None"
proof -
  from valid_last [OF assms] obtain q r where p: "p = q @ r" "runeLen r = Some (length r)" by blast
  have b: "0 < length r" "length r \<le> 4" using runeLen_bounds [OF p(2)] by auto
  show ?thesis
  proof (cases "2 \<le> length r")
    case True
    have "list_all cont_byte (butlast (tl r))" using rune_shape(3) [OF p(2) True] by (auto simp: list_all_iff dest: in_set_butlastD)
    then have "lastStart p = length q" unfolding p(1) using rune_shape(1) [OF p(2) True] True b by (intro lastStart_eq) auto
    then show ?thesis using p by (simp add: decodeLastRune_def)
  next
    case False
    with b obtain c where r: "r = [c]" by (cases r) (auto simp: not_le less_Suc_eq)
    then have "last p < 0x80" using p by (auto simp: runeLen_def Let_def seqLen_def split: if_splits)
    then show ?thesis by (simp add: decodeLastRune_def)
  qed
qed

lemma decodeLast_split:
  assumes "validUTF8 v" "runeLen t = Some n" "0 < k" "k < n"
  shows "decodeLastRune (v @ take k t) = None"
proof -
  have n: "2 \<le> n" "n \<le> length t" "n \<le> 4" using assms(3,4) runeLen_bounds [OF assms(2)] by auto
  note sh = rune_shape [OF assms(2) n(1)]
  have none: "runeLen (take k t) = None" by (rule runeLen_short [OF assms(2,4)])
  have tt: "take k t \<noteq> []" "hd (take k t) = hd t" using assms(3) n by (auto simp: hd_take)
  have tlk: "list_all cont_byte (tl (take k t))"
  proof -
    have "set (tl (take k t)) \<subseteq> set (tl (take n t))" using assms(4) by (simp add: tl_take set_take_subset_set_take)
    with sh(3) show ?thesis by (auto simp: list_all_iff)
  qed
  show ?thesis
  proof (cases "k = 1")
    case True
    have t1: "take k t = [hd t]" using True n by (cases t) auto
    have l: "\<not> last (v @ take k t) < 0x80" using t1 sh(2) by simp
    show ?thesis
    proof (cases "v = []")
      case True
      have "lastStart [hd t] = 0" by (simp add: lastStart_def)
      with True t1 none sh(2) show ?thesis by (simp add: decodeLastRune_def)
    next
      case False
      from valid_last [OF assms(1) False] obtain q r where v: "v = q @ r" "runeLen r = Some (length r)" by blast
      have b: "0 < length r" "length r \<le> 4" using runeLen_bounds [OF v(2)] by auto
      have "\<not> cont_byte (hd r) \<and> list_all cont_byte (tl r)"
      proof (cases "2 \<le> length r")
        case True
        then show ?thesis using rune_shape(1,3) [OF v(2) True] by simp
      next
        case False
        with b obtain c where r: "r = [c]" by (cases r) (auto simp: not_le less_Suc_eq)
        then have "c < 0x80" using v by (auto simp: runeLen_def Let_def seqLen_def split: if_splits)
        then show ?thesis using r by (auto simp: cont_byte_def)
      qed
      then have "lastStart (q @ (r @ [hd t])) = length q" using b by (intro lastStart_eq) (cases r; auto simp: butlast_append)+
      moreover have "runeLen (r @ [hd t]) = Some (length r)" by (rule runeLen_append [OF v(2)])
      ultimately show ?thesis using l by (simp add: decodeLastRune_def t1 v(1))
    qed
  next
    case False
    have "list_all cont_byte (butlast (tl (take k t)))" using tlk by (auto simp: list_all_iff dest: in_set_butlastD)
    then have "lastStart (v @ take k t) = length v" using False assms(3,4) n sh(1) tt by (intro lastStart_eq) auto
    moreover have "\<not> last (v @ take k t) < 0x80"
    proof -
      have "last (take k t) \<in> set (tl (take k t))" using False assms(3,4) n by (cases t; cases "tl t"; cases k; cases "k - 1") auto
      with tlk have "cont_byte (last (take k t))" by (simp add: list_all_iff)
      with tt show ?thesis by (auto simp: cont_byte_def)
    qed
    ultimately show ?thesis using none by (simp add: decodeLastRune_def)
  qed
qed

text \<open>Every position in a valid text is a boundary or inside one rune.\<close>

lemma boundary_before:
  "validUTF8 s \<Longrightarrow> k \<le> length s \<Longrightarrow>
     \<exists>b. validUTF8 (take b s) \<and> (b = k \<or> b < k \<and> (\<exists>n. runeLen (drop b s) = Some n \<and> k < b + n))"
proof (induction s arbitrary: k rule: validUTF8.induct)
  case (1 s)
  show ?case
  proof (cases "k = 0")
    case False
    with "1.prems" have ne: "s \<noteq> []" by auto
    with "1.prems"(1) obtain n where n: "runeLen s = Some n" "validUTF8 (drop n s)"
      by (subst (asm) validUTF8.simps) (auto split: option.splits)
    show ?thesis
    proof (cases "k < n")
      case True
      with n(1) False show ?thesis by (intro exI [of _ 0]) auto
    next
      case False
      with "1.prems"(2) have "k - n \<le> length (drop n s)" by simp
      from "1.IH" [OF n(1) n(2) this] obtain b where
        b: "validUTF8 (take b (drop n s))" "b = k - n \<or> b < k - n \<and> (\<exists>m. runeLen (drop b (drop n s)) = Some m \<and> k - n < b + m)" by blast
      have "validUTF8 (take (n + b) s)" using validUTF8_front [OF n(1) b(1)] by (simp add: take_add)
      moreover have "n + b = k \<or> n + b < k \<and> (\<exists>m. runeLen (drop (n + b) s) = Some m \<and> k < n + b + m)"
        using b(2) False by (auto simp: add.commute)
      ultimately show ?thesis by blast
    qed
  qed (simp add: exI [of _ 0])
qed

lemma cutBack_boundary:
  assumes "validUTF8 (take b s)" "b \<le> length s"
  shows "cutBack s b = b"
proof (cases b)
  case (Suc c)
  then have "take b s \<noteq> []" using assms(2) by auto
  from decodeLast_valid [OF assms(1) this] show ?thesis by (simp add: Suc)
qed simp

lemma cutBack_le: "cutBack s k \<le> k"
  by (induction k) auto

lemma cutBack_inside:
  assumes "validUTF8 (take b s)" "runeLen (drop b s) = Some n" "j < n" "b + j \<le> length s"
  shows "cutBack s (b + j) = b"
  using assms(3,4)
proof (induction j)
  case 0
  then show ?case using cutBack_boundary [OF assms(1)] by simp
next
  case (Suc j)
  have "take (b + Suc j) s = take b s @ take (Suc j) (drop b s)" by (rule take_add)
  moreover have "decodeLastRune (take b s @ take (Suc j) (drop b s)) = None"
    by (rule decodeLast_split [OF assms(1,2)]) (use Suc.prems in auto)
  ultimately show ?case using Suc by simp
qed

lemma cutBack_valid:
  assumes "validUTF8 s" "k \<le> length s"
  shows "validUTF8 (take (cutBack s k) s) \<and> k < cutBack s k + 4"
proof -
  from boundary_before [OF assms] obtain b where
    b: "validUTF8 (take b s)" "b = k \<or> b < k \<and> (\<exists>n. runeLen (drop b s) = Some n \<and> k < b + n)" by blast
  from b(2) show ?thesis
  proof
    assume "b = k"
    then have "cutBack s k = k" using cutBack_boundary b(1) assms(2) by simp
    with b(1) \<open>b = k\<close> show ?thesis by simp
  next
    assume "b < k \<and> (\<exists>n. runeLen (drop b s) = Some n \<and> k < b + n)"
    then obtain n where n: "b < k" "runeLen (drop b s) = Some n" "k < b + n" by blast
    have "cutBack s (b + (k - b)) = b" by (rule cutBack_inside [OF b(1) n(2)]) (use n assms(2) in auto)
    with n b(1) runeLen_bounds [OF n(2)] show ?thesis by simp
  qed
qed

section \<open>The last lines of a file\<close>

text \<open>The scan for the \<open>n\<close>-th newline from the end of \<open>bs\<close>: the index behind it.\<close>

fun tailStart :: "bytes \<Rightarrow> nat \<Rightarrow> nat \<Rightarrow> nat \<Rightarrow> nat option \<times> nat" where
  "tailStart bs n 0 seen = (None, seen)"
| "tailStart bs n (Suc i) seen =
     (if bs ! i = 10 then (if Suc seen = n then (Some (Suc i), Suc seen) else tailStart bs n i (Suc seen))
      else tailStart bs n i seen)"

definition scanEnd :: "bytes \<Rightarrow> bool \<Rightarrow> nat" where
  "scanEnd bs newest = (if newest \<and> last bs = 10 then length bs - 1 else length bs)"

definition tailLines :: "bytes \<Rightarrow> int \<Rightarrow> bytes" where
  "tailLines content n =
     (if n \<le> 0 \<or> content = [] then []
      else case tailStart content (nat n) (scanEnd content True) 0 of
             (start, seen) \<Rightarrow> ToValidUTF8 (drop (case start of None \<Rightarrow> 0 | Some i \<Rightarrow> i) content))"

text \<open>The loop of \<^verbatim>\<open>readTail\<close>: \<open>pos\<close> bytes are not yet read, \<open>chunks\<close> is the data behind them, joined.\<close>

function readTailLoop :: "nat \<Rightarrow> bytes \<Rightarrow> nat \<Rightarrow> nat \<Rightarrow> nat \<Rightarrow> bytes \<Rightarrow> bool \<Rightarrow> bytes" where
  "readTailLoop chunk content n pos haveNewlines chunks newest =
     (if pos = 0 \<or> chunk = 0 then chunks
      else
        let pos' = pos - min chunk pos;
            buf = slice_of content pos' pos
        in case tailStart buf n (scanEnd buf newest) haveNewlines of
             (Some i, seen) \<Rightarrow> drop i buf @ chunks
           | (None, seen) \<Rightarrow> readTailLoop chunk content n pos' seen (buf @ chunks) False)"
  by pat_completeness auto
termination
  by (relation "measure (\<lambda>(chunk, content, n, pos, _). pos)") auto

declare readTailLoop.simps [simp del]

definition readTail :: "nat \<Rightarrow> bytes \<Rightarrow> int \<Rightarrow> bytes" where
  "readTail tailReadChunk content n =
     (if n \<le> 0 then []
      else if content = [] then []
      else ToValidUTF8 (readTailLoop tailReadChunk content (nat n) (length content) 0 [] True))"

lemma tailStart_front: "k \<le> length xs \<Longrightarrow> tailStart (xs @ ys) n k seen = tailStart xs n k seen"
  by (induction xs n k seen rule: tailStart.induct) (simp_all add: nth_append)

lemma tailStart_append:
  "tailStart (xs @ ys) n (length xs + j) seen =
     (case tailStart ys n j seen of (Some i, s) \<Rightarrow> (Some (length xs + i), s) | (None, s) \<Rightarrow> tailStart xs n (length xs) s)"
  by (induction ys n j seen rule: tailStart.induct) (simp_all add: tailStart_front nth_append)

lemma tailStart_le: "tailStart bs n k seen = (Some i, s) \<Longrightarrow> i \<le> k"
  by (induction bs n k seen rule: tailStart.induct) (auto split: if_splits)

lemma scanEnd_append: "ys \<noteq> [] \<Longrightarrow> scanEnd (xs @ ys) newest = length xs + scanEnd ys newest"
  by (cases ys) (auto simp: scanEnd_def)

lemma readTailLoop_eq:
  assumes "0 < chunk" "pos \<le> length content" "chunks = drop pos content"
  shows "readTailLoop chunk content n pos seen chunks newest =
    drop (case fst (tailStart (take pos content) n (scanEnd (take pos content) newest) seen) of None \<Rightarrow> 0 | Some i \<Rightarrow> i) content"
  using assms
proof (induction chunk content n pos seen chunks newest rule: readTailLoop.induct)
  case (1 chunk content n pos seen chunks newest)
  show ?case
  proof (cases "pos = 0")
    case True
    then show ?thesis using "1.prems" by (subst readTailLoop.simps) (simp add: scanEnd_def)
  next
    case False
    define pos' where "pos' = pos - min chunk pos"
    define buf where "buf = slice_of content pos' pos"
    have lt: "pos' < pos" using False "1.prems"(1) by (simp add: pos'_def)
    have "length buf = pos - pos'" using "1.prems"(2) by (simp add: buf_def length_slice)
    then have "buf \<noteq> []" using lt by auto
    moreover have "take (pos' + (pos - pos')) content = take pos' content @ buf" unfolding buf_def slice_of_def by (rule take_add)
    moreover have "buf @ drop (pos - pos' + pos') content = drop pos' content"
      unfolding buf_def slice_of_def drop_drop [symmetric] by (rule append_take_drop_id)
    moreover have "length (take pos' content) = pos'" using lt "1.prems"(2) by simp
    ultimately have buf: "buf \<noteq> []" "take pos content = take pos' content @ buf" "drop pos' content = buf @ drop pos content" "length (take pos' content) = pos'"
      using lt by simp_all
    show ?thesis
    proof (cases "tailStart buf n (scanEnd buf newest) seen")
      case (Pair r seen')
      note ts = tailStart_append [of "take pos' content" buf n "scanEnd buf newest" seen, unfolded buf(4)]
      show ?thesis
      proof (cases r)
        case None
        have "readTailLoop chunk content n pos seen chunks newest = readTailLoop chunk content n pos' seen' (buf @ chunks) False"
          using False "1.prems"(1) Pair None by (subst readTailLoop.simps) (simp add: Let_def pos'_def [symmetric] buf_def [symmetric])
        also have "\<dots> = drop (case fst (tailStart (take pos' content) n pos' seen') of None \<Rightarrow> 0 | Some i \<Rightarrow> i) content"
          using "1.IH" [OF _ pos'_def buf_def Pair [symmetric] None] False "1.prems" lt buf by (simp add: scanEnd_def)
        finally show ?thesis unfolding buf(2) scanEnd_append [OF buf(1)] buf(4) ts Pair None by simp
      next
        case (Some i)
        have "i \<le> length buf" using tailStart_le [of buf n "scanEnd buf newest" seen i seen'] Pair Some by (simp add: scanEnd_def split: if_splits)
        then have "drop (pos' + i) content = drop i buf @ drop pos content" using buf(3) by (simp add: add.commute flip: drop_drop)
        moreover have "readTailLoop chunk content n pos seen chunks newest = drop i buf @ chunks"
          using False "1.prems"(1) Pair Some by (subst readTailLoop.simps) (simp add: Let_def pos'_def [symmetric] buf_def [symmetric])
        ultimately show ?thesis unfolding buf(2) scanEnd_append [OF buf(1)] buf(4) ts Pair Some using "1.prems"(3) by simp
      qed
    qed
  qed
qed

text \<open>
  C31: Reading a file backwards in chunks gives the same last lines as scanning all of it, for every
  chunk size, every number of lines and every file, with or without a newline at its end.
\<close>

theorem readTail_is_tailLines: "0 < chunk \<Longrightarrow> readTail chunk content n = tailLines content n"
  using readTailLoop_eq [of chunk "length content" content "[]" "nat n" 0 True]
  by (auto simp: readTail_def tailLines_def split: prod.split)

theorem readTail_is_tailLines_witness: "readTail 2 [65, 10, 66, 67, 10, 68] 2 = tailLines [65, 10, 66, 67, 10, 68] 2"
  using readTail_is_tailLines [of 2 "[65, 10, 66, 67, 10, 68]" 2] by simp

section \<open>Collecting the output of a command\<close>

definition maxOutputSize :: nat where "maxOutputSize = 2 ^ 20"

definition truncationMarker :: bytes where
  "truncationMarker = [10, 10] @ str_bytes ''... output truncated (exceeded 1 MiB) ...''"

record ExecResult =
  er_Output :: bytes
  er_ExitCode :: int
  er_Truncated :: bool

definition finalizeOutput :: "bytes \<Rightarrow> bytes" where "finalizeOutput s = ToValidUTF8 s"

definition stream_end :: "frame_err \<Rightarrow> bool" where
  "stream_end e \<longleftrightarrow> e = FrameRead EOF_err \<or> e = FrameRead UnexpectedEOF"

definition is_output :: "byte \<Rightarrow> bool" where
  "is_output typ \<longleftrightarrow> typ = FrameStdout \<or> typ = FrameStderr"

lemma ReadFrame_shorter: "ReadFrame inp = Inr (f, rest) \<Longrightarrow> length rest < length inp"
  by (auto simp: ReadFrame_def headerLen_def Let_def dest!: ReadFull_split split: sum.splits if_splits)

text \<open>
  The loop over everything the connection delivers until it ends, with the output so far. The test of
  \<^verbatim>\<open>result.Truncated\<close> in the loop is never reached as the loop returns when it is set.
\<close>

function collectLoop :: "bytes \<Rightarrow> bytes \<Rightarrow> ExecResult \<times> frame_err option" where
  "collectLoop input output =
     (case ReadFrame input of
        Inl e \<Rightarrow> (\<lparr> er_Output = finalizeOutput output, er_ExitCode = 0, er_Truncated = False \<rparr>, if stream_end e then None else Some e)
      | Inr ((typ, payload), rest) \<Rightarrow>
          if is_output typ then
            (if length output + length payload > maxOutputSize then
               let remaining = cutBack payload (maxOutputSize - length output)
               in (\<lparr> er_Output = finalizeOutput (output @ take remaining payload @ truncationMarker), er_ExitCode = 0, er_Truncated = True \<rparr>, None)
             else collectLoop rest (output @ payload))
          else if typ = FrameExit then
            (\<lparr> er_Output = finalizeOutput output,
               er_ExitCode = (case DecodeExit payload of None \<Rightarrow> 0 | Some code \<Rightarrow> sint code), er_Truncated = False \<rparr>, None)
          else collectLoop rest output)"
  by pat_completeness auto
termination
  by (relation "measure (\<lambda>(input, output). length input)") (auto dest!: ReadFrame_shorter)

declare collectLoop.simps [simp del]

lemma collectLoop_end:
  "ReadFrame inp = Inl e \<Longrightarrow>
     collectLoop inp out = (\<lparr> er_Output = finalizeOutput out, er_ExitCode = 0, er_Truncated = False \<rparr>, if stream_end e then None else Some e)"
  by (subst collectLoop.simps) simp

lemma collectLoop_frame:
  assumes "ReadFrame inp = Inr ((t, payload), rest)"
  shows "is_output t \<Longrightarrow> length out + length payload > maxOutputSize \<Longrightarrow> collectLoop inp out =
      (\<lparr> er_Output = finalizeOutput (out @ take (cutBack payload (maxOutputSize - length out)) payload @ truncationMarker),
         er_ExitCode = 0, er_Truncated = True \<rparr>, None)"
    and "is_output t \<Longrightarrow> \<not> length out + length payload > maxOutputSize \<Longrightarrow> collectLoop inp out = collectLoop rest (out @ payload)"
    and "\<not> is_output t \<Longrightarrow> t = FrameExit \<Longrightarrow> collectLoop inp out =
      (\<lparr> er_Output = finalizeOutput out, er_ExitCode = (case DecodeExit payload of None \<Rightarrow> 0 | Some code \<Rightarrow> sint code), er_Truncated = False \<rparr>, None)"
    and "\<not> is_output t \<Longrightarrow> t \<noteq> FrameExit \<Longrightarrow> collectLoop inp out = collectLoop rest out"
  by (subst collectLoop.simps, simp add: assms Let_def)+

definition CollectFrames :: "bytes \<Rightarrow> ExecResult \<times> frame_err option" where
  "CollectFrames r = collectLoop r []"

definition int_bytes :: "int \<Rightarrow> bytes" where
  "int_bytes i = str_bytes (if i < 0 then ''-'' @ dec_str (nat (- i)) else dec_str (nat i))"

definition FormatExit :: "ExecResult \<Rightarrow> bytes" where
  "FormatExit result =
     (if er_ExitCode result = 0
      then (if er_Output result = [] then str_bytes ''Exit code: 0 (no output)'' else er_Output result)
      else str_bytes ''Exit code: '' @ int_bytes (er_ExitCode result) @ [10, 10] @ er_Output result)"

lemma runeLen_ascii:
  assumes "a < 0x80" "runeLen (s @ a # t) = Some n" "s \<noteq> []"
  shows "runeLen s = Some n"
proof (cases "n \<le> length s")
  case True
  then show ?thesis using runeLen_take [OF assms(2) True] by simp
next
  case False
  then have "2 \<le> n" using assms(3) by (cases s) auto
  note sh = rune_shape(3) [OF assms(2) this]
  have "take n (s @ a # t) = s @ a # take (n - Suc (length s)) t" using False by (simp add: take_Cons')
  then have "a \<in> set (tl (take n (s @ a # t)))" using assms(3) by (cases s) simp_all
  then have "cont_byte a" using sh by (auto simp: list_all_iff)
  with assms(1) show ?thesis by (auto simp: cont_byte_def)
qed

lemma ToValidUTF8_ascii: "a < 0x80 \<Longrightarrow> ToValidUTF8 (s @ a # t) = ToValidUTF8 s @ ToValidUTF8 (a # t)"
proof (induction s rule: ToValidUTF8.induct)
  case (1 s)
  show ?case
  proof (cases "s = []")
    case False
    show ?thesis
    proof (cases "runeLen s")
      case None
      then have "runeLen (s @ a # t) = None" using runeLen_ascii [OF "1.prems" _ False] by fastforce
      with None False "1.IH"(1) [OF False None "1.prems"] show ?thesis
        by (subst ToValidUTF8.simps, subst (2) ToValidUTF8.simps) simp
    next
      case (Some n)
      have n: "n \<le> length s" using runeLen_bounds [OF Some] by simp
      have "runeLen (s @ a # t) = Some n" by (rule runeLen_append [OF Some])
      with Some False n "1.IH"(2) [OF False Some "1.prems"] show ?thesis
        by (subst ToValidUTF8.simps, subst (2) ToValidUTF8.simps) simp
    qed
  qed (simp add: ToValidUTF8.simps)
qed

definition outputs :: "(byte \<times> bytes) list \<Rightarrow> bytes" where
  "outputs fs = concat (map snd (filter (\<lambda>f. is_output (fst f)) fs))"

lemma outputs_simps [simp]: "outputs [] = []" "outputs (f # fs) = (if is_output (fst f) then snd f else []) @ outputs fs"
  by (simp_all add: outputs_def)

lemma collectLoop_exact:
  assumes "list_all wf_frame fs" "\<forall>f \<in> set fs. fst f \<noteq> FrameExit" "length out + length (outputs fs) \<le> maxOutputSize"
  shows "collectLoop (concat (map frame_bytes fs) @ frame_bytes (FrameExit, EncodeExit code) @ rest) out =
    (\<lparr> er_Output = finalizeOutput (out @ outputs fs), er_ExitCode = sint code, er_Truncated = False \<rparr>, None)"
  using assms
proof (induction fs arbitrary: out)
  case Nil
  have w: "wf_frame (FrameExit, EncodeExit code)" by (simp add: wf_frame_def EncodeExit_def maxFrameLen_def)
  have "\<not> is_output FrameExit" by (simp add: is_output_def FrameExit_def FrameStdout_def FrameStderr_def)
  then show ?case using collectLoop_frame(3) [OF ReadFrame_frame_bytes [OF w]] by (simp add: DecodeExit_def EncodeExit_def)
next
  case (Cons f fs)
  then have w: "wf_frame f" by simp
  obtain t payload where f: "f = (t, payload)" by fastforce
  note rd = ReadFrame_frame_bytes [OF w, unfolded f]
  show ?case
  proof (cases "is_output t")
    case True
    then show ?thesis using Cons collectLoop_frame(2) [OF rd] by (simp add: f)
  next
    case False
    then show ?thesis using Cons collectLoop_frame(4) [OF rd] by (simp add: f)
  qed
qed

lemma collectLoop_any:
  assumes "collectLoop inp out = (r, e)" "length out \<le> maxOutputSize"
  shows "validUTF8 (er_Output r) \<and> length (er_Output r) \<le> maxOutputSize + length truncationMarker \<and>
    (er_Truncated r \<longrightarrow> HasSuffix (er_Output r) truncationMarker)"
  using assms
proof (induction inp out rule: collectLoop.induct)
  case (1 inp out)
  note sz = length_ToValidUTF8
  show ?case
  proof (cases "ReadFrame inp")
    case (Inl x)
    then show ?thesis using "1.prems" sz [of out] by (auto simp: collectLoop_end finalizeOutput_def ToValidUTF8_valid)
  next
    case (Inr y)
    obtain t payload rest where y: "y = ((t, payload), rest)" by (metis prod.exhaust)
    note run = Inr [unfolded y]
    consider "is_output t" "length out + length payload > maxOutputSize" | "is_output t" "\<not> length out + length payload > maxOutputSize"
      | "\<not> is_output t" "t = FrameExit" | "\<not> is_output t" "t \<noteq> FrameExit" by blast
    then show ?thesis
    proof cases
      case 1
      define p where "p = out @ take (cutBack payload (maxOutputSize - length out)) payload"
      have r: "r = \<lparr> er_Output = ToValidUTF8 (p @ truncationMarker), er_ExitCode = 0, er_Truncated = True \<rparr>"
        using "1.prems"(1) collectLoop_frame(1) [OF run 1] by (auto simp: finalizeOutput_def p_def)
      obtain m where m: "truncationMarker = 10 # m" by (simp add: truncationMarker_def)
      have "ToValidUTF8 truncationMarker = truncationMarker" by code_simp
      then have o: "er_Output r = ToValidUTF8 p @ truncationMarker" using ToValidUTF8_ascii [of 10 p m] by (simp add: r m)
      have "length p \<le> maxOutputSize" using "1.prems"(2) cutBack_le [of payload "maxOutputSize - length out"] by (simp add: p_def)
      then show ?thesis using o ToValidUTF8_valid [of "p @ truncationMarker"] sz [of p] by (simp add: r)
    next
      case 2
      then show ?thesis using "1.IH"(1) [OF run refl refl] "1.prems" collectLoop_frame(2) [OF run] by simp
    next
      case 3
      then show ?thesis using "1.prems" sz [of out] collectLoop_frame(3) [OF run] by (auto simp: finalizeOutput_def ToValidUTF8_valid)
    next
      case 4
      then show ?thesis using "1.IH"(2) [OF run refl refl] "1.prems" collectLoop_frame(4) [OF run] by simp
    qed
  qed
qed



section \<open>Shell commands\<close>

definition shellQuote :: "string \<Rightarrow> string" where
  "shellQuote s = [CHR 0x27] @ concat (map (\<lambda>c. if c = CHR 0x27 then [CHR 0x27, CHR 0x5C, CHR 0x27, CHR 0x27] else [c]) s) @ [CHR 0x27]"

text \<open>
  How a POSIX shell reads a word: single quotes keep everything, outside of them a backslash keeps the next character,
  and blanks and operators end the word. The result is the word and the rest; quotes must be closed.
\<close>

definition sh_ends_word :: "char \<Rightarrow> bool" where
  "sh_ends_word c \<longleftrightarrow> c \<in> set [CHR 0x20, CHR 0x09, CHR 0x0A, CHR ''&'', CHR ''|'', CHR '';'', CHR ''<'', CHR ''>'', CHR ''('', CHR '')'']"

fun sh_word :: "bool \<Rightarrow> string \<Rightarrow> (string \<times> string) option" where
  "sh_word quoted [] = (if quoted then None else Some ([], []))"
| "sh_word True (c # cs) =
     (if c = CHR 0x27 then sh_word False cs else map_option (\<lambda>(w, r). (c # w, r)) (sh_word True cs))"
| "sh_word False (c # cs) =
     (if c = CHR 0x27 then sh_word True cs
      else if c = CHR 0x5C then (case cs of [] \<Rightarrow> None | d # ds \<Rightarrow> map_option (\<lambda>(w, r). (d # w, r)) (sh_word False ds))
      else if sh_ends_word c then Some ([], c # cs)
      else map_option (\<lambda>(w, r). (c # w, r)) (sh_word False cs))"

lemma sh_word_quoted:
  "sh_word True (concat (map (\<lambda>c. if c = CHR 0x27 then [CHR 0x27, CHR 0x5C, CHR 0x27, CHR 0x27] else [c]) s) @ [CHR 0x27] @ rest) =
     map_option (\<lambda>(w, r). (s @ w, r)) (sh_word False rest)"
  by (induction s) (auto simp: option.map_comp o_def split_beta option.map_ident)

text \<open>A quoted string is one word of the command, whatever it contains, and nothing of it is interpreted.\<close>

lemma shellQuote_one_word:
  "sh_word False (shellQuote s) = Some (s, [])" "sh_ends_word c \<Longrightarrow> c \<noteq> CHR 0x27 \<Longrightarrow> c \<noteq> CHR 0x5C \<Longrightarrow> sh_word False (shellQuote s @ c # rest) = Some (s, c # rest)"
  using sh_word_quoted [of s "[]"] sh_word_quoted [of s "c # rest"] by (simp_all add: shellQuote_def)

end
