(* ===== verification/Mcp_Files.thy ===== *)
theory Mcp_Files
  imports Text_Output Clean_Paths Ref_Id
begin

text \<open>
  The file tools of \<^verbatim>\<open>cmd/thundersnapd/mcp.go\<close>, \<^verbatim>\<open>create_file\<close> and \<^verbatim>\<open>str_replace\<close>, which the daemon performs as root on the files of a
  frame whose user may have planted symbolic links anywhere. Files are inodes that directories name,
  and a descriptor is an inode.
\<close>

section \<open>Files\<close>

datatype inode_kind = IDir "string \<rightharpoonup> nat" | IReg bytes | ILnk string

record inode =
  i_kind :: inode_kind
  i_uid :: nat
  i_gid :: nat

record volume =
  v_inodes :: "nat \<rightharpoonup> inode"
  v_parent :: "nat \<Rightarrow> nat"
  v_next :: nat

datatype errno = ENOENT | ELOOP | ENOTDIR | EISDIR | EIO

definition set_inode :: "nat \<Rightarrow> inode \<Rightarrow> volume \<Rightarrow> volume" where
  "set_inode i n v = v\<lparr> v_inodes := (v_inodes v)(i \<mapsto> n) \<rparr>"

definition dir_of :: "volume \<Rightarrow> nat \<Rightarrow> (string \<rightharpoonup> nat) option" where
  "dir_of v d = (case v_inodes v d of None \<Rightarrow> None | Some n \<Rightarrow> (case i_kind n of IDir es \<Rightarrow> Some es | IReg b \<Rightarrow> None | ILnk t \<Rightarrow> None))"

text \<open>The names \<^verbatim>\<open>.\<close> and \<^verbatim>\<open>..\<close> lead to the directory itself and to the one above it.\<close>

definition lookup_at :: "volume \<Rightarrow> nat \<Rightarrow> string \<Rightarrow> errno + nat" where
  "lookup_at v d c =
     (case dir_of v d of
        None \<Rightarrow> Inl ENOTDIR
      | Some es \<Rightarrow>
          if c = ''.'' then Inr d
          else if c = ''..'' then Inr (v_parent v d)
          else (case es c of None \<Rightarrow> Inl ENOENT | Some i \<Rightarrow> if v_inodes v i = None then Inl EIO else Inr i))"

text \<open>A new inode, named \<open>c\<close> in the directory \<open>d\<close>.\<close>

definition add_entry :: "nat \<Rightarrow> string \<Rightarrow> inode_kind \<Rightarrow> volume \<Rightarrow> volume" where
  "add_entry d c k v =
     (case v_inodes v d of
        None \<Rightarrow> v
      | Some n \<Rightarrow>
          (case i_kind n of
             IDir es \<Rightarrow>
               v\<lparr> v_inodes := (v_inodes v)(v_next v \<mapsto> \<lparr> i_kind = k, i_uid = 0, i_gid = 0 \<rparr>, d \<mapsto> n\<lparr> i_kind := IDir (es(c \<mapsto> v_next v)) \<rparr>),
                  v_parent := (v_parent v)(v_next v := d), v_next := v_next v + 1 \<rparr>
           | IReg b \<Rightarrow> v | ILnk t \<Rightarrow> v))"

text \<open>\<^verbatim>\<open>openat\<close> with \<^verbatim>\<open>O_DIRECTORY | O_NOFOLLOW\<close>.\<close>

definition openDirAt :: "volume \<Rightarrow> nat \<Rightarrow> string \<Rightarrow> errno + nat" where
  "openDirAt v d c =
     rbind (lookup_at v d c) (\<lambda>i.
       case v_inodes v i of None \<Rightarrow> Inl EIO
       | Some n \<Rightarrow> (case i_kind n of IDir es \<Rightarrow> Inr i | IReg b \<Rightarrow> Inl ENOTDIR | ILnk t \<Rightarrow> Inl ELOOP))"

section \<open>The walk to the parent directory\<close>

text \<open>Outcomes of the system calls that may fail for other reasons.\<close>

record sys_ok =
  ok_mkdirat :: "string \<Rightarrow> bool"
  ok_reopen :: "string \<Rightarrow> bool"
  ok_fchown :: "string \<Rightarrow> bool"
  ok_openat :: "string \<Rightarrow> bool"
  ok_readfd :: bool
  ok_writefd :: bool
  accepted :: "nat option"
  ok_ftruncate :: bool
  late :: bool

datatype file_err =
    EmptyPath | OpenRoot | Mkdir string | OpenCreated string | ChownCreated string | Traverse string | OpenParent errno

definition chown_inode :: "nat \<Rightarrow> nat \<Rightarrow> nat \<Rightarrow> volume \<Rightarrow> volume" where
  "chown_inode i uid gid v = (case v_inodes v i of None \<Rightarrow> v | Some n \<Rightarrow> set_inode i (n\<lparr> i_uid := uid, i_gid := gid \<rparr>) v)"

fun walkParents :: "sys_ok \<Rightarrow> bool \<Rightarrow> bool \<Rightarrow> nat \<Rightarrow> nat \<Rightarrow> string list \<Rightarrow> nat \<Rightarrow> volume \<Rightarrow> (file_err + nat) \<times> volume" where
  "walkParents sys createMissingDirs chownNewDirs uid gid [] cur v = (Inr cur, v)"
| "walkParents sys createMissingDirs chownNewDirs uid gid (c # parents) cur v =
     (case openDirAt v cur c of
        Inr fd \<Rightarrow> walkParents sys createMissingDirs chownNewDirs uid gid parents fd v
      | Inl e \<Rightarrow>
          if e = ENOENT \<and> createMissingDirs then
            (if \<not> ok_mkdirat sys c then (Inl (Mkdir c), v)
             else
               let v1 = add_entry cur c (IDir Map.empty) v in
               if \<not> ok_reopen sys c then (Inl (OpenCreated c), v1)
               else (case openDirAt v1 cur c of
                       Inl e' \<Rightarrow> (Inl (OpenCreated c), v1)
                     | Inr fd \<Rightarrow>
                         if chownNewDirs then
                           (if \<not> ok_fchown sys c then (Inl (ChownCreated c), v1)
                            else walkParents sys createMissingDirs chownNewDirs uid gid parents fd (chown_inode fd uid gid v1))
                         else walkParents sys createMissingDirs chownNewDirs uid gid parents fd v1))
          else if e = ELOOP then (Inl (Traverse c), v)
          else (Inl (OpenParent e), v))"

definition openParentUnderRoot ::
  "sys_ok \<Rightarrow> nat option \<Rightarrow> string \<Rightarrow> bool \<Rightarrow> bool \<Rightarrow> nat \<Rightarrow> nat \<Rightarrow> volume \<Rightarrow> (file_err + nat \<times> string) \<times> volume" where
  "openParentUnderRoot sys rootIno rel createMissingDirs chownNewDirs uid gid v =
     (let filtered = filter (\<lambda>c. c \<noteq> []) (split_on (CHR ''/'') rel) in
      if filtered = [] then (Inl EmptyPath, v)
      else case rootIno of
             None \<Rightarrow> (Inl OpenRoot, v)
           | Some cur \<Rightarrow>
               (case walkParents sys createMissingDirs chownNewDirs uid gid (butlast filtered) cur v of
                  (Inl e, v') \<Rightarrow> (Inl e, v')
                | (Inr fd, v') \<Rightarrow> (Inr (fd, last filtered), v')))"

section \<open>Paths\<close>

definition filepath_Abs :: "string \<Rightarrow> string \<Rightarrow> string" where
  "filepath_Abs cwd p = (if p \<noteq> [] \<and> hd p = CHR ''/'' then path_Clean p else filepath_Join [cwd, p])"

definition isWithinRootFS :: "string \<Rightarrow> string \<Rightarrow> string \<Rightarrow> bool" where
  "isWithinRootFS cwd path rootFS =
     (case filepath_Rel (filepath_Abs cwd rootFS) (filepath_Abs cwd path) of
        None \<Rightarrow> False
      | Some rel \<Rightarrow> rel \<noteq> ''..'' \<and> \<not> HasPrefix rel ''../'')"

definition toolRel :: "string \<Rightarrow> string" where
  "toolRel path = TrimPrefix (path_Clean (''/'' @ path)) ''/''"

text \<open>The components below the root of a cleaned path are plain names: \<^verbatim>\<open>..\<close> cannot occur.\<close>

lemma clean_comps_rooted:
  assumes "r" "\<forall>c \<in> set cs. CHR ''/'' \<notin> set c" "list_all plain acc"
  shows "list_all plain (clean_comps r acc cs)"
  using assms
proof (induction r acc cs rule: clean_comps.induct)
  case (1 r acc)
  then show ?case by simp
next
  case (2 r acc c cs)
  consider "c = [] \<or> c = ''.''" | "plain c" | "c = ''..''" using "2.prems"(2) by (auto simp: plain_def)
  then show ?case
  proof cases
    case 1
    with "2.IH"(1) "2.prems" show ?thesis by simp
  next
    case 2
    with "2.IH"(6) "2.prems" show ?thesis by (simp add: plain_def)
  next
    case 3
    show ?thesis
    proof (cases acc)
      case Nil
      with 3 "2.IH"(2) "2.prems" show ?thesis by simp
    next
      case (Cons a as)
      then have "a \<noteq> ''..''" using "2.prems"(3) by (auto simp: plain_def)
      with 3 Cons "2.IH"(5) "2.prems" show ?thesis by simp
    qed
  qed
qed

lemma toolRel_comps:
  "\<exists>ws. filter (\<lambda>c. c \<noteq> []) (split_on (CHR ''/'') (toolRel path)) = ws \<and> list_all plain ws"
proof -
  let ?p = "''/'' @ path"
  have ws: "list_all plain (path_comps ?p)"
    unfolding path_comps_def by (rule clean_comps_rooted) (auto dest: split_on_no_sep simp del: split_on.simps)
  have "toolRel path = join_with (CHR ''/'') (path_comps ?p)"
    by (simp add: toolRel_def path_Clean_comps TrimPrefix_def HasPrefix_def)
  then show ?thesis using ws split_join [OF _ plain_no_slash [OF ws]] by (cases "path_comps ?p = []") (auto simp: list_all_iff plain_def)
qed

section \<open>The tools\<close>

record mcp_env =
  me_cwd :: string
  me_resolve :: "string \<Rightarrow> string \<Rightarrow> string option"
  me_prepare :: "string \<Rightarrow> bool"
  me_root :: "string \<Rightarrow> nat option"

record CreateFileParams =
  cp_Path :: string
  cp_FileText :: bytes
  cp_Frame :: string
  cp_User :: string

record StrReplaceParams =
  sp_Path :: string
  sp_OldStr :: bytes
  sp_NewStr :: bytes
  sp_Frame :: string

datatype tool_err =
    InvalidInput | PathRequired | OldStrRequired | UserRequired | NoUser | ResolveFailed | PrepareFailed | Escapes
  | ParentFailed file_err | RefuseSymlink | IsDirectory | NotFound | OpenFailed errno | ReadFailed | WriteFailed | ChownFailed
  | TruncateFailed | TimedOut | StringNotFound | StringRepeated nat

text \<open>\<^verbatim>\<open>openat\<close> of the last component with \<^verbatim>\<open>O_CREAT | O_NOFOLLOW | O_TRUNC\<close>, and without creating.\<close>

definition openCreate :: "sys_ok \<Rightarrow> nat \<Rightarrow> string \<Rightarrow> volume \<Rightarrow> (errno + nat) \<times> volume" where
  "openCreate sys d name v =
     (if \<not> ok_openat sys name then (Inl EIO, v)
      else case lookup_at v d name of
             Inl e \<Rightarrow> if e = ENOENT then (Inr (v_next v), add_entry d name (IReg []) v) else (Inl e, v)
           | Inr i \<Rightarrow>
               (case v_inodes v i of
                  None \<Rightarrow> (Inl EIO, v)
                | Some n \<Rightarrow>
                    (case i_kind n of
                       IDir es \<Rightarrow> (Inl EISDIR, v)
                     | ILnk t \<Rightarrow> (Inl ELOOP, v)
                     | IReg b \<Rightarrow> (Inr i, set_inode i (n\<lparr> i_kind := IReg [] \<rparr>) v))))"

definition openExisting :: "sys_ok \<Rightarrow> nat \<Rightarrow> string \<Rightarrow> volume \<Rightarrow> errno + nat \<times> bytes" where
  "openExisting sys d name v =
     (if \<not> ok_openat sys name then Inl EIO
      else rbind (lookup_at v d name) (\<lambda>i.
             case v_inodes v i of
               None \<Rightarrow> Inl EIO
             | Some n \<Rightarrow> (case i_kind n of IDir es \<Rightarrow> Inl EISDIR | ILnk t \<Rightarrow> Inl ELOOP | IReg b \<Rightarrow> Inr (i, b))))"

text \<open>
  \<^verbatim>\<open>write\<close> and \<^verbatim>\<open>pwrite\<close> at the start of a file: the call may accept only the first bytes without an error, which the
  handlers do not notice.
\<close>

definition written :: "sys_ok \<Rightarrow> bytes \<Rightarrow> bytes" where
  "written sys data = (case accepted sys of None \<Rightarrow> data | Some n \<Rightarrow> take n data)"

definition setContent :: "nat \<Rightarrow> bytes \<Rightarrow> volume \<Rightarrow> volume" where
  "setContent i b v =
     (case v_inodes v i of None \<Rightarrow> v
      | Some n \<Rightarrow> (case i_kind n of IReg b0 \<Rightarrow> set_inode i (n\<lparr> i_kind := IReg b \<rparr>) v | IDir es \<Rightarrow> v | ILnk t \<Rightarrow> v))"

definition writeCreated :: "sys_ok \<Rightarrow> CreateFileParams \<Rightarrow> nat \<Rightarrow> string \<Rightarrow> volume \<Rightarrow> (tool_err + nat) \<times> volume" where
  "writeCreated sys p fd name v =
     (if \<not> ok_writefd sys then (Inl WriteFailed, v)
      else
        let v1 = setContent fd (written sys (cp_FileText p)) v in
        if cp_User p = ''user'' \<and> \<not> ok_fchown sys name then (Inl ChownFailed, v1)
        else
          let v2 = (if cp_User p = ''user'' then chown_inode fd ThundersnapUID ThundersnapGID v1 else v1) in
          if late sys then (Inl TimedOut, v2) else (Inr (length (cp_FileText p)), v2))"

definition createUnder :: "sys_ok \<Rightarrow> CreateFileParams \<Rightarrow> nat option \<Rightarrow> volume \<Rightarrow> (tool_err + nat) \<times> volume" where
  "createUnder sys p rootIno v =
     (let uid = (if cp_User p = ''user'' then ThundersnapUID else 0); gid = (if cp_User p = ''user'' then ThundersnapGID else 0) in
      case openParentUnderRoot sys rootIno (toolRel (cp_Path p)) True (cp_User p = ''user'') uid gid v of
        (Inl e, v1) \<Rightarrow> (Inl (ParentFailed e), v1)
      | (Inr (parentFd, name), v1) \<Rightarrow>
          (case openCreate sys parentFd name v1 of
             (Inl e, v2) \<Rightarrow> (Inl (if e = ELOOP then RefuseSymlink else if e = EISDIR then IsDirectory else OpenFailed e), v2)
           | (Inr fd, v2) \<Rightarrow> writeCreated sys p fd name v2))"

definition mcpCreateFileToolHandler ::
  "mcp_env \<Rightarrow> sys_ok \<Rightarrow> string \<Rightarrow> CreateFileParams option \<Rightarrow> volume \<Rightarrow> (tool_err + nat) \<times> volume" where
  "mcpCreateFileToolHandler env sys user params v =
     (case params of None \<Rightarrow> (Inl InvalidInput, v)
      | Some p \<Rightarrow>
          if cp_Path p = [] then (Inl PathRequired, v)
          else if cp_User p \<noteq> ''user'' \<and> cp_User p \<noteq> ''root'' then (Inl UserRequired, v)
          else if user = [] then (Inl NoUser, v)
          else case me_resolve env user (cp_Frame p) of
            None \<Rightarrow> (Inl ResolveFailed, v)
          | Some rootFS \<Rightarrow>
              if \<not> me_prepare env rootFS then (Inl PrepareFailed, v)
              else if \<not> isWithinRootFS (me_cwd env) (filepath_Join [rootFS, toolRel (cp_Path p)]) rootFS then (Inl Escapes, v)
              else createUnder sys p (me_root env rootFS) v)"

section \<open>Replacing a string\<close>

text \<open>\<^verbatim>\<open>bytes.bytes_Index\<close>, \<^verbatim>\<open>bytes.Count\<close> and \<^verbatim>\<open>bytes.Replace\<close> with a limit of one, for a separator that is not empty.\<close>

fun bytes_Index :: "bytes \<Rightarrow> bytes \<Rightarrow> nat option" where
  "bytes_Index [] sep = (if sep = [] then Some 0 else None)"
| "bytes_Index (b # bs) sep = (if HasPrefix (b # bs) sep then Some 0 else map_option Suc (bytes_Index bs sep))"

lemma bytes_Index_Some: "bytes_Index s sep = Some i \<Longrightarrow> s = take i s @ sep @ drop (i + length sep) s \<and> i + length sep \<le> length s"
proof (induction s sep arbitrary: i rule: bytes_Index.induct)
  case (2 b bs sep)
  show ?case
  proof (cases "HasPrefix (b # bs) sep")
    case True
    then have "i = 0" "take (length sep) (b # bs) = sep" using 2 by (simp_all add: HasPrefix_def)
    then show ?thesis using append_take_drop_id [of "length sep" "b # bs"] by (metis add_0 append_Nil length_take min.cobounded1 take0)
  next
    case False
    with 2 show ?thesis by auto
  qed
qed (auto split: if_splits)

function bytes_Count :: "bytes \<Rightarrow> bytes \<Rightarrow> nat" where
  "bytes_Count s sep =
     (if sep = [] then length s + 1
      else case bytes_Index s sep of None \<Rightarrow> 0 | Some i \<Rightarrow> Suc (bytes_Count (drop (i + length sep) s) sep))"
  by pat_completeness auto
termination
  by (relation "measure (\<lambda>(s, sep). length s)") (auto dest!: bytes_Index_Some [THEN conjunct2] simp flip: length_greater_0_conv)

declare bytes_Count.simps [simp del]

definition bytes_Replace1 :: "bytes \<Rightarrow> bytes \<Rightarrow> bytes \<Rightarrow> bytes" where
  "bytes_Replace1 s old new = (case bytes_Index s old of None \<Rightarrow> s | Some i \<Rightarrow> take i s @ new @ drop (i + length old) s)"

text \<open>\<^verbatim>\<open>pwrite\<close> at offset 0 over \<open>content\<close>, then \<^verbatim>\<open>ftruncate\<close>.\<close>

definition pwritten :: "sys_ok \<Rightarrow> bytes \<Rightarrow> bytes \<Rightarrow> bytes" where
  "pwritten sys content data = written sys data @ drop (length (written sys data)) content"

definition truncated_to :: "nat \<Rightarrow> bytes \<Rightarrow> bytes" where
  "truncated_to n b = take n b @ replicate (n - length b) 0"

definition replaceContent :: "sys_ok \<Rightarrow> StrReplaceParams \<Rightarrow> nat \<Rightarrow> bytes \<Rightarrow> volume \<Rightarrow> (tool_err + unit) \<times> volume" where
  "replaceContent sys p fd content v =
     (if \<not> ok_readfd sys then (Inl ReadFailed, v)
      else
        let count = bytes_Count content (sp_OldStr p) in
        if count = 0 then (Inl StringNotFound, v)
        else if count > 1 then (Inl (StringRepeated count), v)
        else
          let newContent = bytes_Replace1 content (sp_OldStr p) (sp_NewStr p) in
          if \<not> ok_writefd sys then (Inl WriteFailed, v)
          else
            let v1 = setContent fd (pwritten sys content newContent) v in
            if \<not> ok_ftruncate sys then (Inl TruncateFailed, v1)
            else
              let v2 = setContent fd (truncated_to (length newContent) (pwritten sys content newContent)) v1 in
              if late sys then (Inl TimedOut, v2) else (Inr (), v2))"

definition replaceUnder :: "sys_ok \<Rightarrow> StrReplaceParams \<Rightarrow> nat option \<Rightarrow> volume \<Rightarrow> (tool_err + unit) \<times> volume" where
  "replaceUnder sys p rootIno v =
     (case openParentUnderRoot sys rootIno (toolRel (sp_Path p)) False False 0 0 v of
        (Inl e, v1) \<Rightarrow> (Inl (ParentFailed e), v1)
      | (Inr (parentFd, name), v1) \<Rightarrow>
          (case openExisting sys parentFd name v1 of
             Inl e \<Rightarrow> (Inl (if e = ENOENT then NotFound else if e = ELOOP then RefuseSymlink
                            else if e = EISDIR then IsDirectory else OpenFailed e), v1)
           | Inr (fd, content) \<Rightarrow> replaceContent sys p fd content v1))"

definition mcpStrReplaceToolHandler ::
  "mcp_env \<Rightarrow> sys_ok \<Rightarrow> string \<Rightarrow> StrReplaceParams option \<Rightarrow> volume \<Rightarrow> (tool_err + unit) \<times> volume" where
  "mcpStrReplaceToolHandler env sys user params v =
     (case params of None \<Rightarrow> (Inl InvalidInput, v)
      | Some p \<Rightarrow>
          if sp_Path p = [] then (Inl PathRequired, v)
          else if sp_OldStr p = [] then (Inl OldStrRequired, v)
          else if user = [] then (Inl NoUser, v)
          else case me_resolve env user (sp_Frame p) of
            None \<Rightarrow> (Inl ResolveFailed, v)
          | Some rootFS \<Rightarrow>
              if \<not> me_prepare env rootFS then (Inl PrepareFailed, v)
              else if \<not> isWithinRootFS (me_cwd env) (filepath_Join [rootFS, toolRel (sp_Path p)]) rootFS then (Inl Escapes, v)
              else replaceUnder sys p (me_root env rootFS) v)"

section \<open>What the tools can reach\<close>

text \<open>The inodes below the root of a frame by names alone: no symbolic link and no \<^verbatim>\<open>..\<close> leads there.\<close>

inductive below :: "volume \<Rightarrow> nat \<Rightarrow> nat \<Rightarrow> bool" for v root where
  below_root: "below v root root"
| below_entry: "below v root d \<Longrightarrow> dir_of v d = Some es \<Longrightarrow> es c = Some i \<Longrightarrow> below v root i"

fun path_inode :: "volume \<Rightarrow> nat \<Rightarrow> string list \<Rightarrow> nat option" where
  "path_inode v d [] = Some d"
| "path_inode v d (c # cs) =
     (case dir_of v d of None \<Rightarrow> None | Some es \<Rightarrow> (case es c of None \<Rightarrow> None | Some i \<Rightarrow> path_inode v i cs))"

definition wf_volume :: "volume \<Rightarrow> bool" where
  "wf_volume v \<longleftrightarrow> (\<forall>i. v_inodes v i \<noteq> None \<longrightarrow> i < v_next v)"

text \<open>Directories only gain names.\<close>

definition vol_grows :: "volume \<Rightarrow> volume \<Rightarrow> bool" where
  "vol_grows v v' \<longleftrightarrow> (\<forall>d es. dir_of v d = Some es \<longrightarrow> (\<exists>es'. dir_of v' d = Some es' \<and> es \<subseteq>\<^sub>m es'))"

definition vol_confined :: "nat \<Rightarrow> volume \<Rightarrow> volume \<Rightarrow> bool" where
  "vol_confined root v v' \<longleftrightarrow> wf_volume v' \<and> vol_grows v v' \<and> (\<forall>i. v_inodes v' i \<noteq> v_inodes v i \<longrightarrow> below v' root i)"

lemma vol_grows_refl [simp]: "vol_grows v v"
  by (simp add: vol_grows_def)

lemma vol_grows_trans: "vol_grows v v' \<Longrightarrow> vol_grows v' v'' \<Longrightarrow> vol_grows v v''"
  unfolding vol_grows_def by (meson map_le_trans)

lemma vol_grows_entry: "vol_grows v v' \<Longrightarrow> dir_of v d = Some es \<Longrightarrow> es c = Some i \<Longrightarrow> \<exists>es'. dir_of v' d = Some es' \<and> es' c = Some i"
  unfolding vol_grows_def map_le_def by (metis domI)

lemma below_grows: "below v root i \<Longrightarrow> vol_grows v v' \<Longrightarrow> below v' root i"
proof (induction rule: below.induct)
  case below_root
  then show ?case by (simp add: below.below_root)
next
  case (below_entry d es c i)
  then show ?case using vol_grows_entry [of v v' d es c i] by (metis below.below_entry)
qed

lemma path_inode_grows: "path_inode v d cs = Some i \<Longrightarrow> vol_grows v v' \<Longrightarrow> path_inode v' d cs = Some i"
proof (induction v d cs rule: path_inode.induct)
  case (2 v d c cs)
  then obtain es j where "dir_of v d = Some es" "es c = Some j" "path_inode v j cs = Some i" by (auto split: option.splits)
  with 2 show ?case using vol_grows_entry [of v v' d es c j] by fastforce
qed simp

lemma path_inode_snoc:
  "path_inode v d cs = Some p \<Longrightarrow> dir_of v p = Some es \<Longrightarrow> es c = Some i \<Longrightarrow> path_inode v d (cs @ [c]) = Some i"
  by (induction v d cs rule: path_inode.induct) (auto split: option.splits)

lemma vol_confined_refl: "wf_volume v \<Longrightarrow> vol_confined root v v"
  by (simp add: vol_confined_def)

lemma vol_confined_trans: "vol_confined root v v' \<Longrightarrow> vol_confined root v' v'' \<Longrightarrow> vol_confined root v v''"
  unfolding vol_confined_def using vol_grows_trans below_grows by metis

lemma dir_of_set_inode:
  "v_inodes v i = Some n \<Longrightarrow> (\<And>es. i_kind n \<noteq> IDir es) \<Longrightarrow> (\<And>es. i_kind n' \<noteq> IDir es) \<Longrightarrow> dir_of (set_inode i n' v) = dir_of v"
  by (rule ext) (auto simp: dir_of_def set_inode_def split: inode_kind.splits)

lemma vol_confined_set_inode:
  assumes "wf_volume v" "below v root i" "v_inodes v i = Some n" "dir_of (set_inode i n' v) = dir_of v"
  shows "vol_confined root v (set_inode i n' v)"
proof -
  have "vol_grows v (set_inode i n' v)" using assms(4) by (simp add: vol_grows_def)
  moreover have "wf_volume (set_inode i n' v)" using assms(1,3) by (auto simp: wf_volume_def set_inode_def)
  moreover have "j = i" if "v_inodes (set_inode i n' v) j \<noteq> v_inodes v j" for j using that by (auto simp: set_inode_def split: if_splits)
  ultimately show ?thesis using below_grows [OF assms(2)] by (auto simp: vol_confined_def)
qed

lemma vol_confined_setContent:
  assumes "wf_volume v" "below v root i"
  shows "vol_confined root v (setContent i b v)"
proof (cases "\<exists>n b0. v_inodes v i = Some n \<and> i_kind n = IReg b0")
  case True
  then obtain n b0 where n: "v_inodes v i = Some n" "i_kind n = IReg b0" by blast
  have "dir_of (set_inode i (n\<lparr> i_kind := IReg b \<rparr>) v) = dir_of v" by (rule dir_of_set_inode [OF n(1)]) (simp_all add: n)
  from vol_confined_set_inode [OF assms n(1) this] show ?thesis using n by (simp add: setContent_def)
next
  case False
  then have "setContent i b v = v" by (auto simp: setContent_def split: option.splits inode_kind.splits)
  then show ?thesis using vol_confined_refl [OF assms(1)] by simp
qed

lemma vol_confined_chown:
  assumes "wf_volume v" "below v root i"
  shows "vol_confined root v (chown_inode i uid gid v)"
proof (cases "v_inodes v i")
  case None
  then show ?thesis using vol_confined_refl [OF assms(1)] by (simp add: chown_inode_def)
next
  case (Some n)
  have "dir_of (set_inode i (n\<lparr> i_uid := uid, i_gid := gid \<rparr>) v) = dir_of v"
    by (rule ext) (simp add: dir_of_def set_inode_def Some)
  from vol_confined_set_inode [OF assms Some this] show ?thesis by (simp add: chown_inode_def Some)
qed

lemma add_entry_props:
  assumes "wf_volume v" "dir_of v d = Some es" "es c = None"
  shows "dir_of (add_entry d c k v) d = Some (es(c \<mapsto> v_next v))" "vol_grows v (add_entry d c k v)" "wf_volume (add_entry d c k v)"
    "v_inodes (add_entry d c k v) (v_next v) = Some \<lparr> i_kind = k, i_uid = 0, i_gid = 0 \<rparr>"
    "below v root d \<Longrightarrow> vol_confined root v (add_entry d c k v)"
proof -
  obtain n where n: "v_inodes v d = Some n" "i_kind n = IDir es"
    using assms(2) by (auto simp: dir_of_def split: option.splits inode_kind.splits)
  have lt: "d < v_next v" using assms(1) n(1) by (auto simp: wf_volume_def)
  have fresh: "v_inodes v (v_next v) = None" using assms(1) by (auto simp: wf_volume_def)
  let ?v = "add_entry d c k v"
  have v: "v_inodes ?v = (v_inodes v)(v_next v \<mapsto> \<lparr> i_kind = k, i_uid = 0, i_gid = 0 \<rparr>, d \<mapsto> n\<lparr> i_kind := IDir (es(c \<mapsto> v_next v)) \<rparr>)"
    "v_next ?v = v_next v + 1" using n by (simp_all add: add_entry_def)
  show d: "dir_of ?v d = Some (es(c \<mapsto> v_next v))" by (simp add: dir_of_def v)
  show new: "v_inodes ?v (v_next v) = Some \<lparr> i_kind = k, i_uid = 0, i_gid = 0 \<rparr>" using lt by (simp add: v)
  show w: "wf_volume ?v" using assms(1) lt by (auto simp: wf_volume_def v less_Suc_eq)
  have other: "dir_of ?v e = dir_of v e" if "e \<noteq> d" "e \<noteq> v_next v" for e using that by (simp add: dir_of_def v)
  show g: "vol_grows v ?v" unfolding vol_grows_def
  proof (intro allI impI)
    fix e es0 assume e: "dir_of v e = Some es0"
    then have "e \<noteq> v_next v" using fresh by (auto simp: dir_of_def)
    then show "\<exists>es'. dir_of ?v e = Some es' \<and> es0 \<subseteq>\<^sub>m es'"
      using e other [of e] d assms(2,3) by (cases "e = d") (auto simp: map_le_def)
  qed
  assume b: "below v root d"
  have "below ?v root d" by (rule below_grows [OF b g])
  moreover from this have "below ?v root (v_next v)" by (rule below_entry [OF _ d, where c = c]) simp
  moreover have "i = d \<or> i = v_next v" if "v_inodes ?v i \<noteq> v_inodes v i" for i using that by (auto simp: v split: if_splits)
  ultimately show "vol_confined root v ?v" using w g by (auto simp: vol_confined_def)
qed

lemma lookup_at_plain:
  assumes "plain c"
  shows "lookup_at v d c = Inr i \<Longrightarrow> \<exists>es. dir_of v d = Some es \<and> es c = Some i"
    and "lookup_at v d c = Inl ENOENT \<Longrightarrow> \<exists>es. dir_of v d = Some es \<and> es c = None"
  using assms by (auto simp: lookup_at_def plain_def split: option.splits if_splits)

lemma openDirAt_Inr: "openDirAt v d c = Inr i \<Longrightarrow> plain c \<Longrightarrow> \<exists>es es'. dir_of v d = Some es \<and> es c = Some i \<and> dir_of v i = Some es'"
  using lookup_at_plain(1) [of c v d] by (fastforce simp: openDirAt_def rbind_eq_Inr dir_of_def split: option.splits inode_kind.splits)

lemma openDirAt_ENOENT: "openDirAt v d c = Inl ENOENT \<Longrightarrow> plain c \<Longrightarrow> \<exists>es. dir_of v d = Some es \<and> es c = None"
  using lookup_at_plain(2) [of c v d] by (auto simp: openDirAt_def rbind_eq_Inl split: option.splits inode_kind.splits) (metis inode_kind.exhaust)

lemma dir_of_chown: "dir_of (chown_inode i uid gid v) = dir_of v"
  by (rule ext) (auto simp: dir_of_def chown_inode_def set_inode_def split: option.splits)

definition reached :: "nat \<Rightarrow> nat \<Rightarrow> string list \<Rightarrow> volume \<Rightarrow> (file_err + nat) \<Rightarrow> bool" where
  "reached root cur ps v' r \<longleftrightarrow> (\<forall>fd. r = Inr fd \<longrightarrow> below v' root fd \<and> dir_of v' fd \<noteq> None \<and> path_inode v' cur ps = Some fd)"

lemma walk_descend:
  assumes "vol_confined root v v1" "dir_of v1 cur = Some es" "es c = Some fd" "vol_confined root v1 v'" "reached root fd ps v' r"
  shows "vol_confined root v v' \<and> reached root cur (c # ps) v' r"
proof -
  have "\<exists>es'. dir_of v' cur = Some es' \<and> es' c = Some fd" using vol_grows_entry [of v1 v' cur es c fd] assms(2,3,4) by (simp add: vol_confined_def)
  with vol_confined_trans [OF assms(1,4)] assms(5) show ?thesis by (auto simp: reached_def)
qed

lemma walkParents_confined:
  assumes "walkParents sys create chown uid gid ps cur v = (r, v')" "wf_volume v" "below v root cur" "dir_of v cur \<noteq> None" "list_all plain ps"
  shows "vol_confined root v v' \<and> reached root cur ps v' r"
  using assms
proof (induction sys create chown uid gid ps cur v arbitrary: r v' rule: walkParents.induct)
  case (1 sys create chown uid gid cur v)
  then show ?case by (auto simp: reached_def vol_confined_refl)
next
  case (2 sys create chown uid gid c ps cur v)
  have pl: "plain c" "list_all plain ps" using "2.prems"(5) by simp_all
  show ?case
  proof (cases "openDirAt v cur c")
    case (Inr fd)
    from openDirAt_Inr [OF Inr pl(1)] obtain es es' where es: "dir_of v cur = Some es" "es c = Some fd" "dir_of v fd = Some es'" by blast
    have b: "below v root fd" by (rule below_entry [OF "2.prems"(3) es(1,2)])
    from "2.IH"(3) [OF Inr] "2.prems"(1,2) b es(3) pl(2) Inr have "vol_confined root v v' \<and> reached root fd ps v' r" by simp
    with walk_descend [OF vol_confined_refl [OF "2.prems"(2)] es(1,2)] show ?thesis by blast
  next
    case (Inl e)
    show ?thesis
    proof (cases "e = ENOENT \<and> create \<and> ok_mkdirat sys c")
      case False
      then have "v' = v" "\<exists>x. r = Inl x" using "2.prems"(1) Inl by (auto split: if_splits)
      then show ?thesis using vol_confined_refl [OF "2.prems"(2)] by (auto simp: reached_def)
    next
      case True
      define v1 where "v1 = add_entry cur c (IDir Map.empty) v"
      from openDirAt_ENOENT Inl True pl(1) obtain es where es: "dir_of v cur = Some es" "es c = None" by blast
      note add = add_entry_props [OF "2.prems"(2) es, where k = "IDir Map.empty", folded v1_def]
      have c1: "vol_confined root v v1" by (rule add(5) [OF "2.prems"(3)])
      note run = "2.prems"(1) [unfolded walkParents.simps Inl sum.case, folded v1_def]
      show ?thesis
      proof (cases "openDirAt v1 cur c")
        case (Inl e')
        then have "v' = v1" "\<exists>x. r = Inl x" using run True by (auto simp: Let_def v1_def split: if_splits)
        then show ?thesis using c1 by (auto simp: reached_def)
      next
        case (Inr fd)
        have fd: "fd = v_next v" "dir_of v1 fd \<noteq> None" using openDirAt_Inr [OF Inr pl(1)] add(1) by auto
        have b: "below v1 root fd" by (rule below_entry [OF below_grows [OF "2.prems"(3) add(2)] add(1), where c = c]) (simp add: fd)
        have e1: "dir_of v1 cur = Some (es(c \<mapsto> v_next v))" "(es(c \<mapsto> v_next v)) c = Some fd" using add(1) fd by simp_all
        define v2 where "v2 = (if chown then chown_inode fd uid gid v1 else v1)"
        have d2: "dir_of v2 = dir_of v1" by (simp add: v2_def dir_of_chown)
        have c2: "vol_confined root v1 v2" using vol_confined_chown [OF add(3) b] vol_confined_refl [OF add(3)] by (simp add: v2_def)
        have g2: "vol_grows v1 v2" using d2 by (simp add: vol_grows_def)
        show ?thesis
        proof (cases "ok_reopen sys c \<and> (chown \<longrightarrow> ok_fchown sys c)")
          case False
          then have "v' = v1" "\<exists>x. r = Inl x" using run True Inr by (auto simp: Let_def v1_def [symmetric] split: if_splits)
          then show ?thesis using c1 by (auto simp: reached_def)
        next
          case ok: True
          then have w: "walkParents sys create chown uid gid ps fd v2 = (r, v')"
            using run True Inr by (auto simp: Let_def v1_def [symmetric] v2_def split: if_splits)
          have wf2: "wf_volume v2" "below v2 root fd" "dir_of v2 fd \<noteq> None" using c2 below_grows [OF b g2] fd d2 by (auto simp: vol_confined_def)
          have "vol_confined root v2 v' \<and> reached root fd ps v' r"
          proof (cases chown)
            case True
            then show ?thesis using "2.IH"(1) [OF \<open>openDirAt v cur c = Inl e\<close> _ _ v1_def _ Inr True] w wf2 pl(2) ok \<open>e = ENOENT \<and> create \<and> ok_mkdirat sys c\<close>
              by (simp add: v2_def)
          next
            case False
            then show ?thesis using "2.IH"(2) [OF \<open>openDirAt v cur c = Inl e\<close> _ _ v1_def _ Inr False] w wf2 pl(2) ok \<open>e = ENOENT \<and> create \<and> ok_mkdirat sys c\<close>
              by (simp add: v2_def)
          qed
          then show ?thesis
            using walk_descend [OF vol_confined_trans [OF c1 c2], of cur "es(c \<mapsto> v_next v)" c fd] e1 d2 by metis
        qed
      qed
    qed
  qed
qed

definition toolComps :: "string \<Rightarrow> string list" where
  "toolComps path = filter (\<lambda>c. c \<noteq> []) (split_on (CHR ''/'') (toolRel path))"

lemma toolComps_plain: "list_all plain (toolComps path)"
  using toolRel_comps [of path] by (auto simp: toolComps_def)

lemma openParent_confined:
  assumes "openParentUnderRoot sys (Some root) (toolRel path) create chown uid gid v = (r, v')" "wf_volume v" "dir_of v root \<noteq> None"
  shows "vol_confined root v v' \<and> (\<forall>fd name. r = Inr (fd, name) \<longrightarrow> plain name \<and> below v' root fd \<and> dir_of v' fd \<noteq> None \<and>
    (\<exists>ps. toolComps path = ps @ [name] \<and> path_inode v' root ps = Some fd))"
proof (cases "toolComps path = []")
  case True
  then have "r = Inl EmptyPath" "v' = v" using assms(1) by (auto simp: openParentUnderRoot_def Let_def toolComps_def)
  then show ?thesis using vol_confined_refl [OF assms(2)] by simp
next
  case False
  let ?ps = "butlast (toolComps path)" and ?n = "last (toolComps path)"
  have pl: "list_all plain ?ps" "plain ?n" "toolComps path = ?ps @ [?n]"
    using toolComps_plain [of path] False by (auto simp: list_all_iff dest: in_set_butlastD)
  obtain r1 v1 where w: "walkParents sys create chown uid gid ?ps root v = (r1, v1)" by fastforce
  have "v' = v1" "r = (case r1 of Inl e \<Rightarrow> Inl e | Inr fd \<Rightarrow> Inr (fd, ?n))"
    using assms(1) False w by (auto simp: openParentUnderRoot_def Let_def toolComps_def split: sum.splits)
  with walkParents_confined [OF w assms(2) below_root assms(3) pl(1)] pl show ?thesis
    by (auto simp: reached_def split: sum.splits)
qed

lemma openCreate_confined:
  assumes "openCreate sys d name v = (r, v')" "wf_volume v" "below v root d" "dir_of v d \<noteq> None" "plain name"
  shows "vol_confined root v v' \<and> (\<forall>fd. r = Inr fd \<longrightarrow> below v' root fd \<and> (\<exists>n. v_inodes v' fd = Some n \<and> i_kind n = IReg []) \<and>
    (\<exists>es. dir_of v' d = Some es \<and> es name = Some fd))"
proof (cases "ok_openat sys name")
  case True
  show ?thesis
  proof (cases "lookup_at v d name")
    case (Inl e)
    show ?thesis
    proof (cases "e = ENOENT")
      case True
      from lookup_at_plain(2) [OF assms(5)] Inl True obtain es where es: "dir_of v d = Some es" "es name = None" by blast
      note add = add_entry_props [OF assms(2) es, where k = "IReg []"]
      have v': "v' = add_entry d name (IReg []) v" "r = Inr (v_next v)" using assms(1) Inl True \<open>ok_openat sys name\<close> by (simp_all add: openCreate_def)
      have "below v' root (v_next v)" unfolding v' by (rule below_entry [OF below_grows [OF assms(3) add(2)] add(1), where c = name]) simp
      then show ?thesis using add v' assms(3) by simp
    next
      case False
      then show ?thesis using assms(1) Inl True vol_confined_refl [OF assms(2)] by (auto simp: openCreate_def)
    qed
  next
    case (Inr i)
    from lookup_at_plain(1) [OF assms(5) Inr] obtain es where es: "dir_of v d = Some es" "es name = Some i" by blast
    have b: "below v root i" by (rule below_entry [OF assms(3) es])
    show ?thesis
    proof (cases "\<exists>n b0. v_inodes v i = Some n \<and> i_kind n = IReg b0")
      case True
      then obtain n b0 where n: "v_inodes v i = Some n" "i_kind n = IReg b0" by blast
      have v': "v' = set_inode i (n\<lparr> i_kind := IReg [] \<rparr>) v" "r = Inr i" using assms(1) Inr n \<open>ok_openat sys name\<close> by (simp_all add: openCreate_def)
      have d: "dir_of v' = dir_of v" unfolding v' by (rule dir_of_set_inode [OF n(1)]) (simp_all add: n)
      have c: "vol_confined root v v'" unfolding v' by (rule vol_confined_set_inode [OF assms(2) b n(1) d [unfolded v']])
      have "below v' root i" by (rule below_grows [OF b]) (use c in \<open>simp add: vol_confined_def\<close>)
      then show ?thesis using c d es v' by (simp add: set_inode_def)
    next
      case False
      then show ?thesis using assms(1) Inr True vol_confined_refl [OF assms(2)] by (auto simp: openCreate_def split: option.splits inode_kind.splits)
    qed
  qed
next
  case False
  then show ?thesis using assms(1) vol_confined_refl [OF assms(2)] by (auto simp: openCreate_def)
qed

lemma create_file_after_open:
  assumes "wf_volume v" "below v root fd" "v_inodes v fd = Some n" "i_kind n = IReg b0" "v3 = setContent fd b v"
  shows "vol_confined root v v3" "vol_confined root v (chown_inode fd uid gid v3)"
    "v_inodes v3 fd = Some (n\<lparr> i_kind := IReg b \<rparr>)" "v_inodes (chown_inode fd uid gid v3) fd = Some (n\<lparr> i_kind := IReg b, i_uid := uid, i_gid := gid \<rparr>)"
    "dir_of (chown_inode fd uid gid v3) = dir_of v" "dir_of v3 = dir_of v"
proof -
  show c: "vol_confined root v v3" unfolding assms(5) by (rule vol_confined_setContent [OF assms(1,2)])
  have "below v3 root fd" by (rule below_grows [OF assms(2)]) (use c in \<open>simp add: vol_confined_def\<close>)
  then show "vol_confined root v (chown_inode fd uid gid v3)"
    using vol_confined_trans [OF c vol_confined_chown] c by (simp add: vol_confined_def)
  show i: "v_inodes v3 fd = Some (n\<lparr> i_kind := IReg b \<rparr>)" using assms(3,4) by (simp add: assms(5) setContent_def set_inode_def)
  then show "v_inodes (chown_inode fd uid gid v3) fd = Some (n\<lparr> i_kind := IReg b, i_uid := uid, i_gid := gid \<rparr>)"
    by (simp add: chown_inode_def set_inode_def)
  show "dir_of v3 = dir_of v" using assms(3,4) dir_of_set_inode [OF assms(3), of "n\<lparr> i_kind := IReg b \<rparr>"] by (simp add: assms(5) setContent_def)
  then show "dir_of (chown_inode fd uid gid v3) = dir_of v" by (simp add: dir_of_chown)
qed

lemma createUnder_run:
  assumes "createUnder sys p (Some root) v = (r, v')" "wf_volume v" "dir_of v root \<noteq> None"
  shows "vol_confined root v v' \<and> (\<forall>k. r = Inr k \<longrightarrow> (\<exists>fd n. path_inode v' root (toolComps (cp_Path p)) = Some fd \<and> v_inodes v' fd = Some n \<and>
    i_kind n = IReg (written sys (cp_FileText p)) \<and> (cp_User p = ''user'' \<longrightarrow> i_uid n = ThundersnapUID \<and> i_gid n = ThundersnapGID)))"
proof -
  let ?u = "cp_User p = ''user''"
  let ?uid = "if ?u then ThundersnapUID else 0" and ?gid = "if ?u then ThundersnapGID else 0"
  obtain pr v1 where op: "openParentUnderRoot sys (Some root) (toolRel (cp_Path p)) True ?u ?uid ?gid v = (pr, v1)" by fastforce
  note par = openParent_confined [OF op assms(2,3)]
  show ?thesis
  proof (cases pr)
    case (Inl e)
    then show ?thesis using assms(1) op par by (auto simp: createUnder_def Let_def)
  next
    case (Inr q)
    obtain parentFd name where q: "q = (parentFd, name)" by fastforce
    from par Inr q have p1: "vol_confined root v v1" "plain name" "below v1 root parentFd" "dir_of v1 parentFd \<noteq> None" by auto
    from par Inr q obtain ps where ps: "toolComps (cp_Path p) = ps @ [name]" "path_inode v1 root ps = Some parentFd" by auto
    have wf1: "wf_volume v1" using p1(1) by (simp add: vol_confined_def)
    obtain oc v2 where o: "openCreate sys parentFd name v1 = (oc, v2)" by fastforce
    note opn = openCreate_confined [OF o wf1 p1(3,4,2)]
    have c2: "vol_confined root v v2" using vol_confined_trans [OF p1(1)] opn by blast
    show ?thesis
    proof (cases oc)
      case (Inl e)
      then show ?thesis using assms(1) op \<open>pr = Inr q\<close> q o c2 by (auto simp: createUnder_def Let_def)
    next
      case (Inr fd)
      with opn obtain n es where n: "below v2 root fd" "v_inodes v2 fd = Some n" "i_kind n = IReg []" "dir_of v2 parentFd = Some es" "es name = Some fd" by auto
      have wf2: "wf_volume v2" using c2 by (simp add: vol_confined_def)
      have path: "path_inode v2 root (toolComps (cp_Path p)) = Some fd"
        unfolding ps(1) by (rule path_inode_snoc [OF path_inode_grows [OF ps(2)] n(4,5)]) (use opn in \<open>simp add: vol_confined_def\<close>)
      define v3 where "v3 = setContent fd (written sys (cp_FileText p)) v2"
      note fin = create_file_after_open [OF wf2 n(1-3) v3_def]
      have cc: "vol_confined root v v3" "vol_confined root v (chown_inode fd ThundersnapUID ThundersnapGID v3)" using vol_confined_trans [OF c2] fin(1,2) by blast+
      have pp: "path_inode v3 root (toolComps (cp_Path p)) = Some fd"
        "path_inode (chown_inode fd ThundersnapUID ThundersnapGID v3) root (toolComps (cp_Path p)) = Some fd"
        by (rule path_inode_grows [OF path], use fin(1,2) in \<open>simp add: vol_confined_def\<close>)+
      have "writeCreated sys p fd name v2 = (r, v')" using assms(1) op \<open>pr = Inr q\<close> q o Inr by (simp add: createUnder_def Let_def)
      then show ?thesis using c2 cc pp fin(3,4) by (auto simp: writeCreated_def Let_def v3_def [symmetric] split: if_splits)
    qed
  qed
qed

lemma walkParents_no_create: "walkParents sys False chown uid gid ps cur v = (r, v') \<Longrightarrow> v' = v"
  by (induction ps arbitrary: cur) (auto split: sum.splits if_splits)

lemma openParent_no_create: "openParentUnderRoot sys rootIno rel False chown uid gid v = (r, v') \<Longrightarrow> v' = v"
  by (auto simp: openParentUnderRoot_def Let_def dest!: walkParents_no_create split: if_splits option.splits prod.splits sum.splits)

lemma Count_one:
  assumes "bytes_Count content old = 1" "old \<noteq> []"
  shows "\<exists>pre post. content = pre @ old @ post \<and> bytes_Replace1 content old new = pre @ new @ post \<and>
    bytes_Index content old = Some (length pre) \<and> bytes_Index post old = None"
proof -
  from assms obtain i where i: "bytes_Index content old = Some i" "bytes_Count (drop (i + length old) content) old = 0"
    by (subst (asm) bytes_Count.simps) (auto split: option.splits)
  have "bytes_Index (drop (i + length old) content) old = None"
    using i(2) assms(2) by (subst (asm) bytes_Count.simps) (auto split: option.splits)
  with bytes_Index_Some [OF i(1)] i(1) show ?thesis
    by (intro exI [of _ "take i content"] exI [of _ "drop (i + length old) content"]) (auto simp: bytes_Replace1_def)
qed

lemma truncated_full: "accepted sys = None \<Longrightarrow> truncated_to (length b) (pwritten sys content b) = b"
  by (simp add: truncated_to_def pwritten_def written_def)

lemma openExisting_Inr:
  "openExisting sys d name v = Inr (fd, b) \<Longrightarrow> plain name \<Longrightarrow>
     \<exists>es n. dir_of v d = Some es \<and> es name = Some fd \<and> v_inodes v fd = Some n \<and> i_kind n = IReg b"
proof -
  assume h: "openExisting sys d name v = Inr (fd, b)" "plain name"
  then obtain i where i: "lookup_at v d name = Inr i"
    "(case v_inodes v i of None \<Rightarrow> Inl EIO | Some n \<Rightarrow> (case i_kind n of IDir es \<Rightarrow> Inl EISDIR | ILnk t \<Rightarrow> Inl ELOOP | IReg b \<Rightarrow> Inr (i, b))) = Inr (fd, b)"
    by (auto simp: openExisting_def rbind_eq_Inr split: if_splits)
  then obtain n where "v_inodes v i = Some n" "i_kind n = IReg b" "i = fd"
    by (cases "v_inodes v i"; cases "i_kind (the (v_inodes v i))") auto
  with lookup_at_plain(1) [OF h(2) i(1)] show ?thesis by blast
qed

definition replaced :: "StrReplaceParams \<Rightarrow> nat \<Rightarrow> volume \<Rightarrow> volume \<Rightarrow> bool" where
  "replaced p root v v' \<longleftrightarrow> (\<exists>fd n pre post. path_inode v root (toolComps (sp_Path p)) = Some fd \<and> v_inodes v fd = Some n \<and>
     i_kind n = IReg (pre @ sp_OldStr p @ post) \<and> v' = set_inode fd (n\<lparr> i_kind := IReg (pre @ sp_NewStr p @ post) \<rparr>) v \<and>
     bytes_Index (pre @ sp_OldStr p @ post) (sp_OldStr p) = Some (length pre) \<and> bytes_Index post (sp_OldStr p) = None)"

definition write_begun :: "tool_err \<Rightarrow> bool" where
  "write_begun e \<longleftrightarrow> e = TruncateFailed \<or> e = TimedOut"

lemma replaceContent_run:
  assumes "replaceContent sys p fd b v = (r, v')" "v_inodes v fd = Some n" "i_kind n = IReg b" "wf_volume v" "below v root fd"
    "sp_OldStr p \<noteq> []" "path_inode v root (toolComps (sp_Path p)) = Some fd"
  shows "vol_confined root v v' \<and> (\<forall>e. r = Inl e \<and> \<not> write_begun e \<longrightarrow> v' = v) \<and> (r = Inr () \<and> accepted sys = None \<longrightarrow> replaced p root v v')"
proof (cases "v' = v \<and> (\<exists>e. r = Inl e)")
  case True
  then show ?thesis using vol_confined_refl [OF assms(4)] by auto
next
  case False
  let ?new = "bytes_Replace1 b (sp_OldStr p) (sp_NewStr p)"
  let ?v1 = "setContent fd (pwritten sys b ?new) v"
  let ?v2 = "setContent fd (truncated_to (length ?new) (pwritten sys b ?new)) ?v1"
  have ok: "bytes_Count b (sp_OldStr p) = 1"
    "(\<not> ok_ftruncate sys \<and> r = Inl TruncateFailed \<and> v' = ?v1) \<or> (ok_ftruncate sys \<and> v' = ?v2 \<and> (if late sys then r = Inl TimedOut else r = Inr ()))"
    using False assms(1) by (auto simp: replaceContent_def Let_def split: if_splits)
  have c1: "vol_confined root v ?v1" by (rule vol_confined_setContent [OF assms(4,5)])
  have w1: "wf_volume ?v1" "below ?v1 root fd" using c1 below_grows [OF assms(5)] by (auto simp: vol_confined_def)
  have c2: "vol_confined root v ?v2" by (rule vol_confined_trans [OF c1 vol_confined_setContent [OF w1]])
  have v2: "?v2 = set_inode fd (n\<lparr> i_kind := IReg (truncated_to (length ?new) (pwritten sys b ?new)) \<rparr>) v"
    using assms(2,3) by (simp add: setContent_def set_inode_def)
  have "replaced p root v ?v2" if acc: "accepted sys = None"
  proof -
    from Count_one [OF ok(1) assms(6), of "sp_NewStr p"] obtain pre post where
      c: "b = pre @ sp_OldStr p @ post" "?new = pre @ sp_NewStr p @ post" "bytes_Index b (sp_OldStr p) = Some (length pre)" "bytes_Index post (sp_OldStr p) = None" by blast
    have "?v2 = set_inode fd (n\<lparr> i_kind := IReg (pre @ sp_NewStr p @ post) \<rparr>) v" 
      using assms(2,3) truncated_full [OF acc, of ?new b] c(2) by (simp add: setContent_def set_inode_def)
    with c assms(2,3,7) show ?thesis unfolding replaced_def by (intro exI [of _ fd] exI [of _ n] exI [of _ pre] exI [of _ post]) simp
  qed
  with ok(2) c1 c2 show ?thesis by (auto simp: write_begun_def split: if_splits)
qed

lemma replaceUnder_run:
  assumes "replaceUnder sys p (Some root) v = (r, v')" "wf_volume v" "dir_of v root \<noteq> None" "sp_OldStr p \<noteq> []"
  shows "vol_confined root v v' \<and> (\<forall>e. r = Inl e \<and> \<not> write_begun e \<longrightarrow> v' = v) \<and> (r = Inr () \<and> accepted sys = None \<longrightarrow> replaced p root v v')"
proof -
  obtain pr v1 where op: "openParentUnderRoot sys (Some root) (toolRel (sp_Path p)) False False 0 0 v = (pr, v1)" by fastforce
  have v1: "v1 = v" by (rule openParent_no_create [OF op])
  note par = openParent_confined [OF op assms(2,3)]
  note triv = vol_confined_refl [OF assms(2), of root]
  show ?thesis
  proof (cases pr)
    case (Inl e)
    then show ?thesis using assms(1) op triv v1 by (auto simp: replaceUnder_def)
  next
    case (Inr q)
    obtain parentFd name where q: "q = (parentFd, name)" by fastforce
    from par Inr q v1 obtain ps where p1: "plain name" "below v root parentFd" "toolComps (sp_Path p) = ps @ [name]" "path_inode v root ps = Some parentFd" by auto
    show ?thesis
    proof (cases "openExisting sys parentFd name v")
      case (Inl e)
      then show ?thesis using assms(1) op \<open>pr = Inr q\<close> q v1 triv by (auto simp: replaceUnder_def)
    next
      case (Inr w)
      obtain fd b where w: "w = (fd, b)" by fastforce
      from openExisting_Inr [OF Inr [unfolded w] p1(1)] obtain es n where
        n: "dir_of v parentFd = Some es" "es name = Some fd" "v_inodes v fd = Some n" "i_kind n = IReg b" by blast
      have "replaceContent sys p fd b v = (r, v')" using assms(1) op \<open>pr = Inr q\<close> q v1 Inr w by (simp add: replaceUnder_def)
      moreover have "path_inode v root (toolComps (sp_Path p)) = Some fd" unfolding p1(3) by (rule path_inode_snoc [OF p1(4) n(1,2)])
      ultimately show ?thesis using replaceContent_run [OF _ n(3,4) assms(2) below_entry [OF p1(2) n(1,2)] assms(4)] by blast
    qed
  qed
qed

lemma create_handler_cases:
  assumes "mcpCreateFileToolHandler env sys user (Some p) v = (r, v')" "me_resolve env user (cp_Frame p) = Some rootFS"
  shows "(v' = v \<and> (\<exists>e. r = Inl e)) \<or> createUnder sys p (me_root env rootFS) v = (r, v')"
  using assms by (auto simp: mcpCreateFileToolHandler_def split: if_splits)

lemma replace_handler_cases:
  assumes "mcpStrReplaceToolHandler env sys user (Some p) v = (r, v')" "me_resolve env user (sp_Frame p) = Some rootFS"
  shows "(v' = v \<and> (\<exists>e. r = Inl e)) \<or> sp_OldStr p \<noteq> [] \<and> replaceUnder sys p (me_root env rootFS) v = (r, v')"
  using assms by (auto simp: mcpStrReplaceToolHandler_def split: if_splits)


definition ex_volume :: volume where
  "ex_volume = \<lparr> v_inodes = [0 \<mapsto> \<lparr> i_kind = IDir [''a'' \<mapsto> 1, ''l'' \<mapsto> 2], i_uid = 0, i_gid = 0 \<rparr>,
       1 \<mapsto> \<lparr> i_kind = IReg [1, 2, 3], i_uid = 0, i_gid = 0 \<rparr>, 2 \<mapsto> \<lparr> i_kind = ILnk ''/etc'', i_uid = 7575, i_gid = 7575 \<rparr>],
     v_parent = (\<lambda>_. 0), v_next = 3 \<rparr>"

definition ex_env :: mcp_env where
  "ex_env = \<lparr> me_cwd = ''/'', me_resolve = (\<lambda>u f. Some ''/f''), me_prepare = (\<lambda>_. True), me_root = (\<lambda>_. Some 0) \<rparr>"

definition ex_sys :: sys_ok where
  "ex_sys = \<lparr> ok_mkdirat = (\<lambda>_. True), ok_reopen = (\<lambda>_. True), ok_fchown = (\<lambda>_. True), ok_openat = (\<lambda>_. True),
     ok_readfd = True, ok_writefd = True, accepted = None, ok_ftruncate = True, late = False \<rparr>"

definition ex_replace :: StrReplaceParams where
  "ex_replace = \<lparr> sp_Path = ''/a'', sp_OldStr = [2], sp_NewStr = [8, 9], sp_Frame = ''f'' \<rparr>"


text \<open>
  \<^verbatim>\<open>bytes.Count\<close> does not count overlapping occurrences: a string that occurs at two places passes as unique. And a write that accepts
  only part of the data is taken for a success, so that old content follows the new.
\<close>

lemma overlapping_passes_as_unique:
  "bytes_Count [97, 97, 97] [97, 97] = 1" "HasPrefix (drop 0 [97, 97, 97 :: byte]) [97, 97]" "HasPrefix (drop 1 [97, 97, 97 :: byte]) [97, 97]"
  by code_simp+

lemma short_write_keeps_old_bytes:
  assumes "accepted sys = Some 1"
  shows "truncated_to 3 (pwritten sys [1, 2, 3, 4] [7, 8, 9]) = [7, 2, 3]"
  by (simp add: truncated_to_def pwritten_def written_def assms)

end
