(* ===== verification/Mcp_Jobs.thy ===== *)
theory Mcp_Jobs
  imports Mcp_Files Sha256 "HOL-Library.AList"
begin

text \<open>
  Background commands, \<^verbatim>\<open>cmd/thundersnapd/mcp_jobs.go\<close>: the list of jobs of a conversation, their collectors, and the requests that launch,
  stop, list and wait for them. Each region between \<^verbatim>\<open>l.mu.Lock\<close> and \<^verbatim>\<open>l.mu.Unlock\<close> is a function on the list; the theory that imports
  this one interleaves them. Times are nanoseconds.
\<close>

section \<open>Jobs\<close>

datatype mcpJobState = JobRunning | JobExited | JobTimedOut | JobKilled | JobLost

record mcpJob =
  j_id :: string
  j_label :: string
  j_command :: string
  j_workdir :: string
  j_unixUser :: string
  j_frame :: string
  j_combinedLog :: string
  j_state :: mcpJobState
  j_startedAt :: int
  j_endedAt :: "int option"
  j_exitCode :: "int option"
  j_combinedBytes :: nat
  j_outputRevision :: u64
  j_endRevision :: u64
  j_conn :: bool
  j_stopReason :: "mcpJobState option"

definition terminal :: "mcpJob \<Rightarrow> bool" where
  "terminal j \<longleftrightarrow> j_state j = JobExited \<or> j_state j = JobTimedOut \<or> j_state j = JobKilled \<or> j_state j = JobLost"

lemma terminal_iff: "terminal j \<longleftrightarrow> j_state j \<noteq> JobRunning"
  by (cases "j_state j") (simp_all add: terminal_def)

text \<open>
  The channel \<^verbatim>\<open>changed\<close> is closed and replaced by every notification: channels are numbered, and the one with the current
  number is open.
\<close>

record mcpJobList =
  l_jobs :: "(string \<times> mcpJob) list"
  l_nextID :: u64
  l_revision :: u64
  l_changed :: nat

definition newMCPJobList :: mcpJobList where
  "newMCPJobList = \<lparr> l_jobs = [], l_nextID = 0, l_revision = 0, l_changed = 0 \<rparr>"

definition notifyLocked :: "mcpJobList \<Rightarrow> mcpJobList" where
  "notifyLocked l = l\<lparr> l_revision := l_revision l + 1, l_changed := l_changed l + 1 \<rparr>"

definition job_of :: "mcpJobList \<Rightarrow> string \<Rightarrow> mcpJob option" where
  "job_of l jid = map_of (l_jobs l) jid"

definition set_job :: "mcpJobList \<Rightarrow> string \<Rightarrow> mcpJob \<Rightarrow> mcpJobList" where
  "set_job l jid j = l\<lparr> l_jobs := AList.update jid j (l_jobs l) \<rparr>"

section \<open>Scopes\<close>

record mcpJobScopeKey =
  sk_user :: string
  sk_conversation :: string

type_synonym mcpJobManager = "mcpJobScopeKey \<rightharpoonup> mcpJobList"

definition manager_list :: "mcpJobScopeKey \<Rightarrow> mcpJobManager \<Rightarrow> mcpJobList \<times> mcpJobManager" where
  "manager_list key m = (case m key of Some l \<Rightarrow> (l, m) | None \<Rightarrow> (newMCPJobList, m(key \<mapsto> newMCPJobList)))"

text \<open>A request: the user of the context, the conversation header if there are headers, the conversation of the parameters if there is one.\<close>

record tool_request =
  tq_user :: string
  tq_header :: "string option"
  tq_meta :: "string option"

datatype scope_err = ScopeNoUser | ScopeNoConversation

definition mcpJobScopeFromRequest :: "tool_request \<Rightarrow> scope_err + mcpJobScopeKey" where
  "mcpJobScopeFromRequest req =
     (if tq_user req = [] then Inl ScopeNoUser
      else case tq_header req of
             Some c \<Rightarrow>
               if TrimSpace c \<noteq> [] then Inr \<lparr> sk_user = tq_user req, sk_conversation = c \<rparr>
               else (case tq_meta req of
                       Some c' \<Rightarrow> if TrimSpace c' \<noteq> [] then Inr \<lparr> sk_user = tq_user req, sk_conversation = c' \<rparr> else Inl ScopeNoConversation
                     | None \<Rightarrow> Inl ScopeNoConversation)
           | None \<Rightarrow>
               (case tq_meta req of
                  Some c' \<Rightarrow> if TrimSpace c' \<noteq> [] then Inr \<lparr> sk_user = tq_user req, sk_conversation = c' \<rparr> else Inl ScopeNoConversation
                | None \<Rightarrow> Inl ScopeNoConversation))"

section \<open>Selecting jobs\<close>

text \<open>
  What \<^verbatim>\<open>Sscanf\<close> with \<^verbatim>\<open>j%d\<close> reads from an ID of the form the list gives out. \<open>order\<close> is the order in which the runtime visits the keys
  of the map, an arbitrary permutation.
\<close>

definition jobNum :: "string \<Rightarrow> nat" where
  "jobNum jid = (case jid of [] \<Rightarrow> 0 | c # ds \<Rightarrow> if c = CHR ''j'' then (case ParseUint 64 ds of None \<Rightarrow> 0 | Some n \<Rightarrow> n) else 0)"

fun selectIds :: "mcpJobList \<Rightarrow> string list \<Rightarrow> string list \<Rightarrow> string + mcpJob list" where
  "selectIds l seen [] = Inr []"
| "selectIds l seen (jid # ids) =
     (if jid \<in> set seen then selectIds l seen ids
      else case job_of l jid of
             None \<Rightarrow> Inl jid
           | Some j \<Rightarrow> rbind (selectIds l (jid # seen) ids) (\<lambda>js. Inr (j # js)))"

definition selectJobsLocked :: "(string list \<Rightarrow> string list) \<Rightarrow> mcpJobList \<Rightarrow> string list \<Rightarrow> string + mcpJob list" where
  "selectJobsLocked order l ids = selectIds l [] (if ids = [] then sort_key jobNum (order (map fst (l_jobs l))) else ids)"

record mcpJobStatus =
  js_ID :: string
  js_Label :: string
  js_State :: mcpJobState
  js_Frame :: string
  js_Workdir :: string
  js_User :: string
  js_Log :: string
  js_Bytes :: nat
  js_ExitCode :: "int option"
  js_StartedAt :: int
  js_EndedAt :: "int option"
  js_ElapsedMS :: int

definition jobStatusLocked :: "mcpJob \<Rightarrow> int \<Rightarrow> mcpJobStatus" where
  "jobStatusLocked j now =
     \<lparr> js_ID = j_id j, js_Label = j_label j, js_State = j_state j, js_Frame = j_frame j, js_Workdir = j_workdir j, js_User = j_unixUser j,
       js_Log = j_combinedLog j, js_Bytes = j_combinedBytes j, js_ExitCode = j_exitCode j, js_StartedAt = j_startedAt j, js_EndedAt = j_endedAt j,
       js_ElapsedMS = ((case j_endedAt j of None \<Rightarrow> now | Some e \<Rightarrow> e) - j_startedAt j) div 1000000 \<rparr>"

definition statusesLocked :: "int \<Rightarrow> mcpJob list \<Rightarrow> mcpJobStatus list" where
  "statusesLocked now jobs = map (\<lambda>j. jobStatusLocked j now) jobs"

section \<open>Output of jobs\<close>

definition mcpMaxViewOutput :: nat where "mcpMaxViewOutput = 16000"

record mcpWaitJob =
  wj_ID :: string
  wj_Offset :: int

record mcpWaitStatus =
  ws_ID :: string
  ws_State :: mcpJobState
  ws_ExitCode :: "int option"
  ws_Output :: bytes
  ws_NextOffset :: int

datatype wait_err = BadOffset int string | NoFrame | NoLog

text \<open>The end of the last complete line: behind the last line feed or carriage return.\<close>

definition line_break :: "byte \<Rightarrow> bool" where "line_break b \<longleftrightarrow> b = 10 \<or> b = 13"

definition lastLineEnd :: "bytes \<Rightarrow> nat" where
  "lastLineEnd data = length (dropWhile (\<lambda>b. \<not> line_break b) (rev data))"

text \<open>What is returned of the log \<open>content\<close> of a job from \<open>offset\<close> on.\<close>

definition waitData :: "mcpJob \<Rightarrow> bytes \<Rightarrow> nat \<Rightarrow> bytes" where
  "waitData j content offset =
     (let data = take mcpMaxViewOutput (slice_of content offset (j_combinedBytes j))
      in if terminal j then data else take (lastLineEnd data) data)"

definition waitStatus :: "(mcpJob \<Rightarrow> wait_err + bytes) \<Rightarrow> mcpJob \<Rightarrow> int \<Rightarrow> wait_err + mcpWaitStatus" where
  "waitStatus readLog j offset =
     (if offset < 0 \<or> offset > int (j_combinedBytes j) then Inl (BadOffset offset (j_id j))
      else rbind (readLog j) (\<lambda>content.
             let data = waitData j content (nat offset)
             in Inr \<lparr> ws_ID = j_id j, ws_State = j_state j, ws_ExitCode = j_exitCode j, ws_Output = ToValidUTF8 data,
                      ws_NextOffset = offset + int (length data) \<rparr>))"

definition offsetOf :: "mcpWaitJob list \<Rightarrow> string \<Rightarrow> int" where
  "offsetOf requested jid = (case map_of (rev (map (\<lambda>r. (wj_ID r, wj_Offset r)) requested)) jid of None \<Rightarrow> 0 | Some n \<Rightarrow> n)"

fun waitStatuses :: "(mcpJob \<Rightarrow> wait_err + bytes) \<Rightarrow> mcpWaitJob list \<Rightarrow> mcpJob list \<Rightarrow> wait_err + mcpWaitStatus list" where
  "waitStatuses readLog requested [] = Inr []"
| "waitStatuses readLog requested (j # jobs) =
     rbind (waitStatus readLog j (offsetOf requested (j_id j))) (\<lambda>s.
     rbind (waitStatuses readLog requested jobs) (\<lambda>ss. Inr (s # ss)))"

section \<open>Durations\<close>

text \<open>\<^verbatim>\<open>time.Duration (n) * time.Second\<close> is a product of 64-bit integers.\<close>

definition seconds :: "int \<Rightarrow> int" where
  "seconds n = (n * 1000000000 + 2 ^ 63) mod 2 ^ 64 - 2 ^ 63"

definition mcpJobMaxHardTimeout :: int where "mcpJobMaxHardTimeout = 2 * 3600 * 1000000000"
definition mcpJobDefaultHardTimeout :: int where "mcpJobDefaultHardTimeout = 2 * 3600 * 1000000000"
definition mcpJobWaitDefaultTimeout :: int where "mcpJobWaitDefaultTimeout = 30 * 1000000000"
definition mcpJobWaitMaxTimeout :: int where "mcpJobWaitMaxTimeout = 60 * 1000000000"

definition hardTimeout :: "int \<Rightarrow> int" where
  "hardTimeout n = (if n > 0 then (if seconds n > mcpJobMaxHardTimeout then mcpJobMaxHardTimeout else seconds n) else mcpJobDefaultHardTimeout)"

definition waitTimeout :: "int \<Rightarrow> int" where
  "waitTimeout n = (if n > 0 then min (seconds n) mcpJobWaitMaxTimeout else mcpJobWaitDefaultTimeout)"

lemma hardTimeout_bounds:
  assumes "0 < n" "n < 2 ^ 63 div 1000000000"
  shows "0 < hardTimeout n \<and> hardTimeout n \<le> mcpJobMaxHardTimeout"
proof -
  have "seconds n = n * 1000000000" using assms by (simp add: seconds_def)
  then show ?thesis using assms by (simp add: hardTimeout_def mcpJobMaxHardTimeout_def)
qed

text \<open>A timeout too large for the product to fit is not cut to the maximum: it becomes negative, and the job is stopped at once.\<close>

lemma huge_timeout_fires_at_once: "hardTimeout 10000000000 < 0" "waitTimeout 10000000000 < 0"
  by (simp_all add: hardTimeout_def waitTimeout_def seconds_def mcpJobMaxHardTimeout_def mcpJobWaitMaxTimeout_def)

section \<open>Directories of logs\<close>

definition hex_digit :: "nat \<Rightarrow> char" where
  "hex_digit n = (if n < 10 then char_of (48 + n) else char_of (87 + n))"

definition hex_string :: "bytes \<Rightarrow> string" where
  "hex_string b = concat (map (\<lambda>x. [hex_digit (unat x div 16), hex_digit (unat x mod 16)]) b)"

definition mcpJobScopeDir :: "mcpJobScopeKey \<Rightarrow> string" where
  "mcpJobScopeDir key = hex_string (take 12 (sha256 (str_bytes (sk_user key) @ [0] @ str_bytes (sk_conversation key))))"

definition jobID :: "u64 \<Rightarrow> string" where
  "jobID n = ''j'' @ dec_str (unat n)"

datatype log_err = LogEscapes | LogRoot | LogDir | LogFile

record log_ok =
  lo_mkdirAll :: bool
  lo_mkdir :: "string \<Rightarrow> bool"
  lo_openLog :: "string \<Rightarrow> bool"

text \<open>
  The loop of \<^verbatim>\<open>createMCPJobLog\<close>: \<open>existing\<close> are the directories already in the scope's log directory. With fuel for one more attempt than
  there are directories it always ends.
\<close>

fun allocLoop :: "nat \<Rightarrow> log_ok \<Rightarrow> string list \<Rightarrow> mcpJobList \<Rightarrow> ((log_err + string) \<times> mcpJobList \<times> string list) option" where
  "allocLoop 0 ok existing l = None"
| "allocLoop (Suc fuel) ok existing l =
     (let n = l_nextID l + 1; jid = jobID n; l1 = l\<lparr> l_nextID := n \<rparr> in
      if jid \<in> set existing then allocLoop fuel ok existing l1
      else if \<not> lo_mkdir ok jid then Some (Inl LogDir, l1, existing)
      else if \<not> lo_openLog ok jid then Some (Inl LogFile, l1, existing)
      else Some (Inr jid, l1, jid # existing))"

definition logRootInFrame :: "mcpJobScopeKey \<Rightarrow> string" where
  "logRootInFrame key = filepath_Join [''/tmp/.ts/jobs'', mcpJobScopeDir key]"

definition createMCPJobLog ::
  "string \<Rightarrow> log_ok \<Rightarrow> mcpJobScopeKey \<Rightarrow> string \<Rightarrow> string list \<Rightarrow> mcpJobList \<Rightarrow> ((log_err + string) \<times> mcpJobList \<times> string list) option" where
  "createMCPJobLog cwd ok key rootFS existing l =
     (let logRootHost = filepath_Join [rootFS, TrimPrefix (logRootInFrame key) ''/''] in
      if \<not> isWithinRootFS cwd logRootHost rootFS then Some (Inl LogEscapes, l, existing)
      else if \<not> lo_mkdirAll ok then Some (Inl LogRoot, l, existing)
      else allocLoop (Suc (length existing)) ok existing l)"

section \<open>Launching\<close>

record launch_env =
  le_cwd :: string
  le_resolve :: "string \<Rightarrow> string \<Rightarrow> (string \<times> string) option"
  le_prepare :: "string \<Rightarrow> bool"
  le_isDir :: "string \<Rightarrow> bool"
  le_control :: "string \<Rightarrow> bool"
  le_vshd :: bool
  le_dial :: bool
  le_log :: log_ok

record launch_params =
  lp_Command :: string
  lp_Frame :: string
  lp_Workdir :: string
  lp_Label :: string
  lp_User :: string
  lp_HardTimeout :: int

datatype launch_err =
    LaunchInput | LaunchScope scope_err | CommandRequired | LaunchUser | LaunchResolve | LaunchPrepare | WorkdirEscapes | WorkdirInvalid
  | ControlFailed | LaunchLog log_err | VshdFailed | DialFailed | OutOfFuel

text \<open>
  The state a launch works on: the job list, the directories in the log directory, and the number of references to the control
  server of each frame that jobs hold.
\<close>

record launch_state =
  la_list :: mcpJobList
  la_logs :: "string list"
  la_held :: "string \<Rightarrow> int"

definition hold :: "string \<Rightarrow> int \<Rightarrow> launch_state \<Rightarrow> launch_state" where
  "hold rootFS n s = s\<lparr> la_held := (la_held s)(rootFS := la_held s rootFS + n) \<rparr>"

definition newMCPJob :: "string \<Rightarrow> launch_params \<Rightarrow> string \<Rightarrow> mcpJobScopeKey \<Rightarrow> int \<Rightarrow> mcpJob" where
  "newMCPJob jid p uuid key now =
     \<lparr> j_id = jid, j_label = lp_Label p, j_command = lp_Command p, j_workdir = (if lp_Workdir p = [] then ''/work'' else lp_Workdir p),
       j_unixUser = lp_User p, j_frame = uuid, j_combinedLog = filepath_Join [filepath_Join [logRootInFrame key, jid], ''combined.log''],
       j_state = JobRunning, j_startedAt = now, j_endedAt = None, j_exitCode = None, j_combinedBytes = 0, j_outputRevision = 0,
       j_endRevision = 0, j_conn = True, j_stopReason = None \<rparr>"

definition registerJob :: "mcpJob \<Rightarrow> mcpJobList \<Rightarrow> mcpJobList" where
  "registerJob j l = notifyLocked (set_job l (j_id j) j)"

text \<open>The command line that is sent to the session server, with the working directory quoted.\<close>

definition wrappedCommand :: "launch_params \<Rightarrow> string" where
  "wrappedCommand p = ''cd '' @ shellQuote (if lp_Workdir p = [] then ''/work'' else lp_Workdir p) @ '' && '' @ lp_Command p"

text \<open>The rest of a launch once the control server is acquired: on every error the deferred call returns the reference.\<close>

definition startJob ::
  "launch_env \<Rightarrow> mcpJobScopeKey \<Rightarrow> launch_params \<Rightarrow> int \<Rightarrow> string \<Rightarrow> string \<Rightarrow> launch_state \<Rightarrow> (launch_err + string) \<times> launch_state" where
  "startJob env key p now rootFS uuid s =
     (case createMCPJobLog (le_cwd env) (le_log env) key rootFS (la_logs s) (la_list s) of
        None \<Rightarrow> (Inl OutOfFuel, s)
      | Some (Inl e, l, logs) \<Rightarrow> (Inl (LaunchLog e), hold rootFS (-1) (s\<lparr> la_list := l, la_logs := logs \<rparr>))
      | Some (Inr jid, l, logs) \<Rightarrow>
          let s2 = s\<lparr> la_list := l, la_logs := logs \<rparr> in
          if \<not> le_vshd env then (Inl VshdFailed, hold rootFS (-1) s2)
          else if \<not> le_dial env then (Inl DialFailed, hold rootFS (-1) s2)
          else (Inr jid, s2\<lparr> la_list := registerJob (newMCPJob jid p uuid key now) (la_list s2) \<rparr>))"

definition mcpBashToolHandler ::
  "launch_env \<Rightarrow> (scope_err + mcpJobScopeKey) \<Rightarrow> launch_params option \<Rightarrow> int \<Rightarrow> launch_state \<Rightarrow> (launch_err + string) \<times> launch_state" where
  "mcpBashToolHandler env scope params now s =
     (case scope of
        Inl e \<Rightarrow> (Inl (LaunchScope e), s)
      | Inr key \<Rightarrow>
          (case params of
             None \<Rightarrow> (Inl LaunchInput, s)
           | Some p \<Rightarrow>
               let workdir = (if lp_Workdir p = [] then ''/work'' else lp_Workdir p) in
               if lp_Command p = [] then (Inl CommandRequired, s)
               else if lp_User p \<noteq> ''user'' \<and> lp_User p \<noteq> ''root'' then (Inl LaunchUser, s)
               else (case le_resolve env (sk_user key) (lp_Frame p) of
                 None \<Rightarrow> (Inl LaunchResolve, s)
               | Some (rootFS, uuid) \<Rightarrow>
                   let workdirHost = filepath_Join [rootFS, toolRel workdir] in
                   if \<not> le_prepare env rootFS then (Inl LaunchPrepare, s)
                   else if \<not> isWithinRootFS (le_cwd env) workdirHost rootFS then (Inl WorkdirEscapes, s)
                   else if \<not> le_isDir env workdirHost then (Inl WorkdirInvalid, s)
                   else if \<not> le_control env rootFS then (Inl ControlFailed, s)
                   else startJob env key p now rootFS uuid (hold rootFS 1 s))))"

section \<open>Stopping and collecting\<close>

text \<open>\<^verbatim>\<open>requestMCPJobStop\<close>: the list, and whether the connection is closed.\<close>

definition requestMCPJobStop :: "string \<Rightarrow> mcpJobState \<Rightarrow> mcpJobList \<Rightarrow> mcpJobList \<times> bool" where
  "requestMCPJobStop jid reason l =
     (case job_of l jid of
        None \<Rightarrow> (l, False)
      | Some j \<Rightarrow>
          if terminal j \<or> j_stopReason j \<noteq> None then (l, False)
          else (notifyLocked (set_job l jid (j\<lparr> j_stopReason := Some reason \<rparr>)), j_conn j))"

text \<open>The three regions of \<^verbatim>\<open>collectMCPJob\<close>.\<close>

definition countOutput :: "string \<Rightarrow> nat \<Rightarrow> mcpJobList \<Rightarrow> mcpJobList" where
  "countOutput jid n l =
     (case job_of l jid of
        None \<Rightarrow> l
      | Some j \<Rightarrow>
          notifyLocked (set_job l jid (j\<lparr> j_combinedBytes := j_combinedBytes j + n, j_outputRevision := l_revision l + 1 \<rparr>)))"

definition recordExit :: "string \<Rightarrow> bytes \<Rightarrow> mcpJobList \<Rightarrow> mcpJobList" where
  "recordExit jid payload l =
     (case (DecodeExit payload, job_of l jid) of
        (Some code, Some j) \<Rightarrow> set_job l jid (j\<lparr> j_exitCode := Some (sint code) \<rparr>)
      | _ \<Rightarrow> l)"

definition finishMCPJob :: "string \<Rightarrow> bool \<Rightarrow> int \<Rightarrow> mcpJobList \<Rightarrow> mcpJobList" where
  "finishMCPJob jid gotExit now l =
     (case job_of l jid of
        None \<Rightarrow> l
      | Some j \<Rightarrow>
          notifyLocked (set_job l jid (j\<lparr>
            j_state := (case j_stopReason j of Some r \<Rightarrow> r | None \<Rightarrow> if gotExit then JobExited else JobLost),
            j_conn := False, j_endedAt := Some now, j_endRevision := l_revision l + 1 \<rparr>)))"

text \<open>The collector when nothing else happens, on everything its connection delivers: the list and the log.\<close>

function collectMCPJob :: "string \<Rightarrow> int \<Rightarrow> bytes \<Rightarrow> mcpJobList \<times> bytes \<Rightarrow> mcpJobList \<times> bytes" where
  "collectMCPJob jid now input st =
     (case ReadFrame input of
        Inl e \<Rightarrow> (finishMCPJob jid False now (fst st), snd st)
      | Inr ((typ, payload), rest) \<Rightarrow>
          if is_output typ then collectMCPJob jid now rest (countOutput jid (length payload) (fst st), snd st @ payload)
          else if typ = FrameExit then (finishMCPJob jid True now (recordExit jid payload (fst st)), snd st)
          else collectMCPJob jid now rest st)"
  by pat_completeness auto
termination
  by (relation "measure (\<lambda>(jid, now, input, st). length input)") (auto dest!: ReadFrame_shorter)

declare collectMCPJob.simps [simp del]

section \<open>Waiting\<close>

definition ToUpper :: "string \<Rightarrow> string" where
  "ToUpper s = map (\<lambda>c. let n = of_char c :: nat in if 97 \<le> n \<and> n \<le> 122 then char_of (n - 32) else c) s"

definition jobSignals :: "(string \<times> nat) list" where
  "jobSignals = [(''HUP'', 1), (''INT'', 2), (''TERM'', 15), (''USR1'', 10), (''USR2'', 12), (''STOP'', 19), (''CONT'', 18)]"

definition parseJobSignal :: "string \<Rightarrow> nat option" where
  "parseJobSignal name = (if name = [] then Some 0 else map_of jobSignals (TrimPrefix (ToUpper name) ''SIG''))"

definition signalTargets :: "mcpJob list \<Rightarrow> string list" where
  "signalTargets jobs = map j_id (filter (\<lambda>j. \<not> terminal j \<and> j_conn j) jobs)"

definition satisfied :: "string \<Rightarrow> mcpWaitStatus list \<Rightarrow> mcpJob list \<Rightarrow> bool" where
  "satisfied until statuses jobs =
     (if until = ''output'' then list_ex (\<lambda>s. ws_Output s \<noteq> [] \<or> ws_State s \<noteq> JobRunning) statuses
      else if until = ''any_exit'' then list_ex terminal jobs
      else list_all terminal jobs)"

datatype wait_outcome = WaitUnknown string | WaitErr wait_err | WaitDone "mcpWaitStatus list" | WaitSleep nat

text \<open>One round of the loop of \<^verbatim>\<open>mcpJobsWaitToolHandler\<close>: it returns, or sleeps until the channel it has seen is closed.\<close>

definition waitRound ::
  "(string list \<Rightarrow> string list) \<Rightarrow> (mcpJob \<Rightarrow> wait_err + bytes) \<Rightarrow> string \<Rightarrow> mcpWaitJob list \<Rightarrow> mcpJobList \<Rightarrow> wait_outcome" where
  "waitRound order readLog until requested l =
     (case selectJobsLocked order l (map wj_ID requested) of
        Inl u \<Rightarrow> WaitUnknown u
      | Inr jobs \<Rightarrow>
          (case waitStatuses readLog requested jobs of
             Inl e \<Rightarrow> WaitErr e
           | Inr ss \<Rightarrow> if satisfied until ss jobs then WaitDone ss else WaitSleep (l_changed l)))"

text \<open>After its timeout the request returns what there is.\<close>

definition waitExpired ::
  "(string list \<Rightarrow> string list) \<Rightarrow> (mcpJob \<Rightarrow> wait_err + bytes) \<Rightarrow> mcpWaitJob list \<Rightarrow> mcpJobList \<Rightarrow> wait_outcome" where
  "waitExpired order readLog requested l =
     (case selectJobsLocked order l (map wj_ID requested) of
        Inl u \<Rightarrow> WaitUnknown u
      | Inr jobs \<Rightarrow> (case waitStatuses readLog requested jobs of Inl e \<Rightarrow> WaitErr e | Inr ss \<Rightarrow> WaitDone ss))"

text \<open>One round of the loop of \<^verbatim>\<open>mcpJobsKillToolHandler\<close>, for the jobs it has stopped.\<close>

definition killRound :: "string list \<Rightarrow> mcpJobList \<Rightarrow> wait_outcome" where
  "killRound ids l = (if list_all (\<lambda>jid. case job_of l jid of None \<Rightarrow> False | Some j \<Rightarrow> terminal j) ids then WaitDone [] else WaitSleep (l_changed l))"

section \<open>Several launches\<close>

fun launchAll :: "launch_env \<Rightarrow> (scope_err + mcpJobScopeKey) \<Rightarrow> int \<Rightarrow> launch_params option list \<Rightarrow> launch_state \<Rightarrow> (launch_err option \<times> string list) \<times> launch_state" where
  "launchAll env scope now [] s = ((None, []), s)"
| "launchAll env scope now (p # ps) s =
     (case mcpBashToolHandler env scope p now s of
        (Inl e, s') \<Rightarrow> ((Some e, []), s')
      | (Inr jid, s') \<Rightarrow> (case launchAll env scope now ps s' of ((r, ids), s'') \<Rightarrow> ((r, jid # ids), s'')))"

text \<open>The requests themselves. \<^verbatim>\<open>jobs\<close> launches in order and then waits for what it has launched, or reports it.\<close>

record wait_params =
  wp_Jobs :: "mcpWaitJob list"
  wp_Until :: string
  wp_Timeout :: int
  wp_PreSignal :: string

record jobs_params =
  jp_Launch :: "launch_params option list"
  jp_Wait :: "wait_params option"

datatype jobs_err =
    JobsScope scope_err | JobsInput | NothingRequested | JobsGiven | LaunchFailed "string list" launch_err | UnknownJob string
  | InvalidUntil | InvalidSignal | IDsRequired

datatype jobs_result = Started "mcpJobStatus list" | WaitFor wait_params

definition mcpJobsToolHandler ::
  "launch_env \<Rightarrow> (string list \<Rightarrow> string list) \<Rightarrow> (scope_err + mcpJobScopeKey) \<Rightarrow> jobs_params option \<Rightarrow> int \<Rightarrow> launch_state \<Rightarrow>
   (jobs_err + jobs_result) \<times> launch_state" where
  "mcpJobsToolHandler env order scope params now s =
     (case scope of
        Inl e \<Rightarrow> (Inl (JobsScope e), s)
      | Inr key \<Rightarrow>
          (case params of
             None \<Rightarrow> (Inl JobsInput, s)
           | Some p \<Rightarrow>
               if jp_Launch p = [] \<and> jp_Wait p = None then (Inl NothingRequested, s)
               else if jp_Launch p \<noteq> [] \<and> (case jp_Wait p of None \<Rightarrow> False | Some w \<Rightarrow> wp_Jobs w \<noteq> []) then (Inl JobsGiven, s)
               else
                 (case launchAll env scope now (jp_Launch p) s of
                    ((Some e, ids), s') \<Rightarrow> (Inl (LaunchFailed ids e), s')
                  | ((None, ids), s') \<Rightarrow>
                      (case jp_Wait p of
                         Some w \<Rightarrow> (Inr (WaitFor (if ids \<noteq> [] then w\<lparr> wp_Jobs := map (\<lambda>i. \<lparr> wj_ID = i, wj_Offset = 0 \<rparr>) ids \<rparr> else w)), s')
                       | None \<Rightarrow>
                           (case selectJobsLocked order (la_list s') ids of
                              Inl u \<Rightarrow> (Inl (UnknownJob u), s')
                            | Inr jobs \<Rightarrow> (Inr (Started (statusesLocked now jobs)), s'))))))"

definition mcpJobsListToolHandler ::
  "(string list \<Rightarrow> string list) \<Rightarrow> (scope_err + mcpJobScopeKey) \<Rightarrow> string list option \<Rightarrow> int \<Rightarrow> mcpJobList \<Rightarrow> jobs_err + u64 \<times> mcpJobStatus list" where
  "mcpJobsListToolHandler order scope ids now l =
     (case scope of
        Inl e \<Rightarrow> Inl (JobsScope e)
      | Inr key \<Rightarrow>
          (case ids of
             None \<Rightarrow> Inl JobsInput
           | Some is \<Rightarrow>
               (case selectJobsLocked order l is of
                  Inl u \<Rightarrow> Inl (UnknownJob u)
                | Inr jobs \<Rightarrow> Inr (l_revision l, statusesLocked now jobs))))"

text \<open>What a wait request does before its loop: the condition, the signal and the time limit.\<close>

definition mcpJobsWaitToolHandler :: "(scope_err + mcpJobScopeKey) \<Rightarrow> wait_params option \<Rightarrow> jobs_err + string \<times> nat \<times> int \<times> mcpWaitJob list" where
  "mcpJobsWaitToolHandler scope params =
     (case scope of
        Inl e \<Rightarrow> Inl (JobsScope e)
      | Inr key \<Rightarrow>
          (case params of
             None \<Rightarrow> Inl JobsInput
           | Some w \<Rightarrow>
               let until = (if wp_Until w = [] then ''any_exit'' else wp_Until w) in
               if until \<noteq> ''output'' \<and> until \<noteq> ''any_exit'' \<and> until \<noteq> ''all_exit'' then Inl InvalidUntil
               else (case parseJobSignal (wp_PreSignal w) of
                       None \<Rightarrow> Inl InvalidSignal
                     | Some sig \<Rightarrow> Inr (until, sig, waitTimeout (wp_Timeout w), wp_Jobs w))))"

text \<open>A kill request stops every job it names; the loop that follows is \<open>killRound\<close>.\<close>

fun stopAll :: "string list \<Rightarrow> mcpJobList \<Rightarrow> mcpJobList \<times> string list" where
  "stopAll [] l = (l, [])"
| "stopAll (jid # ids) l =
     (case requestMCPJobStop jid JobKilled l of
        (l1, closed) \<Rightarrow> (case stopAll ids l1 of (l2, cs) \<Rightarrow> (l2, if closed then jid # cs else cs)))"

definition mcpJobsKillToolHandler ::
  "(string list \<Rightarrow> string list) \<Rightarrow> (scope_err + mcpJobScopeKey) \<Rightarrow> string list option \<Rightarrow> mcpJobList \<Rightarrow> jobs_err + (mcpJobList \<times> string list) \<times> string list" where
  "mcpJobsKillToolHandler order scope ids l =
     (case scope of
        Inl e \<Rightarrow> Inl (JobsScope e)
      | Inr key \<Rightarrow>
          (case ids of
             None \<Rightarrow> Inl JobsInput
           | Some is \<Rightarrow>
               if is = [] then Inl IDsRequired
               else (case selectJobsLocked order l is of
                       Inl u \<Rightarrow> Inl (UnknownJob u)
                     | Inr jobs \<Rightarrow> Inr (stopAll (map j_id jobs) l, map j_id jobs))))"

section \<open>A new log directory\<close>

lemma jobID_inj: "jobID a = jobID b \<Longrightarrow> a = b"
proof -
  assume "jobID a = jobID b"
  then have "digits_val 0 (dec_str (unat a)) = digits_val 0 (dec_str (unat b))" by (simp add: jobID_def)
  then show "a = b" by (simp add: digits_val_dec_str word_unat_eq_iff)
qed

lemma allocLoop_None:
  "allocLoop fuel ok existing l = None \<Longrightarrow> k < fuel \<Longrightarrow> jobID (l_nextID l + 1 + word_of_nat k) \<in> set existing"
proof (induction fuel ok existing l arbitrary: k rule: allocLoop.induct)
  case (2 fuel ok existing l)
  have a: "jobID (l_nextID l + 1) \<in> set existing" using "2.prems"(1) by (auto simp: Let_def split: if_splits)
  show ?case
  proof (cases k)
    case 0
    with a show ?thesis by simp
  next
    case (Suc m)
    have "allocLoop fuel ok existing (l\<lparr> l_nextID := l_nextID l + 1 \<rparr>) = None" using "2.prems"(1) a by (simp add: Let_def)
    from "2.IH" [OF refl refl refl a this, of m] "2.prems"(2) Suc show ?thesis by (simp add: algebra_simps)
  qed
qed simp

lemma allocLoop_ends:
  assumes "length existing < 2 ^ 64 - 1"
  shows "allocLoop (Suc (length existing)) ok existing l \<noteq> None"
proof
  assume none: "allocLoop (Suc (length existing)) ok existing l = None"
  let ?f = "\<lambda>k :: nat. jobID (l_nextID l + 1 + word_of_nat k)" and ?K = "{..length existing}"
  have "inj_on ?f ?K"
  proof (rule inj_onI)
    fix a b assume ab: "a \<in> ?K" "b \<in> ?K" "?f a = ?f b"
    then have "(word_of_nat a :: u64) = word_of_nat b" by (auto dest: jobID_inj)
    then have "unat (word_of_nat a :: u64) = unat (word_of_nat b :: u64)" by simp
    then show "a = b" using ab(1,2) assms by (simp add: unat_of_nat take_bit_eq_mod)
  qed
  then have "card (?f ` ?K) = Suc (length existing)" by (simp add: card_image)
  moreover have "?f ` ?K \<subseteq> set existing" using allocLoop_None [OF none] by auto
  ultimately have "Suc (length existing) \<le> card (set existing)" by (metis List.finite_set card_mono)
  then show False using card_length [of existing] by simp
qed

lemma allocLoop_fresh:
  "allocLoop fuel ok existing l = Some (Inr jid, l', existing') \<Longrightarrow>
     jid \<notin> set existing \<and> existing' = jid # existing \<and> l_jobs l' = l_jobs l \<and> l_changed l' = l_changed l"
  by (induction fuel ok existing l rule: allocLoop.induct) (auto simp: Let_def split: if_splits)

lemma allocLoop_err:
  "allocLoop fuel ok existing l = Some (Inl e, l', existing') \<Longrightarrow> existing' = existing \<and> l_jobs l' = l_jobs l"
  by (induction fuel ok existing l rule: allocLoop.induct) (auto simp: Let_def split: if_splits)

declare allocLoop.simps [simp del]


definition ex_key :: mcpJobScopeKey where "ex_key = \<lparr> sk_user = ''u'', sk_conversation = ''c'' \<rparr>"

definition ex_launch_env :: launch_env where
  "ex_launch_env = \<lparr> le_cwd = ''/'', le_resolve = (\<lambda>u f. Some (''/f'', ''i'')), le_prepare = (\<lambda>_. True), le_isDir = (\<lambda>_. True), le_control = (\<lambda>_. True),
     le_vshd = False, le_dial = True, le_log = \<lparr> lo_mkdirAll = True, lo_mkdir = (\<lambda>_. True), lo_openLog = (\<lambda>_. True) \<rparr> \<rparr>"

definition ex_params :: launch_params where
  "ex_params = \<lparr> lp_Command = ''true'', lp_Frame = ''f'', lp_Workdir = [], lp_Label = [], lp_User = ''user'', lp_HardTimeout = 0 \<rparr>"

definition ex_launch_state :: launch_state where
  "ex_launch_state = \<lparr> la_list = newMCPJobList, la_logs = [''j1''], la_held = (\<lambda>_. 0) \<rparr>"


section \<open>Reading the output of a job\<close>

text \<open>A poll of a job from an offset inside its log, as a client sees it: the raw bytes.\<close>

lemma lastLineEnd_le: "lastLineEnd d \<le> length d"
  using length_dropWhile_le [of _ "rev d"] by (simp add: lastLineEnd_def)

lemma lastLineEnd_line: "lastLineEnd d \<noteq> 0 \<Longrightarrow> line_break (last (take (lastLineEnd d) d))"
proof -
  assume nz: "lastLineEnd d \<noteq> 0"
  let ?w = "dropWhile (\<lambda>b. \<not> line_break b) (rev d)"
  have "rev d = takeWhile (\<lambda>b. \<not> line_break b) (rev d) @ ?w" by simp
  then have "d = rev ?w @ rev (takeWhile (\<lambda>b. \<not> line_break b) (rev d))" by (metis rev_append rev_rev_ident)
  then have "take (lastLineEnd d) d = rev ?w" unfolding lastLineEnd_def by (metis append_eq_conv_conj length_rev)
  moreover have "?w \<noteq> []" using nz by (auto simp: lastLineEnd_def)
  ultimately show ?thesis using hd_dropWhile [of "\<lambda>b. \<not> line_break b" "rev d"] by (simp add: last_rev)
qed

lemma waitData_prefix:
  assumes "offset \<le> j_combinedBytes j" "j_combinedBytes j \<le> length content"
  shows "waitData j content offset = slice_of content offset (offset + length (waitData j content offset))"
    "offset + length (waitData j content offset) \<le> j_combinedBytes j"
    "length (waitData j content offset) \<le> mcpMaxViewOutput"
proof -
  let ?d = "slice_of content offset (j_combinedBytes j)"
  have l: "length ?d = j_combinedBytes j - offset" using assms by (simp add: length_slice)
  obtain k where k: "waitData j content offset = take k ?d" "k \<le> mcpMaxViewOutput"
    by (cases "terminal j") (auto simp: waitData_def Let_def min_def)
  then show "waitData j content offset = slice_of content offset (offset + length (waitData j content offset))"
    using l assms by (simp add: slice_of_def min_def)
  show "offset + length (waitData j content offset) \<le> j_combinedBytes j" "length (waitData j content offset) \<le> mcpMaxViewOutput"
    using k l assms by auto
qed

text \<open>
  A client that polls: each poll continues where the last one ended, while the job may go on writing. \<open>polls\<close> are the states of the job and
  its log at the polls, the result is the raw data in order and the final offset.
\<close>

fun pollAll :: "(mcpJob \<times> bytes) list \<Rightarrow> nat \<Rightarrow> bytes \<times> nat" where
  "pollAll [] offset = ([], offset)"
| "pollAll ((j, content) # ps) offset =
     (let d = waitData j content offset; (ds, end) = pollAll ps (offset + length d) in (d @ ds, end))"

text \<open>Logs only grow, and the counted bytes are in the log.\<close>

fun growing :: "bytes \<Rightarrow> (mcpJob \<times> bytes) list \<Rightarrow> bool" where
  "growing before [] \<longleftrightarrow> True"
| "growing before ((j, content) # ps) \<longleftrightarrow>
     length before \<le> j_combinedBytes j \<and> j_combinedBytes j \<le> length content \<and> HasPrefix content before \<and>
     growing (take (j_combinedBytes j) content) ps"

lemma HasPrefix_take: "HasPrefix s p \<Longrightarrow> k \<le> length p \<Longrightarrow> take k s = take k p"
  by (metis HasPrefix_def min.absorb2 min.commute take_take)

fun finalLog :: "bytes \<Rightarrow> (mcpJob \<times> bytes) list \<Rightarrow> bytes" where
  "finalLog before [] = before"
| "finalLog before ((j, content) # ps) = finalLog (take (j_combinedBytes j) content) ps"

lemma finalLog_prefix: "growing before ps \<Longrightarrow> HasPrefix (finalLog before ps) before"
proof (induction before ps rule: finalLog.induct)
  case (2 before j content ps)
  then obtain q where q: "finalLog before ((j, content) # ps) = take (j_combinedBytes j) content @ q" by (auto simp: HasPrefix_iff)
  obtain w where "content = before @ w" using "2.prems" by (auto simp: HasPrefix_iff)
  with q "2.prems" show ?case by (simp add: HasPrefix_iff)
qed (simp add: HasPrefix_def)

lemma slice_prefix: "HasPrefix xs p \<Longrightarrow> b \<le> length p \<Longrightarrow> slice_of xs a b = slice_of p a b"
  by (auto simp: HasPrefix_iff slice_append1)

lemma pollAll_reads:
  assumes "growing before ps" "offset \<le> length before" "pollAll ps offset = (ds, e)"
  shows "ds = slice_of (finalLog before ps) offset e \<and> offset \<le> e \<and> e \<le> length (finalLog before ps)"
  using assms
proof (induction ps offset arbitrary: before ds e rule: pollAll.induct)
  case (1 offset)
  then show ?case by (simp add: slice_of_def)
next
  case (2 j content ps offset)
  let ?b = "take (j_combinedBytes j) content"
  define d where "d = waitData j content offset"
  obtain ds' e' where rec: "pollAll ps (offset + length d) = (ds', e')" by fastforce
  have o: "offset \<le> j_combinedBytes j" "j_combinedBytes j \<le> length content" "growing ?b ps" using "2.prems"(1,2) by auto
  note w = waitData_prefix [OF o(1,2), folded d_def]
  have ih: "ds' = slice_of (finalLog ?b ps) (offset + length d) e' \<and> offset + length d \<le> e' \<and> e' \<le> length (finalLog ?b ps)"
    using "2.IH" [OF d_def o(3) _ rec] o w(2) by simp
  have pre: "HasPrefix (finalLog ?b ps) ?b" by (rule finalLog_prefix [OF o(3)])
  have "d = slice_of ?b offset (offset + length d)" using w(1,2) by (simp add: slice_take)
  then have "d = slice_of (finalLog ?b ps) offset (offset + length d)" using slice_prefix [OF pre] w(2) o by simp
  moreover have "ds = d @ ds'" "e = e'" using "2.prems"(3) rec by (auto simp: d_def [symmetric] Let_def)
  ultimately show ?case using ih slice_split [of offset "offset + length d" e'] by (metis finalLog.simps(2) le_add1 le_trans)
qed

lemma poll_terminal:
  assumes "terminal j" "j_combinedBytes j \<le> length content" "offset \<le> j_combinedBytes j"
    "j_combinedBytes j - offset \<le> n * mcpMaxViewOutput"
  shows "snd (pollAll (replicate n (j, content)) offset) = j_combinedBytes j"
  using assms(3,4)
proof (induction n arbitrary: offset)
  case (Suc n)
  let ?d = "waitData j content offset"
  have "length ?d = min mcpMaxViewOutput (j_combinedBytes j - offset)"
    using assms(1,2) Suc.prems by (simp add: waitData_def Let_def length_slice min.commute)
  then have "offset + length ?d \<le> j_combinedBytes j" "j_combinedBytes j - (offset + length ?d) \<le> n * mcpMaxViewOutput" using Suc.prems by auto
  from Suc.IH [OF this] show ?case by (simp add: Let_def split_beta)
qed simp


definition ex_job :: mcpJob where
  "ex_job = (newMCPJob ''j1'' ex_params ''i'' ex_key 0)\<lparr> j_state := JobExited, j_combinedBytes := 3 \<rparr>"

definition ex_running :: mcpJob where
  "ex_running = (newMCPJob ''j1'' ex_params ''i'' ex_key 0)\<lparr> j_combinedBytes := 2 \<rparr>"


text \<open>
  A line longer than the limit keeps a running job's output from being delivered at all: every poll gets the same empty answer until the job
  ends. And the limit may fall inside a character, which then appears in neither of the two answers.
\<close>

lemma long_line_stalls:
  assumes "\<not> terminal j" "list_all (\<lambda>b. \<not> line_break b) (take mcpMaxViewOutput (slice_of content offset (j_combinedBytes j)))"
  shows "waitData j content offset = []"
proof -
  let ?d = "take mcpMaxViewOutput (slice_of content offset (j_combinedBytes j))"
  have "dropWhile (\<lambda>b. \<not> line_break b) (rev ?d) = []" using assms(2) by (simp add: dropWhile_eq_Nil_conv list_all_iff)
  then have "lastLineEnd ?d = 0" by (simp add: lastLineEnd_def)
  then show ?thesis using assms(1) by (simp add: waitData_def Let_def)
qed

lemma limit_splits_character:
  assumes "terminal j" "j_combinedBytes j = 16001" "content = replicate 15999 97 @ [0xC3, 0xA9]"
  shows "length (waitData j content 0) = 16000" "last (waitData j content 0) = 0xC3" "ToValidUTF8 (waitData j content 16000) = []"
proof -
  have d0: "waitData j content 0 = replicate 15999 97 @ [0xC3]"
    using assms by (simp add: waitData_def Let_def slice_of_def mcpMaxViewOutput_def take_Cons')
  have d1: "waitData j content 16000 = [0xA9]"
    using assms by (simp add: waitData_def Let_def slice_of_def mcpMaxViewOutput_def)
  show "length (waitData j content 0) = 16000" "last (waitData j content 0) = 0xC3" unfolding d0 by simp_all
  show "ToValidUTF8 (waitData j content 16000) = []" unfolding d1 by code_simp
qed

section \<open>What the collector records\<close>

lemma collectMCPJob_frame:
  assumes "ReadFrame inp = Inr ((t, payload), rest)"
  shows "is_output t \<Longrightarrow> collectMCPJob jid now inp st = collectMCPJob jid now rest (countOutput jid (length payload) (fst st), snd st @ payload)"
    and "\<not> is_output t \<Longrightarrow> t = FrameExit \<Longrightarrow> collectMCPJob jid now inp st = (finishMCPJob jid True now (recordExit jid payload (fst st)), snd st)"
    and "\<not> is_output t \<Longrightarrow> t \<noteq> FrameExit \<Longrightarrow> collectMCPJob jid now inp st = collectMCPJob jid now rest st"
  by (subst collectMCPJob.simps, simp add: assms)+

lemma job_of_set [simp]: "job_of (set_job l jid j) jid' = (if jid' = jid then Some j else job_of l jid')"
  by (simp add: job_of_def set_job_def update_conv)

lemma job_of_notify [simp]: "job_of (notifyLocked l) = job_of l"
  by (rule ext) (simp add: job_of_def notifyLocked_def)

lemma countOutput_job: "job_of l jid = Some j \<Longrightarrow>
    job_of (countOutput jid n l) jid = Some (j\<lparr> j_combinedBytes := j_combinedBytes j + n, j_outputRevision := l_revision l + 1 \<rparr>)"
  by (simp add: countOutput_def)

text \<open>Left alone, the collector of a job whose command ends normally records all of its output and its exit status.\<close>

lemma collector_records_output:
  assumes "list_all wf_frame fs" "\<forall>f \<in> set fs. fst f \<noteq> FrameExit" "job_of l jid = Some j" "j_stopReason j = None"
    "collectMCPJob jid now (concat (map frame_bytes fs) @ frame_bytes (FrameExit, EncodeExit code) @ rest) (l, log) = (l', log')"
  shows "log' = log @ outputs fs \<and> (\<exists>j'. job_of l' jid = Some j' \<and> j_state j' = JobExited \<and> j_exitCode j' = Some (sint code) \<and>
    j_combinedBytes j' = j_combinedBytes j + length (outputs fs))"
  using assms
proof (induction fs arbitrary: l log j)
  case Nil
  have w: "wf_frame (FrameExit, EncodeExit code)" by (simp add: wf_frame_def EncodeExit_def maxFrameLen_def)
  have "\<not> is_output FrameExit" by (simp add: is_output_def FrameExit_def FrameStdout_def FrameStderr_def)
  then show ?case using Nil collectMCPJob_frame(2) [OF ReadFrame_frame_bytes [OF w]]
    by (auto simp: finishMCPJob_def recordExit_def DecodeExit_def EncodeExit_def)
next
  case (Cons f fs)
  then have w: "wf_frame f" by simp
  obtain t payload where f: "f = (t, payload)" by fastforce
  note rd = ReadFrame_frame_bytes [OF w, unfolded f]
  show ?case
  proof (cases "is_output t")
    case True
    let ?l = "countOutput jid (length payload) l"
    have "collectMCPJob jid now (concat (map frame_bytes fs) @ frame_bytes (FrameExit, EncodeExit code) @ rest) (?l, log @ payload) = (l', log')"
      using Cons.prems(5) collectMCPJob_frame(1) [OF rd True] by (simp add: f)
    from Cons.IH [OF _ _ countOutput_job [OF Cons.prems(3)] _ this] Cons.prems True show ?thesis by (simp add: f add.assoc)
  next
    case False
    then show ?thesis using Cons collectMCPJob_frame(3) [OF rd] by (simp add: f)
  qed
qed

end
