(* ===== verification/Mcp_Job_Steps.thy ===== *)
theory Mcp_Job_Steps
  imports Mcp_Jobs
begin

text \<open>
  The jobs of one conversation when everything happens at once: launches, the timers and requests that stop jobs, one collector per job and
  any number of requests that wait. Each step is one region under the list's mutex, or a call between two regions; steps of
  different goroutines interleave.
\<close>

section \<open>Steps\<close>

text \<open>
  A collector reads frames, has written a payload that it still has to count, has left its loop, or has published the end of the job
  with its deferred calls still to come, or is gone; the flag says whether it has seen an exit frame.
\<close>

datatype collector = Reading | Written nat | Leaving bool | Finished bool | Gone bool

datatype waiting = Waiting "string list \<Rightarrow> string list" string "mcpWaitJob list" | Killing "string list"

record jobs_sys =
  y_list :: mcpJobList
  y_alloc :: "string set"
  y_coll :: "string \<rightharpoonup> collector"
  y_log :: "string \<Rightarrow> bytes"
  y_closed :: "string set"
  y_held :: "string \<Rightarrow> nat"
  y_asleep :: "(waiting \<times> nat) set"
  y_answers :: "(waiting \<times> wait_outcome) list"

definition initJobs :: jobs_sys where
  "initJobs = \<lparr> y_list = newMCPJobList, y_alloc = {}, y_coll = Map.empty, y_log = (\<lambda>_. []), y_closed = {}, y_held = (\<lambda>_. 0), y_asleep = {}, y_answers = [] \<rparr>"

text \<open>\<open>resolves\<close> says which frames can be resolved; a log that is resolved can be read.\<close>

definition readLogOf :: "(string \<Rightarrow> bool) \<Rightarrow> jobs_sys \<Rightarrow> mcpJob \<Rightarrow> wait_err + bytes" where
  "readLogOf resolves s j = (if resolves (j_frame j) then Inr (y_log s (j_id j)) else Inl NoFrame)"

definition answer :: "(string \<Rightarrow> bool) \<Rightarrow> jobs_sys \<Rightarrow> waiting \<Rightarrow> wait_outcome" where
  "answer resolves s w =
     (case w of
        Waiting order until requested \<Rightarrow> waitRound order (readLogOf resolves s) until requested (y_list s)
      | Killing ids \<Rightarrow> killRound ids (y_list s))"

inductive jstep :: "(string \<Rightarrow> bool) \<Rightarrow> jobs_sys \<Rightarrow> jobs_sys \<Rightarrow> bool" for resolves where
  alloc: "jid = jobID (l_nextID (y_list s) + 1) \<Longrightarrow> l_nextID (y_list s) \<noteq> - 1 \<Longrightarrow>
    jstep resolves s (s\<lparr> y_list := (y_list s)\<lparr> l_nextID := l_nextID (y_list s) + 1 \<rparr>, y_alloc := insert jid (y_alloc s), y_held := (y_held s)(jid := 1) \<rparr>)"
| abandon: "jid \<in> y_alloc s \<Longrightarrow> jstep resolves s (s\<lparr> y_alloc := y_alloc s - {jid}, y_held := (y_held s)(jid := y_held s jid - 1) \<rparr>)"
| launch: "jid \<in> y_alloc s \<Longrightarrow>
    jstep resolves s (s\<lparr> y_list := registerJob (newMCPJob jid p uuid key now) (y_list s), y_alloc := y_alloc s - {jid},
      y_coll := (y_coll s)(jid \<mapsto> Reading), y_log := (y_log s)(jid := []) \<rparr>)"
| stop: "reason = JobKilled \<or> reason = JobTimedOut \<Longrightarrow> requestMCPJobStop jid reason (y_list s) = (l, c) \<Longrightarrow>
    jstep resolves s (s\<lparr> y_list := l, y_closed := (if c then insert jid (y_closed s) else y_closed s) \<rparr>)"
| collect_write: "y_coll s jid = Some Reading \<Longrightarrow> jid \<notin> y_closed s \<Longrightarrow> is_output t \<Longrightarrow>
    jstep resolves s (s\<lparr> y_log := (y_log s)(jid := y_log s jid @ payload), y_coll := (y_coll s)(jid \<mapsto> Written (length payload)) \<rparr>)"
| collect_count: "y_coll s jid = Some (Written n) \<Longrightarrow>
    jstep resolves s (s\<lparr> y_list := countOutput jid n (y_list s), y_coll := (y_coll s)(jid \<mapsto> Reading) \<rparr>)"
| collect_exit: "y_coll s jid = Some Reading \<Longrightarrow> jid \<notin> y_closed s \<Longrightarrow>
    jstep resolves s (s\<lparr> y_list := recordExit jid payload (y_list s), y_coll := (y_coll s)(jid \<mapsto> Leaving True) \<rparr>)"
| collect_err: "y_coll s jid = Some Reading \<Longrightarrow> jstep resolves s (s\<lparr> y_coll := (y_coll s)(jid \<mapsto> Leaving False) \<rparr>)"
| collect_finish: "y_coll s jid = Some (Leaving g) \<Longrightarrow>
    jstep resolves s (s\<lparr> y_list := finishMCPJob jid g now (y_list s), y_coll := (y_coll s)(jid \<mapsto> Finished g) \<rparr>)"
| collect_cleanup: "y_coll s jid = Some (Finished g) \<Longrightarrow>
    jstep resolves s (s\<lparr> y_coll := (y_coll s)(jid \<mapsto> Gone g), y_closed := insert jid (y_closed s), y_held := (y_held s)(jid := y_held s jid - 1) \<rparr>)"
| wait_round: "answer resolves s w = r \<Longrightarrow>
    jstep resolves s (case r of WaitSleep ch \<Rightarrow> s\<lparr> y_asleep := insert (w, ch) (y_asleep s) \<rparr> | _ \<Rightarrow> s\<lparr> y_answers := (w, r) # y_answers s \<rparr>)"
| wait_wake: "(w, ch) \<in> y_asleep s \<Longrightarrow> ch \<noteq> l_changed (y_list s) \<Longrightarrow> jstep resolves s (s\<lparr> y_asleep := y_asleep s - {(w, ch)} \<rparr>)"

inductive jobs_reachable :: "(string \<Rightarrow> bool) \<Rightarrow> jobs_sys \<Rightarrow> bool" for resolves where
  init: "jobs_reachable resolves initJobs"
| step: "jobs_reachable resolves s \<Longrightarrow> jstep resolves s s' \<Longrightarrow> jobs_reachable resolves s'"

section \<open>What a waiting request depends on\<close>

text \<open>Whether a round sleeps depends on the states of the jobs and on the counted part of their logs only.\<close>

definition same_view :: "jobs_sys \<Rightarrow> jobs_sys \<Rightarrow> mcpJob \<Rightarrow> mcpJob \<Rightarrow> bool" where
  "same_view s s' j j' \<longleftrightarrow> j_id j = j_id j' \<and> j_frame j = j_frame j' \<and> j_state j = j_state j' \<and> j_combinedBytes j = j_combinedBytes j' \<and>
     take (j_combinedBytes j) (y_log s (j_id j)) = take (j_combinedBytes j) (y_log s' (j_id j))"

definition same_jobs :: "jobs_sys \<Rightarrow> jobs_sys \<Rightarrow> bool" where
  "same_jobs s s' \<longleftrightarrow> map fst (l_jobs (y_list s)) = map fst (l_jobs (y_list s')) \<and> l_changed (y_list s) = l_changed (y_list s') \<and>
     (\<forall>jid. rel_option (same_view s s') (job_of (y_list s) jid) (job_of (y_list s') jid))"

lemma same_view_refl: "same_view s s j j"
  by (simp add: same_view_def)

lemma selectIds_same:
  assumes "\<forall>jid. rel_option R (job_of l jid) (job_of l' jid)"
  shows "rel_sum (=) (list_all2 R) (selectIds l seen ids) (selectIds l' seen ids)"
proof (induction ids arbitrary: seen)
  case (Cons jid ids)
  from assms have r: "rel_option R (job_of l jid) (job_of l' jid)" by blast
  show ?case
  proof (cases "job_of l jid")
    case None
    then show ?thesis using r Cons by (simp add: option.rel_sel)
  next
    case (Some j)
    then obtain j' where j': "job_of l' jid = Some j'" "R j j'" using r by (auto simp: option_rel_Some1)
    from Cons.IH [of "jid # seen"] show ?thesis using Cons.IH [of seen] Some j'
      by (cases "selectIds l (jid # seen) ids"; cases "selectIds l' (jid # seen) ids") auto
  qed
qed simp

lemma waitStatus_same:
  assumes "same_view s s' j j'"
  shows "rel_sum (=) (\<lambda>a b. ws_Output a = ws_Output b \<and> ws_State a = ws_State b)
    (waitStatus (readLogOf resolves s) j offset) (waitStatus (readLogOf resolves s') j' offset)"
proof -
  have "slice_of (y_log s (j_id j)) o1 (j_combinedBytes j) = slice_of (y_log s' (j_id j)) o1 (j_combinedBytes j)" for o1
    using assms slice_take [of "j_combinedBytes j" "j_combinedBytes j"] by (metis order_refl same_view_def)
  then have "waitData j (y_log s (j_id j)) o1 = waitData j' (y_log s' (j_id j')) o1" for o1
    using assms by (simp add: waitData_def same_view_def terminal_def)
  then show ?thesis using assms by (auto simp: waitStatus_def readLogOf_def same_view_def Let_def)
qed

lemma waitStatuses_same:
  assumes "list_all2 (same_view s s') js js'"
  shows "rel_sum (=) (list_all2 (\<lambda>a b. ws_Output a = ws_Output b \<and> ws_State a = ws_State b))
    (waitStatuses (readLogOf resolves s) requested js) (waitStatuses (readLogOf resolves s') requested js')"
  using assms
proof (induction rule: list_all2_induct)
  case (Cons j js j' js')
  let ?a = "waitStatus (readLogOf resolves s) j (offsetOf requested (j_id j))" and ?b = "waitStatus (readLogOf resolves s') j' (offsetOf requested (j_id j))"
  have id': "j_id j' = j_id j" using Cons.hyps(1) by (simp add: same_view_def)
  from waitStatus_same [OF Cons.hyps(1), of resolves "offsetOf requested (j_id j)"] Cons.IH show ?case
    by (cases ?a; cases ?b; cases "waitStatuses (readLogOf resolves s) requested js"; cases "waitStatuses (readLogOf resolves s') requested js'")
      (auto simp: id')
qed simp

lemma satisfied_same:
  assumes "list_all2 (\<lambda>a b. ws_Output a = ws_Output b \<and> ws_State a = ws_State b) ss ss'" "list_all2 (same_view s s') js js'"
  shows "satisfied until ss js = satisfied until ss' js'"
proof -
  have "list_ex (\<lambda>s. ws_Output s \<noteq> [] \<or> ws_State s \<noteq> JobRunning) ss = list_ex (\<lambda>s. ws_Output s \<noteq> [] \<or> ws_State s \<noteq> JobRunning) ss'"
    using assms(1) by (induction rule: list_all2_induct) auto
  moreover have "list_ex terminal js = list_ex terminal js' \<and> list_all terminal js = list_all terminal js'"
    using assms(2) by (induction rule: list_all2_induct) (auto simp: same_view_def terminal_def)
  ultimately show ?thesis by (simp add: satisfied_def)
qed

lemma answer_same:
  assumes "same_jobs s s'" "answer resolves s w = WaitSleep ch"
  shows "answer resolves s' w = WaitSleep ch"
proof (cases w)
  case (Waiting order until requested)
  let ?ids = "map wj_ID requested"
  have sel: "rel_sum (=) (list_all2 (same_view s s')) (selectJobsLocked order (y_list s) ?ids) (selectJobsLocked order (y_list s') ?ids)"
    using assms(1) selectIds_same [of "same_view s s'" "y_list s" "y_list s'"] by (simp add: selectJobsLocked_def same_jobs_def)
  from assms(2) Waiting obtain js ss where
    js: "selectJobsLocked order (y_list s) ?ids = Inr js" "waitStatuses (readLogOf resolves s) requested js = Inr ss"
      "\<not> satisfied until ss js" "ch = l_changed (y_list s)"
    by (auto simp: answer_def waitRound_def split: sum.splits if_splits)
  with sel obtain js' where js': "selectJobsLocked order (y_list s') ?ids = Inr js'" "list_all2 (same_view s s') js js'"
    by (cases "selectJobsLocked order (y_list s') ?ids") auto
  from waitStatuses_same [OF js'(2), of resolves requested] js(2) obtain ss' where
    ss': "waitStatuses (readLogOf resolves s') requested js' = Inr ss'" "list_all2 (\<lambda>a b. ws_Output a = ws_Output b \<and> ws_State a = ws_State b) ss ss'"
    by (cases "waitStatuses (readLogOf resolves s') requested js'") auto
  from satisfied_same [OF ss'(2) js'(2)] js(3) have "\<not> satisfied until ss' js'" by simp
  then show ?thesis using Waiting js' ss' js(4) assms(1) by (simp add: answer_def waitRound_def same_jobs_def)
next
  case (Killing ids)
  have "(case job_of (y_list s) jid of None \<Rightarrow> False | Some j \<Rightarrow> terminal j) = (case job_of (y_list s') jid of None \<Rightarrow> False | Some j \<Rightarrow> terminal j)" for jid
  proof -
    have "rel_option (same_view s s') (job_of (y_list s) jid) (job_of (y_list s') jid)" using assms(1) by (simp add: same_jobs_def)
    then show ?thesis by (cases rule: option.rel_cases) (auto simp: same_view_def terminal_def)
  qed
  then show ?thesis using assms Killing by (simp add: answer_def killRound_def same_jobs_def list_all_iff split: if_splits)
qed

section \<open>The invariant\<close>

definition collecting :: "collector \<Rightarrow> bool" where
  "collecting c \<longleftrightarrow> (case c of Reading \<Rightarrow> True | Written n \<Rightarrow> True | Leaving g \<Rightarrow> True | Finished g \<Rightarrow> False | Gone g \<Rightarrow> False)"

definition pending :: "collector \<Rightarrow> nat" where
  "pending c = (case c of Written n \<Rightarrow> n | Reading \<Rightarrow> 0 | Leaving g \<Rightarrow> 0 | Finished g \<Rightarrow> 0 | Gone g \<Rightarrow> 0)"

definition saw_exit :: "collector \<Rightarrow> bool" where
  "saw_exit c \<longleftrightarrow> (case c of Leaving g \<Rightarrow> g | Finished g \<Rightarrow> g | Gone g \<Rightarrow> g | Reading \<Rightarrow> False | Written n \<Rightarrow> False)"

text \<open>How the state of a job follows from its collector and the first stop request.\<close>

definition job_outcome :: "collector \<Rightarrow> mcpJobState option \<Rightarrow> mcpJobState" where
  "job_outcome c stopped =
     (if collecting c then JobRunning else case stopped of Some r \<Rightarrow> r | None \<Rightarrow> if saw_exit c then JobExited else JobLost)"

definition job_ok :: "jobs_sys \<Rightarrow> string \<Rightarrow> mcpJob \<Rightarrow> collector \<Rightarrow> bool" where
  "job_ok s jid j c \<longleftrightarrow> j_id j = jid \<and> j_state j = job_outcome c (j_stopReason j) \<and> j_conn j = collecting c \<and>
     (j_stopReason j = None \<or> (j_stopReason j = Some JobKilled \<or> j_stopReason j = Some JobTimedOut) \<and> jid \<in> y_closed s) \<and>
     (j_exitCode j \<noteq> None \<longrightarrow> saw_exit c) \<and> j_combinedBytes j + pending c = length (y_log s jid) \<and>
     y_held s jid = (case c of Gone g \<Rightarrow> 0 | _ \<Rightarrow> 1)"

definition known_id :: "mcpJobList \<Rightarrow> string \<Rightarrow> bool" where
  "known_id l jid \<longleftrightarrow> (\<exists>n. n \<le> l_nextID l \<and> jid = jobID n)"

definition id_ok :: "jobs_sys \<Rightarrow> string \<Rightarrow> bool" where
  "id_ok s jid \<longleftrightarrow>
     (case job_of (y_list s) jid of
        None \<Rightarrow> y_coll s jid = None \<and> y_held s jid = (if jid \<in> y_alloc s then 1 else 0) \<and> (jid \<in> y_alloc s \<longrightarrow> known_id (y_list s) jid)
      | Some j \<Rightarrow> known_id (y_list s) jid \<and> jid \<notin> y_alloc s \<and> (\<exists>c. y_coll s jid = Some c \<and> job_ok s jid j c))"

definition mcp_jobs_inv :: "jobs_sys \<Rightarrow> bool" where
  "mcp_jobs_inv s \<longleftrightarrow> (\<forall>jid. id_ok s jid)"

lemma mcp_jobs_inv_job: "mcp_jobs_inv s \<Longrightarrow> job_of (y_list s) jid = Some j \<Longrightarrow>
    known_id (y_list s) jid \<and> jid \<notin> y_alloc s \<and> (\<exists>c. y_coll s jid = Some c \<and> job_ok s jid j c)"
  unfolding mcp_jobs_inv_def by (drule spec [of _ jid]) (simp add: id_ok_def)

lemma mcp_jobs_inv_coll:
  assumes "mcp_jobs_inv s" "y_coll s jid = Some c"
  obtains j where "job_of (y_list s) jid = Some j" "job_ok s jid j c" "jid \<notin> y_alloc s" "known_id (y_list s) jid"
proof -
  have "id_ok s jid" using assms(1) by (simp add: mcp_jobs_inv_def)
  then show ?thesis using assms(2) that by (cases "job_of (y_list s) jid") (auto simp: id_ok_def)
qed

lemma mcp_jobs_inv_alloc:
  assumes "mcp_jobs_inv s" "jid \<in> y_alloc s"
  shows "job_of (y_list s) jid = None \<and> y_coll s jid = None \<and> y_held s jid = 1 \<and> known_id (y_list s) jid"
proof -
  have "id_ok s jid" using assms(1) by (simp add: mcp_jobs_inv_def)
  then show ?thesis using assms(2) by (cases "job_of (y_list s) jid") (auto simp: id_ok_def)
qed

lemma mcp_jobs_inv_unknown: "mcp_jobs_inv s \<Longrightarrow> \<not> known_id (y_list s) jid \<Longrightarrow> job_of (y_list s) jid = None \<and> jid \<notin> y_alloc s \<and> y_coll s jid = None"
proof -
  assume h: "mcp_jobs_inv s" "\<not> known_id (y_list s) jid"
  then have "id_ok s jid" by (simp add: mcp_jobs_inv_def)
  then show ?thesis using h(2) by (cases "job_of (y_list s) jid") (auto simp: id_ok_def)
qed

text \<open>A step that concerns one ID keeps the invariant if that ID is fine afterwards.\<close>

definition same_at :: "jobs_sys \<Rightarrow> jobs_sys \<Rightarrow> string \<Rightarrow> bool" where
  "same_at s s' k \<longleftrightarrow> job_of (y_list s') k = job_of (y_list s) k \<and> y_coll s' k = y_coll s k \<and> y_held s' k = y_held s k \<and>
      y_log s' k = y_log s k \<and> (k \<in> y_closed s \<longrightarrow> k \<in> y_closed s') \<and> (k \<in> y_alloc s' \<longleftrightarrow> k \<in> y_alloc s) \<and>
      (known_id (y_list s) k \<longrightarrow> known_id (y_list s') k)"

lemma id_ok_same:
  assumes "id_ok s k" "same_at s s' k"
  shows "id_ok s' k"
proof (cases "job_of (y_list s) k")
  case None
  with assms show ?thesis by (simp add: id_ok_def same_at_def)
next
  case (Some j)
  with assms(1) obtain c where "y_coll s k = Some c" "job_ok s k j c" "known_id (y_list s) k" "k \<notin> y_alloc s" by (auto simp: id_ok_def)
  moreover from this assms(2) have "job_ok s' k j c" by (auto simp: job_ok_def same_at_def)
  ultimately show ?thesis using Some assms(2) by (simp add: id_ok_def same_at_def)
qed

lemma mcp_jobs_inv_local:
  assumes "mcp_jobs_inv s" "\<And>k. k \<noteq> jid \<Longrightarrow> same_at s s' k" "id_ok s' jid"
  shows "mcp_jobs_inv s'"
  using assms id_ok_same unfolding mcp_jobs_inv_def by metis

lemma id_okI:
  "job_of (y_list s) jid = Some j \<Longrightarrow> y_coll s jid = Some c \<Longrightarrow> known_id (y_list s) jid \<Longrightarrow> jid \<notin> y_alloc s \<Longrightarrow> job_ok s jid j c \<Longrightarrow> id_ok s jid"
  by (simp add: id_ok_def)

lemma notify_nextID [simp]: "l_nextID (notifyLocked l) = l_nextID l" "l_nextID (set_job l jid j) = l_nextID l"
  "l_changed (notifyLocked l) = l_changed l + 1" "l_changed (set_job l jid j) = l_changed l"
  by (simp_all add: notifyLocked_def set_job_def)

lemma known_id_simps [simp]: "known_id (notifyLocked l) = known_id l" "known_id (set_job l jid j) = known_id l"
  by (simp_all add: known_id_def fun_eq_iff)

lemma word_next: "a \<noteq> - 1 \<Longrightarrow> unat (a + 1 :: u64) = Suc (unat a)"
  by (metis add.commute eq_neg_iff_add_eq_0 unatSuc)

lemma known_id_grows: "known_id l jid \<Longrightarrow> l_nextID l \<noteq> - 1 \<Longrightarrow> known_id (l\<lparr> l_nextID := l_nextID l + 1 \<rparr>) jid"
  by (auto simp: known_id_def word_le_nat_alt word_next intro: le_SucI)

lemma new_id_unknown: "l_nextID l \<noteq> - 1 \<Longrightarrow> \<not> known_id l (jobID (l_nextID l + 1))"
  by (auto simp: known_id_def word_le_nat_alt word_next dest!: jobID_inj)

lemma job_of_nextID [simp]: "job_of (l\<lparr> l_nextID := n \<rparr>) = job_of l"
  by (rule ext) (simp add: job_of_def)

section \<open>Every step keeps it\<close>

lemma inv_alloc:
  assumes "mcp_jobs_inv s" "jid = jobID (l_nextID (y_list s) + 1)" "l_nextID (y_list s) \<noteq> - 1"
  shows "mcp_jobs_inv (s\<lparr> y_list := (y_list s)\<lparr> l_nextID := l_nextID (y_list s) + 1 \<rparr>, y_alloc := insert jid (y_alloc s), y_held := (y_held s)(jid := 1) \<rparr>)"
proof (rule mcp_jobs_inv_local [OF assms(1), of jid])
  have new: "\<not> known_id (y_list s) jid" using new_id_unknown [OF assms(3)] assms(2) by simp
  have "known_id ((y_list s)\<lparr> l_nextID := l_nextID (y_list s) + 1 \<rparr>) jid" using assms(2) by (auto simp: known_id_def)
  with mcp_jobs_inv_unknown [OF assms(1) new]
  show "id_ok (s\<lparr> y_list := (y_list s)\<lparr> l_nextID := l_nextID (y_list s) + 1 \<rparr>, y_alloc := insert jid (y_alloc s), y_held := (y_held s)(jid := 1) \<rparr>) jid"
    by (simp add: id_ok_def)
qed (use known_id_grows [OF _ assms(3)] in \<open>auto simp: same_at_def\<close>)

lemma inv_abandon:
  assumes "mcp_jobs_inv s" "jid \<in> y_alloc s"
  shows "mcp_jobs_inv (s\<lparr> y_alloc := y_alloc s - {jid}, y_held := (y_held s)(jid := y_held s jid - 1) \<rparr>)"
  by (rule mcp_jobs_inv_local [OF assms(1), of jid]) (use mcp_jobs_inv_alloc [OF assms] in \<open>auto simp: same_at_def id_ok_def\<close>)

lemma inv_launch:
  assumes "mcp_jobs_inv s" "jid \<in> y_alloc s"
  shows "mcp_jobs_inv (s\<lparr> y_list := registerJob (newMCPJob jid p uuid key now) (y_list s), y_alloc := y_alloc s - {jid},
      y_coll := (y_coll s)(jid \<mapsto> Reading), y_log := (y_log s)(jid := []) \<rparr>)"
proof -
  have j: "j_id (newMCPJob jid p uuid key now) = jid" by (simp add: newMCPJob_def)
  show ?thesis
  proof (rule mcp_jobs_inv_local [OF assms(1), of jid])
    show "id_ok (s\<lparr> y_list := registerJob (newMCPJob jid p uuid key now) (y_list s), y_alloc := y_alloc s - {jid},
      y_coll := (y_coll s)(jid \<mapsto> Reading), y_log := (y_log s)(jid := []) \<rparr>) jid"
      using mcp_jobs_inv_alloc [OF assms] j
      by (intro id_okI [of _ _ "newMCPJob jid p uuid key now" Reading])
        (simp_all add: registerJob_def, simp add: job_ok_def newMCPJob_def job_outcome_def collecting_def pending_def saw_exit_def)
  qed (simp add: same_at_def registerJob_def j)
qed

lemma inv_stop:
  assumes "mcp_jobs_inv s" "reason = JobKilled \<or> reason = JobTimedOut" "requestMCPJobStop jid reason (y_list s) = (l, c)"
  shows "mcp_jobs_inv (s\<lparr> y_list := l, y_closed := (if c then insert jid (y_closed s) else y_closed s) \<rparr>)"
proof (cases "l = y_list s \<and> \<not> c")
  case True
  with assms(1) show ?thesis by (simp add: mcp_jobs_inv_def job_ok_def)
next
  case False
  then obtain j where j: "job_of (y_list s) jid = Some j" "\<not> terminal j" "j_stopReason j = None"
    "l = notifyLocked (set_job (y_list s) jid (j\<lparr> j_stopReason := Some reason \<rparr>))" "c = j_conn j"
    using assms(3) by (auto simp: requestMCPJobStop_def split: option.splits if_splits)
  from mcp_jobs_inv_job [OF assms(1) j(1)] obtain co where co: "y_coll s jid = Some co" "job_ok s jid j co" "known_id (y_list s) jid" "jid \<notin> y_alloc s" by blast
  have run: "collecting co" using co(2) j(2,3) by (auto simp: job_ok_def job_outcome_def terminal_def split: if_splits)
  show ?thesis
    by (rule mcp_jobs_inv_local [OF assms(1), of jid], simp add: same_at_def j,
        rule id_okI [of _ _ "j\<lparr> j_stopReason := Some reason \<rparr>" co])
      (use j co run assms(2) in \<open>auto simp: job_ok_def job_outcome_def\<close>)
qed

lemma inv_count:
  assumes "mcp_jobs_inv s" "y_coll s jid = Some (Written n)"
  shows "mcp_jobs_inv (s\<lparr> y_list := countOutput jid n (y_list s), y_coll := (y_coll s)(jid \<mapsto> Reading) \<rparr>)"
proof -
  from mcp_jobs_inv_coll [OF assms] obtain j where j: "job_of (y_list s) jid = Some j" "job_ok s jid j (Written n)" "jid \<notin> y_alloc s" "known_id (y_list s) jid" by metis
  show ?thesis
    by (rule mcp_jobs_inv_local [OF assms(1), of jid], simp add: same_at_def countOutput_def j,
        rule id_okI [of _ _ "j\<lparr> j_combinedBytes := j_combinedBytes j + n, j_outputRevision := l_revision (y_list s) + 1 \<rparr>" Reading])
      (use j in \<open>auto simp: countOutput_def job_ok_def job_outcome_def collecting_def pending_def saw_exit_def\<close>)
qed

lemma inv_write:
  assumes "mcp_jobs_inv s" "y_coll s jid = Some Reading"
  shows "mcp_jobs_inv (s\<lparr> y_log := (y_log s)(jid := y_log s jid @ payload), y_coll := (y_coll s)(jid \<mapsto> Written (length payload)) \<rparr>)"
proof -
  from mcp_jobs_inv_coll [OF assms] obtain j where j: "job_of (y_list s) jid = Some j" "job_ok s jid j Reading" "jid \<notin> y_alloc s" "known_id (y_list s) jid" by metis
  show ?thesis
    by (rule mcp_jobs_inv_local [OF assms(1), of jid], simp add: same_at_def, rule id_okI [of _ _ j "Written (length payload)"])
      (use j in \<open>auto simp: job_ok_def job_outcome_def collecting_def pending_def saw_exit_def\<close>)
qed

lemma recordExit_job:
  "job_of l jid = Some j \<Longrightarrow> \<exists>x. job_of (recordExit jid payload l) jid = Some (j\<lparr> j_exitCode := x \<rparr>) \<and> (x = j_exitCode j \<or> x \<noteq> None)"
  by (auto simp: recordExit_def split: option.split intro: exI [of _ "j_exitCode j"])

lemma recordExit_frame:
  "k \<noteq> jid \<Longrightarrow> job_of (recordExit jid payload l) k = job_of l k"
  "l_changed (recordExit jid payload l) = l_changed l" "known_id (recordExit jid payload l) = known_id l"
  by (auto simp: recordExit_def split: option.split)

lemma inv_exit:
  assumes "mcp_jobs_inv s" "y_coll s jid = Some Reading"
  shows "mcp_jobs_inv (s\<lparr> y_list := recordExit jid payload (y_list s), y_coll := (y_coll s)(jid \<mapsto> Leaving True) \<rparr>)"
proof -
  from mcp_jobs_inv_coll [OF assms] obtain j where j: "job_of (y_list s) jid = Some j" "job_ok s jid j Reading" "jid \<notin> y_alloc s" "known_id (y_list s) jid" by metis
  from recordExit_job [OF j(1), of payload] obtain x where x: "job_of (recordExit jid payload (y_list s)) jid = Some (j\<lparr> j_exitCode := x \<rparr>)" by blast
  show ?thesis
    by (rule mcp_jobs_inv_local [OF assms(1), of jid], simp add: same_at_def recordExit_frame,
        rule id_okI [of _ _ "j\<lparr> j_exitCode := x \<rparr>" "Leaving True"])
      (use j x recordExit_frame in \<open>auto simp: job_ok_def job_outcome_def collecting_def pending_def saw_exit_def\<close>)
qed

lemma inv_err:
  assumes "mcp_jobs_inv s" "y_coll s jid = Some Reading"
  shows "mcp_jobs_inv (s\<lparr> y_coll := (y_coll s)(jid \<mapsto> Leaving False) \<rparr>)"
proof -
  from mcp_jobs_inv_coll [OF assms] obtain j where j: "job_of (y_list s) jid = Some j" "job_ok s jid j Reading" "jid \<notin> y_alloc s" "known_id (y_list s) jid" by metis
  show ?thesis
    by (rule mcp_jobs_inv_local [OF assms(1), of jid], simp add: same_at_def, rule id_okI [of _ _ j "Leaving False"])
      (use j in \<open>auto simp: job_ok_def job_outcome_def collecting_def pending_def saw_exit_def\<close>)
qed

lemma inv_finish:
  assumes "mcp_jobs_inv s" "y_coll s jid = Some (Leaving g)"
  shows "mcp_jobs_inv (s\<lparr> y_list := finishMCPJob jid g now (y_list s), y_coll := (y_coll s)(jid \<mapsto> Finished g) \<rparr>)"
proof -
  from mcp_jobs_inv_coll [OF assms] obtain j where j: "job_of (y_list s) jid = Some j" "job_ok s jid j (Leaving g)" "jid \<notin> y_alloc s" "known_id (y_list s) jid" by metis
  define j' where "j' = j\<lparr> j_state := (case j_stopReason j of Some r \<Rightarrow> r | None \<Rightarrow> if g then JobExited else JobLost),
            j_conn := False, j_endedAt := Some now, j_endRevision := l_revision (y_list s) + 1 \<rparr>"
  have f: "finishMCPJob jid g now (y_list s) = notifyLocked (set_job (y_list s) jid j')" using j(1) by (simp add: finishMCPJob_def j'_def)
  show ?thesis unfolding f
    by (rule mcp_jobs_inv_local [OF assms(1), of jid], simp add: same_at_def, rule id_okI [of _ _ j' "Finished g"])
      (use j in \<open>auto simp: job_ok_def j'_def job_outcome_def collecting_def pending_def saw_exit_def\<close>)
qed

lemma inv_cleanup:
  assumes "mcp_jobs_inv s" "y_coll s jid = Some (Finished g)"
  shows "mcp_jobs_inv (s\<lparr> y_coll := (y_coll s)(jid \<mapsto> Gone g), y_closed := insert jid (y_closed s), y_held := (y_held s)(jid := y_held s jid - 1) \<rparr>)"
proof -
  from mcp_jobs_inv_coll [OF assms] obtain j where j: "job_of (y_list s) jid = Some j" "job_ok s jid j (Finished g)" "jid \<notin> y_alloc s" "known_id (y_list s) jid" by metis
  show ?thesis
    by (rule mcp_jobs_inv_local [OF assms(1), of jid], simp add: same_at_def, rule id_okI [of _ _ j "Gone g"])
      (use j in \<open>auto simp: job_ok_def job_outcome_def collecting_def pending_def saw_exit_def\<close>)
qed

lemma mcp_jobs_inv_cong:
  "y_list s' = y_list s \<Longrightarrow> y_coll s' = y_coll s \<Longrightarrow> y_held s' = y_held s \<Longrightarrow> y_log s' = y_log s \<Longrightarrow> y_closed s' = y_closed s \<Longrightarrow>
     y_alloc s' = y_alloc s \<Longrightarrow> mcp_jobs_inv s \<Longrightarrow> mcp_jobs_inv s'"
  unfolding mcp_jobs_inv_def by (intro allI, rule id_ok_same [of s], blast) (simp add: same_at_def)

lemma jstep_inv: "jstep resolves s s' \<Longrightarrow> mcp_jobs_inv s \<Longrightarrow> mcp_jobs_inv s'"
proof (induction rule: jstep.induct)
  case (wait_round s w r)
  then show ?case by (auto split: wait_outcome.split elim!: mcp_jobs_inv_cong [rotated -1])
next
  case (wait_wake w ch s)
  then show ?case by (auto elim!: mcp_jobs_inv_cong [rotated -1])
qed (rule inv_alloc inv_abandon inv_launch inv_stop inv_write inv_count inv_exit inv_err inv_finish inv_cleanup; assumption)+

section \<open>No wake-up is lost\<close>

lemma same_jobs_self:
  "y_list s' = y_list s \<Longrightarrow> y_log s' = y_log s \<Longrightarrow> same_jobs s s'"
  by (simp add: same_jobs_def same_view_def option.rel_refl)

lemma collecting_job:
  assumes "mcp_jobs_inv s" "y_coll s jid = Some c" "collecting c" "job_of (y_list s) jid = Some j"
  shows "\<not> terminal j"
  using mcp_jobs_inv_job [OF assms(1,4)] assms(2,3) by (auto simp: job_ok_def job_outcome_def terminal_def)

lemma jstep_terminal:
  assumes "jstep resolves s s'" "mcp_jobs_inv s" "job_of (y_list s) jid = Some j" "terminal j"
  shows "job_of (y_list s') jid = Some j"
  using assms
proof (induction rule: jstep.induct)
  case (launch k s p uuid key now)
  then have "k \<noteq> jid" using mcp_jobs_inv_alloc [of s k] by auto
  moreover have "j_id (newMCPJob k p uuid key now) = k" by (simp add: newMCPJob_def)
  ultimately show ?case using launch by (simp add: registerJob_def)
next
  case (stop reason k s l c)
  then show ?case by (auto simp: requestMCPJobStop_def split: option.splits if_splits)
next
  case (collect_count s k n)
  then have "k \<noteq> jid" using collecting_job [of s k "Written n" j] by (auto simp: collecting_def)
  then show ?case using collect_count by (auto simp: countOutput_def split: option.split)
next
  case (collect_exit s k payload)
  then have "k \<noteq> jid" using collecting_job [of s k Reading j] by (auto simp: collecting_def)
  then show ?case using collect_exit by (simp add: recordExit_frame)
next
  case (collect_finish s k g now)
  then have "k \<noteq> jid" using collecting_job [of s k "Leaving g" j] by (auto simp: collecting_def)
  then show ?case using collect_finish by (auto simp: finishMCPJob_def split: option.split)
next
  case (wait_round s w r)
  then show ?case by (simp split: wait_outcome.split)
qed simp_all

lemma set_job_keys: "job_of l jid \<noteq> None \<Longrightarrow> map fst (l_jobs (set_job l jid j)) = map fst (l_jobs l)"
  by (auto simp: set_job_def job_of_def update_keys map_of_eq_None_iff image_image)

lemma same_jobs_exit:
  assumes "job_of (y_list s) jid = Some j"
  shows "same_jobs s (s\<lparr> y_list := recordExit jid payload (y_list s), y_coll := c \<rparr>)"
proof -
  have "rel_option (same_view s (s\<lparr> y_list := recordExit jid payload (y_list s), y_coll := c \<rparr>)) (job_of (y_list s) k) (job_of (recordExit jid payload (y_list s)) k)" for k
    using recordExit_job [OF assms, of payload] assms recordExit_frame(1) [of k jid payload "y_list s"]
    by (cases "k = jid") (auto simp: same_view_def option.rel_refl)
  moreover have "map fst (l_jobs (recordExit jid payload (y_list s))) = map fst (l_jobs (y_list s))"
    using assms set_job_keys [of "y_list s" jid] by (auto simp: recordExit_def split: option.split)
  ultimately show ?thesis by (simp add: same_jobs_def recordExit_frame)
qed

lemma same_jobs_write:
  assumes "mcp_jobs_inv s" "y_coll s jid = Some Reading"
  shows "same_jobs s (s\<lparr> y_log := (y_log s)(jid := y_log s jid @ payload), y_coll := c \<rparr>)"
proof -
  have "same_view s (s\<lparr> y_log := (y_log s)(jid := y_log s jid @ payload), y_coll := c \<rparr>) j j" if "job_of (y_list s) k = Some j" for j k
    using mcp_jobs_inv_job [OF assms(1) that] by (auto simp: same_view_def job_ok_def)
  then have "rel_option (same_view s (s\<lparr> y_log := (y_log s)(jid := y_log s jid @ payload), y_coll := c \<rparr>)) (job_of (y_list s) k) (job_of (y_list s) k)" for k
    by (cases "job_of (y_list s) k") auto
  then show ?thesis by (simp add: same_jobs_def)
qed

lemma jstep_view:
  assumes "jstep resolves s s'" "mcp_jobs_inv s"
  shows "l_changed (y_list s) < l_changed (y_list s') \<or> same_jobs s s'"
  using assms
proof (induction rule: jstep.induct)
  case (alloc jid s)
  show ?case by (rule disjI2) (simp add: same_jobs_def same_view_def option.rel_refl)
next
  case (stop reason jid s l c)
  then show ?case by (auto simp: requestMCPJobStop_def same_jobs_self split: option.splits if_splits)
next
  case (collect_write s jid t payload)
  then show ?case using same_jobs_write by blast
next
  case (collect_count s jid n)
  from mcp_jobs_inv_coll [OF collect_count(2,1)] obtain j where "job_of (y_list s) jid = Some j" by metis
  then show ?case by (simp add: countOutput_def)
next
  case (collect_exit s jid payload)
  from mcp_jobs_inv_coll [OF collect_exit(3,1)] obtain j where "job_of (y_list s) jid = Some j" by metis
  then show ?case using same_jobs_exit by blast
next
  case (collect_finish s jid g now)
  from mcp_jobs_inv_coll [OF collect_finish(2,1)] obtain j where "job_of (y_list s) jid = Some j" by metis
  then show ?case by (simp add: finishMCPJob_def)
next
  case (wait_round s w r)
  show ?case by (rule disjI2) (auto intro: same_jobs_self split: wait_outcome.split)
qed (auto simp: registerJob_def intro: same_jobs_self)

definition sleep_inv :: "(string \<Rightarrow> bool) \<Rightarrow> jobs_sys \<Rightarrow> bool" where
  "sleep_inv resolves s \<longleftrightarrow> (\<forall>(w, ch) \<in> y_asleep s. ch \<le> l_changed (y_list s) \<and> (ch = l_changed (y_list s) \<longrightarrow> answer resolves s w = WaitSleep ch))"

definition killed_inv :: "jobs_sys \<Rightarrow> bool" where
  "killed_inv s \<longleftrightarrow> (\<forall>ids ss. (Killing ids, WaitDone ss) \<in> set (y_answers s) \<longrightarrow> (\<forall>jid \<in> set ids. \<exists>j. job_of (y_list s) jid = Some j \<and> terminal j))"

lemma answer_channel: "answer resolves s w = WaitSleep ch \<Longrightarrow> ch = l_changed (y_list s)"
  by (cases w) (auto simp: answer_def waitRound_def killRound_def split: sum.splits if_splits)

lemma answer_killed: "answer resolves s (Killing ids) = WaitDone ss \<Longrightarrow> \<forall>jid \<in> set ids. \<exists>j. job_of (y_list s) jid = Some j \<and> terminal j"
  by (auto simp: answer_def killRound_def list_all_iff split: if_splits option.splits)

lemma jstep_asleep:
  assumes "jstep resolves s s'"
  shows "(w, ch) \<in> y_asleep s' \<Longrightarrow> (w, ch) \<in> y_asleep s \<or> answer resolves s w = WaitSleep ch \<and> y_list s' = y_list s \<and> y_log s' = y_log s"
    and "(v, r) \<in> set (y_answers s') \<Longrightarrow> (v, r) \<in> set (y_answers s) \<or> answer resolves s v = r \<and> y_list s' = y_list s"
  using assms by (cases; auto split: wait_outcome.splits)+

lemma jstep_sleep:
  assumes "jstep resolves s s'" "mcp_jobs_inv s" "sleep_inv resolves s"
  shows "sleep_inv resolves s'"
  unfolding sleep_inv_def
proof (clarify, intro conjI impI)
  fix w ch assume w: "(w, ch) \<in> y_asleep s'"
  have mono: "l_changed (y_list s) \<le> l_changed (y_list s')" using jstep_view [OF assms(1,2)] by (auto simp: same_jobs_def)
  from jstep_asleep(1) [OF assms(1) w] have "ch \<le> l_changed (y_list s)"
  proof
    assume "(w, ch) \<in> y_asleep s"
    then show ?thesis using assms(3) by (auto simp: sleep_inv_def)
  qed (use answer_channel in blast)
  with mono show "ch \<le> l_changed (y_list s')" by simp
  assume cur: "ch = l_changed (y_list s')"
  from jstep_asleep(1) [OF assms(1) w] show "answer resolves s' w = WaitSleep ch"
  proof
    assume old: "(w, ch) \<in> y_asleep s"
    then have "ch \<le> l_changed (y_list s)" using assms(3) by (auto simp: sleep_inv_def)
    with cur jstep_view [OF assms(1,2)] have same: "same_jobs s s'" by auto
    then have "ch = l_changed (y_list s)" using cur by (simp add: same_jobs_def)
    with old assms(3) have "answer resolves s w = WaitSleep ch" by (auto simp: sleep_inv_def)
    then show ?thesis by (rule answer_same [OF same])
  next
    assume "answer resolves s w = WaitSleep ch \<and> y_list s' = y_list s \<and> y_log s' = y_log s"
    then show ?thesis using answer_same [OF same_jobs_self] by blast
  qed
qed

lemma jstep_killed:
  assumes "jstep resolves s s'" "mcp_jobs_inv s" "killed_inv s"
  shows "killed_inv s'"
  unfolding killed_inv_def
proof (intro allI impI ballI)
  fix ids ss jid assume a: "(Killing ids, WaitDone ss) \<in> set (y_answers s')" "jid \<in> set ids"
  from jstep_asleep(2) [OF assms(1) a(1)] have "\<exists>j. job_of (y_list s) jid = Some j \<and> terminal j"
    using assms(3) a(2) answer_killed by (auto simp: killed_inv_def)
  then show "\<exists>j. job_of (y_list s') jid = Some j \<and> terminal j" using jstep_terminal [OF assms(1,2)] by blast
qed

lemma jobs_reachable_inv: "jobs_reachable resolves s \<Longrightarrow> mcp_jobs_inv s \<and> sleep_inv resolves s \<and> killed_inv s"
proof (induction rule: jobs_reachable.induct)
  case init
  show ?case by (simp add: initJobs_def mcp_jobs_inv_def id_ok_def job_of_def newMCPJobList_def sleep_inv_def killed_inv_def)
next
  case (step s s')
  then show ?case using jstep_inv jstep_sleep jstep_killed by blast
qed


definition ex_allocated :: jobs_sys where
  "ex_allocated = initJobs\<lparr> y_list := newMCPJobList\<lparr> l_nextID := 1 \<rparr>, y_alloc := {''j1''}, y_held := (\<lambda>_. 0)(''j1'' := 1) \<rparr>"

definition ex_launched :: jobs_sys where
  "ex_launched = ex_allocated\<lparr> y_list := registerJob (newMCPJob ''j1'' ex_params ''i'' ex_key 0) (y_list ex_allocated), y_alloc := {},
     y_coll := [''j1'' \<mapsto> Reading], y_log := (\<lambda>_. [])(''j1'' := []) \<rparr>"

lemma ex_reachable: "jobs_reachable (\<lambda>_. True) ex_launched"
proof -
  have id1: "''j1'' = jobID (l_nextID (y_list initJobs) + 1)" by code_simp
  have s1: "jstep (\<lambda>_. True) initJobs ex_allocated"
    using jstep.alloc [OF id1, of "\<lambda>_. True"] by (simp add: ex_allocated_def initJobs_def newMCPJobList_def)
  have s2: "jstep (\<lambda>_. True) ex_allocated ex_launched"
    using jstep.launch [of "''j1''" ex_allocated "\<lambda>_. True" ex_params "''i''" ex_key 0]
    by (simp add: ex_launched_def) (simp add: ex_allocated_def initJobs_def)
  show ?thesis using jobs_reachable.step [OF jobs_reachable.step [OF jobs_reachable.init s1] s2] .
qed


end
