(* ===== verification/Spec2Isabelle.thy ===== *)
theory Spec2Isabelle
  imports Prelude Sha256 Snap_Hash Chunking Tsc Tsm Bloom Chunk_Index Indexer Download
    Paths Strconv Ref_Store Frame_Store Ref_Id Passwd Snap_Meta Snap_Queue Streams Vshd_Proto Nbd
    Clean_Paths Policy Autorun Control_Handlers Control_Props Frame_Handlers Control_Servers Portmap File_Server
    Text_Output Mcp_Files Mcp_Jobs Mcp_Job_Steps
begin

text \<open>
  Verification of Thundersnap.
\<close>

end
